(* ===== verification/XpcPrelude.thy ===== *)
theory XpcPrelude
  imports Main "HOL-Library.Word"
begin

text \<open>
  Shared vocabulary of the development: the faults a C operation can run into, operations
  that pass a state and may fault, the collections the components add to, and the generic
  lemmas on lists, options and maps that several components use.
\<close>

type_synonym byte = "8 word"

section \<open>Operations on a state that may fault\<close>

text \<open>
  A C function that works on memory is a function from the state to either a fault or a
  result with the new state.  The faults are the undefined behaviours that the source can
  reach: a NULL dereference, an access through a pointer to memory that is not (or no
  longer) allocated, the use of a queue head where there is none, the use of a union member that is
  not the live one, a \<open>free\<close> of memory
  that \<open>malloc\<close> did not return, an access outside a buffer, an assertion that does not hold, and a loop
  that never ends.
\<close>

datatype fault =
    NullDeref
  | BadPointer
  | BadHead
  | BadUnion
  | BadFree
  | OutOfBounds
  | AssertFails
  | Diverges

type_synonym ('s, 'a) op = "'s \<Rightarrow> fault + 'a \<times> 's"

definition return_m :: "'a \<Rightarrow> ('s, 'a) op" where
  "return_m x s = Inr (x, s)"

definition fail_m :: "fault \<Rightarrow> ('s, 'a) op" where
  "fail_m e s = Inl e"

definition bind_m :: "('s, 'a) op \<Rightarrow> ('a \<Rightarrow> ('s, 'b) op) \<Rightarrow> ('s, 'b) op" where
  "bind_m f g s = (case f s of Inl e \<Rightarrow> Inl e | Inr (x, t) \<Rightarrow> g x t)"

definition seq_m :: "('s, 'a) op \<Rightarrow> ('s, 'b) op \<Rightarrow> ('s, 'b) op" where
  "seq_m f g s = (case f s of Inl e \<Rightarrow> Inl e | Inr (_, t) \<Rightarrow> g t)"

definition gets_m :: "('s \<Rightarrow> 'a) \<Rightarrow> ('s, 'a) op" where
  "gets_m f s = Inr (f s, s)"

definition modify_m :: "('s \<Rightarrow> 's) \<Rightarrow> ('s, unit) op" where
  "modify_m f s = Inr ((), f s)"

text \<open>Read a value that must be there: \<open>None\<close> is the given fault.\<close>

definition the_m :: "fault \<Rightarrow> ('s \<Rightarrow> 'a option) \<Rightarrow> ('s, 'a) op" where
  "the_m e f s = (case f s of None \<Rightarrow> Inl e | Some x \<Rightarrow> Inr (x, s))"

text \<open>Dereference a C pointer: NULL faults, anything else is handed on.\<close>

definition deref_m :: "'p option \<Rightarrow> ('p \<Rightarrow> ('s, 'a) op) \<Rightarrow> ('s, 'a) op" where
  "deref_m p f = (case p of None \<Rightarrow> fail_m NullDeref | Some a \<Rightarrow> f a)"

text \<open>Run an operation of a part of the state (a field of a record) on the whole state.\<close>

definition zoom_m :: "('t \<Rightarrow> 's) \<Rightarrow> ('s \<Rightarrow> 't \<Rightarrow> 't) \<Rightarrow> ('s, 'a) op \<Rightarrow> ('t, 'a) op" where
  "zoom_m get put f t =
     (case f (get t) of Inl e \<Rightarrow> Inl e | Inr (x, s) \<Rightarrow> Inr (x, put s t))"

named_theorems exec \<open>equations that run an operation step by step\<close>

lemmas run_defs [exec] = return_m_def fail_m_def bind_m_def seq_m_def gets_m_def modify_m_def
  the_m_def zoom_m_def

lemma deref_m_simps [simp]:
  "deref_m None f = fail_m NullDeref"
  "deref_m (Some a) f = f a"
  by (simp_all add: deref_m_def)

lemma bind_m_Inr: "f s = Inr (x, t) \<Longrightarrow> bind_m f g s = g x t"
  by (simp add: bind_m_def)

lemma seq_m_Inr: "f s = Inr (x, t) \<Longrightarrow> seq_m f g s = g t"
  by (simp add: seq_m_def)

lemma bind_m_Inl: "f s = Inl e \<Longrightarrow> bind_m f g s = Inl e"
  by (simp add: bind_m_def)

lemma seq_m_Inl: "f s = Inl e \<Longrightarrow> seq_m f g s = Inl e"
  by (simp add: seq_m_def)

lemma zoom_m_Inr: "f (get t) = Inr (x, s) \<Longrightarrow> zoom_m get put f t = Inr (x, put s t)"
  by (simp add: zoom_m_def)

lemma zoom_m_Inl: "f (get t) = Inl e \<Longrightarrow> zoom_m get put f t = Inl e"
  by (simp add: zoom_m_def)

lemma bind_m_InrE:
  assumes "bind_m f g s = Inr (y, u)"
  obtains x t where "f s = Inr (x, t)" and "g x t = Inr (y, u)"
  using assms by (auto simp: bind_m_def split: sum.splits)

lemma seq_m_InrE:
  assumes "seq_m f g s = Inr (y, u)"
  obtains x t where "f s = Inr (x, t)" and "g t = Inr (y, u)"
  using assms by (auto simp: seq_m_def split: sum.splits)

lemma zoom_m_InrE:
  assumes "zoom_m get put f t = Inr (x, t')"
  obtains s where "f (get t) = Inr (x, s)" and "t' = put s t"
  using assms by (auto simp: zoom_m_def split: sum.splits)

lemmas opE = bind_m_InrE seq_m_InrE zoom_m_InrE

text \<open>Run one operation for each element of a list, in order.\<close>

primrec each_m :: "('a \<Rightarrow> ('s, unit) op) \<Rightarrow> 'a list \<Rightarrow> ('s, unit) op" where
  "each_m f [] = return_m ()"
| "each_m f (x # xs) = seq_m (f x) (each_m f xs)"

lemma each_m_invariant:
  assumes "\<And>x s t. x \<in> set xs \<Longrightarrow> I s \<Longrightarrow> f x s = Inr ((), t) \<Longrightarrow> I t"
    and "I s" and "each_m f xs s = Inr ((), t)"
  shows "I t"
  using assms
proof (induction xs arbitrary: s)
  case Nil
  then show ?case by (simp add: return_m_def)
next
  case (Cons x xs)
  from Cons.prems(3) obtain u where "f x s = Inr ((), u)" and "each_m f xs u = Inr ((), t)"
    by (auto elim: seq_m_InrE)
  with Cons.prems(1,2) Cons.IH [of u] show ?case by auto
qed

section \<open>Generic lemmas\<close>

lemma distinct_length_le:
  "distinct xs \<Longrightarrow> (\<And>x. x \<in> set xs \<Longrightarrow> x < n) \<Longrightarrow> length xs \<le> (n::nat)"
proof -
  assume d: "distinct xs" and b: "\<And>x. x \<in> set xs \<Longrightarrow> x < n"
  from b have "set xs \<subseteq> {..<n}" by auto
  then have "card (set xs) \<le> card {..<n}" by (intro card_mono) auto
  with d show "length xs \<le> n" by (simp add: distinct_card)
qed

lemma take_snoc: "i < length xs \<Longrightarrow> take (Suc i) xs = take i xs @ [xs ! i]"
  by (rule take_Suc_conv_app_nth)

lemma list_update_take: "i < length xs \<Longrightarrow> take (Suc i) (xs[i := x]) = take i xs @ [x]"
  by (simp add: take_Suc_conv_app_nth)

end
