(* ===== verification/Sbuf.thy ===== *)
theory Sbuf
  imports XpcPrelude
begin

unbundle bit_operations_syntax

text \<open>
  The string buffers of \<open>libsbuf/sbuf.c\<close> and \<open>libsbuf/sbuf.h\<close>.  An \<open>sbuf\<close> holds its storage
  as a list of bytes, \<open>s_size\<close> and \<open>s_len\<close> as the signed integers they are, the flag word,
  and the drain function with the object its argument points to.  \<open>calloc\<close> is the
  parameter \<open>mal\<close>, which says for each size whether the allocation succeeds; \<open>vsnprintf\<close>
  is given by the text the format expands to, \<open>None\<close> when it reports an encoding error.
  Every store is checked against the storage and faults outside it.  The debugging
  assertions are compiled out unless \<open>DEBUG\<close> is set and are not part of the operations;
  \<open>SbufDebug\<close> has them.
\<close>

section \<open>The structure and its flags\<close>

record 'd sbuf =
  s_buf :: "byte list option"
  s_drain_func :: "('d option \<Rightarrow> byte list \<Rightarrow> int \<times> 'd option) option"
  s_drain_arg :: "'d option"
  s_error :: int
  s_size :: int
  s_len :: int
  s_flags :: "32 word"
  s_sect_len :: int

definition SBUF_AUTOEXTEND :: "32 word" where "SBUF_AUTOEXTEND = 0x00000001"
definition SBUF_USRFLAGMSK :: "32 word" where "SBUF_USRFLAGMSK = 0x0000ffff"
definition SBUF_DYNAMIC :: "32 word" where "SBUF_DYNAMIC = 0x00010000"
definition SBUF_FINISHED :: "32 word" where "SBUF_FINISHED = 0x00020000"
definition SBUF_DYNSTRUCT :: "32 word" where "SBUF_DYNSTRUCT = 0x00080000"
definition SBUF_INSECTION :: "32 word" where "SBUF_INSECTION = 0x00100000"

definition ENOMEM :: int where "ENOMEM = 12"

definition SBUF_ISDYNAMIC :: "'d sbuf \<Rightarrow> bool" where
  "SBUF_ISDYNAMIC s \<longleftrightarrow> s_flags s AND SBUF_DYNAMIC \<noteq> 0"

definition SBUF_ISDYNSTRUCT :: "'d sbuf \<Rightarrow> bool" where
  "SBUF_ISDYNSTRUCT s \<longleftrightarrow> s_flags s AND SBUF_DYNSTRUCT \<noteq> 0"

definition SBUF_ISFINISHED :: "'d sbuf \<Rightarrow> bool" where
  "SBUF_ISFINISHED s \<longleftrightarrow> s_flags s AND SBUF_FINISHED \<noteq> 0"

definition SBUF_HASROOM :: "'d sbuf \<Rightarrow> bool" where
  "SBUF_HASROOM s \<longleftrightarrow> s_len s < s_size s - 1"

definition SBUF_FREESPACE :: "'d sbuf \<Rightarrow> int" where
  "SBUF_FREESPACE s = s_size s - (s_len s + 1)"

definition SBUF_CANEXTEND :: "'d sbuf \<Rightarrow> bool" where
  "SBUF_CANEXTEND s \<longleftrightarrow> s_flags s AND SBUF_AUTOEXTEND \<noteq> 0"

definition SBUF_ISSECTION :: "'d sbuf \<Rightarrow> bool" where
  "SBUF_ISSECTION s \<longleftrightarrow> s_flags s AND SBUF_INSECTION \<noteq> 0"

definition SBUF_SETFLAG :: "32 word \<Rightarrow> 'd sbuf \<Rightarrow> 'd sbuf" where
  "SBUF_SETFLAG f s = s\<lparr>s_flags := s_flags s OR f\<rparr>"

definition SBUF_CLEARFLAG :: "32 word \<Rightarrow> 'd sbuf \<Rightarrow> 'd sbuf" where
  "SBUF_CLEARFLAG f s = s\<lparr>s_flags := s_flags s AND NOT f\<rparr>"

section \<open>Allocation and growth\<close>

text \<open>A value stored in a C \<open>int\<close>: 32 bits, two's complement.\<close>

definition to_int32 :: "int \<Rightarrow> int" where
  "to_int32 x = sint (word_of_int x :: 32 word)"

text \<open>
  \<open>calloc(1, size)\<close>: the argument is converted to \<open>size_t\<close>, so a negative \<open>int\<close> asks for
  almost the whole address space, and no allocation reaches half of it.
\<close>

definition SBMALLOC :: "(nat \<Rightarrow> bool) \<Rightarrow> int \<Rightarrow> byte list option" where
  "SBMALLOC mal n =
     (let n = nat (n mod 2 ^ 64)
      in if n < 2 ^ 63 \<and> mal n then Some (replicate n 0) else None)"

definition SBUF_MINEXTENDSIZE :: int where "SBUF_MINEXTENDSIZE = 16"
definition SBUF_MAXEXTENDSIZE :: int where "SBUF_MAXEXTENDSIZE = 4096"
definition SBUF_MAXEXTENDINCR :: int where "SBUF_MAXEXTENDINCR = 4096"

text \<open>The loop \<open>while (newsize < size) newsize *= 2\<close>, entered with a positive \<open>newsize\<close>.\<close>

function double_until :: "int \<Rightarrow> int \<Rightarrow> int" where
  "double_until newsize sz =
     (if newsize < sz \<and> 0 < newsize then double_until (newsize * 2) sz else newsize)"
  by pat_completeness auto
termination
  by (relation "measure (\<lambda>(newsize, sz). nat (sz - newsize))") auto

declare double_until.simps [simp del]

definition roundup2 :: "int \<Rightarrow> int \<Rightarrow> int" where
  "roundup2 x y = to_int32 (x + (y - 1)) AND NOT (y - 1)"

definition sbuf_extendsize :: "int \<Rightarrow> int" where
  "sbuf_extendsize sz =
     (if sz < SBUF_MAXEXTENDSIZE then double_until SBUF_MINEXTENDSIZE sz
      else roundup2 sz SBUF_MAXEXTENDINCR)"

text \<open>\<open>memcpy(newbuf, s->s_buf, s->s_size)\<close> must stay inside both buffers.\<close>

definition sbuf_extend :: "(nat \<Rightarrow> bool) \<Rightarrow> int \<Rightarrow> ('d sbuf, int) op" where
  "sbuf_extend mal addlen s =
     (if \<not> SBUF_CANEXTEND s then Inr (-1, s)
      else let newsize = sbuf_extendsize (to_int32 (s_size s + addlen)) in
      case SBMALLOC mal newsize of
        None \<Rightarrow> Inr (-1, s)
      | Some newbuf \<Rightarrow>
          (case s_buf s of
             None \<Rightarrow> Inl NullDeref
           | Some b \<Rightarrow>
               if 0 \<le> s_size s \<and> nat (s_size s) \<le> length b \<and> nat (s_size s) \<le> length newbuf
               then let s = (if SBUF_ISDYNAMIC s then s else SBUF_SETFLAG SBUF_DYNAMIC s) in
                 Inr (0, s\<lparr>s_buf := Some (take (nat (s_size s)) b @ drop (nat (s_size s)) newbuf),
                           s_size := newsize\<rparr>)
               else Inl OutOfBounds))"

section \<open>Creation\<close>

definition zero_sbuf :: "'d sbuf" where
  "zero_sbuf = \<lparr>s_buf = None, s_drain_func = None, s_drain_arg = None, s_error = 0, s_size = 0,
     s_len = 0, s_flags = 0, s_sect_len = 0\<rparr>"

definition sbuf_newbuf ::
  "(nat \<Rightarrow> bool) \<Rightarrow> byte list option \<Rightarrow> int \<Rightarrow> 32 word \<Rightarrow> 'd sbuf option" where
  "sbuf_newbuf mal buf len flags =
     (let s = zero_sbuf\<lparr>s_flags := flags, s_size := len, s_buf := buf\<rparr> in
      if s_buf s \<noteq> None then Some s
      else
        let s = (if flags AND SBUF_AUTOEXTEND \<noteq> 0
                 then s\<lparr>s_size := sbuf_extendsize (s_size s)\<rparr> else s) in
        case SBMALLOC mal (s_size s) of
          None \<Rightarrow> None
        | Some b \<Rightarrow> Some (SBUF_SETFLAG SBUF_DYNAMIC (s\<lparr>s_buf := Some b\<rparr>)))"

text \<open>
  The structure is the caller's when \<open>given\<close> holds (the pointer \<open>s\<close> is not NULL); otherwise
  it is allocated too, all its 64 bytes.
\<close>

definition sbuf_new ::
  "(nat \<Rightarrow> bool) \<Rightarrow> bool \<Rightarrow> byte list option \<Rightarrow> int \<Rightarrow> 32 word \<Rightarrow> 'd sbuf option" where
  "sbuf_new mal given buf len flags =
     (let flags = flags AND SBUF_USRFLAGMSK in
      if given then sbuf_newbuf mal buf len flags
      else case SBMALLOC mal 64 of
        None \<Rightarrow> None
      | Some _ \<Rightarrow>
          (case sbuf_newbuf mal buf len flags of
             None \<Rightarrow> None
           | Some s \<Rightarrow> Some (SBUF_SETFLAG SBUF_DYNSTRUCT s)))"

definition sbuf_new_auto :: "(nat \<Rightarrow> bool) \<Rightarrow> 'd sbuf option" where
  "sbuf_new_auto mal = sbuf_new mal False None 0 SBUF_AUTOEXTEND"

section \<open>Position and draining\<close>

definition sbuf_clear :: "('d sbuf, unit) op" where
  "sbuf_clear = modify_m (\<lambda>s.
     (SBUF_CLEARFLAG SBUF_FINISHED s)\<lparr>s_error := 0, s_len := 0, s_sect_len := 0\<rparr>)"

definition sbuf_setpos :: "int \<Rightarrow> ('d sbuf, int) op" where
  "sbuf_setpos pos s =
     (if pos < 0 \<or> pos > s_len s then Inr (-1, s) else Inr (0, s\<lparr>s_len := pos\<rparr>))"

definition sbuf_set_drain ::
  "('d option \<Rightarrow> byte list \<Rightarrow> int \<times> 'd option) option \<Rightarrow> 'd option \<Rightarrow> ('d sbuf, unit) op" where
  "sbuf_set_drain func ctx = modify_m (\<lambda>s. s\<lparr>s_drain_func := func, s_drain_arg := ctx\<rparr>)"

text \<open>
  The drain is called with the \<open>s_len\<close> bytes of the buffer, a length passed as an \<open>int\<close>.  \<open>memmove\<close> of the rest is a store
  and must stay inside the buffer.
\<close>

definition sbuf_drain :: "('d sbuf, int) op" where
  "sbuf_drain s =
     (case (s_drain_func s, s_buf s) of
        (Some func, Some b) \<Rightarrow>
          let (len, arg) = func (s_drain_arg s) (take (nat (to_int32 (s_len s))) b);
              s = s\<lparr>s_drain_arg := arg\<rparr> in
          if len < 0 then Inr (to_int32 (- len), s\<lparr>s_error := to_int32 (- len)\<rparr>)
          else let s = s\<lparr>s_len := s_len s - len\<rparr> in
            if s_len s = 0 then Inr (0, s)
            else if 0 \<le> s_len s \<and> nat (len + s_len s) \<le> List.length b
            then Inr (0, s\<lparr>s_buf := Some (take (nat (s_len s)) (drop (nat len) b) @
                                         drop (nat (s_len s)) b)\<rparr>)
            else Inl OutOfBounds
      | _ \<Rightarrow> Inl NullDeref)"

section \<open>Appending bytes\<close>

text \<open>\<open>s->s_buf[s->s_len++] = c\<close>, counted in the current section.\<close>

definition store_byte :: "byte \<Rightarrow> ('d sbuf, unit) op" where
  "store_byte c s =
     (case s_buf s of
        None \<Rightarrow> Inl NullDeref
      | Some b \<Rightarrow>
          if 0 \<le> s_len s \<and> nat (s_len s) < length b
          then let s = s\<lparr>s_buf := Some (b[nat (s_len s) := c]), s_len := s_len s + 1\<rparr> in
            Inr ((), if SBUF_ISSECTION s then s\<lparr>s_sect_len := s_sect_len s + 1\<rparr> else s)
          else Inl OutOfBounds)"

definition sbuf_put_byte :: "(nat \<Rightarrow> bool) \<Rightarrow> byte \<Rightarrow> ('d sbuf, unit) op" where
  "sbuf_put_byte mal c s =
     (if s_error s \<noteq> 0 then Inr ((), s)
      else if SBUF_FREESPACE s \<le> 0 then
        bind_m
          (if s_drain_func s \<noteq> None then seq_m sbuf_drain (return_m ())
           else bind_m (sbuf_extend mal 1) (\<lambda>r.
             modify_m (\<lambda>s. if r < 0 then s\<lparr>s_error := ENOMEM\<rparr> else s)))
          (\<lambda>_ s. if s_error s \<noteq> 0 then Inr ((), s) else store_byte c s) s
      else store_byte c s)"

text \<open>
  The loops of \<open>sbuf_bcat\<close> and \<open>sbuf_cat\<close>: put byte after byte, stop at the first error.
  \<open>sbuf_bcat\<close> is given the \<open>len\<close> bytes; \<open>sbuf_cat\<close> reads up to the terminating NUL, and
  reading past the end of the string's memory faults.
\<close>

primrec bcat_loop :: "('b \<Rightarrow> ('s, unit) op) \<Rightarrow> ('s \<Rightarrow> bool) \<Rightarrow> 'b list \<Rightarrow> ('s, int) op" where
  "bcat_loop put failed [] = return_m 0"
| "bcat_loop put failed (c # cs) =
     seq_m (put c) (\<lambda>s. if failed s then Inr (-1, s) else bcat_loop put failed cs s)"

primrec cat_loop :: "(byte \<Rightarrow> ('s, unit) op) \<Rightarrow> ('s \<Rightarrow> bool) \<Rightarrow> byte list \<Rightarrow> ('s, int) op" where
  "cat_loop put failed [] = fail_m OutOfBounds"
| "cat_loop put failed (c # cs) =
     (if c \<noteq> 0
      then seq_m (put c) (\<lambda>s. if failed s then Inr (-1, s) else cat_loop put failed cs s)
      else return_m 0)"

definition has_error :: "'d sbuf \<Rightarrow> bool" where
  "has_error s \<longleftrightarrow> s_error s \<noteq> 0"

definition sbuf_bcat :: "(nat \<Rightarrow> bool) \<Rightarrow> byte list \<Rightarrow> ('d sbuf, int) op" where
  "sbuf_bcat mal buf s =
     (if s_error s \<noteq> 0 then Inr (-1, s) else bcat_loop (sbuf_put_byte mal) has_error buf s)"

definition sbuf_bcpy :: "(nat \<Rightarrow> bool) \<Rightarrow> byte list \<Rightarrow> ('d sbuf, int) op" where
  "sbuf_bcpy mal buf = seq_m sbuf_clear (sbuf_bcat mal buf)"

definition sbuf_cat :: "(nat \<Rightarrow> bool) \<Rightarrow> byte list \<Rightarrow> ('d sbuf, int) op" where
  "sbuf_cat mal str s =
     (if s_error s \<noteq> 0 then Inr (-1, s) else cat_loop (sbuf_put_byte mal) has_error str s)"

definition sbuf_cpy :: "(nat \<Rightarrow> bool) \<Rightarrow> byte list \<Rightarrow> ('d sbuf, int) op" where
  "sbuf_cpy mal str = seq_m sbuf_clear (sbuf_cat mal str)"

definition sbuf_putc :: "(nat \<Rightarrow> bool) \<Rightarrow> byte \<Rightarrow> ('d sbuf, int) op" where
  "sbuf_putc mal c = seq_m (sbuf_put_byte mal c)
     (gets_m (\<lambda>s. if s_error s \<noteq> 0 then -1 else 0))"

section \<open>Formatted output\<close>

text \<open>
  \<open>vsnprintf(&s->s_buf[s->s_len], SBUF_FREESPACE(s) + 1, fmt, ap)\<close>: with room for \<open>n\<close> bytes it
  stores at most \<open>n - 1\<close> bytes of the text and a NUL, and returns the length of the whole text,
  or a negative value (here \<open>-1\<close>) and no text on an encoding error.
\<close>

definition write_at :: "nat \<Rightarrow> 'a list \<Rightarrow> 'a list \<Rightarrow> 'a list" where
  "write_at i xs b = take i b @ xs @ drop (i + length xs) b"

definition vsnprintf_tail :: "byte list option \<Rightarrow> ('d sbuf, int) op" where
  "vsnprintf_tail txt s =
     (case txt of
        None \<Rightarrow> Inr (-1, s)
      | Some t \<Rightarrow>
          if SBUF_FREESPACE s + 1 = 0 then Inr (int (length t), s)
          else (case s_buf s of
            None \<Rightarrow> Inl NullDeref
          | Some b \<Rightarrow>
              let stored = take (nat (SBUF_FREESPACE s)) t @ [0] in
              if 0 \<le> SBUF_FREESPACE s \<and> 0 \<le> s_len s \<and>
                 nat (s_len s) + length stored \<le> length b
              then Inr (int (length t), s\<lparr>s_buf := Some (write_at (nat (s_len s)) stored b)\<rparr>)
              else Inl OutOfBounds))"

text \<open>
  The \<open>do ... while (error == 0)\<close> loop: it goes on after a successful drain or extension.  A
  drain function that keeps returning 0 keeps it going for ever, so the loop takes fuel;
  \<open>vprintf_loop_enough\<close> says how much is enough.
\<close>

fun vprintf_loop :: "nat \<Rightarrow> (nat \<Rightarrow> bool) \<Rightarrow> byte list option \<Rightarrow> ('d sbuf, int) op" where
  "vprintf_loop 0 mal txt = fail_m Diverges"
| "vprintf_loop (Suc fuel) mal txt =
     bind_m (vsnprintf_tail txt) (\<lambda>len s.
       if SBUF_FREESPACE s \<ge> len then Inr (len, s)
       else bind_m
         (if s_drain_func s \<noteq> None \<and> s_len s > 0 then sbuf_drain
          else sbuf_extend mal (to_int32 (len - SBUF_FREESPACE s)))
         (\<lambda>error. if error = 0 then vprintf_loop fuel mal txt else return_m len) s)"

definition sbuf_vprintf :: "nat \<Rightarrow> (nat \<Rightarrow> bool) \<Rightarrow> byte list option \<Rightarrow> ('d sbuf, int) op" where
  "sbuf_vprintf fuel mal txt s =
     (if s_error s \<noteq> 0 then Inr (-1, s)
      else bind_m (vprintf_loop fuel mal txt) (\<lambda>len s.
        let len = (if SBUF_FREESPACE s < len then SBUF_FREESPACE s else len);
            s = s\<lparr>s_len := s_len s + len\<rparr>;
            s = (if SBUF_ISSECTION s then s\<lparr>s_sect_len := s_sect_len s + len\<rparr> else s);
            s = (if \<not> SBUF_HASROOM s \<and> \<not> SBUF_CANEXTEND s then s\<lparr>s_error := ENOMEM\<rparr> else s)
        in Inr (if s_error s \<noteq> 0 then -1 else 0, s)) s)"

definition sbuf_printf :: "nat \<Rightarrow> (nat \<Rightarrow> bool) \<Rightarrow> byte list option \<Rightarrow> ('d sbuf, int) op" where
  "sbuf_printf fuel mal txt = sbuf_vprintf fuel mal txt"

section \<open>Trimming, finishing and reading\<close>

text \<open>\<open>isspace\<close> in the C locale: tab, newline, vertical tab, form feed, return, space.\<close>

definition isspace :: "byte \<Rightarrow> bool" where
  "isspace c \<longleftrightarrow> c \<in> {9, 10, 11, 12, 13, 32}"

text \<open>Each round of the loop lowers \<open>s_len\<close>, so \<open>s_len\<close> rounds are all there can be.\<close>

primrec trim_loop :: "nat \<Rightarrow> ('d sbuf, unit) op" where
  "trim_loop 0 = return_m ()"
| "trim_loop (Suc n) = (\<lambda>s.
     case s_buf s of
       None \<Rightarrow> Inl NullDeref
     | Some b \<Rightarrow>
         if s_len s > 0 \<and> nat (s_len s - 1) \<ge> length b then Inl OutOfBounds
         else if s_len s > 0 \<and> isspace (b ! nat (s_len s - 1))
         then trim_loop n (let s = s\<lparr>s_len := s_len s - 1\<rparr> in
           if SBUF_ISSECTION s then s\<lparr>s_sect_len := s_sect_len s - 1\<rparr> else s)
         else Inr ((), s))"

definition sbuf_trim :: "('d sbuf, int) op" where
  "sbuf_trim s =
     (if s_error s \<noteq> 0 then Inr (-1, s)
      else seq_m (trim_loop (nat (s_len s))) (return_m 0) s)"

definition sbuf_error :: "'d sbuf \<Rightarrow> int" where
  "sbuf_error s = s_error s"

fun finish_loop :: "nat \<Rightarrow> ('d sbuf, unit) op" where
  "finish_loop fuel s =
     (if s_len s > 0 \<and> s_error s = 0 then
        (case fuel of
           0 \<Rightarrow> Inl Diverges
         | Suc k \<Rightarrow> bind_m sbuf_drain (\<lambda>r s. finish_loop k (s\<lparr>s_error := r\<rparr>)) s)
      else Inr ((), s))"

declare finish_loop.simps [simp del]

definition sbuf_finish :: "nat \<Rightarrow> ('d sbuf, int) op" where
  "sbuf_finish fuel =
     seq_m (\<lambda>s. if s_drain_func s \<noteq> None then finish_loop fuel s else Inr ((), s))
       (\<lambda>s. case s_buf s of
          None \<Rightarrow> Inl NullDeref
        | Some b \<Rightarrow>
            if 0 \<le> s_len s \<and> nat (s_len s) < length b
            then let s = SBUF_SETFLAG SBUF_FINISHED (s\<lparr>s_buf := Some (b[nat (s_len s) := 0])\<rparr>) in
              Inr (if s_error s \<noteq> 0 then -1 else 0, s)
            else Inl OutOfBounds)"

definition sbuf_data :: "'d sbuf \<Rightarrow> byte list option" where
  "sbuf_data s = s_buf s"

definition sbuf_len :: "'d sbuf \<Rightarrow> int" where
  "sbuf_len s = (if s_error s \<noteq> 0 then -1 else s_len s)"

definition sbuf_done :: "'d sbuf \<Rightarrow> 32 word" where
  "sbuf_done s = s_flags s AND SBUF_FINISHED"

text \<open>
  \<open>sbuf_delete\<close> zeroes the structure; the result says whether the buffer and the structure
  itself were given back to \<open>free\<close>.
\<close>

definition sbuf_delete :: "('d sbuf, bool \<times> bool) op" where
  "sbuf_delete s = Inr ((SBUF_ISDYNAMIC s, SBUF_ISDYNSTRUCT s), zero_sbuf)"

section \<open>Sections\<close>

text \<open>
  \<open>old_lenp\<close> is where the enclosing section's length is saved: the result is the value
  stored there, \<open>None\<close> when nothing is (\<open>old_lenp\<close> is NULL when \<open>save\<close> is false).
\<close>

definition sbuf_start_section :: "bool \<Rightarrow> ('d sbuf, int option) op" where
  "sbuf_start_section save s =
     (if \<not> SBUF_ISSECTION s
      then Inr (if save then Some (-1) else None, SBUF_SETFLAG SBUF_INSECTION s)
      else if \<not> save then Inl NullDeref
      else Inr (Some (s_sect_len s), s\<lparr>s_sect_len := 0\<rparr>))"

text \<open>\<open>roundup(s->s_sect_len, pad) - s->s_sect_len\<close> in \<open>size_t\<close>, then stored in a \<open>ssize_t\<close>.\<close>

definition section_padding :: "int \<Rightarrow> 64 word \<Rightarrow> int" where
  "section_padding n pad =
     sint (((word_of_int n + (pad - 1)) div pad) * pad - word_of_int n)"

primrec pad_loop :: "(nat \<Rightarrow> bool) \<Rightarrow> byte \<Rightarrow> nat \<Rightarrow> ('d sbuf, unit) op" where
  "pad_loop mal c 0 = return_m ()"
| "pad_loop mal c (Suc n) = (\<lambda>s.
     if s_error s = 0 then seq_m (sbuf_put_byte mal c) (pad_loop mal c n) s else Inr ((), s))"

definition sbuf_end_section ::
  "(nat \<Rightarrow> bool) \<Rightarrow> int \<Rightarrow> 64 word \<Rightarrow> byte \<Rightarrow> ('d sbuf, int) op" where
  "sbuf_end_section mal old_len pad c =
     seq_m (\<lambda>s. if pad > 1 then pad_loop mal c (nat (section_padding (s_sect_len s) pad)) s
                 else Inr ((), s))
       (\<lambda>s. let len = s_sect_len s;
                s = (if old_len = -1 then SBUF_CLEARFLAG SBUF_INSECTION (s\<lparr>s_sect_len := 0\<rparr>)
                     else s\<lparr>s_sect_len := s_sect_len s + old_len\<rparr>)
            in Inr (if s_error s \<noteq> 0 then -1 else len, s))"

end
