(* ===== verification/SbufSpec.thy ===== *)
theory SbufSpec
  imports Sbuf
begin

text \<open>
  What the string buffers promise.  \<open>sb_ok\<close> is the well-formedness that every operation keeps;
  \<open>sb_text\<close> is the text a buffer holds.  A buffer's storage grows by \<open>sbuf_extendsize\<close>, whose
  arithmetic is settled first.  Appending is then described once, by a locale for byte sinks
  and one for sinks of limited room, and both kinds of buffers are instances of it.
\<close>

section \<open>Sizes\<close>

lemma to_int32_eq: "to_int32 x = (x + 2 ^ 31) mod 2 ^ 32 - 2 ^ 31"
  by (simp add: to_int32_def int_word_sint)

lemma to_int32_id [simp]: "- (2 ^ 31) \<le> x \<Longrightarrow> x < 2 ^ 31 \<Longrightarrow> to_int32 x = x"
  by (simp add: to_int32_eq)

lemma to_int32_wrap: "2 ^ 31 \<le> x \<Longrightarrow> x < 2 ^ 32 \<Longrightarrow> to_int32 x = x - 2 ^ 32"
  by (simp add: to_int32_eq mod_pos_geq)

lemma int_and_not_mask: "(x::int) AND NOT (2 ^ n - 1) = x div 2 ^ n * 2 ^ n"
proof -
  have "push_bit n (drop_bit n x) = x AND NOT (mask n)"
    by (rule bit_eqI) (auto simp: bit_simps)
  then show ?thesis by (simp add: push_bit_eq_mult drop_bit_eq_div mask_eq_exp_minus_1)
qed

lemma roundup2_4096:
  assumes "0 \<le> x" and "x + 4095 < 2 ^ 31"
  shows "roundup2 x 4096 = (x + 4095) div 4096 * 4096"
  using assms int_and_not_mask [of "x + 4095" 12] by (simp add: roundup2_def)

lemma double_until_props:
  assumes "0 < n"
  shows "n \<le> double_until n sz \<and> sz \<le> double_until n sz \<and> (\<exists>k. double_until n sz = n * 2 ^ k) \<and>
    (double_until n sz = n \<or> double_until n sz < 2 * sz)"
  using assms
proof (induction n sz rule: double_until.induct)
  case (1 n sz)
  show ?case
  proof (cases "n < sz")
    case True
    with 1 have *: "n * 2 \<le> double_until (n * 2) sz" "sz \<le> double_until (n * 2) sz"
      "double_until (n * 2) sz = n * 2 \<or> double_until (n * 2) sz < 2 * sz"
      and "\<exists>k. double_until (n * 2) sz = n * 2 * 2 ^ k" by auto
    then obtain k where "double_until (n * 2) sz = n * 2 * 2 ^ k" by blast
    then have "double_until (n * 2) sz = n * 2 ^ Suc k" by simp
    then have "\<exists>k. double_until (n * 2) sz = n * 2 ^ k" by blast
    with * True 1 show ?thesis by (auto simp: double_until.simps [of n sz])
  next
    case False
    then show ?thesis by (auto simp: double_until.simps [of n sz] intro: exI [of _ 0])
  qed
qed

text \<open>The new size is a power of two below 4096 and the next multiple of 4096 from there on.\<close>

lemma sbuf_extendsize_small:
  assumes "sz < 4096"
  shows "sz \<le> sbuf_extendsize sz \<and> (\<exists>k. sbuf_extendsize sz = 2 ^ k) \<and>
    16 \<le> sbuf_extendsize sz \<and> sbuf_extendsize sz < 8192"
proof -
  from double_until_props [of 16 sz] obtain k where
    *: "double_until 16 sz = 16 * 2 ^ k" "16 \<le> double_until 16 sz" "sz \<le> double_until 16 sz"
    and **: "double_until 16 sz = 16 \<or> double_until 16 sz < 2 * sz" by auto
  have "(16::int) * 2 ^ k = 2 ^ (4 + k)" by (simp add: power_add)
  with * have "\<exists>k. double_until 16 sz = 2 ^ k" by metis
  with * ** assms show ?thesis
    by (auto simp: sbuf_extendsize_def SBUF_MAXEXTENDSIZE_def SBUF_MINEXTENDSIZE_def)
qed

lemma sbuf_extendsize_large:
  assumes "4096 \<le> sz" and "sz \<le> 2 ^ 31 - 4096"
  shows "sbuf_extendsize sz = (sz + 4095) div 4096 * 4096"
  using assms roundup2_4096 [of sz]
  by (simp add: sbuf_extendsize_def SBUF_MAXEXTENDSIZE_def SBUF_MAXEXTENDINCR_def)

lemma sbuf_extendsize_over:
  assumes "2 ^ 31 - 4096 < sz" and "sz < 2 ^ 31"
  shows "sbuf_extendsize sz = - (2 ^ 31)"
proof -
  from assms have "to_int32 (sz + 4095) = sz + 4095 - 2 ^ 32" by (intro to_int32_wrap) auto
  moreover have "(sz + 4095 - 2 ^ 32) div 4096 = (- (2 ^ 19) :: int)" using assms by simp
  ultimately show ?thesis
    using assms int_and_not_mask [of "sz + 4095 - 2 ^ 32" 12]
    by (simp add: sbuf_extendsize_def SBUF_MAXEXTENDSIZE_def SBUF_MAXEXTENDINCR_def roundup2_def)
qed

text \<open>The largest size a buffer can grow to: the last multiple of 4096 an \<open>int\<close> holds.\<close>

abbreviation SB_LIMIT :: int where "SB_LIMIT \<equiv> 2147479552"

lemma sbuf_extendsize_bounds:
  assumes "0 \<le> sz" and "sz \<le> SB_LIMIT"
  shows "sz \<le> sbuf_extendsize sz" and "16 \<le> sbuf_extendsize sz" and "sbuf_extendsize sz \<le> SB_LIMIT"
proof -
  have "sz \<le> sbuf_extendsize sz \<and> 16 \<le> sbuf_extendsize sz \<and> sbuf_extendsize sz \<le> SB_LIMIT"
  proof (cases "sz < 4096")
    case True
    with sbuf_extendsize_small [of sz] show ?thesis by auto
  next
    case False
    with assms sbuf_extendsize_large [of sz] show ?thesis by auto
  qed
  then show "sz \<le> sbuf_extendsize sz" and "16 \<le> sbuf_extendsize sz"
    and "sbuf_extendsize sz \<le> SB_LIMIT" by auto
qed

lemma SBMALLOC_neg: "n < 0 \<Longrightarrow> - (2 ^ 63) \<le> n \<Longrightarrow> SBMALLOC mal n = None"
proof -
  assume n: "n < 0" "- (2 ^ 63) \<le> n"
  then have "n mod 2 ^ 64 = n + 2 ^ 64"
    using mod_add_self2 [of n "2 ^ 64"] mod_pos_pos_trivial [of "n + 2 ^ 64" "2 ^ 64"] by simp
  with n show ?thesis by (simp add: SBMALLOC_def Let_def nat_less_iff)
qed

lemma SBMALLOC_pos: "0 \<le> n \<Longrightarrow> n < 2 ^ 63 \<Longrightarrow>
  SBMALLOC mal n = (if mal (nat n) then Some (replicate (nat n) 0) else None)"
  by (simp add: SBMALLOC_def Let_def nat_less_iff)

section \<open>Flags\<close>

lemmas flag_consts = SBUF_AUTOEXTEND_def SBUF_DYNAMIC_def SBUF_FINISHED_def SBUF_DYNSTRUCT_def
  SBUF_INSECTION_def SBUF_USRFLAGMSK_def

lemmas flag_preds = SBUF_CANEXTEND_def SBUF_ISSECTION_def SBUF_ISDYNAMIC_def SBUF_ISFINISHED_def
  SBUF_ISDYNSTRUCT_def

lemma set_flag_preds [simp]:
  "SBUF_CANEXTEND (SBUF_SETFLAG SBUF_DYNAMIC s) = SBUF_CANEXTEND s"
  "SBUF_ISSECTION (SBUF_SETFLAG SBUF_DYNAMIC s) = SBUF_ISSECTION s"
  "SBUF_CANEXTEND (SBUF_SETFLAG SBUF_FINISHED s) = SBUF_CANEXTEND s"
  "SBUF_ISSECTION (SBUF_SETFLAG SBUF_FINISHED s) = SBUF_ISSECTION s"
  "SBUF_ISFINISHED (SBUF_SETFLAG SBUF_FINISHED s)"
  "SBUF_ISSECTION (SBUF_SETFLAG SBUF_INSECTION s)"
  "SBUF_CANEXTEND (SBUF_SETFLAG SBUF_INSECTION s) = SBUF_CANEXTEND s"
  "\<not> SBUF_ISSECTION (SBUF_CLEARFLAG SBUF_INSECTION s)"
  "SBUF_CANEXTEND (SBUF_CLEARFLAG SBUF_INSECTION s) = SBUF_CANEXTEND s"
  "SBUF_CANEXTEND (SBUF_CLEARFLAG SBUF_FINISHED s) = SBUF_CANEXTEND s"
  "SBUF_ISSECTION (SBUF_CLEARFLAG SBUF_FINISHED s) = SBUF_ISSECTION s"
  "\<not> SBUF_ISFINISHED (SBUF_CLEARFLAG SBUF_FINISHED s)"
  by (simp_all add: flag_preds SBUF_SETFLAG_def SBUF_CLEARFLAG_def flag_consts word_ao_dist
      word_bw_assocs)

lemma set_flag_fields [simp]:
  "s_buf (SBUF_SETFLAG f s) = s_buf s" "s_buf (SBUF_CLEARFLAG f s) = s_buf s"
  "s_drain_func (SBUF_SETFLAG f s) = s_drain_func s" "s_drain_func (SBUF_CLEARFLAG f s) = s_drain_func s"
  "s_drain_arg (SBUF_SETFLAG f s) = s_drain_arg s" "s_drain_arg (SBUF_CLEARFLAG f s) = s_drain_arg s"
  "s_error (SBUF_SETFLAG f s) = s_error s" "s_error (SBUF_CLEARFLAG f s) = s_error s"
  "s_size (SBUF_SETFLAG f s) = s_size s" "s_size (SBUF_CLEARFLAG f s) = s_size s"
  "s_len (SBUF_SETFLAG f s) = s_len s" "s_len (SBUF_CLEARFLAG f s) = s_len s"
  "s_sect_len (SBUF_SETFLAG f s) = s_sect_len s" "s_sect_len (SBUF_CLEARFLAG f s) = s_sect_len s"
  by (simp_all add: SBUF_SETFLAG_def SBUF_CLEARFLAG_def)

text \<open>Updates of other fields do not change what the flags say.\<close>

lemma flag_preds_upd [simp]:
  "SBUF_CANEXTEND (s\<lparr>s_buf := b\<rparr>) = SBUF_CANEXTEND s"
  "SBUF_CANEXTEND (s\<lparr>s_len := n\<rparr>) = SBUF_CANEXTEND s"
  "SBUF_CANEXTEND (s\<lparr>s_size := n\<rparr>) = SBUF_CANEXTEND s"
  "SBUF_CANEXTEND (s\<lparr>s_error := n\<rparr>) = SBUF_CANEXTEND s"
  "SBUF_CANEXTEND (s\<lparr>s_sect_len := n\<rparr>) = SBUF_CANEXTEND s"
  "SBUF_CANEXTEND (s\<lparr>s_drain_arg := d\<rparr>) = SBUF_CANEXTEND s"
  "SBUF_ISSECTION (s\<lparr>s_buf := b\<rparr>) = SBUF_ISSECTION s"
  "SBUF_ISSECTION (s\<lparr>s_len := n\<rparr>) = SBUF_ISSECTION s"
  "SBUF_ISSECTION (s\<lparr>s_size := n\<rparr>) = SBUF_ISSECTION s"
  "SBUF_ISSECTION (s\<lparr>s_error := n\<rparr>) = SBUF_ISSECTION s"
  "SBUF_ISSECTION (s\<lparr>s_sect_len := n\<rparr>) = SBUF_ISSECTION s"
  "SBUF_ISSECTION (s\<lparr>s_drain_arg := d\<rparr>) = SBUF_ISSECTION s"
  by (simp_all add: flag_preds)

section \<open>Well-formed buffers and the text they hold\<close>

definition sb_ok :: "'d sbuf \<Rightarrow> bool" where
  "sb_ok s \<longleftrightarrow> (\<exists>b. s_buf s = Some b \<and> int (length b) = s_size s) \<and>
     0 \<le> s_len s \<and> s_len s < s_size s \<and> s_size s \<le> SB_LIMIT \<and>
     (s_drain_func s \<noteq> None \<longrightarrow> 2 \<le> s_size s)"

definition sb_text :: "'d sbuf \<Rightarrow> byte list" where
  "sb_text s = take (nat (s_len s)) (the (s_buf s))"

lemma sb_okE:
  assumes "sb_ok s"
  obtains b where "s_buf s = Some b" "int (length b) = s_size s" "0 \<le> s_len s" "s_len s < s_size s"
    "s_size s \<le> SB_LIMIT" "s_drain_func s \<noteq> None \<longrightarrow> 2 \<le> s_size s"
  using assms by (auto simp: sb_ok_def)

lemma length_sb_text: "sb_ok s \<Longrightarrow> int (length (sb_text s)) = s_len s"
  by (auto simp: sb_ok_def sb_text_def)

text \<open>What stays the same when only the text changes.\<close>

definition sb_same :: "'d sbuf \<Rightarrow> 'd sbuf \<Rightarrow> bool" where
  "sb_same s s' \<longleftrightarrow> s_drain_func s' = s_drain_func s \<and>
     SBUF_CANEXTEND s' = SBUF_CANEXTEND s \<and> SBUF_ISSECTION s' = SBUF_ISSECTION s"

lemma sb_same_refl [simp]: "sb_same s s"
  by (simp add: sb_same_def)

lemma sb_same_trans [trans]: "sb_same s t \<Longrightarrow> sb_same t u \<Longrightarrow> sb_same s u"
  by (simp add: sb_same_def)

text \<open>
  Extending keeps the text and makes room, and it succeeds exactly when the buffer may be
  extended, the new size fits and the allocation succeeds.
\<close>

definition can_grow :: "(nat \<Rightarrow> bool) \<Rightarrow> int \<Rightarrow> 'd sbuf \<Rightarrow> bool" where
  "can_grow mal add s \<longleftrightarrow> SBUF_CANEXTEND s \<and> s_size s + add \<le> SB_LIMIT \<and>
     mal (nat (sbuf_extendsize (s_size s + add)))"

lemma sbuf_extend_spec:
  assumes ok: "sb_ok s" and add: "0 < add" "s_size s + add < 2 ^ 31"
  shows "\<not> can_grow mal add s \<Longrightarrow> sbuf_extend mal add s = Inr (-1, s)"
    and "can_grow mal add s \<Longrightarrow> \<exists>s'. sbuf_extend mal add s = Inr (0, s') \<and> sb_ok s' \<and> sb_same s s' \<and>
      s_size s' = sbuf_extendsize (s_size s + add) \<and> s_size s + add \<le> s_size s' \<and>
      sb_text s' = sb_text s \<and> s_len s' = s_len s \<and> s_error s' = s_error s \<and>
      s_drain_arg s' = s_drain_arg s \<and> s_sect_len s' = s_sect_len s"
proof -
  from ok obtain b where b: "s_buf s = Some b" "int (length b) = s_size s" "0 \<le> s_len s"
    "s_len s < s_size s" "s_size s \<le> SB_LIMIT" "s_drain_func s \<noteq> None \<longrightarrow> 2 \<le> s_size s"
    by (rule sb_okE)
  let ?n = "s_size s + add"
  have n32: "to_int32 ?n = ?n" using b add by simp
  { assume no: "\<not> can_grow mal add s"
    then show "sbuf_extend mal add s = Inr (-1, s)"
    proof (cases "SBUF_CANEXTEND s \<and> ?n \<le> SB_LIMIT")
      case True
      with no have "\<not> mal (nat (sbuf_extendsize ?n))" by (simp add: can_grow_def)
      with True b add sbuf_extendsize_bounds [of ?n] n32 show ?thesis
        by (simp add: sbuf_extend_def SBMALLOC_pos)
    next
      case False
      with b add sbuf_extendsize_over [of ?n] n32 show ?thesis
        by (auto simp: sbuf_extend_def SBMALLOC_neg)
    qed }
  { assume "can_grow mal add s"
    then have c: "SBUF_CANEXTEND s" "?n \<le> SB_LIMIT" "mal (nat (sbuf_extendsize ?n))"
      by (auto simp: can_grow_def)
    from b add c(2) have sz: "?n \<le> sbuf_extendsize ?n" "16 \<le> sbuf_extendsize ?n"
      "sbuf_extendsize ?n \<le> SB_LIMIT" by (auto intro: sbuf_extendsize_bounds)
    have "nat (s_size s) = length b" using b by simp
    with b c sz add n32 show "\<exists>s'. sbuf_extend mal add s = Inr (0, s') \<and> sb_ok s' \<and> sb_same s s' \<and>
      s_size s' = sbuf_extendsize ?n \<and> ?n \<le> s_size s' \<and>
      sb_text s' = sb_text s \<and> s_len s' = s_len s \<and> s_error s' = s_error s \<and>
      s_drain_arg s' = s_drain_arg s \<and> s_sect_len s' = s_sect_len s"
      by (auto simp: sbuf_extend_def SBMALLOC_pos Let_def sb_ok_def sb_same_def sb_text_def) }
qed

section \<open>Draining\<close>

text \<open>
  The contract of a drain function: on a non-empty text it either consumes a non-empty prefix,
  which then counts as delivered (\<open>log\<close> reads the delivered bytes from the drain's object), or
  reports an error and delivers nothing.  \<open>sb_out\<close> is everything the buffer has accepted: what
  was delivered and what it still holds.
\<close>

definition drain_ok ::
  "('d option \<Rightarrow> byte list) \<Rightarrow> ('d option \<Rightarrow> byte list \<Rightarrow> int \<times> 'd option) \<Rightarrow> bool" where
  "drain_ok log F \<longleftrightarrow> (\<forall>d bs. bs \<noteq> [] \<longrightarrow>
     (let (k, d') = F d bs in
        (0 < k \<and> k \<le> int (length bs) \<and> log d' = log d @ take (nat k) bs) \<or>
        (- (2 ^ 31) < k \<and> k < 0 \<and> log d' = log d)))"

definition sb_drain_ok :: "('d option \<Rightarrow> byte list) \<Rightarrow> 'd sbuf \<Rightarrow> bool" where
  "sb_drain_ok log s \<longleftrightarrow> (\<forall>F. s_drain_func s = Some F \<longrightarrow> drain_ok log F)"

definition sb_out :: "('d option \<Rightarrow> byte list) \<Rightarrow> 'd sbuf \<Rightarrow> byte list" where
  "sb_out log s = log (s_drain_arg s) @ sb_text s"

lemma sbuf_drain_spec:
  assumes ok: "sb_ok s" and F: "s_drain_func s = Some F" "drain_ok log F"
    and len: "0 < s_len s" and err: "s_error s = 0"
  shows "\<exists>r s'. sbuf_drain s = Inr (r, s') \<and> sb_ok s' \<and> sb_same s s' \<and> s_size s' = s_size s \<and>
    s_error s' = r \<and> s_sect_len s' = s_sect_len s \<and> sb_out log s' = sb_out log s \<and>
    (r = 0 \<longrightarrow> s_len s' < s_len s) \<and> (r \<noteq> 0 \<longrightarrow> s_len s' = s_len s \<and> s_buf s' = s_buf s)"
proof -
  from ok obtain b where b: "s_buf s = Some b" "int (length b) = s_size s" "0 \<le> s_len s"
    "s_len s < s_size s" "s_size s \<le> SB_LIMIT" "s_drain_func s \<noteq> None \<longrightarrow> 2 \<le> s_size s"
    by (rule sb_okE)
  have i: "to_int32 (s_len s) = s_len s" using b by simp
  obtain k d' where k: "F (s_drain_arg s) (take (nat (s_len s)) b) = (k, d')" by fastforce
  let ?t = "take (nat (s_len s)) b"
  have t: "?t \<noteq> []" "int (length ?t) = s_len s" using b len by auto
  have "let (k, d') = F (s_drain_arg s) ?t in
      (0 < k \<and> k \<le> int (length ?t) \<and> log d' = log (s_drain_arg s) @ take (nat k) ?t) \<or>
      (- (2 ^ 31) < k \<and> k < 0 \<and> log d' = log (s_drain_arg s))"
    using F(2) t(1) unfolding drain_ok_def by blast
  then have "(0 < k \<and> k \<le> s_len s \<and> log d' = log (s_drain_arg s) @ take (nat k) ?t) \<or>
    (- (2 ^ 31) < k \<and> k < 0 \<and> log d' = log (s_drain_arg s))"
    unfolding k t(2) by simp
  then consider (some) "0 < k" "k \<le> s_len s" "log d' = log (s_drain_arg s) @ take (nat k) ?t"
    | (error) "- (2 ^ 31) < k" "k < 0" "log d' = log (s_drain_arg s)" by blast
  then show ?thesis
  proof cases
    case error
    with b k F err show ?thesis
      by (auto simp: sbuf_drain_def i sb_ok_def sb_same_def sb_out_def sb_text_def)
  next
    case some
    have l: "nat (s_len s - k) \<le> length b - nat k" "nat k \<le> length b" using some b by auto
    have m: "take (nat k) ?t @ take (nat (s_len s - k)) (drop (nat k) b) = ?t"
    proof -
      have "nat (s_len s) = nat k + nat (s_len s - k)" using some by simp
      then show ?thesis using some by (simp add: take_add min_def)
    qed
    have len': "length (take (nat (s_len s - k)) (drop (nat k) b) @ drop (nat (s_len s - k)) b)
      = length b" using l some by auto
    show ?thesis
    proof (cases "s_len s = k")
      case True
      let ?s = "s\<lparr>s_drain_arg := d', s_len := 0\<rparr>"
      have "sbuf_drain s = Inr (0, ?s)" using b(1) k F(1) some(1) True i by (simp add: sbuf_drain_def)
      moreover have "sb_ok ?s" using b by (auto simp: sb_ok_def)
      moreover have "sb_out log ?s = sb_out log s"
        using some(3) True b(1) by (simp add: sb_out_def sb_text_def)
      ultimately show ?thesis using True len err by (auto simp: sb_same_def)
    next
      case False
      let ?b = "take (nat (s_len s - k)) (drop (nat k) b) @ drop (nat (s_len s - k)) b"
      let ?s = "s\<lparr>s_drain_arg := d', s_len := s_len s - k, s_buf := Some ?b\<rparr>"
      have "sbuf_drain s = Inr (0, ?s)"
        using b(1) k F(1) some(1,2) False l by (simp add: sbuf_drain_def i Let_def)
      moreover have "sb_ok ?s" using b some(1,2) len' by (auto simp: sb_ok_def)
      moreover have "sb_text ?s = take (nat (s_len s - k)) (drop (nat k) b)"
        using l by (simp add: sb_text_def)
      then have "sb_out log ?s = log (s_drain_arg s) @ ?t"
        using some(3) m by (simp add: sb_out_def)
      then have "sb_out log ?s = sb_out log s"
        using b(1) by (simp add: sb_out_def sb_text_def)
      ultimately show ?thesis using some(1) err by (auto simp: sb_same_def)
    qed
  qed
qed

section \<open>Putting one byte\<close>

lemma store_byte_spec:
  assumes ok: "sb_ok s" and room: "0 < SBUF_FREESPACE s"
  shows "\<exists>s'. store_byte c s = Inr ((), s') \<and> sb_ok s' \<and> sb_same s s' \<and> s_size s' = s_size s \<and>
    s_error s' = s_error s \<and> sb_text s' = sb_text s @ [c] \<and> s_len s' = s_len s + 1 \<and>
    s_drain_arg s' = s_drain_arg s \<and>
    s_sect_len s' = (if SBUF_ISSECTION s then s_sect_len s + 1 else s_sect_len s)"
proof -
  from ok obtain b where b: "s_buf s = Some b" "int (length b) = s_size s" "0 \<le> s_len s"
    "s_len s < s_size s" "s_size s \<le> SB_LIMIT" "s_drain_func s \<noteq> None \<longrightarrow> 2 \<le> s_size s"
    by (rule sb_okE)
  have i: "nat (s_len s) < length b" "nat (s_len s + 1) = Suc (nat (s_len s))" using b by auto
  with b room show ?thesis
    by (auto simp: store_byte_def sb_ok_def sb_same_def sb_text_def SBUF_FREESPACE_def Let_def
        list_update_take)
qed

text \<open>
  The outcome of one byte, for every kind of buffer: the byte is the next one accepted, or the
  error flag is now set and nothing was lost or added.  Without a drain it is stored exactly
  when there is room or the buffer can grow.
\<close>

lemma sbuf_put_byte_spec:
  assumes ok: "sb_ok s" and dr: "sb_drain_ok log s" and err: "s_error s = 0"
  shows "\<exists>s'. sbuf_put_byte mal c s = Inr ((), s') \<and> sb_ok s' \<and> sb_same s s' \<and>
    (if s_error s' = 0 then sb_out log s' = sb_out log s @ [c] else sb_out log s' = sb_out log s) \<and>
    s_sect_len s' = s_sect_len s + (if SBUF_ISSECTION s \<and> s_error s' = 0 then 1 else 0) \<and>
    (s_drain_func s = None \<longrightarrow>
       (s_error s' = 0 \<longleftrightarrow> 0 < SBUF_FREESPACE s \<or> can_grow mal 1 s) \<and>
       (s_error s' = 0 \<longrightarrow> s_len s' = s_len s + 1 \<and>
          s_size s' = (if 0 < SBUF_FREESPACE s then s_size s else sbuf_extendsize (s_size s + 1))) \<and>
       (s_error s' \<noteq> 0 \<longrightarrow> s_len s' = s_len s \<and> s_size s' = s_size s))"
proof (cases "0 < SBUF_FREESPACE s")
  case True
  with store_byte_spec [OF ok True, of c] err show ?thesis
    by (fastforce simp: sbuf_put_byte_def sb_out_def)
next
  case full: False
  have len: "s_len s = s_size s - 1"
    using full ok by (auto simp: SBUF_FREESPACE_def sb_ok_def)
  show ?thesis
  proof (cases "s_drain_func s")
    case (Some F)
    with dr have F: "drain_ok log F" by (simp add: sb_drain_ok_def)
    have pos: "0 < s_len s" using len ok Some by (auto simp: sb_ok_def)
    from sbuf_drain_spec [OF ok Some F pos err] obtain r t where t: "sbuf_drain s = Inr (r, t)"
      "sb_ok t" "sb_same s t" "s_size t = s_size s" "s_error t = r" "sb_out log t = sb_out log s"
      "s_sect_len t = s_sect_len s"
      and shorter: "r = 0 \<longrightarrow> s_len t < s_len s" by blast
    show ?thesis
    proof (cases "r = 0")
      case False
      with t full Some err show ?thesis
        by (auto simp: sbuf_put_byte_def bind_m_def seq_m_def return_m_def)
    next
      case True
      with shorter t(4) len have "0 < SBUF_FREESPACE t" by (simp add: SBUF_FREESPACE_def)
      from store_byte_spec [OF t(2) this, of c] t True full Some err show ?thesis
        by (fastforce simp: sbuf_put_byte_def bind_m_def seq_m_def return_m_def sb_out_def
            sb_same_def)
    qed
  next
    case None
    have lim: "s_size s + 1 < 2 ^ 31" using ok by (auto simp: sb_ok_def)
    show ?thesis
    proof (cases "can_grow mal 1 s")
      case False
      from sbuf_extend_spec(1) [OF ok _ lim False] False full None err ok show ?thesis
        by (auto simp: sbuf_put_byte_def bind_m_def modify_m_def ENOMEM_def sb_ok_def sb_same_def
            sb_out_def sb_text_def)
    next
      case True
      from sbuf_extend_spec(2) [OF ok _ lim True] obtain t where
        t: "sbuf_extend mal 1 s = Inr (0, t)" "sb_ok t" "sb_same s t" "s_size s + 1 \<le> s_size t"
          "s_size t = sbuf_extendsize (s_size s + 1)" "sb_text t = sb_text s" "s_len t = s_len s"
          "s_error t = s_error s" "s_drain_arg t = s_drain_arg s" "s_sect_len t = s_sect_len s" by auto
      from t(4,7) len have "0 < SBUF_FREESPACE t" by (simp add: SBUF_FREESPACE_def)
      from store_byte_spec [OF t(2) this, of c] t True full None err show ?thesis
        by (fastforce simp: sbuf_put_byte_def bind_m_def modify_m_def sb_out_def sb_same_def)
    qed
  qed
qed

section \<open>Byte sinks\<close>

text \<open>
  A sink takes bytes one at a time and can fail; a failing put accepts nothing.  Appending a
  string to any sink accepts a prefix of it, and the whole of it exactly if no put failed.
\<close>

locale byte_sink =
  fixes put :: "'b \<Rightarrow> ('s, unit) op"
    and failed :: "'s \<Rightarrow> bool"
    and accepted :: "'s \<Rightarrow> 'b list"
    and ok :: "'s \<Rightarrow> bool"
  assumes put_law: "ok s \<Longrightarrow> \<not> failed s \<Longrightarrow>
    \<exists>s'. put c s = Inr ((), s') \<and> ok s' \<and> accepted s' = accepted s @ (if failed s' then [] else [c])"
begin

lemma bcat_prefix:
  "ok s \<Longrightarrow> \<not> failed s \<Longrightarrow> \<exists>n s'. n \<le> length bs \<and>
     bcat_loop put failed bs s = Inr (if n < length bs then -1 else 0, s') \<and> ok s' \<and>
     (failed s' \<longleftrightarrow> n < length bs) \<and> accepted s' = accepted s @ take n bs"
proof (induction bs arbitrary: s)
  case Nil
  then show ?case by (auto simp: return_m_def)
next
  case (Cons c cs)
  from put_law [OF Cons.prems] obtain t where t: "put c s = Inr ((), t)" "ok t"
    "accepted t = accepted s @ (if failed t then [] else [c])" by blast
  show ?case
  proof (cases "failed t")
    case True
    with t show ?thesis by (intro exI [of _ 0] exI [of _ t]) (auto simp: seq_m_def)
  next
    case False
    from Cons.IH [OF t(2) False] obtain n s' where "n \<le> length cs"
      "bcat_loop put failed cs t = Inr (if n < length cs then -1 else 0, s')" "ok s'"
      "failed s' \<longleftrightarrow> n < length cs" "accepted s' = accepted t @ take n cs" by blast
    with t False show ?thesis by (intro exI [of _ "Suc n"] exI [of _ s']) (auto simp: seq_m_def)
  qed
qed

end

text \<open>A sink of limited room: a put fails exactly when no room is left, and uses up one unit.\<close>

locale bounded_sink = byte_sink +
  fixes room :: "'s \<Rightarrow> nat"
  assumes room_law: "ok s \<Longrightarrow> \<not> failed s \<Longrightarrow> put c s = Inr ((), s') \<Longrightarrow>
    (failed s' \<longleftrightarrow> room s = 0) \<and> room s' = room s - 1"
begin

lemma bcat_exact:
  "ok s \<Longrightarrow> \<not> failed s \<Longrightarrow> \<exists>s'.
     bcat_loop put failed bs s = Inr (if length bs \<le> room s then 0 else -1, s') \<and> ok s' \<and>
     (failed s' \<longleftrightarrow> room s < length bs) \<and> accepted s' = accepted s @ take (room s) bs"
proof (induction bs arbitrary: s)
  case Nil
  then show ?case by (auto simp: return_m_def)
next
  case (Cons c cs)
  from put_law [OF Cons.prems] obtain t where t: "put c s = Inr ((), t)" "ok t"
    "accepted t = accepted s @ (if failed t then [] else [c])" by blast
  from room_law [OF Cons.prems t(1)] have room: "failed t \<longleftrightarrow> room s = 0" "room t = room s - 1"
    by auto
  show ?case
  proof (cases "failed t")
    case True
    with t room show ?thesis by (auto simp: seq_m_def)
  next
    case False
    with room obtain k where k: "room s = Suc k" "room t = k" by (cases "room s") auto
    from Cons.IH [OF t(2) False] k t False show ?thesis by (auto simp: seq_m_def)
  qed
qed

end

text \<open>
  Every buffer is a sink; what it accepts is what its drain got and what it still holds.  Its kind
  (drain function and flags) is the one it started with.
\<close>

interpretation sink: byte_sink "sbuf_put_byte mal" has_error "sb_out log"
  "\<lambda>s. sb_ok s \<and> sb_drain_ok log s \<and> sb_same s0 s" for mal log s0
proof unfold_locales
  fix s :: "'a sbuf" and c
  assume "sb_ok s \<and> sb_drain_ok log s \<and> sb_same s0 s" and "\<not> has_error s"
  with sbuf_put_byte_spec [of s log mal c] show "\<exists>s'. sbuf_put_byte mal c s = Inr ((), s') \<and>
      (sb_ok s' \<and> sb_drain_ok log s' \<and> sb_same s0 s') \<and>
      sb_out log s' = sb_out log s @ (if has_error s' then [] else [c])"
    by (fastforce simp: has_error_def sb_drain_ok_def sb_same_def)
qed

definition fixed_ok :: "'d sbuf \<Rightarrow> bool" where
  "fixed_ok s \<longleftrightarrow> sb_ok s \<and> s_drain_func s = None \<and> \<not> SBUF_CANEXTEND s"

definition auto_ok :: "'d sbuf \<Rightarrow> bool" where
  "auto_ok s \<longleftrightarrow> sb_ok s \<and> s_drain_func s = None \<and> SBUF_CANEXTEND s"

lemma sb_out_nil: "sb_out (\<lambda>_. []) s = sb_text s"
  by (simp add: sb_out_def)

lemma put_byte_undrained:
  assumes "sb_ok s" and "s_drain_func s = None" and "\<not> has_error s"
  shows "\<exists>s'. sbuf_put_byte mal c s = Inr ((), s') \<and> sb_ok s' \<and> sb_same s s' \<and>
    sb_text s' = sb_text s @ (if has_error s' then [] else [c]) \<and>
    (has_error s' \<longleftrightarrow> SBUF_FREESPACE s \<le> 0 \<and> \<not> can_grow mal 1 s) \<and>
    (\<not> has_error s' \<longrightarrow> s_len s' = s_len s + 1 \<and>
          s_size s' = (if 0 < SBUF_FREESPACE s then s_size s else sbuf_extendsize (s_size s + 1))) \<and>
    (has_error s' \<longrightarrow> s_len s' = s_len s \<and> s_size s' = s_size s)"
  using sbuf_put_byte_spec [of s "\<lambda>_. []" mal c] assms
  unfolding sb_drain_ok_def sb_out_nil has_error_def by fastforce

text \<open>A fixed-length buffer has room for the bytes that are free, less the final NUL.\<close>

interpretation fixed_sink: bounded_sink "sbuf_put_byte mal" has_error sb_text fixed_ok
  "\<lambda>s. nat (SBUF_FREESPACE s)" for mal
proof unfold_locales
  fix s :: "'a sbuf" and c
  assume "fixed_ok s" and "\<not> has_error s"
  with put_byte_undrained [of s mal c] show "\<exists>s'. sbuf_put_byte mal c s = Inr ((), s') \<and>
      fixed_ok s' \<and> sb_text s' = sb_text s @ (if has_error s' then [] else [c])"
    by (fastforce simp: fixed_ok_def sb_same_def)
next
  fix s s' :: "'a sbuf" and c
  assume "fixed_ok s" and "\<not> has_error s" and "sbuf_put_byte mal c s = Inr ((), s')"
  with put_byte_undrained [of s mal c]
  show "(has_error s' \<longleftrightarrow> nat (SBUF_FREESPACE s) = 0) \<and>
      nat (SBUF_FREESPACE s') = nat (SBUF_FREESPACE s) - 1"
    by (cases "has_error s'") (auto simp: fixed_ok_def can_grow_def SBUF_FREESPACE_def)
qed

text \<open>An extensible buffer has room for everything while allocation succeeds, up to the limit.\<close>

interpretation auto_sink: bounded_sink "sbuf_put_byte (\<lambda>_. True)" has_error sb_text auto_ok
  "\<lambda>s. nat (SB_LIMIT - 1 - s_len s)"
proof unfold_locales
  fix s :: "'a sbuf" and c
  assume "auto_ok s" and "\<not> has_error s"
  with put_byte_undrained [of s "\<lambda>_. True" c]
  show "\<exists>s'. sbuf_put_byte (\<lambda>_. True) c s = Inr ((), s') \<and>
      auto_ok s' \<and> sb_text s' = sb_text s @ (if has_error s' then [] else [c])"
    by (fastforce simp: auto_ok_def sb_same_def)
next
  fix s s' :: "'a sbuf" and c
  assume "auto_ok s" and "\<not> has_error s" and "sbuf_put_byte (\<lambda>_. True) c s = Inr ((), s')"
  with put_byte_undrained [of s "\<lambda>_. True" c]
  show "(has_error s' \<longleftrightarrow> nat (SB_LIMIT - 1 - s_len s) = 0) \<and>
      nat (SB_LIMIT - 1 - s_len s') = nat (SB_LIMIT - 1 - s_len s) - 1"
    by (cases "has_error s'") (auto simp: auto_ok_def sb_ok_def can_grow_def SBUF_FREESPACE_def)
qed

text \<open>Reading a C string up to its NUL is the same as being given its bytes.\<close>

lemma cat_loop_eq:
  "0 \<in> set str \<Longrightarrow> cat_loop put failed str = bcat_loop put failed (takeWhile (\<lambda>c. c \<noteq> 0) str)"
  by (induction str) (auto simp: fun_eq_iff seq_m_def split: sum.splits)

lemma sbuf_cat_bcat:
  "0 \<in> set str \<Longrightarrow> sbuf_cat mal str s = sbuf_bcat mal (takeWhile (\<lambda>c. c \<noteq> 0) str) s"
  by (simp add: sbuf_cat_def sbuf_bcat_def cat_loop_eq)

end
