(* ===== verification/SbufProps.thy ===== *)
theory SbufProps
  imports SbufSpec
begin

text \<open>
  Formatted output, the remaining operations of the string buffers and the properties of the
  component: appending, formatting, finishing, sections, and the invariant that every run of
  operations keeps.
\<close>

section \<open>Formatted output\<close>

text \<open>\<open>tail_holds t s\<close>: after the text, the storage holds as much of \<open>t\<close> as fits.\<close>

definition tail_holds :: "byte list \<Rightarrow> 'd sbuf \<Rightarrow> bool" where
  "tail_holds t s \<longleftrightarrow> (\<forall>b. s_buf s = Some b \<longrightarrow>
     take (min (nat (SBUF_FREESPACE s)) (length t)) (drop (nat (s_len s)) b) =
     take (nat (SBUF_FREESPACE s)) t)"

lemma vsnprintf_tail_spec:
  assumes ok: "sb_ok s"
  shows "\<exists>b. vsnprintf_tail (Some t) s = Inr (int (length t), s\<lparr>s_buf := Some b\<rparr>) \<and>
    sb_ok (s\<lparr>s_buf := Some b\<rparr>) \<and> sb_text (s\<lparr>s_buf := Some b\<rparr>) = sb_text s \<and>
    tail_holds t (s\<lparr>s_buf := Some b\<rparr>)"
proof -
  from ok obtain b where b: "s_buf s = Some b" "int (length b) = s_size s" "0 \<le> s_len s"
    "s_len s < s_size s" "s_size s \<le> SB_LIMIT" "s_drain_func s \<noteq> None \<longrightarrow> 2 \<le> s_size s"
    by (rule sb_okE)
  let ?i = "nat (s_len s)" and ?f = "nat (SBUF_FREESPACE s)"
  let ?b = "write_at ?i (take ?f t @ [0]) b"
  have f: "0 \<le> SBUF_FREESPACE s" and lb: "length b = Suc (?i + ?f)"
    using b by (auto simp: SBUF_FREESPACE_def)
  then have len: "length ?b = length b" by (simp add: write_at_def)
  have "vsnprintf_tail (Some t) s = Inr (int (length t), s\<lparr>s_buf := Some ?b\<rparr>)"
    using b(1,3) f lb by (auto simp: vsnprintf_tail_def)
  moreover have "sb_ok (s\<lparr>s_buf := Some ?b\<rparr>)" using b len by (auto simp: sb_ok_def)
  moreover have "sb_text (s\<lparr>s_buf := Some ?b\<rparr>) = sb_text s"
    using b(1) lb by (simp add: sb_text_def write_at_def)
  moreover have "tail_holds t (s\<lparr>s_buf := Some ?b\<rparr>)"
    using lb by (simp add: tail_holds_def write_at_def SBUF_FREESPACE_def min_def)
  ultimately show ?thesis by blast
qed

text \<open>
  The loop's outcome.  Enough fuel is one round when the text fits, otherwise two and one more
  for each byte that may have to be drained first.
\<close>

definition vprintf_fuel :: "byte list \<Rightarrow> 'd sbuf \<Rightarrow> nat" where
  "vprintf_fuel t s = (if int (length t) \<le> SBUF_FREESPACE s then 1
     else (if s_drain_func s = None then 0 else nat (s_len s)) + 2)"

definition vprintf_pre :: "('d option \<Rightarrow> byte list) \<Rightarrow> byte list \<Rightarrow> 'd sbuf \<Rightarrow> bool" where
  "vprintf_pre log t s \<longleftrightarrow> sb_ok s \<and> sb_drain_ok log s \<and> s_error s = 0 \<and>
     (int (length t) \<le> SBUF_FREESPACE s \<or> s_len s + int (length t) + 1 < 2 ^ 31)"

definition vprintf_post ::
  "('d option \<Rightarrow> byte list) \<Rightarrow> (nat \<Rightarrow> bool) \<Rightarrow> byte list \<Rightarrow> 'd sbuf \<Rightarrow> 'd sbuf \<Rightarrow> bool" where
  "vprintf_post log mal t s s' \<longleftrightarrow> sb_ok s' \<and> sb_same s s' \<and> sb_out log s' = sb_out log s \<and>
     tail_holds t s' \<and> s_sect_len s' = s_sect_len s \<and>
     (s_drain_func s = None \<longrightarrow> s_error s' = 0 \<and> sb_text s' = sb_text s \<and>
       (if int (length t) \<le> SBUF_FREESPACE s \<or> can_grow mal (int (length t) - SBUF_FREESPACE s) s
        then int (length t) \<le> SBUF_FREESPACE s' else SBUF_FREESPACE s' = SBUF_FREESPACE s) \<and>
       (\<not> SBUF_CANEXTEND s \<longrightarrow> SBUF_FREESPACE s' = SBUF_FREESPACE s))"

text \<open>
  One round prints the text, which changes neither the text held nor anything else that the
  loop looks at; then the loop ends or makes room and goes on.
\<close>

definition printed :: "byte list \<Rightarrow> 'd sbuf \<Rightarrow> 'd sbuf \<Rightarrow> bool" where
  "printed t s s1 \<longleftrightarrow> sb_same s s1 \<and> sb_text s1 = sb_text s \<and> s_size s1 = s_size s \<and>
     s_len s1 = s_len s \<and> s_drain_arg s1 = s_drain_arg s \<and> s_sect_len s1 = s_sect_len s \<and>
     s_error s1 = s_error s \<and> tail_holds t s1"

lemma vprintf_round:
  assumes pre: "vprintf_pre log t s"
  obtains s1 where "vprintf_pre log t s1" "printed t s s1"
    "vprintf_loop (Suc fuel) mal (Some t) s =
      (if int (length t) \<le> SBUF_FREESPACE s1 then Inr (int (length t), s1)
       else bind_m
         (if s_drain_func s1 \<noteq> None \<and> s_len s1 > 0 then sbuf_drain
          else sbuf_extend mal (to_int32 (int (length t) - SBUF_FREESPACE s1)))
         (\<lambda>error. if error = 0 then vprintf_loop fuel mal (Some t) else return_m (int (length t))) s1)"
proof -
  from pre have "sb_ok s" by (simp add: vprintf_pre_def)
  from vsnprintf_tail_spec [OF this, of t] obtain b where
    run: "vsnprintf_tail (Some t) s = Inr (int (length t), s\<lparr>s_buf := Some b\<rparr>)"
    and *: "sb_ok (s\<lparr>s_buf := Some b\<rparr>)" "sb_text (s\<lparr>s_buf := Some b\<rparr>) = sb_text s"
      "tail_holds t (s\<lparr>s_buf := Some b\<rparr>)" by blast
  with pre show ?thesis
    by (intro that [of "s\<lparr>s_buf := Some b\<rparr>"])
      (auto simp: vprintf_pre_def printed_def sb_same_def sb_drain_ok_def SBUF_FREESPACE_def
        bind_m_def)
qed

text \<open>What may happen between two rounds keeps the postcondition in reach.\<close>

lemma vprintf_post_printed: "printed t s s1 \<Longrightarrow> vprintf_post log mal t s1 s' = vprintf_post log mal t s s'"
  by (auto simp: printed_def vprintf_post_def sb_same_def sb_out_def SBUF_FREESPACE_def can_grow_def)

lemma vprintf_fuel_printed: "printed t s s1 \<Longrightarrow> vprintf_fuel t s1 = vprintf_fuel t s"
  by (auto simp: printed_def vprintf_fuel_def sb_same_def SBUF_FREESPACE_def)

lemma vprintf_drain_case:
  assumes pre: "vprintf_pre log t s" and tail: "tail_holds t s"
    and nofit: "\<not> int (length t) \<le> SBUF_FREESPACE s" and "s_drain_func s \<noteq> None" and "0 < s_len s"
  shows "\<exists>r u. sbuf_drain s = Inr (r, u) \<and> (r \<noteq> 0 \<longrightarrow> vprintf_post log mal t s u) \<and>
    (r = 0 \<longrightarrow> vprintf_pre log t u \<and> vprintf_fuel t u < vprintf_fuel t s \<and>
      (\<forall>s'. vprintf_post log mal t u s' \<longrightarrow> vprintf_post log mal t s s'))"
proof -
  from pre assms(4) obtain F where F: "s_drain_func s = Some F" "drain_ok log F"
    by (auto simp: vprintf_pre_def sb_drain_ok_def)
  from sbuf_drain_spec [OF _ F assms(5)] pre obtain r u where
    u: "sbuf_drain s = Inr (r, u)" "sb_ok u" "sb_same s u" "s_size u = s_size s" "s_error u = r"
      "s_sect_len u = s_sect_len s" "sb_out log u = sb_out log s"
      "r = 0 \<longrightarrow> s_len u < s_len s" "r \<noteq> 0 \<longrightarrow> s_len u = s_len s \<and> s_buf u = s_buf s"
    by (auto simp: vprintf_pre_def)
  have "tail_holds t u" if "r \<noteq> 0"
    using tail u(4,9) that by (simp add: tail_holds_def SBUF_FREESPACE_def)
  then have "r \<noteq> 0 \<longrightarrow> vprintf_post log mal t s u"
    using u(2,3,6,7) F(1) by (simp add: vprintf_post_def)
  moreover have "vprintf_fuel t u < vprintf_fuel t s" if "r = 0"
    using that u(3,4,8) nofit F(1) assms(5) by (auto simp: vprintf_fuel_def sb_same_def)
  moreover have "vprintf_pre log t u" if "r = 0"
    using that pre nofit u(2-5,8) by (auto simp: vprintf_pre_def sb_drain_ok_def sb_same_def)
  moreover have "vprintf_post log mal t s s'" if "vprintf_post log mal t u s'" for s'
    using that u(3,6,7) F(1) by (auto simp: vprintf_post_def sb_same_def)
  ultimately show ?thesis using u(1) by blast
qed

lemma vprintf_extend_case:
  assumes pre: "vprintf_pre log t s" and tail: "tail_holds t s"
    and nofit: "\<not> int (length t) \<le> SBUF_FREESPACE s"
  defines "add \<equiv> int (length t) - SBUF_FREESPACE s"
  shows "\<exists>r u. sbuf_extend mal (to_int32 add) s = Inr (r, u) \<and>
    (r \<noteq> 0 \<longrightarrow> vprintf_post log mal t s u) \<and>
    (r = 0 \<longrightarrow> vprintf_pre log t u \<and> vprintf_fuel t u < vprintf_fuel t s \<and>
      (\<forall>s'. vprintf_post log mal t u s' \<longrightarrow> vprintf_post log mal t s s'))"
proof -
  have ok: "sb_ok s" using pre by (simp add: vprintf_pre_def)
  have a: "0 < add" "s_size s + add < 2 ^ 31" "to_int32 add = add"
    using pre nofit by (auto simp: vprintf_pre_def add_def sb_ok_def SBUF_FREESPACE_def)
  show ?thesis
  proof (cases "can_grow mal add s")
    case False
    then have "vprintf_post log mal t s s"
      using pre tail nofit by (simp add: vprintf_post_def vprintf_pre_def add_def)
    with sbuf_extend_spec(1) [OF ok a(1,2) False] show ?thesis by (simp add: a(3))
  next
    case True
    from sbuf_extend_spec(2) [OF ok a(1,2) True] obtain u where
      u: "sbuf_extend mal add s = Inr (0, u)" "sb_ok u" "sb_same s u" "s_size s + add \<le> s_size u"
        "sb_text u = sb_text s" "s_len u = s_len s" "s_error u = s_error s"
        "s_drain_arg u = s_drain_arg s" "s_sect_len u = s_sect_len s" by auto
    have fits: "int (length t) \<le> SBUF_FREESPACE u"
      using u(4,6) by (simp add: SBUF_FREESPACE_def add_def)
    have "vprintf_pre log t u" using pre fits u(2,3,7)
      by (simp add: vprintf_pre_def sb_drain_ok_def sb_same_def)
    moreover have "vprintf_fuel t u < vprintf_fuel t s" using fits nofit by (simp add: vprintf_fuel_def)
    moreover have "vprintf_post log mal t s s'" if "vprintf_post log mal t u s'" for s'
      using that u(3,5,8,9) fits True
      by (auto simp: vprintf_post_def sb_same_def sb_out_def add_def can_grow_def)
    ultimately show ?thesis using u(1) a(3) by (intro exI [of _ 0] exI [of _ u]) simp
  qed
qed

lemma vprintf_loop_enough:
  assumes "vprintf_pre log t s" and "vprintf_fuel t s \<le> fuel"
  shows "\<exists>s'. vprintf_loop fuel mal (Some t) s = Inr (int (length t), s') \<and>
    vprintf_post log mal t s s'"
  using assms
proof (induction fuel arbitrary: s)
  case 0
  then show ?case by (simp add: vprintf_fuel_def split: if_splits)
next
  case (Suc fuel)
  from vprintf_round [OF Suc.prems(1), of fuel mal] obtain s1 where pre: "vprintf_pre log t s1"
    and pr: "printed t s s1" and run: "vprintf_loop (Suc fuel) mal (Some t) s =
      (if int (length t) \<le> SBUF_FREESPACE s1 then Inr (int (length t), s1)
       else bind_m
         (if s_drain_func s1 \<noteq> None \<and> s_len s1 > 0 then sbuf_drain
          else sbuf_extend mal (to_int32 (int (length t) - SBUF_FREESPACE s1)))
         (\<lambda>error. if error = 0 then vprintf_loop fuel mal (Some t) else return_m (int (length t))) s1)" .
  have tail: "tail_holds t s1" using pr by (simp add: printed_def)
  show ?case
  proof (cases "int (length t) \<le> SBUF_FREESPACE s1")
    case True
    then have "vprintf_post log mal t s1 s1"
      using pre tail by (simp add: vprintf_post_def vprintf_pre_def)
    with True run pr show ?thesis by (simp add: vprintf_post_printed)
  next
    case nofit: False
    let ?step = "if s_drain_func s1 \<noteq> None \<and> s_len s1 > 0 then sbuf_drain
          else sbuf_extend mal (to_int32 (int (length t) - SBUF_FREESPACE s1))"
    have "\<exists>r u. ?step s1 = Inr (r, u) \<and> (r \<noteq> 0 \<longrightarrow> vprintf_post log mal t s1 u) \<and>
      (r = 0 \<longrightarrow> vprintf_pre log t u \<and> vprintf_fuel t u < vprintf_fuel t s1 \<and>
        (\<forall>s'. vprintf_post log mal t u s' \<longrightarrow> vprintf_post log mal t s1 s'))"
      using vprintf_drain_case [OF pre tail nofit] vprintf_extend_case [OF pre tail nofit] by simp
    then obtain r u where u: "?step s1 = Inr (r, u)" "r \<noteq> 0 \<Longrightarrow> vprintf_post log mal t s1 u"
      "r = 0 \<Longrightarrow> vprintf_pre log t u \<and> vprintf_fuel t u < vprintf_fuel t s1 \<and>
        (\<forall>s'. vprintf_post log mal t u s' \<longrightarrow> vprintf_post log mal t s1 s')" by blast
    show ?thesis
    proof (cases "r = 0")
      case True
      with u(3) Suc.prems(2) pr have "vprintf_pre log t u" "vprintf_fuel t u \<le> fuel"
        by (auto simp: vprintf_fuel_printed)
      from Suc.IH [OF this] run nofit u True pr show ?thesis
        by (auto simp: bind_m_Inr vprintf_post_printed)
    next
      case False
      with run nofit u pr show ?thesis by (simp add: bind_m_Inr return_m_def vprintf_post_printed)
    qed
  qed
qed

text \<open>After the loop, the printed bytes are counted in.\<close>

lemma sbuf_vprintf_finish:
  assumes ok: "sb_ok s" and tail: "tail_holds t s"
  defines "n \<equiv> (if SBUF_FREESPACE s < int (length t) then SBUF_FREESPACE s else int (length t))"
  shows "sb_ok (s\<lparr>s_len := s_len s + n\<rparr>)"
    and "sb_text (s\<lparr>s_len := s_len s + n\<rparr>) = sb_text s @ take (nat (SBUF_FREESPACE s)) t"
    and "0 \<le> n"
proof -
  from ok obtain b where b: "s_buf s = Some b" "int (length b) = s_size s" "0 \<le> s_len s"
    "s_len s < s_size s" "s_size s \<le> SB_LIMIT" "s_drain_func s \<noteq> None \<longrightarrow> 2 \<le> s_size s"
    by (rule sb_okE)
  then have f: "0 \<le> SBUF_FREESPACE s" by (simp add: SBUF_FREESPACE_def)
  then show n0: "0 \<le> n" by (simp add: n_def)
  show "sb_ok (s\<lparr>s_len := s_len s + n\<rparr>)"
    using b n0 by (auto simp: sb_ok_def n_def SBUF_FREESPACE_def)
  have n: "nat n = min (nat (SBUF_FREESPACE s)) (length t)" using f by (auto simp: n_def min_def)
  have "nat (s_len s + n) = nat (s_len s) + nat n" using b(3) n0 by (rule nat_add_distrib)
  then show "sb_text (s\<lparr>s_len := s_len s + n\<rparr>) = sb_text s @ take (nat (SBUF_FREESPACE s)) t"
    using tail b(1) by (simp add: sb_text_def take_add n tail_holds_def)
qed

lemma sb_text_upd [simp]:
  "sb_text (s\<lparr>s_error := e\<rparr>) = sb_text s" "sb_text (s\<lparr>s_sect_len := n\<rparr>) = sb_text s"
  "sb_text (s\<lparr>s_drain_func := f\<rparr>) = sb_text s"
  by (simp_all add: sb_text_def)

lemma sb_ok_upd [simp]:
  "sb_ok (s\<lparr>s_error := e\<rparr>) = sb_ok s" "sb_ok (s\<lparr>s_sect_len := n\<rparr>) = sb_ok s"
  by (simp_all add: sb_ok_def)

lemma sb_flag_upd [simp]:
  "sb_ok (SBUF_SETFLAG f s) = sb_ok s" "sb_ok (SBUF_CLEARFLAG f s) = sb_ok s"
  "sb_text (SBUF_SETFLAG f s) = sb_text s" "sb_text (SBUF_CLEARFLAG f s) = sb_text s"
  by (simp_all add: sb_ok_def sb_text_def)

lemma sbuf_vprintf_spec:
  assumes pre: "vprintf_pre log t s" and fuel: "vprintf_fuel t s \<le> fuel"
  shows "\<exists>s' n. sbuf_vprintf fuel mal (Some t) s = Inr (if s_error s' = 0 then 0 else -1, s') \<and>
    sb_ok s' \<and> sb_same s s' \<and> sb_out log s' = sb_out log s @ take n t \<and>
    (s_drain_func s = None \<longrightarrow>
      n = (if int (length t) \<le> SBUF_FREESPACE s \<or> can_grow mal (int (length t) - SBUF_FREESPACE s) s
           then length t else nat (SBUF_FREESPACE s)) \<and>
      (s_error s' \<noteq> 0 \<longleftrightarrow> \<not> SBUF_CANEXTEND s \<and> SBUF_FREESPACE s \<le> int (length t)))"
proof -
  have err: "s_error s = 0" and ok: "sb_ok s" using pre by (simp_all add: vprintf_pre_def)
  from vprintf_loop_enough [OF pre fuel, of mal] obtain u where
    run: "vprintf_loop fuel mal (Some t) s = Inr (int (length t), u)"
    and post: "vprintf_post log mal t s u" by blast
  let ?n = "if SBUF_FREESPACE u < int (length t) then SBUF_FREESPACE u else int (length t)"
  let ?v = "u\<lparr>s_len := s_len u + ?n\<rparr>"
  let ?w = "if SBUF_ISSECTION u then ?v\<lparr>s_sect_len := s_sect_len u + ?n\<rparr> else ?v"
  let ?x = "if \<not> SBUF_HASROOM ?w \<and> \<not> SBUF_CANEXTEND u then ?w\<lparr>s_error := ENOMEM\<rparr> else ?w"
  have oku: "sb_ok u" and tail: "tail_holds t u" using post by (simp_all add: vprintf_post_def)
  note fin = sbuf_vprintf_finish [OF oku tail]
  have "sbuf_vprintf fuel mal (Some t) s = Inr (if s_error ?x = 0 then 0 else -1, ?x)"
    using err run by (simp add: sbuf_vprintf_def bind_m_Inr Let_def)
  moreover have "sb_ok ?x" using fin(1) by simp
  moreover have "sb_same s ?x" using post by (auto simp: vprintf_post_def sb_same_def)
  moreover have "sb_out log ?x = sb_out log s @ take (nat (SBUF_FREESPACE u)) t"
    using fin(2) post by (simp add: vprintf_post_def sb_out_def)
  moreover have "s_drain_func s = None \<longrightarrow> (s_error ?x \<noteq> 0 \<longleftrightarrow>
      \<not> SBUF_CANEXTEND s \<and> SBUF_FREESPACE s \<le> int (length t))"
    using post by (auto simp: vprintf_post_def sb_same_def SBUF_HASROOM_def SBUF_FREESPACE_def
        ENOMEM_def split: if_splits)
  moreover have "s_drain_func s = None \<longrightarrow> take (nat (SBUF_FREESPACE u)) t =
      take (if int (length t) \<le> SBUF_FREESPACE s \<or> can_grow mal (int (length t) - SBUF_FREESPACE s) s
           then length t else nat (SBUF_FREESPACE s)) t"
    using post by (auto simp: vprintf_post_def)
  ultimately show ?thesis
    by (cases "s_drain_func s") fastforce+
qed

end
