(* ===== verification/SbufRuns.thy ===== *)
theory SbufRuns
  imports SbufProps
begin

text \<open>
  The operations that shorten, finish and structure a buffer, and runs of operations: a
  well-formed buffer stays well-formed and no operation leaves its storage.
\<close>

section \<open>Trimming, clearing, positioning\<close>

lemma sb_text_snoc:
  assumes "sb_ok s" and "0 < s_len s"
  shows "sb_text s = sb_text (s\<lparr>s_len := s_len s - 1\<rparr>) @ [the (s_buf s) ! nat (s_len s - 1)]"
proof -
  from assms obtain b where "s_buf s = Some b" "nat (s_len s - 1) < length b"
    by (auto simp: sb_ok_def)
  moreover have "nat (s_len s) = Suc (nat (s_len s - 1))" using assms(2) by simp
  ultimately show ?thesis by (simp add: sb_text_def take_Suc_conv_app_nth)
qed

lemma trim_loop_spec:
  "sb_ok s \<Longrightarrow> n = nat (s_len s) \<Longrightarrow> \<exists>s'. trim_loop n s = Inr ((), s') \<and> sb_ok s' \<and> sb_same s s' \<and>
     s_error s' = s_error s \<and> sb_text s' = rev (dropWhile isspace (rev (sb_text s)))"
proof (induction n arbitrary: s)
  case 0
  then show ?case by (auto simp: return_m_def sb_text_def)
next
  case (Suc n)
  from Suc.prems(1) obtain b where b: "s_buf s = Some b" "int (length b) = s_size s" "0 \<le> s_len s"
    "s_len s < s_size s" "s_size s \<le> SB_LIMIT" "s_drain_func s \<noteq> None \<longrightarrow> 2 \<le> s_size s"
    by (rule sb_okE)
  have pos: "0 < s_len s" and n: "n = nat (s_len s - 1)" using Suc.prems(2) by auto
  have tx: "sb_text s = sb_text (s\<lparr>s_len := s_len s - 1\<rparr>) @ [b ! nat (s_len s - 1)]"
    using sb_text_snoc [OF Suc.prems(1) pos] b(1) by simp
  have inb: "\<not> length b \<le> nat (s_len s - 1)" using b pos by auto
  show ?case
  proof (cases "isspace (b ! nat (s_len s - 1))")
    case False
    then show ?thesis using Suc.prems(1) b(1) inb pos tx by (auto simp: Let_def)
  next
    case True
    let ?s = "s\<lparr>s_len := s_len s - 1\<rparr>"
    let ?t = "if SBUF_ISSECTION ?s then ?s\<lparr>s_sect_len := s_sect_len ?s - 1\<rparr> else ?s"
    have okt: "sb_ok ?t" using b pos by (auto simp: sb_ok_def)
    have nt: "n = nat (s_len ?t)" using n by simp
    from Suc.IH [OF okt nt] obtain s' where "trim_loop n ?t = Inr ((), s')" "sb_ok s'"
      "sb_same ?t s'" "s_error s' = s_error ?t"
      "sb_text s' = rev (dropWhile isspace (rev (sb_text ?t)))" by blast
    moreover have "sb_text ?t = sb_text ?s" by simp
    moreover have "sb_same s ?t" by (auto simp: sb_same_def)
    ultimately show ?thesis
      using b(1) inb pos True tx by (auto simp: Let_def sb_same_def split: if_splits)
  qed
qed

lemma sbuf_trim_spec:
  assumes "sb_ok s" and "s_error s = 0"
  shows "\<exists>s'. sbuf_trim s = Inr (0, s') \<and> sb_ok s' \<and> sb_same s s' \<and> s_error s' = 0 \<and>
    sb_text s' = rev (dropWhile isspace (rev (sb_text s)))"
  using trim_loop_spec [OF assms(1) refl] assms(2)
  by (auto simp: sbuf_trim_def seq_m_def return_m_def)

lemma sbuf_clear_ok: "sb_ok s \<Longrightarrow> \<exists>s'. sbuf_clear s = Inr ((), s') \<and> sb_ok s' \<and> sb_same s s' \<and>
    s_error s' = 0 \<and> sb_text s' = []"
  by (auto simp: sbuf_clear_def modify_m_def sb_ok_def sb_same_def sb_text_def)

lemma sbuf_setpos_ok: "sb_ok s \<Longrightarrow> \<exists>s'. sbuf_setpos pos s =
    Inr (if 0 \<le> pos \<and> pos \<le> s_len s then 0 else -1, s') \<and> sb_ok s' \<and> sb_same s s' \<and>
    s_error s' = s_error s \<and>
    sb_text s' = (if 0 \<le> pos \<and> pos \<le> s_len s then take (nat pos) (sb_text s) else sb_text s)"
  by (auto simp: sbuf_setpos_def sb_ok_def sb_same_def sb_text_def min_def)

section \<open>Sections\<close>

lemma pad_loop_ok:
  "sb_ok s \<Longrightarrow> sb_drain_ok log s \<Longrightarrow>
   \<exists>s'. pad_loop mal c n s = Inr ((), s') \<and> sb_ok s' \<and> sb_same s s'"
proof (induction n arbitrary: s)
  case 0
  then show ?case by (auto simp: return_m_def)
next
  case (Suc n)
  show ?case
  proof (cases "s_error s = 0")
    case False
    with Suc.prems show ?thesis by auto
  next
    case True
    from sbuf_put_byte_spec [OF Suc.prems True, of mal c] obtain t where
      t: "sbuf_put_byte mal c s = Inr ((), t)" "sb_ok t" "sb_same s t" by blast
    moreover have "sb_drain_ok log t" using Suc.prems(2) t(3) by (simp add: sb_drain_ok_def sb_same_def)
    ultimately show ?thesis using Suc.IH [of t] True
      by (auto simp: seq_m_def intro: sb_same_trans)
  qed
qed

section \<open>Runs of operations\<close>

datatype sbuf_call =
    Bcat "byte list"
  | Bcpy "byte list"
  | Cat "byte list"
  | Cpy "byte list"
  | Putc byte
  | Printf "byte list"
  | Setpos int
  | Trim
  | Clear
  | Start_section
  | End_section int "64 word" byte

text \<open>
  One call with the allocator as it is during the call; formatted output gets the fuel that
  \<open>vprintf_loop_enough\<close> asks for, the length of the text and two.
\<close>

fun sbuf_step :: "(nat \<Rightarrow> bool) \<Rightarrow> sbuf_call \<Rightarrow> ('d sbuf, unit) op" where
  "sbuf_step mal (Bcat bs) = seq_m (sbuf_bcat mal bs) (return_m ())"
| "sbuf_step mal (Bcpy bs) = seq_m (sbuf_bcpy mal bs) (return_m ())"
| "sbuf_step mal (Cat str) = seq_m (sbuf_cat mal str) (return_m ())"
| "sbuf_step mal (Cpy str) = seq_m (sbuf_cpy mal str) (return_m ())"
| "sbuf_step mal (Putc c) = seq_m (sbuf_putc mal c) (return_m ())"
| "sbuf_step mal (Printf t) =
     (\<lambda>s. seq_m (sbuf_printf (nat (s_len s) + 2) mal (Some t)) (return_m ()) s)"
| "sbuf_step mal (Setpos pos) = seq_m (sbuf_setpos pos) (return_m ())"
| "sbuf_step mal Trim = seq_m sbuf_trim (return_m ())"
| "sbuf_step mal Clear = sbuf_clear"
| "sbuf_step mal Start_section = seq_m (sbuf_start_section True) (return_m ())"
| "sbuf_step mal (End_section old_len pad c) =
     seq_m (sbuf_end_section mal old_len pad c) (return_m ())"

text \<open>
  What the caller owes: C strings are terminated, and a formatted piece is shorter than 4096
  bytes, so that the sizes stay within an \<open>int\<close>.
\<close>

fun call_ok :: "sbuf_call \<Rightarrow> bool" where
  "call_ok (Cat str) = (0 \<in> set str)"
| "call_ok (Cpy str) = (0 \<in> set str)"
| "call_ok (Printf t) = (length t < 4096)"
| "call_ok _ = True"

abbreviation sb_inv :: "('d option \<Rightarrow> byte list) \<Rightarrow> 'd sbuf \<Rightarrow> bool" where
  "sb_inv log s \<equiv> sb_ok s \<and> sb_drain_ok log s"

lemma sb_inv_same: "sb_same s s' \<Longrightarrow> sb_drain_ok log s \<Longrightarrow> sb_drain_ok log s'"
  by (simp add: sb_drain_ok_def sb_same_def)

lemma sbuf_bcat_inv:
  assumes "sb_inv log s"
  shows "\<exists>r s'. sbuf_bcat mal bs s = Inr (r, s') \<and> sb_inv log s'"
proof (cases "s_error s = 0")
  case True
  then have "\<not> has_error s" by (simp add: has_error_def)
  with sink.bcat_prefix [where s = s and log = log and ?s0.0 = s and mal = mal and bs = bs] assms True show ?thesis
    by (auto simp: sbuf_bcat_def)
qed (use assms in \<open>simp add: sbuf_bcat_def\<close>)

lemma sbuf_printf_inv:
  assumes "sb_inv log s" and "length t < 4096"
  shows "\<exists>r s'. sbuf_printf (nat (s_len s) + 2) mal (Some t) s = Inr (r, s') \<and> sb_inv log s'"
proof (cases "s_error s = 0")
  case True
  have "vprintf_pre log t s" using assms True by (auto simp: vprintf_pre_def sb_ok_def)
  moreover have "vprintf_fuel t s \<le> nat (s_len s) + 2" by (simp add: vprintf_fuel_def)
  ultimately show ?thesis
    using sbuf_vprintf_spec [of log t s "nat (s_len s) + 2" mal] assms(1)
    by (auto simp: sbuf_printf_def dest: sb_inv_same)
next
  case False
  with assms show ?thesis by (simp add: sbuf_printf_def sbuf_vprintf_def)
qed

lemma sbuf_step_inv:
  assumes inv: "sb_inv log s" and "call_ok c"
  shows "\<exists>s'. sbuf_step mal c s = Inr ((), s') \<and> sb_inv log s'"
proof -
  have ok: "sb_ok s" and dr: "sb_drain_ok log s" using inv by auto
  from sbuf_clear_ok [OF ok] obtain s0 where s0: "sbuf_clear s = Inr ((), s0)" "sb_inv log s0"
    using sb_inv_same [OF _ dr] by blast
  show ?thesis
  proof (cases c)
    case (Bcat bs)
    with sbuf_bcat_inv [OF inv, of mal bs] show ?thesis by (auto simp: seq_m_def return_m_def)
  next
    case (Bcpy bs)
    with sbuf_bcat_inv [OF s0(2), of mal bs] s0(1) show ?thesis
      by (auto simp: sbuf_bcpy_def seq_m_def return_m_def)
  next
    case (Cat str)
    with sbuf_bcat_inv [OF inv, of mal "takeWhile (\<lambda>c. c \<noteq> 0) str"] assms(2) show ?thesis
      by (auto simp: seq_m_def return_m_def sbuf_cat_bcat)
  next
    case (Cpy str)
    with sbuf_bcat_inv [OF s0(2), of mal "takeWhile (\<lambda>c. c \<noteq> 0) str"] s0(1) assms(2)
    show ?thesis by (auto simp: sbuf_cpy_def seq_m_def return_m_def sbuf_cat_bcat)
  next
    case (Putc b)
    show ?thesis
    proof (cases "s_error s = 0")
      case True
      from sbuf_put_byte_spec [OF ok dr True, of mal b] Putc sb_inv_same [OF _ dr] show ?thesis
        by (auto simp: sbuf_putc_def seq_m_def return_m_def gets_m_def)
    next
      case False
      with Putc inv show ?thesis
        by (auto simp: sbuf_putc_def sbuf_put_byte_def seq_m_def return_m_def gets_m_def)
    qed
  next
    case (Printf t)
    with sbuf_printf_inv [OF inv, of t mal] assms(2) show ?thesis
      by (auto simp: seq_m_def return_m_def)
  next
    case (Setpos pos)
    with sbuf_setpos_ok [OF ok, of pos] sb_inv_same [OF _ dr] show ?thesis
      by (auto simp: seq_m_def return_m_def)
  next
    case Trim
    show ?thesis
    proof (cases "s_error s = 0")
      case True
      from sbuf_trim_spec [OF ok True] Trim sb_inv_same [OF _ dr] show ?thesis
        by (auto simp: seq_m_def return_m_def)
    next
      case False
      with Trim inv show ?thesis by (simp add: sbuf_trim_def seq_m_def return_m_def)
    qed
  next
    case Clear
    with s0 show ?thesis by simp
  next
    case Start_section
    with inv show ?thesis
      by (auto simp: sbuf_start_section_def seq_m_def return_m_def sb_drain_ok_def)
  next
    case (End_section old_len pad b)
    let ?n = "nat (section_padding (s_sect_len s) pad)"
    from pad_loop_ok [OF ok dr, of mal b ?n] obtain u where
      "pad_loop mal b ?n s = Inr ((), u)" "sb_ok u" "sb_drain_ok log u"
      using sb_inv_same [OF _ dr] by blast
    then obtain t where "(if pad > 1 then pad_loop mal b ?n s else Inr ((), s)) = Inr ((), t)"
      "sb_ok t" "sb_drain_ok log t" using inv by (cases "pad > 1") auto
    with End_section show ?thesis
      by (auto simp: sbuf_end_section_def seq_m_def return_m_def Let_def sb_drain_ok_def)
  qed
qed

end
