(* ===== verification/SbufClaims.thy ===== *)
theory SbufClaims
  imports SbufRuns
begin

text \<open>
  Sections and finishing, and the properties of the string buffers, each with an evaluation on a
  concrete buffer where it has hypotheses.
\<close>

section \<open>Sections\<close>

lemma round_up_facts:
  assumes "(1::int) < p"
  shows "n \<le> (n + (p - 1)) div p * p" and "(n + (p - 1)) div p * p - n < p"
    and "(n + (p - 1)) div p * p - n = (- n) mod p"
proof -
  have m: "(n + (p - 1)) div p * p = (n + (p - 1)) - (n + (p - 1)) mod p"
    by (simp add: minus_mod_eq_div_mult)
  have "(n + (p - 1)) mod p < p" and "0 \<le> (n + (p - 1)) mod p" using assms by simp_all
  with m show a: "n \<le> (n + (p - 1)) div p * p" and b: "(n + (p - 1)) div p * p - n < p" by linarith+
  have "(- n) mod p = ((n + (p - 1)) div p * p - n) mod p"
    using mod_mult_self1 [of "- n" "(n + (p - 1)) div p" p] by (simp add: algebra_simps)
  also have "\<dots> = (n + (p - 1)) div p * p - n" using a b by (intro mod_pos_pos_trivial) auto
  finally show "(n + (p - 1)) div p * p - n = (- n) mod p" by simp
qed

lemma section_padding_eq:
  assumes "0 \<le> n" and "1 < uint pad" and "n + uint pad < 2 ^ 63"
  shows "section_padding n pad = (- n) mod uint pad"
proof -
  let ?p = "uint pad"
  let ?m = "(n + (?p - 1)) div ?p * ?p"
  let ?w = "(word_of_int n + (pad - 1)) div pad * pad - word_of_int n :: 64 word"
  note m = round_up_facts [OF assms(2), of n]
  have n: "uint (word_of_int n :: 64 word) = n" using assms by (simp add: uint_word_of_int)
  have p: "uint (pad - 1) = ?p - 1" using assms by (simp add: uint_word_ariths)
  have "uint (word_of_int n + (pad - 1)) = n + (?p - 1)"
    using assms by (simp add: uint_word_ariths n p)
  then have "uint ((word_of_int n + (pad - 1)) div pad * pad) = ?m"
    using m(1,2) assms by (simp add: uint_word_ariths uint_div)
  then have w: "uint ?w = ?m - n"
    using m(1,2) assms by (simp add: uint_word_ariths n)
  have "section_padding n pad = ?m - n"
    using m(1,2) assms w unfolding section_padding_def
    by (simp add: sint_uint signed_take_bit_int_eq_self)
  then show ?thesis using m(3) by simp
qed

text \<open>Padding is appending, byte by byte.\<close>

lemma pad_loop_bcat:
  "s_error s = 0 \<Longrightarrow> bcat_loop (sbuf_put_byte mal) has_error (replicate n c) s = Inr (r, s') \<Longrightarrow>
   pad_loop mal c n s = Inr ((), s')"
proof (induction n arbitrary: s)
  case 0
  then show ?case by (simp add: return_m_def)
next
  case (Suc n)
  from Suc.prems(2) obtain t where t: "sbuf_put_byte mal c s = Inr ((), t)"
    "(if has_error t then Inr (-1, t)
      else bcat_loop (sbuf_put_byte mal) has_error (replicate n c) t) = Inr (r, s')"
    by (auto elim: seq_m_InrE)
  show ?case
  proof (cases "has_error t")
    case True
    with t have "s' = t" by simp
    moreover have "pad_loop mal c n t = Inr ((), t)"
      using True by (cases n) (auto simp: has_error_def return_m_def)
    ultimately show ?thesis using Suc.prems(1) t(1) by (simp add: seq_m_Inr)
  next
    case False
    then have "s_error t = 0" by (simp add: has_error_def)
    with Suc.IH [of t] t False Suc.prems(1) show ?thesis by (simp add: seq_m_Inr)
  qed
qed

text \<open>Inside a section, \<open>s_sect_len\<close> counts what was accepted since the section began.\<close>

interpretation section_sink: byte_sink "sbuf_put_byte mal" has_error "sb_out log"
  "\<lambda>s. sb_ok s \<and> sb_drain_ok log s \<and> SBUF_ISSECTION s \<and>
       s_sect_len s = K + int (length (sb_out log s))" for mal log K
proof unfold_locales
  fix s :: "'a sbuf" and c
  assume "sb_ok s \<and> sb_drain_ok log s \<and> SBUF_ISSECTION s \<and>
       s_sect_len s = K + int (length (sb_out log s))" and "\<not> has_error s"
  with sbuf_put_byte_spec [of s log mal c] show "\<exists>s'. sbuf_put_byte mal c s = Inr ((), s') \<and>
      (sb_ok s' \<and> sb_drain_ok log s' \<and> SBUF_ISSECTION s' \<and>
       s_sect_len s' = K + int (length (sb_out log s'))) \<and>
      sb_out log s' = sb_out log s @ (if has_error s' then [] else [c])"
    by (fastforce simp: has_error_def sb_drain_ok_def sb_same_def)
qed

text \<open>Appending to an extensible buffer in a section that has room for it.\<close>

definition sect_at :: "int \<Rightarrow> 'd sbuf \<Rightarrow> bool" where
  "sect_at K s \<longleftrightarrow> auto_ok s \<and> \<not> has_error s \<and> SBUF_ISSECTION s \<and>
     s_sect_len s = K + int (length (sb_text s))"

lemma sect_append:
  assumes "sect_at K s" and "s_len s + int (length bs) < SB_LIMIT"
  shows "\<exists>s'. bcat_loop (sbuf_put_byte (\<lambda>_. True)) has_error bs s = Inr (0, s') \<and> sect_at K s' \<and>
    sb_text s' = sb_text s @ bs"
proof -
  have a: "auto_ok s" "\<not> has_error s" using assms(1) by (auto simp: sect_at_def)
  from auto_sink.bcat_exact [OF this, of bs] assms(2) obtain s' where
    s': "bcat_loop (sbuf_put_byte (\<lambda>_. True)) has_error bs s = Inr (0, s')" "auto_ok s'"
      "\<not> has_error s'" "sb_text s' = sb_text s @ bs"
    by (auto simp: not_less le_nat_iff split: if_splits)
  have "sb_ok s \<and> sb_drain_ok (\<lambda>_. []) s \<and> SBUF_ISSECTION s \<and>
      s_sect_len s = K + int (length (sb_out (\<lambda>_. []) s))"
    using assms(1) by (auto simp: sect_at_def auto_ok_def sb_drain_ok_def sb_out_nil)
  from section_sink.bcat_prefix [OF this a(2), where mal = "\<lambda>_. True" and bs = bs] s'(1)
  have "SBUF_ISSECTION s' \<and> s_sect_len s' = K + int (length (sb_text s'))"
    by (auto simp: sb_out_nil)
  with s' show ?thesis by (auto simp: sect_at_def)
qed

text \<open>A section that starts, is filled and ends, each result of interest kept.\<close>

definition one_section :: "byte list \<Rightarrow> 64 word \<Rightarrow> byte \<Rightarrow> ('d sbuf, int) op" where
  "one_section bs pad c =
     bind_m (sbuf_start_section True) (\<lambda>old.
     seq_m (sbuf_bcat (\<lambda>_. True) bs)
     (sbuf_end_section (\<lambda>_. True) (the old) pad c))"

lemma start_section_sect_at:
  assumes "auto_ok s" and "s_error s = 0" and "\<not> SBUF_ISSECTION s" and "s_sect_len s = 0"
  shows "\<exists>s'. sbuf_start_section True s = Inr (Some (-1), s') \<and> sect_at (- s_len s) s' \<and>
    sb_text s' = sb_text s \<and> s_len s' = s_len s"
  using assms length_sb_text [of s]
  by (auto simp: sbuf_start_section_def sect_at_def auto_ok_def has_error_def)

lemma sect_at_len: "sect_at K s \<Longrightarrow> s_len s = int (length (sb_text s))"
  by (simp add: sect_at_def auto_ok_def length_sb_text)

lemma sect_pad:
  assumes "sect_at K s" and "s_len s + int n < SB_LIMIT"
  shows "\<exists>s'. pad_loop (\<lambda>_. True) c n s = Inr ((), s') \<and> sect_at K s' \<and>
    sb_text s' = sb_text s @ replicate n c"
proof -
  from sect_append [OF assms(1), of "replicate n c"] assms(2) obtain s' where
    s': "bcat_loop (sbuf_put_byte (\<lambda>_. True)) has_error (replicate n c) s = Inr (0, s')"
      "sect_at K s'" "sb_text s' = sb_text s @ replicate n c" by auto
  moreover have "s_error s = 0" using assms(1) by (simp add: sect_at_def has_error_def)
  ultimately show ?thesis using pad_loop_bcat [of s] by blast
qed

lemma one_section_spec:
  assumes s: "auto_ok s" "s_error s = 0" "\<not> SBUF_ISSECTION s" "s_sect_len s = 0"
    and pad: "1 < uint pad" and room: "s_len s + int (length bs) + uint pad < SB_LIMIT"
  defines "k \<equiv> nat ((- int (length bs)) mod uint pad)"
  shows "\<exists>s'. one_section bs pad c s = Inr (int (length bs + k), s') \<and> sb_ok s' \<and>
    \<not> SBUF_ISSECTION s' \<and> s_sect_len s' = 0 \<and> s_error s' = 0 \<and>
    sb_text s' = sb_text s @ bs @ replicate k c"
proof -
  from start_section_sect_at [OF s] obtain a where
    a: "sbuf_start_section True s = Inr (Some (-1), a)" "sect_at (- s_len s) a"
      "sb_text a = sb_text s" "s_len a = s_len s" by blast
  have pos: "0 \<le> s_len s" using s(1) by (simp add: auto_ok_def sb_ok_def)
  have "s_len a + int (length bs) < SB_LIMIT" using room a(4) pad by linarith
  from sect_append [OF a(2) this] obtain b where
    b: "bcat_loop (sbuf_put_byte (\<lambda>_. True)) has_error bs a = Inr (0, b)" "sect_at (- s_len s) b"
      "sb_text b = sb_text s @ bs" using a(3) by auto
  have lens: "int (length (sb_text s)) = s_len s" using s(1) by (simp add: auto_ok_def length_sb_text)
  have sl: "s_sect_len b = int (length bs)" using b(2,3) lens by (simp add: sect_at_def)
  have k: "section_padding (s_sect_len b) pad = int k" "int k < uint pad"
    using section_padding_eq [of "s_sect_len b" pad] pad room pos sl by (simp_all add: k_def)
  have "s_len b = s_len s + int (length bs)" using sect_at_len [OF b(2)] b(3) lens by simp
  then have "s_len b + int k < SB_LIMIT" using room k(2) by simp
  from sect_pad [OF b(2) this, of c] obtain d where
    d: "pad_loop (\<lambda>_. True) c k b = Inr ((), d)" "sect_at (- s_len s) d"
      "sb_text d = sb_text s @ bs @ replicate k c" using b(3) by auto
  have "s_error a = 0" using a(2) by (simp add: sect_at_def has_error_def)
  moreover have "1 < pad" using pad by (simp add: word_less_def)
  moreover have "s_sect_len d = int (length bs + k)" using d(2,3) lens by (simp add: sect_at_def)
  ultimately show ?thesis using a(1) b(1) d k(1)
    by (simp add: one_section_def bind_m_Inr seq_m_Inr sbuf_bcat_def sbuf_end_section_def Let_def)
      (simp add: sect_at_def auto_ok_def has_error_def)
qed

section \<open>Storage that cannot grow\<close>

text \<open>Without growth a buffer is a sink with the room it has, whatever its flags say.\<close>

interpretation stuck_sink: bounded_sink "sbuf_put_byte (\<lambda>_. False)" has_error sb_text
  "\<lambda>s. sb_ok s \<and> s_drain_func s = None" "\<lambda>s. nat (SBUF_FREESPACE s)"
proof unfold_locales
  fix s :: "'a sbuf" and c
  assume "sb_ok s \<and> s_drain_func s = None" and "\<not> has_error s"
  with put_byte_undrained [of s "\<lambda>_. False" c]
  show "\<exists>s'. sbuf_put_byte (\<lambda>_. False) c s = Inr ((), s') \<and> (sb_ok s' \<and> s_drain_func s' = None) \<and>
      sb_text s' = sb_text s @ (if has_error s' then [] else [c])"
    by (fastforce simp: sb_same_def)
next
  fix s s' :: "'a sbuf" and c
  assume "sb_ok s \<and> s_drain_func s = None" and "\<not> has_error s"
    and "sbuf_put_byte (\<lambda>_. False) c s = Inr ((), s')"
  with put_byte_undrained [of s "\<lambda>_. False" c]
  show "(has_error s' \<longleftrightarrow> nat (SBUF_FREESPACE s) = 0) \<and>
      nat (SBUF_FREESPACE s') = nat (SBUF_FREESPACE s) - 1"
    by (cases "has_error s'") (auto simp: can_grow_def SBUF_FREESPACE_def)
qed

lemma no_growth_fails:
  assumes "sb_ok s" and "s_drain_func s = None" and "\<not> has_error s"
    and "SBUF_FREESPACE s < int (length bs)"
  shows "\<exists>s'. bcat_loop (sbuf_put_byte (\<lambda>_. False)) has_error bs s = Inr (-1, s') \<and> has_error s'"
proof -
  have "0 \<le> SBUF_FREESPACE s" using assms(1) by (auto simp: sb_ok_def SBUF_FREESPACE_def)
  with assms(4) have "nat (SBUF_FREESPACE s) < length bs" by linarith
  with stuck_sink.bcat_exact [of s bs] assms(1-3) show ?thesis by auto
qed

section \<open>Finishing\<close>

lemma finish_loop_spec:
  "sb_inv log s \<Longrightarrow> s_drain_func s \<noteq> None \<Longrightarrow> nat (s_len s) \<le> fuel \<Longrightarrow>
   \<exists>s'. finish_loop fuel s = Inr ((), s') \<and> sb_inv log s' \<and> sb_same s s' \<and>
     sb_out log s' = sb_out log s \<and> (s_error s' = 0 \<longrightarrow> s_len s' = 0) \<and>
     (s_error s \<noteq> 0 \<longrightarrow> s_error s' = s_error s)"
proof (induction fuel arbitrary: s)
  case 0
  then show ?case by (auto simp: finish_loop.simps [of 0 s] sb_ok_def)
next
  case (Suc fuel)
  show ?case
  proof (cases "s_len s > 0 \<and> s_error s = 0")
    case False
    with Suc.prems show ?thesis by (auto simp: finish_loop.simps [of "Suc fuel" s] sb_ok_def)
  next
    case True
    then have live: "s_error s = 0" by simp
    from Suc.prems(1,2) obtain F where F: "s_drain_func s = Some F" "drain_ok log F"
      by (auto simp: sb_drain_ok_def)
    from sbuf_drain_spec [OF _ F] True Suc.prems(1) obtain r u where
      u: "sbuf_drain s = Inr (r, u)" "sb_ok u" "sb_same s u" "s_error u = r"
        "sb_out log u = sb_out log s" "r = 0 \<longrightarrow> s_len u < s_len s" by blast
    from u(4) have upd: "u\<lparr>s_error := r\<rparr> = u" by simp
    have run: "finish_loop (Suc fuel) s = finish_loop fuel u"
      using True u(1) upd by (simp add: finish_loop.simps [of "Suc fuel" s] bind_m_Inr)
    have inv: "sb_inv log u" "s_drain_func u \<noteq> None"
      using u(2,3) Suc.prems(1) F(1) by (auto simp: sb_drain_ok_def sb_same_def)
    show ?thesis
    proof (cases "r = 0")
      case False
      then have "finish_loop fuel u = Inr ((), u)" using u(4) by (simp add: finish_loop.simps [of fuel u])
      with run u inv False live show ?thesis by auto
    next
      case True
      with u(6) Suc.prems(3) have "nat (s_len u) \<le> fuel" by linarith
      from Suc.IH [OF inv this] run u(3,5) live show ?thesis by (auto simp: sb_same_def)
    qed
  qed
qed

lemma sbuf_finish_spec:
  assumes inv: "sb_inv log s" and fuel: "nat (s_len s) \<le> fuel"
  shows "\<exists>s' b. sbuf_finish fuel s = Inr (if s_error s' = 0 then 0 else -1, s') \<and>
    sb_inv log s' \<and> SBUF_ISFINISHED s' \<and> sb_out log s' = sb_out log s \<and>
    s_buf s' = Some b \<and> b ! nat (s_len s') = 0 \<and>
    (s_drain_func s \<noteq> None \<longrightarrow> s_error s' = 0 \<longrightarrow> s_len s' = 0) \<and>
    (s_drain_func s = None \<or> s_error s \<noteq> 0 \<longrightarrow> s_error s' = s_error s)"
proof -
  have "\<exists>t. (if s_drain_func s \<noteq> None then finish_loop fuel s else Inr ((), s)) = Inr ((), t) \<and>
      sb_inv log t \<and> sb_out log t = sb_out log s \<and>
      (s_drain_func s \<noteq> None \<longrightarrow> s_error t = 0 \<longrightarrow> s_len t = 0) \<and>
      (s_drain_func s = None \<or> s_error s \<noteq> 0 \<longrightarrow> s_error t = s_error s)"
    using finish_loop_spec [OF inv _ fuel] inv by (cases "s_drain_func s") auto
  then obtain t where t: "(if s_drain_func s \<noteq> None then finish_loop fuel s else Inr ((), s)) = Inr ((), t)"
    "sb_ok t" "sb_out log t = sb_out log s" "sb_drain_ok log t"
    "s_drain_func s \<noteq> None \<longrightarrow> s_error t = 0 \<longrightarrow> s_len t = 0"
    "s_drain_func s = None \<or> s_error s \<noteq> 0 \<longrightarrow> s_error t = s_error s"
    by (elim exE conjE) (rule that)
  have dr: "sb_drain_ok log (SBUF_SETFLAG SBUF_FINISHED (t\<lparr>s_buf := b\<rparr>))" for b
    using t(4) by (simp add: sb_drain_ok_def)
  from t(2) obtain b where b: "s_buf t = Some b" "int (length b) = s_size t" "0 \<le> s_len t"
    "s_len t < s_size t" "s_size t \<le> SB_LIMIT" "s_drain_func t \<noteq> None \<longrightarrow> 2 \<le> s_size t"
    by (rule sb_okE)
  let ?s = "SBUF_SETFLAG SBUF_FINISHED (t\<lparr>s_buf := Some (b[nat (s_len t) := 0])\<rparr>)"
  have i: "nat (s_len t) < length b" using b by simp
  have "sbuf_finish fuel s = Inr (if s_error ?s = 0 then 0 else -1, ?s)"
    using t(1) b(1,3) i by (simp add: sbuf_finish_def seq_m_def Let_def)
  moreover have "sb_ok ?s" using b by (simp add: sb_ok_def)
  moreover have "sb_out log ?s = sb_out log s"
    using t(3) b(1) by (simp add: sb_out_def sb_text_def)
  ultimately show ?thesis using t(5,6) dr i
    by (intro exI [of _ ?s] exI [of _ "b[nat (s_len t) := 0]"]) simp
qed

section \<open>Runs of calls\<close>

definition run_calls :: "((nat \<Rightarrow> bool) \<times> sbuf_call) list \<Rightarrow> ('d sbuf, unit) op" where
  "run_calls = each_m (\<lambda>(mal, c). sbuf_step mal c)"

lemma run_calls_inv:
  "sb_inv log s \<Longrightarrow> (\<forall>(mal, c) \<in> set cs. call_ok c) \<Longrightarrow>
   \<exists>s'. run_calls cs s = Inr ((), s') \<and> sb_inv log s'"
proof (induction cs arbitrary: s)
  case Nil
  then show ?case by (auto simp: run_calls_def return_m_def)
next
  case (Cons p cs)
  obtain mal c where p: "p = (mal, c)" by (cases p)
  from sbuf_step_inv [OF Cons.prems(1), of c mal] Cons.prems(2) p obtain t where
    t: "sbuf_step mal c s = Inr ((), t)" "sb_inv log t" by auto
  from Cons.IH [OF t(2)] Cons.prems(2) t(1) p show ?case
    by (auto simp: run_calls_def seq_m_Inr)
qed






section \<open>Fresh buffers\<close>

lemma double_until_16 [simp]: "double_until 16 0 = 16"
  by (simp add: double_until.simps [of 16 0])

lemma sbuf_new_auto_ok:
  "\<exists>s. sbuf_new_auto (\<lambda>_. True) = Some s \<and> auto_ok s \<and> s_error s = 0 \<and> s_len s = 0 \<and>
     sb_text s = [] \<and> s_sect_len s = 0 \<and> \<not> SBUF_ISSECTION s \<and> s_size s = 16"
  by (simp add: sbuf_new_auto_def sbuf_new_def sbuf_newbuf_def zero_sbuf_def SBMALLOC_pos Let_def
      sbuf_extendsize_def flag_consts SBUF_MAXEXTENDSIZE_def SBUF_MINEXTENDSIZE_def auto_ok_def
      sb_ok_def flag_preds SBUF_SETFLAG_def sb_text_def)

text \<open>Buffers to evaluate the properties on.\<close>

definition demo_fixed :: "byte list sbuf" where
  "demo_fixed = zero_sbuf\<lparr>s_buf := Some (replicate 8 0), s_size := 8\<rparr>"

definition demo_auto :: "byte list sbuf" where
  "demo_auto = zero_sbuf\<lparr>s_buf := Some (replicate 8 0), s_size := 8, s_flags := SBUF_AUTOEXTEND\<rparr>"

text \<open>A drain that takes at most three bytes at a time and appends them to its object.\<close>

definition demo_drain :: "byte list option \<Rightarrow> byte list \<Rightarrow> int \<times> byte list option" where
  "demo_drain d bs = (int (min 3 (length bs)), Some ((case d of None \<Rightarrow> [] | Some l \<Rightarrow> l) @ take 3 bs))"

definition demo_log :: "byte list option \<Rightarrow> byte list" where
  "demo_log d = (case d of None \<Rightarrow> [] | Some l \<Rightarrow> l)"

definition demo_drained :: "byte list sbuf" where
  "demo_drained = demo_fixed\<lparr>s_drain_func := Some demo_drain\<rparr>"

lemma demo_drain_ok: "drain_ok demo_log demo_drain"
  by (auto simp: drain_ok_def demo_drain_def demo_log_def min_def split: option.splits)

lemma demo_simps [simp]:
  "fixed_ok demo_fixed" "auto_ok demo_auto" "sb_ok demo_drained" "sb_ok demo_fixed"
  "sb_ok demo_auto" "s_error demo_fixed = 0" "s_error demo_auto = 0" "s_error demo_drained = 0"
  "sb_text demo_fixed = []" "sb_text demo_auto = []" "s_size demo_fixed = 8" "s_size demo_auto = 8"
  "s_len demo_fixed = 0" "s_len demo_auto = 0" "s_len demo_drained = 0"
  "s_drain_func demo_drained = Some demo_drain" "s_drain_func demo_auto = None"
  "s_drain_func demo_fixed = None" "s_drain_arg demo_drained = None" "sb_text demo_drained = []"
  "\<not> SBUF_ISSECTION demo_auto" "s_sect_len demo_auto = 0" "SBUF_CANEXTEND demo_auto"
  "SBUF_FREESPACE demo_fixed = 7" "SBUF_FREESPACE demo_auto = 7" "\<not> SBUF_CANEXTEND demo_fixed"
  "sb_drain_ok demo_log demo_drained" "sb_drain_ok log demo_auto" "sb_drain_ok log demo_fixed"
  by (simp_all add: demo_fixed_def demo_auto_def demo_drained_def fixed_ok_def auto_ok_def
      sb_ok_def zero_sbuf_def sb_text_def flag_preds flag_consts SBUF_FREESPACE_def sb_drain_ok_def
      demo_drain_ok)

section \<open>Properties\<close>



text \<open>C34: A fresh auto-extending buffer takes any string below the size limit: after one
  \<open>sbuf_bcat\<close> and \<open>sbuf_finish\<close> its data is the string and a NUL, and its length is the string's.\<close>

theorem sbuf_auto_round_trip:
  assumes "int (length bs) < SB_LIMIT"
  shows "\<exists>s s' s'' b. sbuf_new_auto (\<lambda>_. True) = Some s \<and>
    sbuf_bcat (\<lambda>_. True) bs s = Inr (0, s') \<and> sbuf_finish 0 s' = Inr (0, s'') \<and>
    sbuf_data s'' = Some b \<and> take (Suc (length bs)) b = bs @ [0] \<and>
    sbuf_len s'' = int (length bs) \<and> sbuf_done s'' \<noteq> 0"
proof -
  from sbuf_new_auto_ok obtain s :: "'a sbuf" where s: "sbuf_new_auto (\<lambda>_. True) = Some s"
    "auto_ok s" "s_error s = 0" "s_len s = 0" "sb_text s = []" by blast
  from auto_sink.bcat_exact [OF s(2), of bs] s assms obtain t where
    t: "sbuf_bcat (\<lambda>_. True) bs s = Inr (0, t)" "auto_ok t" "s_error t = 0" "sb_text t = bs"
    by (auto simp: sbuf_bcat_def has_error_def le_nat_iff not_less)
  then have l: "s_len t = int (length bs)" and nd: "s_drain_func t = None"
    using length_sb_text [of t] by (simp_all add: auto_ok_def)
  from t(2) obtain b where b: "s_buf t = Some b" "s_len t < int (length b)"
    by (auto simp: auto_ok_def sb_ok_def)
  have "take (length bs) b = bs" using t(4) b(1) l by (simp add: sb_text_def)
  then have "take (Suc (length bs)) (b[length bs := 0]) = bs @ [0]"
    using b(2) l by (simp add: list_update_take)
  then show ?thesis using s(1) t(1,3) b l nd
    by (simp add: sbuf_finish_def seq_m_Inr sbuf_data_def sbuf_len_def sbuf_done_def
        SBUF_SETFLAG_def flag_consts word_ao_dist)
qed

theorem sbuf_auto_round_trip_witness:
  "\<exists>s s' s'' b. sbuf_new_auto (\<lambda>_. True) = Some (s :: unit sbuf) \<and>
    sbuf_bcat (\<lambda>_. True) [120, 112, 99] s = Inr (0, s') \<and> sbuf_finish 0 s' = Inr (0, s'') \<and>
    sbuf_data s'' = Some b \<and> take 4 b = [120, 112, 99, 0] \<and> sbuf_len s'' = 3 \<and> sbuf_done s'' \<noteq> 0"
  using sbuf_auto_round_trip [of "[120, 112, 99]"] by (simp add: eval_nat_numeral)

text \<open>C33: On a fixed-length buffer \<open>sbuf_bcat\<close> stores exactly the bytes there is room for, leaves
  one byte for the NUL, and reports an error exactly when bytes were left out.\<close>

theorem sbuf_fixed_truncates:
  assumes "fixed_ok s" and "s_error s = 0"
  shows "\<exists>s'. sbuf_bcat mal bs s = Inr (if int (length bs) \<le> SBUF_FREESPACE s then 0 else -1, s') \<and>
    fixed_ok s' \<and> sb_text s' = sb_text s @ take (nat (SBUF_FREESPACE s)) bs \<and>
    (sbuf_error s' \<noteq> 0 \<longleftrightarrow> SBUF_FREESPACE s < int (length bs))"
proof -
  have "0 \<le> SBUF_FREESPACE s" using assms(1) by (auto simp: fixed_ok_def sb_ok_def SBUF_FREESPACE_def)
  with fixed_sink.bcat_exact [OF assms(1), of mal bs] assms(2) show ?thesis
    by (auto simp: has_error_def sbuf_bcat_def sbuf_error_def le_nat_iff nat_less_iff)
qed

theorem sbuf_fixed_truncates_witness:
  "\<exists>s'. sbuf_bcat (\<lambda>_. True) [1, 2, 3, 4, 5, 6, 7, 8, 9] demo_fixed = Inr (-1, s') \<and>
     sb_text s' = [1, 2, 3, 4, 5, 6, 7] \<and> sbuf_error s' \<noteq> 0"
  using sbuf_fixed_truncates [of demo_fixed "\<lambda>_. True" "[1, 2, 3, 4, 5, 6, 7, 8, 9]"] by auto

text \<open>C10: With a drain function, a string that is appended and finished is delivered in order
  after what was pending: all of it when \<open>sbuf_finish\<close> returns 0, otherwise a prefix is accepted
  and the buffer reports the error.\<close>

theorem sbuf_drain_delivers:
  assumes "sb_ok s" and "sb_drain_ok log s" and "s_drain_func s \<noteq> None" and "s_error s = 0"
  shows "\<exists>r s'. seq_m (sbuf_bcat mal bs) (\<lambda>t. sbuf_finish (nat (s_len t)) t) s = Inr (r, s') \<and>
    (r = 0 \<or> r = -1) \<and> (r = -1 \<longleftrightarrow> sbuf_error s' \<noteq> 0) \<and> SBUF_ISFINISHED s' \<and>
    (r = 0 \<longrightarrow> log (s_drain_arg s') = sb_out log s @ bs) \<and>
    (\<exists>n \<le> length bs. sb_out log s' = sb_out log s @ take n bs)"
proof -
  have "\<not> has_error s" using assms(4) by (simp add: has_error_def)
  with sink.bcat_prefix [where s = s and log = log and ?s0.0 = s and mal = mal and bs = bs] assms obtain n t where
    t: "n \<le> length bs" "sbuf_bcat mal bs s = Inr (if n < length bs then -1 else 0, t)"
      "sb_inv log t" "sb_same s t" "has_error t \<longleftrightarrow> n < length bs"
      "sb_out log t = sb_out log s @ take n bs"
    by (auto simp: sbuf_bcat_def)
  from sbuf_finish_spec [OF t(3) order_refl] obtain u where
    u: "sbuf_finish (nat (s_len t)) t = Inr (if s_error u = 0 then 0 else -1, u)" "sb_ok u"
      "SBUF_ISFINISHED u" "sb_out log u = sb_out log t"
      "s_drain_func t \<noteq> None \<longrightarrow> s_error u = 0 \<longrightarrow> s_len u = 0"
      "s_drain_func t = None \<or> s_error t \<noteq> 0 \<longrightarrow> s_error u = s_error t" by blast
  have "log (s_drain_arg u) = sb_out log s @ bs" if "s_error u = 0"
  proof -
    have "s_len u = 0" using that u(5) t(4) assms(3) by (simp add: sb_same_def)
    moreover have "n = length bs" using that u(6) t(1,5) by (auto simp: has_error_def)
    ultimately show ?thesis using u(4) t(6) by (simp add: sb_out_def sb_text_def)
  qed
  with t(1,2,6) u(1,3,4) show ?thesis by (auto simp: seq_m_Inr sbuf_error_def)
qed

theorem sbuf_drain_delivers_witness:
  "\<exists>r s'. seq_m (sbuf_bcat (\<lambda>_. True) [1, 2, 3, 4, 5, 6, 7, 8, 9, 10])
      (\<lambda>t. sbuf_finish (nat (s_len t)) t) demo_drained = Inr (r, s') \<and>
    (r = 0 \<or> r = -1) \<and> (r = -1 \<longleftrightarrow> sbuf_error s' \<noteq> 0) \<and> SBUF_ISFINISHED s' \<and>
    (r = 0 \<longrightarrow> demo_log (s_drain_arg s') = [1, 2, 3, 4, 5, 6, 7, 8, 9, 10])"
  using sbuf_drain_delivers [of demo_drained demo_log "\<lambda>_. True" "[1, 2, 3, 4, 5, 6, 7, 8, 9, 10]"]
  by (auto simp: sb_out_def demo_log_def)

text \<open>C11: Formatted output to a buffer without a drain terminates and appends the formatted text:
  the whole of it when it fits or the buffer can grow to hold it, otherwise what fits.  The error
  flag is set exactly when the buffer is of fixed length and the text fills or overflows it.\<close>

theorem sbuf_printf_prints:
  assumes "sb_ok s" and "s_drain_func s = None" and "s_error s = 0" and "2 \<le> fuel"
    and "s_len s + int (length t) + 1 < 2 ^ 31"
  shows "\<exists>s'. sbuf_printf fuel mal (Some t) s = Inr (if sbuf_error s' = 0 then 0 else -1, s') \<and>
    sb_ok s' \<and> sb_text s' = sb_text s @
      (if int (length t) \<le> SBUF_FREESPACE s \<or> can_grow mal (int (length t) - SBUF_FREESPACE s) s
       then t else take (nat (SBUF_FREESPACE s)) t) \<and>
    (sbuf_error s' \<noteq> 0 \<longleftrightarrow> \<not> SBUF_CANEXTEND s \<and> SBUF_FREESPACE s \<le> int (length t))"
proof -
  have "vprintf_pre (\<lambda>_. []) t s" and "vprintf_fuel t s \<le> fuel"
    using assms by (simp_all add: vprintf_pre_def sb_drain_ok_def vprintf_fuel_def)
  from sbuf_vprintf_spec [OF this, of mal] assms(2) show ?thesis
    by (fastforce simp: sbuf_printf_def sb_out_nil sbuf_error_def)
qed

theorem sbuf_printf_prints_witness:
  "\<exists>s'. sbuf_printf 2 (\<lambda>_. True) (Some [52, 50, 58, 32, 1, 2, 3, 4, 5, 6]) demo_auto = Inr (0, s') \<and>
     sb_text s' = [52, 50, 58, 32, 1, 2, 3, 4, 5, 6]"
proof -
  have "can_grow (\<lambda>_. True) 3 demo_auto" by (simp add: can_grow_def)
  then show ?thesis
    using sbuf_printf_prints [of demo_auto 2 "[52, 50, 58, 32, 1, 2, 3, 4, 5, 6]" "\<lambda>_. True"]
    by auto
qed

text \<open>When the storage of an extensible buffer cannot be grown, \<open>sbuf_printf\<close> drops the end of
  the text and still returns 0 with no error recorded, where \<open>sbuf_bcat\<close> of the same bytes fails:
  the result of \<open>sbuf_extend\<close> is not looked at after the loop.\<close>

theorem sbuf_printf_silent_truncation:
  assumes "auto_ok s" and "s_error s = 0" and "SBUF_FREESPACE s < int (length t)"
    and "s_len s + int (length t) + 1 < 2 ^ 31"
  shows "\<exists>s' s''. sbuf_printf 2 (\<lambda>_. False) (Some t) s = Inr (0, s') \<and> sbuf_error s' = 0 \<and>
    sb_text s' = sb_text s @ take (nat (SBUF_FREESPACE s)) t \<and>
    sbuf_bcat (\<lambda>_. False) t s = Inr (-1, s'') \<and> sbuf_error s'' \<noteq> 0"
proof -
  have ok: "sb_ok s" "s_drain_func s = None" "SBUF_CANEXTEND s" using assms(1) by (auto simp: auto_ok_def)
  have pre: "vprintf_pre (\<lambda>_. []) t s" and fuel: "vprintf_fuel t s \<le> 2"
    using assms ok by (simp_all add: vprintf_pre_def sb_drain_ok_def vprintf_fuel_def)
  have no: "\<not> can_grow (\<lambda>_. False) k s" for k by (simp add: can_grow_def)
  from sbuf_vprintf_spec [OF pre fuel, of "\<lambda>_. False"] ok no assms(3) obtain s' where
    s': "sbuf_vprintf 2 (\<lambda>_. False) (Some t) s = Inr (0, s')" "s_error s' = 0"
      "sb_text s' = sb_text s @ take (nat (SBUF_FREESPACE s)) t"
    by (fastforce simp: sb_out_nil)
  from no_growth_fails [OF ok(1,2) _ assms(3)] assms(2) obtain s'' where
    "bcat_loop (sbuf_put_byte (\<lambda>_. False)) has_error t s = Inr (-1, s'')" "has_error s''"
    by (auto simp: has_error_def)
  with s' assms(2) show ?thesis by (auto simp: sbuf_printf_def sbuf_bcat_def sbuf_error_def has_error_def)
qed

theorem sbuf_printf_silent_truncation_witness:
  "\<exists>s' s''. sbuf_printf 2 (\<lambda>_. False) (Some (replicate 9 65)) demo_auto = Inr (0, s') \<and>
    sbuf_error s' = 0 \<and> sb_text s' = replicate 7 65 \<and>
    sbuf_bcat (\<lambda>_. False) (replicate 9 65) demo_auto = Inr (-1, s'') \<and> sbuf_error s'' \<noteq> 0"
  using sbuf_printf_silent_truncation [of demo_auto "replicate 9 65"] by simp

text \<open>A section padded to \<open>pad\<close> bytes: the pad bytes follow the content, they are the fewest
  that make the section a multiple of \<open>pad\<close>, \<open>sbuf_end_section\<close> returns the padded length, and the
  buffer is outside any section again.\<close>

theorem sbuf_section_padded:
  assumes "auto_ok s" and "s_error s = 0" and "\<not> SBUF_ISSECTION s" and "s_sect_len s = 0"
    and "1 < uint pad" and "s_len s + int (length bs) + uint pad < SB_LIMIT"
  shows "\<exists>k s'. one_section bs pad c s = Inr (int (length bs + k), s') \<and>
    sb_text s' = sb_text s @ bs @ replicate k c \<and> int k < uint pad \<and>
    uint pad dvd int (length bs + k) \<and> \<not> SBUF_ISSECTION s' \<and> s_sect_len s' = 0 \<and> sb_ok s'"
proof -
  let ?k = "nat ((- int (length bs)) mod uint pad)"
  let ?m = "(- int (length bs)) mod uint pad"
  have m: "0 \<le> ?m" "?m < uint pad" using assms(5) by simp_all
  have "(int (length bs) + ?m) mod uint pad = 0" by (simp add: mod_add_right_eq)
  then have "uint pad dvd int (length bs) + ?m" by (simp only: dvd_eq_mod_eq_0)
  moreover have "int (length bs + ?k) = int (length bs) + ?m" using m(1) by simp
  ultimately have "uint pad dvd int (length bs + ?k)" by (simp only:)
  moreover have "int ?k < uint pad" using m by simp
  ultimately show ?thesis using one_section_spec [OF assms, of c] by blast
qed

theorem sbuf_section_padded_witness:
  "\<exists>k s'. one_section [1, 2, 3, 4, 5] 8 0 demo_auto = Inr (int (5 + k), s') \<and>
    sb_text s' = [1, 2, 3, 4, 5] @ replicate k 0 \<and> int k < 8 \<and> 8 dvd int (5 + k)"
  using sbuf_section_padded [of demo_auto 8 "[1, 2, 3, 4, 5]" 0] by auto

text \<open>The storage sizes: a power of two that holds the request, at least 16, below one page of
  4096 bytes; from there on the next multiple of 4096.\<close>

theorem sbuf_extendsize_rounds:
  assumes "0 \<le> sz" and "sz \<le> SB_LIMIT"
  shows "sz \<le> sbuf_extendsize sz \<and> 16 \<le> sbuf_extendsize sz \<and> sbuf_extendsize sz \<le> SB_LIMIT \<and>
    (if sz < 4096 then (\<exists>k. sbuf_extendsize sz = 2 ^ k) \<and> sbuf_extendsize sz < 8192
     else 4096 dvd sbuf_extendsize sz \<and> sbuf_extendsize sz < sz + 4096)"
proof (cases "sz < 4096")
  case True
  with sbuf_extendsize_bounds [OF assms] sbuf_extendsize_small [OF True] show ?thesis by simp
next
  case False
  then have "sbuf_extendsize sz = (sz + 4095) div 4096 * 4096"
    using assms by (intro sbuf_extendsize_large) auto
  with sbuf_extendsize_bounds [OF assms] False show ?thesis
    using round_up_facts(2) [of 4096 sz] by simp
qed

theorem sbuf_extendsize_rounds_witness:
  "4096 dvd sbuf_extendsize 5000 \<and> 5000 \<le> sbuf_extendsize 5000 \<and> sbuf_extendsize 5000 < 9096"
  using sbuf_extendsize_rounds [of 5000] by simp

text \<open>Near two gigabytes the sum \<open>s->s_size + addlen\<close> no longer fits the \<open>int\<close> parameter of
  \<open>sbuf_extendsize\<close>: the new storage is 16 bytes, and copying the old contents runs past it.\<close>

theorem sbuf_extend_overflow:
  assumes "sb_ok s" and "SBUF_CANEXTEND s" and "16 < s_size s" and "mal 16"
    and "2 ^ 31 \<le> s_size s + add" and "s_size s + add < 2 ^ 32"
  shows "sbuf_extend mal add s = Inl OutOfBounds"
proof -
  have neg: "to_int32 (s_size s + add) < 0" using to_int32_wrap [OF assms(5,6)] assms(6) by simp
  then have "double_until 16 (to_int32 (s_size s + add)) = 16"
    by (simp add: double_until.simps [of 16 "to_int32 (s_size s + add)"])
  with neg have "sbuf_extendsize (to_int32 (s_size s + add)) = 16"
    by (simp add: sbuf_extendsize_def SBUF_MAXEXTENDSIZE_def SBUF_MINEXTENDSIZE_def)
  with assms show ?thesis
    by (auto simp: sbuf_extend_def SBMALLOC_pos sb_ok_def)
qed

theorem sbuf_extend_overflow_witness:
  "sbuf_extend (\<lambda>_. True) 5000
     (demo_auto\<lparr>s_buf := Some (replicate 2147479552 0), s_size := 2147479552\<rparr>) = Inl OutOfBounds"
  by (rule sbuf_extend_overflow) (simp_all add: sb_ok_def)

text \<open>\<open>sbuf_trim\<close> removes exactly the trailing white space.\<close>

theorem sbuf_trim_trailing:
  assumes "sb_ok s" and "s_error s = 0"
  shows "\<exists>s' ws. sbuf_trim s = Inr (0, s') \<and> sb_ok s' \<and> sb_text s = sb_text s' @ ws \<and>
    list_all isspace ws \<and> (sb_text s' \<noteq> [] \<longrightarrow> \<not> isspace (last (sb_text s')))"
proof -
  from sbuf_trim_spec [OF assms] obtain s' where s': "sbuf_trim s = Inr (0, s')" "sb_ok s'"
    "sb_text s' = rev (dropWhile isspace (rev (sb_text s)))" by blast
  let ?w = "rev (takeWhile isspace (rev (sb_text s)))"
  have "sb_text s = sb_text s' @ ?w"
    using s'(3) by (metis rev_append rev_rev_ident takeWhile_dropWhile_id)
  moreover have "list_all isspace ?w" by (auto simp: list_all_iff dest: set_takeWhileD)
  moreover have "\<not> isspace (last (sb_text s'))" if "sb_text s' \<noteq> []"
    using that hd_dropWhile [of isspace "rev (sb_text s)"] by (simp add: s'(3) last_rev)
  ultimately show ?thesis using s' by blast
qed

theorem sbuf_trim_trailing_witness:
  "\<exists>s' ws. sbuf_trim (demo_auto\<lparr>s_buf := Some [65, 32, 66, 32, 10, 0], s_size := 6, s_len := 5\<rparr>) =
     Inr (0, s') \<and> sb_ok s' \<and> [65, 32, 66, 32, 10] = sb_text s' @ ws \<and> list_all isspace ws \<and>
     (sb_text s' \<noteq> [] \<longrightarrow> \<not> isspace (last (sb_text s')))"
  using sbuf_trim_trailing [of "demo_auto\<lparr>s_buf := Some [65, 32, 66, 32, 10, 0], s_size := 6, s_len := 5\<rparr>"]
  by (simp add: sb_ok_def sb_text_def)

text \<open>
  An encoding error that \<open>vsnprintf\<close> reports is not looked for: its result, \<open>-1\<close>, is added to the
  length.  On an empty buffer the call succeeds, and \<open>sbuf_finish\<close> then stores in front of the storage.
\<close>

theorem sbuf_printf_encoding_error:
  assumes "sb_ok s" and "s_error s = 0" and "s_len s = 0" and "s_drain_func s = None" and "\<not> SBUF_ISSECTION s"
  shows "sbuf_printf (Suc n) mal None s = Inr (0, s\<lparr>s_len := -1\<rparr>) \<and>
    sbuf_finish k (s\<lparr>s_len := -1\<rparr>) = Inl OutOfBounds"
  using assms by (auto simp: sbuf_printf_def sbuf_vprintf_def vsnprintf_tail_def bind_m_def SBUF_FREESPACE_def
    SBUF_HASROOM_def sb_ok_def Let_def sbuf_finish_def seq_m_def)

end
