(* ===== verification/SbufDebug.thy ===== *)
theory SbufDebug
  imports SbufClaims
begin

unbundle bit_operations_syntax

text \<open>
  The \<open>DEBUG\<close> build of \<open>libsbuf/sbuf.c\<close>: \<open>ASSERT\<close> of \<open>debug.h\<close> prints the place of an assertion that
  does not hold and goes on.  The state is the buffer with what has been printed, the line numbers
  of the failed assertions; an assertion is named by the line of \<open>sbuf.c\<close> it stands on.  The
  conditions of the assertions are the rules of the interface; the theorems say that a program that
  keeps to them sees no difference, and which of its calls are reported if it does not.
\<close>

section \<open>Assertions\<close>

definition ASSERT :: "nat \<Rightarrow> ('d sbuf \<Rightarrow> bool) \<Rightarrow> ('d sbuf \<times> nat list, unit) op" where
  "ASSERT line e = (\<lambda>(s, out). Inr ((), (s, if e s then out else out @ [line])))"

text \<open>An operation that asserts nothing, beside what has been printed.\<close>

definition plain :: "('s, 'a) op \<Rightarrow> ('s \<times> nat list, 'a) op" where
  "plain f = zoom_m fst (\<lambda>s (_, out). (s, out)) f"

text \<open>The pointer to the buffer is never NULL here, so that the assertion of line 81 holds.\<close>

definition assert_sbuf_integrity :: "('d sbuf \<times> nat list, unit) op" where
  "assert_sbuf_integrity =
     seq_m (ASSERT 83 (\<lambda>s. s_buf s \<noteq> None)) (ASSERT 85 (\<lambda>s. s_len s < s_size s))"

definition assert_sbuf_state :: "32 word \<Rightarrow> ('d sbuf \<times> nat list, unit) op" where
  "assert_sbuf_state state = ASSERT 94 (\<lambda>s. s_flags s AND SBUF_FINISHED = state)"

section \<open>The operations with their assertions\<close>

definition sbuf_extend_debug :: "(nat \<Rightarrow> bool) \<Rightarrow> int \<Rightarrow> ('d sbuf \<times> nat list, int) op" where
  "sbuf_extend_debug mal addlen = (\<lambda>(s, out).
     seq_m (if \<not> SBUF_CANEXTEND s then return_m ()
            else ASSERT 126 (\<lambda>s. let size = to_int32 (s_size s + addlen) in size \<le> sbuf_extendsize size))
       (plain (sbuf_extend mal addlen)) (s, out))"

definition sbuf_newbuf_debug ::
  "(nat \<Rightarrow> bool) \<Rightarrow> byte list option \<Rightarrow> int \<Rightarrow> 32 word \<Rightarrow> nat list \<Rightarrow> 'd sbuf option \<times> nat list" where
  "sbuf_newbuf_debug mal buf len flags out =
     (let out = (if flags AND SBUF_AUTOEXTEND = 0 \<and> \<not> len \<ge> 0 then out @ [170] else out);
          out = (if buf = None \<and> flags AND SBUF_AUTOEXTEND \<noteq> 0 \<and> \<not> sbuf_extendsize len \<ge> len
                 then out @ [126] else out)
      in (sbuf_newbuf mal buf len flags, out))"

definition sbuf_new_debug ::
  "(nat \<Rightarrow> bool) \<Rightarrow> bool \<Rightarrow> byte list option \<Rightarrow> int \<Rightarrow> 32 word \<Rightarrow> nat list \<Rightarrow>
     'd sbuf option \<times> nat list" where
  "sbuf_new_debug mal given buf len flags out =
     (let out = (if len \<ge> 0 then out else out @ [196]);
          out = (if flags AND NOT SBUF_USRFLAGMSK = 0 then out else out @ [198]);
          flags = flags AND SBUF_USRFLAGMSK in
      if given then sbuf_newbuf_debug mal buf len flags out
      else case SBMALLOC mal 64 of
        None \<Rightarrow> (None, out)
      | Some _ \<Rightarrow>
          (case sbuf_newbuf_debug mal buf len flags out of
             (None, out) \<Rightarrow> (None, out)
           | (Some s, out) \<Rightarrow> (Some (SBUF_SETFLAG SBUF_DYNSTRUCT s), out)))"

definition sbuf_clear_debug :: "('d sbuf \<times> nat list, unit) op" where
  "sbuf_clear_debug = seq_m assert_sbuf_integrity (plain sbuf_clear)"

definition sbuf_setpos_debug :: "int \<Rightarrow> ('d sbuf \<times> nat list, int) op" where
  "sbuf_setpos_debug pos =
     seq_m assert_sbuf_integrity (seq_m (assert_sbuf_state 0)
     (seq_m (ASSERT 243 (\<lambda>s. pos \<ge> 0))
     (seq_m (ASSERT 245 (\<lambda>s. pos < s_size s))
     (seq_m (ASSERT 248 (\<lambda>s. \<not> SBUF_ISSECTION s))
     (plain (sbuf_setpos pos))))))"

text \<open>\<open>same\<close>: the function passed is the one the buffer has.\<close>

definition sbuf_set_drain_debug ::
  "bool \<Rightarrow> ('d option \<Rightarrow> byte list \<Rightarrow> int \<times> 'd option) option \<Rightarrow> 'd option \<Rightarrow>
     ('d sbuf \<times> nat list, unit) op" where
  "sbuf_set_drain_debug same func ctx =
     seq_m (assert_sbuf_state 0) (seq_m assert_sbuf_integrity
     (seq_m (ASSERT 267 (\<lambda>s. same \<or> s_len s = 0))
     (plain (sbuf_set_drain func ctx))))"

text \<open>The third assertion is about what the drain function returned, unless that was negative.\<close>

definition drained_amount :: "'d sbuf \<Rightarrow> int" where
  "drained_amount s = (case (s_drain_func s, s_buf s) of
      (Some func, Some b) \<Rightarrow> fst (func (s_drain_arg s) (take (nat (to_int32 (s_len s))) b)) | _ \<Rightarrow> -1)"

definition sbuf_drain_debug :: "('d sbuf \<times> nat list, int) op" where
  "sbuf_drain_debug =
     seq_m (ASSERT 281 (\<lambda>s. s_len s > 0))
     (seq_m (ASSERT 282 (\<lambda>s. s_error s = 0))
     (seq_m (ASSERT 288 (\<lambda>s. let len = drained_amount s in len < 0 \<or> len > 0 \<and> len \<le> s_len s))
     (plain sbuf_drain)))"

definition sbuf_put_byte_debug :: "(nat \<Rightarrow> bool) \<Rightarrow> byte \<Rightarrow> ('d sbuf \<times> nat list, unit) op" where
  "sbuf_put_byte_debug mal c =
     seq_m assert_sbuf_integrity (seq_m (assert_sbuf_state 0)
     (\<lambda>(s, out).
      if s_error s \<noteq> 0 then Inr ((), (s, out))
      else if SBUF_FREESPACE s \<le> 0 then
        bind_m
          (if s_drain_func s \<noteq> None then seq_m sbuf_drain_debug (return_m ())
           else bind_m (sbuf_extend_debug mal 1) (\<lambda>r.
             plain (modify_m (\<lambda>s. if r < 0 then s\<lparr>s_error := ENOMEM\<rparr> else s))))
          (\<lambda>_. plain (\<lambda>s. if s_error s \<noteq> 0 then Inr ((), s) else store_byte c s)) (s, out)
      else plain (store_byte c) (s, out)))"

definition sbuf_bcat_debug :: "(nat \<Rightarrow> bool) \<Rightarrow> byte list \<Rightarrow> ('d sbuf \<times> nat list, int) op" where
  "sbuf_bcat_debug mal buf =
     seq_m assert_sbuf_integrity (seq_m (assert_sbuf_state 0)
     (\<lambda>(s, out). if s_error s \<noteq> 0 then Inr (-1, (s, out))
       else bcat_loop (sbuf_put_byte_debug mal) (has_error \<circ> fst) buf (s, out)))"

definition sbuf_bcpy_debug :: "(nat \<Rightarrow> bool) \<Rightarrow> byte list \<Rightarrow> ('d sbuf \<times> nat list, int) op" where
  "sbuf_bcpy_debug mal buf =
     seq_m assert_sbuf_integrity (seq_m (assert_sbuf_state 0)
     (seq_m sbuf_clear_debug (sbuf_bcat_debug mal buf)))"

definition sbuf_cat_debug :: "(nat \<Rightarrow> bool) \<Rightarrow> byte list \<Rightarrow> ('d sbuf \<times> nat list, int) op" where
  "sbuf_cat_debug mal str =
     seq_m assert_sbuf_integrity (seq_m (assert_sbuf_state 0)
     (\<lambda>(s, out). if s_error s \<noteq> 0 then Inr (-1, (s, out))
       else cat_loop (sbuf_put_byte_debug mal) (has_error \<circ> fst) str (s, out)))"

definition sbuf_cpy_debug :: "(nat \<Rightarrow> bool) \<Rightarrow> byte list \<Rightarrow> ('d sbuf \<times> nat list, int) op" where
  "sbuf_cpy_debug mal str =
     seq_m assert_sbuf_integrity (seq_m (assert_sbuf_state 0)
     (seq_m sbuf_clear_debug (sbuf_cat_debug mal str)))"

fun vprintf_loop_debug ::
  "nat \<Rightarrow> (nat \<Rightarrow> bool) \<Rightarrow> byte list option \<Rightarrow> ('d sbuf \<times> nat list, int) op" where
  "vprintf_loop_debug 0 mal txt = fail_m Diverges"
| "vprintf_loop_debug (Suc fuel) mal txt =
     bind_m (plain (vsnprintf_tail txt)) (\<lambda>len (s, out).
       if SBUF_FREESPACE s \<ge> len then Inr (len, (s, out))
       else bind_m
         (if s_drain_func s \<noteq> None \<and> s_len s > 0 then sbuf_drain_debug
          else sbuf_extend_debug mal (to_int32 (len - SBUF_FREESPACE s)))
         (\<lambda>error. if error = 0 then vprintf_loop_debug fuel mal txt else return_m len) (s, out))"

text \<open>The format is given by its text here, so that it is not NULL (line 419).\<close>

definition sbuf_vprintf_debug ::
  "nat \<Rightarrow> (nat \<Rightarrow> bool) \<Rightarrow> byte list option \<Rightarrow> ('d sbuf \<times> nat list, int) op" where
  "sbuf_vprintf_debug fuel mal txt =
     seq_m assert_sbuf_integrity (seq_m (assert_sbuf_state 0)
     (\<lambda>(s, out). if s_error s \<noteq> 0 then Inr (-1, (s, out))
      else bind_m (vprintf_loop_debug fuel mal txt) (\<lambda>len.
        seq_m (plain (modify_m (\<lambda>s.
          let len = (if SBUF_FREESPACE s < len then SBUF_FREESPACE s else len);
              s = s\<lparr>s_len := s_len s + len\<rparr>;
              s = (if SBUF_ISSECTION s then s\<lparr>s_sect_len := s_sect_len s + len\<rparr> else s)
          in if \<not> SBUF_HASROOM s \<and> \<not> SBUF_CANEXTEND s then s\<lparr>s_error := ENOMEM\<rparr> else s)))
        (seq_m (ASSERT 469 (\<lambda>s. s_len s < s_size s))
        (plain (gets_m (\<lambda>s. if s_error s \<noteq> 0 then -1 else 0))))) (s, out)))"

definition sbuf_printf_debug ::
  "nat \<Rightarrow> (nat \<Rightarrow> bool) \<Rightarrow> byte list option \<Rightarrow> ('d sbuf \<times> nat list, int) op" where
  "sbuf_printf_debug fuel mal txt = sbuf_vprintf_debug fuel mal txt"

definition sbuf_putc_debug :: "(nat \<Rightarrow> bool) \<Rightarrow> byte \<Rightarrow> ('d sbuf \<times> nat list, int) op" where
  "sbuf_putc_debug mal c = seq_m (sbuf_put_byte_debug mal c)
     (plain (gets_m (\<lambda>s. if s_error s \<noteq> 0 then -1 else 0)))"

definition sbuf_trim_debug :: "('d sbuf \<times> nat list, int) op" where
  "sbuf_trim_debug =
     seq_m assert_sbuf_integrity (seq_m (assert_sbuf_state 0)
     (seq_m (ASSERT 514 (\<lambda>s. s_drain_func s = None))
     (plain sbuf_trim)))"

primrec finish_loop_debug :: "nat \<Rightarrow> ('d sbuf \<times> nat list, unit) op" where
  "finish_loop_debug 0 = (\<lambda>(s, out).
     if s_len s > 0 \<and> s_error s = 0 then Inl Diverges else Inr ((), (s, out)))"
| "finish_loop_debug (Suc k) = (\<lambda>(s, out).
     if s_len s > 0 \<and> s_error s = 0
     then bind_m sbuf_drain_debug (\<lambda>r (s, out). finish_loop_debug k (s\<lparr>s_error := r\<rparr>, out)) (s, out)
     else Inr ((), (s, out)))"

definition sbuf_finish_debug :: "nat \<Rightarrow> ('d sbuf \<times> nat list, int) op" where
  "sbuf_finish_debug fuel =
     seq_m assert_sbuf_integrity (seq_m (assert_sbuf_state 0)
     (seq_m (\<lambda>(s, out). if s_drain_func s \<noteq> None then finish_loop_debug fuel (s, out) else Inr ((), (s, out)))
     (plain (\<lambda>s. case s_buf s of
          None \<Rightarrow> Inl NullDeref
        | Some b \<Rightarrow>
            if 0 \<le> s_len s \<and> nat (s_len s) < length b
            then let s = SBUF_SETFLAG SBUF_FINISHED (s\<lparr>s_buf := Some (b[nat (s_len s) := 0])\<rparr>) in
              Inr (if s_error s \<noteq> 0 then -1 else 0, s)
            else Inl OutOfBounds))))"

definition sbuf_data_debug :: "('d sbuf \<times> nat list, byte list option) op" where
  "sbuf_data_debug =
     seq_m assert_sbuf_integrity (seq_m (assert_sbuf_state SBUF_FINISHED)
     (seq_m (ASSERT 571 (\<lambda>s. s_drain_func s = None))
     (plain (gets_m sbuf_data))))"

definition sbuf_len_debug :: "('d sbuf \<times> nat list, int) op" where
  "sbuf_len_debug =
     seq_m assert_sbuf_integrity
     (seq_m (ASSERT 586 (\<lambda>s. s_drain_func s = None))
     (plain (gets_m sbuf_len)))"

definition sbuf_delete_debug :: "('d sbuf \<times> nat list, bool \<times> bool) op" where
  "sbuf_delete_debug = seq_m assert_sbuf_integrity (plain sbuf_delete)"

definition sbuf_start_section_debug :: "bool \<Rightarrow> ('d sbuf \<times> nat list, int option) op" where
  "sbuf_start_section_debug save =
     seq_m assert_sbuf_integrity (seq_m (assert_sbuf_state 0)
     (\<lambda>(s, out).
      seq_m (if \<not> SBUF_ISSECTION s then ASSERT 634 (\<lambda>s. s_sect_len s = 0) else ASSERT 640 (\<lambda>s. save))
        (plain (sbuf_start_section save)) (s, out)))"

primrec pad_loop_debug :: "(nat \<Rightarrow> bool) \<Rightarrow> byte \<Rightarrow> nat \<Rightarrow> ('d sbuf \<times> nat list, unit) op" where
  "pad_loop_debug mal c 0 = return_m ()"
| "pad_loop_debug mal c (Suc n) = (\<lambda>(s, out).
     if s_error s = 0 then seq_m (sbuf_put_byte_debug mal c) (pad_loop_debug mal c n) (s, out)
     else Inr ((), (s, out)))"

definition sbuf_end_section_debug ::
  "(nat \<Rightarrow> bool) \<Rightarrow> int \<Rightarrow> 64 word \<Rightarrow> byte \<Rightarrow> ('d sbuf \<times> nat list, int) op" where
  "sbuf_end_section_debug mal old_len pad c =
     seq_m assert_sbuf_integrity (seq_m (assert_sbuf_state 0)
     (seq_m (ASSERT 658 SBUF_ISSECTION)
     (seq_m (\<lambda>(s, out). if pad > 1
         then pad_loop_debug mal c (nat (section_padding (s_sect_len s) pad)) (s, out)
         else Inr ((), (s, out)))
       (plain (\<lambda>s. let len = s_sect_len s;
                s = (if old_len = -1 then SBUF_CLEARFLAG SBUF_INSECTION (s\<lparr>s_sect_len := 0\<rparr>)
                     else s\<lparr>s_sect_len := s_sect_len s + old_len\<rparr>)
            in Inr (if s_error s \<noteq> 0 then -1 else len, s))))))"

section \<open>A build that prints nothing\<close>

text \<open>
  \<open>sb_good\<close> is what the operations of an open buffer keep: it is well formed, not finished, and not
  larger than 1 GiB.  The bound stands for an allocator that gives no larger blocks; without one
  the size of a buffer would overflow its \<open>int\<close> near 2 GiB, which the assertion of line 126 reports.
\<close>

definition modest :: "(nat \<Rightarrow> bool) \<Rightarrow> bool" where
  "modest mal \<longleftrightarrow> (\<forall>n. mal n \<longrightarrow> n \<le> 2 ^ 30)"

definition sb_small :: "'d sbuf \<Rightarrow> bool" where
  "sb_small s \<longleftrightarrow> s_flags s AND SBUF_FINISHED = 0 \<and> s_size s \<le> 2 ^ 30"

abbreviation sb_good :: "('d option \<Rightarrow> byte list) \<Rightarrow> 'd sbuf \<Rightarrow> bool" where
  "sb_good log s \<equiv> sb_inv log s \<and> sb_small s"

lemma plain_eq: "plain f (s, out) = (case f s of Inl e \<Rightarrow> Inl e | Inr (x, t) \<Rightarrow> Inr (x, (t, out)))"
  by (auto simp: plain_def zoom_m_def split: sum.splits)

lemma plain_Inr: "f s = Inr (x, t) \<Longrightarrow> plain f (s, out) = Inr (x, (t, out))"
  by (simp add: plain_def zoom_m_def)

lemma plain_bind: "plain (bind_m f g) = bind_m (plain f) (\<lambda>x. plain (g x))"
  by (auto simp: plain_def zoom_m_def bind_m_def fun_eq_iff split: sum.splits)

lemma plain_seq: "plain (seq_m f g) = seq_m (plain f) (plain g)"
  by (auto simp: plain_def zoom_m_def seq_m_def fun_eq_iff split: sum.splits)

lemma ASSERT_holds: "e s \<Longrightarrow> seq_m (ASSERT l e) f (s, out) = f (s, out)"
  by (simp add: ASSERT_def seq_m_def)

lemma ASSERT_prints: "seq_m (ASSERT l e) f (s, out) = f (s, out @ (if e s then [] else [l]))"
  by (simp add: ASSERT_def seq_m_def)

lemma checks_hold:
  "sb_ok s \<Longrightarrow> seq_m assert_sbuf_integrity f (s, out) = f (s, out)"
  "s_flags s AND SBUF_FINISHED = state \<Longrightarrow> seq_m (assert_sbuf_state state) f (s, out) = f (s, out)"
  by (auto simp: assert_sbuf_integrity_def assert_sbuf_state_def ASSERT_def seq_m_def sb_ok_def)

text \<open>Which plain operations keep a buffer open and small.\<close>

definition keeps_small :: "('d sbuf, 'a) op \<Rightarrow> bool" where
  "keeps_small f \<longleftrightarrow> (\<forall>s x t. f s = Inr (x, t) \<longrightarrow> sb_small s \<longrightarrow> sb_small t)"

lemma keeps_smallD: "keeps_small f \<Longrightarrow> f s = Inr (x, t) \<Longrightarrow> sb_small s \<Longrightarrow> sb_small t"
  by (auto simp: keeps_small_def)

lemma sb_small_upd [simp]:
  "sb_small (s\<lparr>s_buf := b\<rparr>) = sb_small s" "sb_small (s\<lparr>s_len := n\<rparr>) = sb_small s"
  "sb_small (s\<lparr>s_error := e\<rparr>) = sb_small s" "sb_small (s\<lparr>s_sect_len := n\<rparr>) = sb_small s"
  "sb_small (s\<lparr>s_drain_arg := d\<rparr>) = sb_small s"
  "sb_small (SBUF_SETFLAG SBUF_INSECTION s) = sb_small s"
  "sb_small (SBUF_CLEARFLAG SBUF_INSECTION s) = sb_small s"
  by (simp_all add: sb_small_def SBUF_SETFLAG_def SBUF_CLEARFLAG_def flag_consts word_ao_dist word_bw_assocs)

lemma drain_small: "keeps_small sbuf_drain"
  by (auto simp: keeps_small_def sbuf_drain_def Let_def split: option.splits prod.splits if_splits)

lemma store_small: "keeps_small (store_byte c)"
  by (auto simp: keeps_small_def store_byte_def Let_def split: option.splits if_splits)

lemma vsnprintf_small: "keeps_small (vsnprintf_tail t)"
  by (auto simp: keeps_small_def vsnprintf_tail_def Let_def split: option.splits if_splits)

lemma trim_loop_small: "keeps_small (trim_loop n)"
proof (induction n)
  case (Suc n)
  then show ?case
    by (fastforce simp: keeps_small_def Let_def split: option.splits if_splits)
qed (simp add: keeps_small_def return_m_def)

lemma extend_small:
  assumes "sb_ok s" and "sb_small s" and "modest mal" and "0 < add" "add < 2 ^ 20"
    and "sbuf_extend mal add s = Inr (r, t)"
  shows "sb_small t"
proof -
  have size: "s_size s + add < 2 ^ 31" "0 \<le> s_size s + add" "s_size s \<le> 2 ^ 30"
    using assms(1,2,4,5) by (auto simp: sb_ok_def sb_small_def)
  then have n: "to_int32 (s_size s + add) = s_size s + add" by simp
  show ?thesis
  proof (cases "can_grow mal add s")
    case False
    with sbuf_extend_spec(1) [OF assms(1,4) size(1)] assms(2,6) show ?thesis by simp
  next
    case True
    then have "mal (nat (sbuf_extendsize (s_size s + add)))" and lim: "s_size s + add \<le> SB_LIMIT"
      by (auto simp: can_grow_def)
    with assms(3) have "sbuf_extendsize (s_size s + add) \<le> 2 ^ 30" by (auto simp: modest_def)
    with assms(2,6) show ?thesis
      by (auto simp: sbuf_extend_def sb_small_def Let_def n SBUF_SETFLAG_def flag_consts word_ao_dist
        split: option.splits if_splits)
  qed
qed

lemma extend_silent:
  assumes "sb_ok s" and "sb_small s" and "0 < add" "add < 2 ^ 20"
  shows "sbuf_extend_debug mal add (s, out) = plain (sbuf_extend mal add) (s, out)"
proof -
  have size: "s_size s + add < 2 ^ 31" "0 \<le> s_size s + add" "s_size s + add \<le> SB_LIMIT"
    using assms by (auto simp: sb_ok_def sb_small_def)
  then have "to_int32 (s_size s + add) = s_size s + add" by simp
  with sbuf_extendsize_bounds(1) [OF size(2,3)]
  show ?thesis by (simp add: sbuf_extend_debug_def ASSERT_def seq_m_def return_m_def Let_def)
qed

lemma drain_silent:
  assumes "sb_ok s" and "sb_drain_ok log s" and "s_drain_func s \<noteq> None" and "0 < s_len s" and "s_error s = 0"
  shows "sbuf_drain_debug (s, out) = plain sbuf_drain (s, out)"
proof -
  obtain F b where F: "s_drain_func s = Some F" "drain_ok log F" "s_buf s = Some b" "int (length b) = s_size s"
    "s_len s < s_size s" "s_size s \<le> SB_LIMIT" using assms(1-3) by (auto simp: sb_drain_ok_def sb_ok_def)
  then have i: "to_int32 (s_len s) = s_len s" using assms(4) by simp
  let ?t = "take (nat (s_len s)) b"
  have t: "?t \<noteq> []" "int (length ?t) = s_len s" using F assms(4) by auto
  obtain k d' where k: "F (s_drain_arg s) ?t = (k, d')" by fastforce
  have "k < 0 \<or> 0 < k \<and> k \<le> s_len s"
    using F(2) t k unfolding drain_ok_def by (metis (mono_tags, lifting) case_prod_conv)
  then have "let len = drained_amount s in len < 0 \<or> len > 0 \<and> len \<le> s_len s"
    using k F(1,3) by (simp add: drained_amount_def i)
  with assms(4,5) show ?thesis by (simp add: sbuf_drain_debug_def ASSERT_holds)
qed

text \<open>Making room for one byte in a full buffer.\<close>

lemma make_room_silent:
  assumes ok: "sb_ok s" and dr: "sb_drain_ok log s" and sm: "sb_small s" and mal: "modest mal"
    and err: "s_error s = 0" and full: "SBUF_FREESPACE s \<le> 0"
  defines "room \<equiv> if s_drain_func s \<noteq> None then seq_m sbuf_drain (return_m ())
           else bind_m (sbuf_extend mal 1) (\<lambda>r.
             modify_m (\<lambda>s. if r < 0 then s\<lparr>s_error := ENOMEM\<rparr> else s))"
  shows "(if s_drain_func s \<noteq> None then seq_m sbuf_drain_debug (return_m ())
       else bind_m (sbuf_extend_debug mal 1) (\<lambda>r.
         plain (modify_m (\<lambda>s. if r < 0 then s\<lparr>s_error := ENOMEM\<rparr> else s)))) (s, out) = plain room (s, out)"
    and "room s = Inr (x, u) \<Longrightarrow> sb_small u"
proof -
  have pos: "0 < s_len s" if "s_drain_func s \<noteq> None" using full ok that by (auto simp: SBUF_FREESPACE_def sb_ok_def)
  show "(if s_drain_func s \<noteq> None then seq_m sbuf_drain_debug (return_m ())
       else bind_m (sbuf_extend_debug mal 1) (\<lambda>r.
         plain (modify_m (\<lambda>s. if r < 0 then s\<lparr>s_error := ENOMEM\<rparr> else s)))) (s, out) = plain room (s, out)"
    using drain_silent [OF ok dr _ _ err, of out] pos extend_silent [OF ok sm, of 1 mal out]
    by (auto simp: room_def plain_bind plain_seq bind_m_def seq_m_def plain_def zoom_m_def return_m_def split: sum.splits)
  show "room s = Inr (x, u) \<Longrightarrow> sb_small u"
    using sm keeps_smallD [OF drain_small] extend_small [OF ok sm mal, of 1]
    by (auto simp: room_def return_m_def modify_m_def elim!: opE split: if_splits)
qed

text \<open>One byte: what the plain build does, and nothing printed.\<close>

lemma put_byte_silent:
  assumes good: "sb_good log s" and mal: "modest mal"
  shows "sbuf_put_byte_debug mal c (s, out) = plain (sbuf_put_byte mal c) (s, out) \<and>
    (\<exists>t. sbuf_put_byte mal c s = Inr ((), t) \<and> sb_good log t)"
proof -
  have ok: "sb_ok s" and dr: "sb_drain_ok log s" and sm: "sb_small s" using good by auto
  have fin: "s_flags s AND SBUF_FINISHED = 0" using sm by (simp add: sb_small_def)
  let ?rest = "\<lambda>s. if s_error s \<noteq> 0 then Inr ((), s) else store_byte c s"
  let ?room = "if s_drain_func s \<noteq> None then seq_m sbuf_drain (return_m ())
           else bind_m (sbuf_extend mal 1) (\<lambda>r.
             modify_m (\<lambda>s. if r < 0 then s\<lparr>s_error := ENOMEM\<rparr> else s))"
  have start: "sbuf_put_byte_debug mal c (s, out) = (if s_error s \<noteq> 0 then Inr ((), (s, out))
      else if SBUF_FREESPACE s \<le> 0 then
        bind_m
          (if s_drain_func s \<noteq> None then seq_m sbuf_drain_debug (return_m ())
           else bind_m (sbuf_extend_debug mal 1) (\<lambda>r.
             plain (modify_m (\<lambda>s. if r < 0 then s\<lparr>s_error := ENOMEM\<rparr> else s))))
          (\<lambda>_. plain ?rest) (s, out)
      else plain (store_byte c) (s, out))"
    unfolding sbuf_put_byte_debug_def checks_hold(1) [OF ok] checks_hold(2) [OF fin] by simp
  have plain: "sbuf_put_byte mal c s = (if s_error s \<noteq> 0 then Inr ((), s)
      else if SBUF_FREESPACE s \<le> 0 then bind_m ?room (\<lambda>_. ?rest) s else store_byte c s)"
    by (simp add: sbuf_put_byte_def)
  show ?thesis
  proof (cases "s_error s = 0")
    case False
    with good show ?thesis unfolding start by (simp add: plain_Inr sbuf_put_byte_def)
  next
    case err: True
    from sbuf_put_byte_spec [OF ok dr err, of mal c] obtain t where
      t: "sbuf_put_byte mal c s = Inr ((), t)" "sb_ok t" "sb_same s t" by blast
    have inv: "sb_inv log t" using t sb_inv_same [OF _ dr] by blast
    show ?thesis
    proof (cases "SBUF_FREESPACE s \<le> 0")
      case False
      then have "store_byte c s = Inr ((), t)" using t(1) err plain by simp
      with keeps_smallD [OF store_small this sm] inv t(1) err False show ?thesis
        unfolding start by (simp add: plain_Inr)
    next
      case full: True
      have rest: "keeps_small ?rest" using store_small [of c] by (auto simp: keeps_small_def)
      note room = make_room_silent [OF ok dr sm mal err full]
      have run: "bind_m ?room (\<lambda>_. ?rest) s = Inr ((), t)" using t(1) err full plain by simp
      from run obtain x u where u: "?room s = Inr (x, u)" "?rest u = Inr ((), t)" by (rule bind_m_InrE)
      have "sb_small t" by (rule keeps_smallD [OF rest u(2) room(2) [OF u(1)]])
      moreover have "sbuf_put_byte_debug mal c (s, out) = Inr ((), (t, out))"
        using err full room(1) u unfolding start by (simp add: bind_m_def plain_Inr)
      ultimately show ?thesis using t(1) inv by (simp add: plain_Inr)
    qed
  qed
qed

section \<open>Operations that print nothing\<close>

text \<open>On a good buffer, \<open>f\<close> does what \<open>g\<close> does, prints nothing and leaves a good buffer.\<close>

definition silent ::
  "('d option \<Rightarrow> byte list) \<Rightarrow> ('d sbuf \<times> nat list, 'a) op \<Rightarrow> ('d sbuf, 'a) op \<Rightarrow> bool" where
  "silent log f g \<longleftrightarrow> (\<forall>s out. sb_good log s \<longrightarrow>
     f (s, out) = plain g (s, out) \<and> (\<exists>x t. g s = Inr (x, t) \<and> sb_good log t))"

lemma silentD:
  assumes "silent log f g" and "sb_good log s"
  shows "\<exists>x t. g s = Inr (x, t) \<and> f (s, out) = Inr (x, (t, out)) \<and> sb_good log t"
  using assms by (fastforce simp: silent_def plain_Inr)

lemma silentI:
  assumes "\<And>s out. sb_good log s \<Longrightarrow> \<exists>x t. g s = Inr (x, t) \<and> f (s, out) = Inr (x, (t, out)) \<and> sb_good log t"
  shows "silent log f g"
  using assms by (fastforce simp: silent_def plain_Inr)

lemma silent_bind:
  assumes "silent log f f'" and "\<And>x. silent log (g x) (g' x)"
  shows "silent log (bind_m f g) (bind_m f' g')"
proof (rule silentI)
  fix s out assume "sb_good log s"
  from silentD [OF assms(1) this, of out]
  obtain x t where f: "f' s = Inr (x, t)" "f (s, out) = Inr (x, (t, out))" "sb_good log t" by blast
  from silentD [OF assms(2) f(3), of x out]
  obtain y u where "g' x t = Inr (y, u)" "g x (t, out) = Inr (y, (u, out))" "sb_good log u" by blast
  with f show "\<exists>x t. bind_m f' g' s = Inr (x, t) \<and> bind_m f g (s, out) = Inr (x, (t, out)) \<and> sb_good log t"
    by (simp add: bind_m_def)
qed

lemma seq_as_bind: "seq_m f g = bind_m f (\<lambda>_. g)"
  by (auto simp: seq_m_def bind_m_def fun_eq_iff split: sum.splits)

lemma silent_seq: "silent log f f' \<Longrightarrow> silent log g g' \<Longrightarrow> silent log (seq_m f g) (seq_m f' g')"
  unfolding seq_as_bind by (rule silent_bind)

lemma silent_if:
  assumes "\<And>p. c p = b (fst p)" and "silent log f f'" and "silent log g g'"
  shows "silent log (\<lambda>p. if c p then f p else g p) (\<lambda>s. if b s then f' s else g' s)"
  using assms by (auto simp: silent_def plain_def zoom_m_def)

lemma silent_if_pair:
  "silent log f f' \<Longrightarrow> silent log g g' \<Longrightarrow>
   silent log (\<lambda>(s, out). if b s then f (s, out) else g (s, out)) (\<lambda>s. if b s then f' s else g' s)"
  by (auto simp: silent_def plain_def zoom_m_def)

lemma silent_result: "silent log (\<lambda>p. Inr (x, p)) (\<lambda>s. Inr (x, s))"
  by (rule silentI) simp

lemma silent_return: "silent log (return_m x) (return_m x)"
  by (rule silentI) (simp add: return_m_def)

lemma silent_plain:
  assumes "\<And>s. sb_good log s \<Longrightarrow> \<exists>x t. g s = Inr (x, t) \<and> sb_good log t"
  shows "silent log (plain g) g"
  by (rule silentI) (use assms plain_Inr in fastforce)

lemma silent_checked:
  assumes "silent log f g"
  shows "silent log (seq_m assert_sbuf_integrity (seq_m (assert_sbuf_state 0) f)) g"
  using assms by (simp add: silent_def checks_hold sb_small_def)

lemma silent_put_byte: "modest mal \<Longrightarrow> silent log (sbuf_put_byte_debug mal c) (sbuf_put_byte mal c)"
  unfolding silent_def using put_byte_silent by blast

lemma silent_clear: "silent log sbuf_clear_debug sbuf_clear"
proof (rule silentI)
  fix s :: "'a sbuf" and out assume good: "sb_good log s"
  then obtain t where "sbuf_clear s = Inr ((), t)" "sb_inv log t"
    using sbuf_clear_ok [of s] sb_inv_same by blast
  moreover then have "sb_small t" using good
    by (auto simp: sbuf_clear_def modify_m_def sb_small_def SBUF_CLEARFLAG_def flag_consts word_bw_assocs)
  ultimately show "\<exists>x t. sbuf_clear s = Inr (x, t) \<and> sbuf_clear_debug (s, out) = Inr (x, (t, out)) \<and> sb_good log t"
    using good by (simp add: sbuf_clear_debug_def checks_hold plain_Inr)
qed

lemma silent_bcat_loop:
  assumes "\<And>c. silent log (putd c) (put c)" and "\<And>p. failed p = has_error (fst p)"
  shows "silent log (bcat_loop putd failed bs) (bcat_loop put has_error bs)"
  by (induction bs) (simp_all add: silent_return silent_seq silent_if silent_result assms)

lemma silent_cat_loop:
  assumes "\<And>c. silent log (putd c) (put c)" and "\<And>p. failed p = has_error (fst p)" and "0 \<in> set bs"
  shows "silent log (cat_loop putd failed bs) (cat_loop put has_error bs)"
  using assms(3)
  by (induction bs) (auto simp: silent_return silent_result intro!: silent_seq silent_if assms(1,2))

text \<open>The check of the error flag that most operations begin with.\<close>

lemma silent_unless_error:
  assumes "silent log f g"
  shows "silent log (\<lambda>(s, out). if s_error s \<noteq> 0 then Inr (-1, (s, out)) else f (s, out))
    (\<lambda>s. if s_error s \<noteq> 0 then Inr (-1, s) else g s)"
  by (intro silent_if_pair silent_result assms)

lemma silent_bcat: "modest mal \<Longrightarrow> silent log (sbuf_bcat_debug mal bs) (sbuf_bcat mal bs)"
  unfolding sbuf_bcat_debug_def sbuf_bcat_def [abs_def]
  by (intro silent_checked silent_unless_error silent_bcat_loop silent_put_byte) simp_all

lemma silent_cat: "modest mal \<Longrightarrow> 0 \<in> set str \<Longrightarrow> silent log (sbuf_cat_debug mal str) (sbuf_cat mal str)"
  unfolding sbuf_cat_debug_def sbuf_cat_def [abs_def]
  by (intro silent_checked silent_unless_error silent_cat_loop silent_put_byte) simp_all

lemma silent_bcpy: "modest mal \<Longrightarrow> silent log (sbuf_bcpy_debug mal bs) (sbuf_bcpy mal bs)"
  unfolding sbuf_bcpy_debug_def sbuf_bcpy_def
  by (intro silent_checked silent_seq silent_clear silent_bcat)

lemma silent_cpy: "modest mal \<Longrightarrow> 0 \<in> set str \<Longrightarrow> silent log (sbuf_cpy_debug mal str) (sbuf_cpy mal str)"
  unfolding sbuf_cpy_debug_def sbuf_cpy_def
  by (intro silent_checked silent_seq silent_clear silent_cat)

lemma silent_putc: "modest mal \<Longrightarrow> silent log (sbuf_putc_debug mal c) (sbuf_putc mal c)"
  unfolding sbuf_putc_debug_def sbuf_putc_def
  by (intro silent_seq silent_put_byte silent_plain) (auto simp: gets_m_def)

lemma silent_pad_loop: "modest mal \<Longrightarrow> silent log (pad_loop_debug mal c n) (pad_loop mal c n)"
proof (induction n)
  case (Suc n)
  show ?case
    unfolding pad_loop_debug.simps pad_loop.simps
    by (intro silent_if_pair silent_result silent_seq silent_put_byte Suc.prems Suc.IH)
qed (simp add: silent_return)

section \<open>Formatted output\<close>

lemma vprintf_pre_tail:
  assumes "vprintf_pre log t s"
  shows "\<exists>s1. vsnprintf_tail (Some t) s = Inr (int (length t), s1) \<and> vprintf_pre log t s1 \<and>
    tail_holds t s1 \<and> vprintf_fuel t s1 = vprintf_fuel t s"
proof -
  from assms have "sb_ok s" by (simp add: vprintf_pre_def)
  from vsnprintf_tail_spec [OF this, of t] obtain b where
    "vsnprintf_tail (Some t) s = Inr (int (length t), s\<lparr>s_buf := Some b\<rparr>)"
    "sb_ok (s\<lparr>s_buf := Some b\<rparr>)" "tail_holds t (s\<lparr>s_buf := Some b\<rparr>)" by blast
  with assms show ?thesis
    by (intro exI [of _ "s\<lparr>s_buf := Some b\<rparr>"])
      (auto simp: vprintf_pre_def sb_drain_ok_def SBUF_FREESPACE_def vprintf_fuel_def)
qed

text \<open>Between two rounds the loop drains or extends the buffer.\<close>

lemma vprintf_step_silent:
  assumes "modest mal" and "length t < 4096" and "vprintf_pre log t s" and "tail_holds t s"
    and small: "sb_small s" and nofit: "\<not> int (length t) \<le> SBUF_FREESPACE s"
  obtains r u where "(if s_drain_func s \<noteq> None \<and> s_len s > 0 then sbuf_drain
      else sbuf_extend mal (to_int32 (int (length t) - SBUF_FREESPACE s))) s = Inr (r, u)"
    and "(if s_drain_func s \<noteq> None \<and> s_len s > 0 then sbuf_drain_debug
      else sbuf_extend_debug mal (to_int32 (int (length t) - SBUF_FREESPACE s))) (s, out) = Inr (r, (u, out))"
    and "sb_small u" and "r = 0 \<longrightarrow> vprintf_pre log t u \<and> vprintf_fuel t u < vprintf_fuel t s"
proof -
  have ok: "sb_ok s" "sb_drain_ok log s" "s_error s = 0" using assms(3) by (auto simp: vprintf_pre_def)
  let ?add = "int (length t) - SBUF_FREESPACE s"
  have add: "0 < ?add" "?add < 2 ^ 20" "to_int32 ?add = ?add"
    using nofit assms(2) ok(1) by (auto simp: SBUF_FREESPACE_def sb_ok_def)
  let ?step = "if s_drain_func s \<noteq> None \<and> s_len s > 0 then sbuf_drain else sbuf_extend mal (to_int32 ?add)"
  let ?stepd = "if s_drain_func s \<noteq> None \<and> s_len s > 0 then sbuf_drain_debug
    else sbuf_extend_debug mal (to_int32 ?add)"
  have "\<exists>r u. ?step s = Inr (r, u) \<and> (r = 0 \<longrightarrow> vprintf_pre log t u \<and> vprintf_fuel t u < vprintf_fuel t s)"
  proof (cases "s_drain_func s \<noteq> None \<and> s_len s > 0")
    case True
    with vprintf_drain_case [OF assms(3,4) nofit, of mal] show ?thesis by auto
  next
    case False
    with vprintf_extend_case [OF assms(3,4) nofit, of mal] show ?thesis unfolding if_not_P [OF False] by blast
  qed
  then obtain r u where u: "?step s = Inr (r, u)"
    "r = 0 \<longrightarrow> vprintf_pre log t u \<and> vprintf_fuel t u < vprintf_fuel t s" by blast
  have su: "sb_small u"
    using u(1) keeps_smallD [OF drain_small _ small] extend_small [OF ok(1) small assms(1) add(1,2)] add(3)
    by (auto split: if_splits)
  have "?stepd (s, out) = plain ?step (s, out)"
    using drain_silent [OF ok(1,2) _ _ ok(3)] extend_silent [OF ok(1) small add(1,2)] add(3) by simp
  then have ud: "?stepd (s, out) = Inr (r, (u, out))" using u(1) by (simp add: plain_Inr)
  with that u su show thesis by blast
qed

lemma vprintf_loop_silent:
  assumes "modest mal" and "length t < 4096"
  shows "vprintf_pre log t s \<Longrightarrow> sb_small s \<Longrightarrow> vprintf_fuel t s \<le> fuel \<Longrightarrow>
    \<exists>s'. vprintf_loop fuel mal (Some t) s = Inr (int (length t), s') \<and> sb_small s' \<and>
      vprintf_loop_debug fuel mal (Some t) (s, out) = Inr (int (length t), (s', out))"
proof (induction fuel arbitrary: s)
  case 0
  then show ?case by (simp add: vprintf_fuel_def split: if_splits)
next
  case (Suc fuel)
  from vprintf_pre_tail [OF Suc.prems(1)] obtain s1 where
    s1: "vsnprintf_tail (Some t) s = Inr (int (length t), s1)" "vprintf_pre log t s1"
      "tail_holds t s1" "vprintf_fuel t s1 = vprintf_fuel t s" by blast
  have ok: "sb_ok s1" "sb_drain_ok log s1" "s_error s1 = 0" using s1(2) by (auto simp: vprintf_pre_def)
  have small: "sb_small s1" using vsnprintf_small s1(1) Suc.prems(2) by (rule keeps_smallD)
  show ?case
  proof (cases "int (length t) \<le> SBUF_FREESPACE s1")
    case True
    with s1(1) small show ?thesis by (simp add: bind_m_Inr plain_Inr)
  next
    case nofit: False
    let ?step = "if s_drain_func s1 \<noteq> None \<and> s_len s1 > 0 then sbuf_drain
      else sbuf_extend mal (to_int32 (int (length t) - SBUF_FREESPACE s1))"
    let ?stepd = "if s_drain_func s1 \<noteq> None \<and> s_len s1 > 0 then sbuf_drain_debug
      else sbuf_extend_debug mal (to_int32 (int (length t) - SBUF_FREESPACE s1))"
    obtain r u where u: "?step s1 = Inr (r, u)"
      "r = 0 \<longrightarrow> vprintf_pre log t u \<and> vprintf_fuel t u < vprintf_fuel t s1"
      and ud: "?stepd (s1, out) = Inr (r, (u, out))" and su: "sb_small u"
      using vprintf_step_silent [OF assms s1(2,3) small nofit, of out] by blast
    have run: "vprintf_loop (Suc fuel) mal (Some t) s =
        (if r = 0 then vprintf_loop fuel mal (Some t) u else Inr (int (length t), u))"
      "vprintf_loop_debug (Suc fuel) mal (Some t) (s, out) =
        (if r = 0 then vprintf_loop_debug fuel mal (Some t) (u, out) else Inr (int (length t), (u, out)))"
    proof -
      have "vprintf_loop (Suc fuel) mal (Some t) s = bind_m ?step
          (\<lambda>error. if error = 0 then vprintf_loop fuel mal (Some t) else return_m (int (length t))) s1"
        by (simp only: vprintf_loop.simps bind_m_Inr [where f = "vsnprintf_tail (Some t)", OF s1(1)] if_not_P [OF nofit])
      also have "\<dots> = (if r = 0 then vprintf_loop fuel mal (Some t) else return_m (int (length t))) u"
        by (rule bind_m_Inr) (rule u(1))
      finally show "vprintf_loop (Suc fuel) mal (Some t) s =
        (if r = 0 then vprintf_loop fuel mal (Some t) u else Inr (int (length t), u))"
        by (simp add: return_m_def)
      have "vprintf_loop_debug (Suc fuel) mal (Some t) (s, out) = bind_m ?stepd
          (\<lambda>error. if error = 0 then vprintf_loop_debug fuel mal (Some t) else return_m (int (length t))) (s1, out)"
        by (simp only: vprintf_loop_debug.simps bind_m_Inr [where f = "plain (vsnprintf_tail (Some t))",
          OF plain_Inr [where f = "vsnprintf_tail (Some t)" and s = s, OF s1(1)]] if_not_P [OF nofit] prod.case)
      also have "\<dots> = (if r = 0 then vprintf_loop_debug fuel mal (Some t) else return_m (int (length t))) (u, out)"
        by (rule bind_m_Inr) (rule ud)
      finally show "vprintf_loop_debug (Suc fuel) mal (Some t) (s, out) =
        (if r = 0 then vprintf_loop_debug fuel mal (Some t) (u, out) else Inr (int (length t), (u, out)))"
        by (simp add: return_m_def)
    qed
    show ?thesis
    proof (cases "r = 0")
      case True
      with u(2) s1(4) Suc.prems(3) have "vprintf_pre log t u" "vprintf_fuel t u \<le> fuel" by auto
      from Suc.IH [OF this(1) su this(2)] True show ?thesis unfolding run by simp
    next
      case False
      with su show ?thesis unfolding run by simp
    qed
  qed
qed

lemma silent_printf:
  assumes "modest mal" and "length t < 4096"
  shows "silent log (\<lambda>p. sbuf_printf_debug (nat (s_len (fst p)) + 2) mal (Some t) p)
    (\<lambda>s. sbuf_printf (nat (s_len s) + 2) mal (Some t) s)"
proof (rule silentI)
  fix s :: "'a sbuf" and out assume good: "sb_good log s"
  let ?f = "nat (s_len s) + 2"
  from sbuf_printf_inv [OF _ assms(2), of s log mal] good obtain r s' where
    plain: "sbuf_printf ?f mal (Some t) s = Inr (r, s')" "sb_inv log s'" by blast
  have checked: "sbuf_printf_debug ?f mal (Some t) (s, out) =
      (\<lambda>(s, out). if s_error s \<noteq> 0 then Inr (-1, (s, out))
      else bind_m (vprintf_loop_debug ?f mal (Some t)) (\<lambda>len.
        seq_m (plain (modify_m (\<lambda>s.
          let len = (if SBUF_FREESPACE s < len then SBUF_FREESPACE s else len);
              s = s\<lparr>s_len := s_len s + len\<rparr>;
              s = (if SBUF_ISSECTION s then s\<lparr>s_sect_len := s_sect_len s + len\<rparr> else s)
          in if \<not> SBUF_HASROOM s \<and> \<not> SBUF_CANEXTEND s then s\<lparr>s_error := ENOMEM\<rparr> else s)))
        (seq_m (ASSERT 469 (\<lambda>s. s_len s < s_size s))
        (plain (gets_m (\<lambda>s. if s_error s \<noteq> 0 then -1 else 0))))) (s, out)) (s, out)"
    using good unfolding sbuf_printf_debug_def sbuf_vprintf_debug_def
    by (simp only: checks_hold sb_small_def)
  have "sbuf_printf_debug ?f mal (Some t) (s, out) = Inr (r, (s', out)) \<and> sb_small s'"
  proof (cases "s_error s = 0")
    case False
    with plain(1) good show ?thesis unfolding checked by (auto simp: sbuf_printf_def sbuf_vprintf_def)
  next
    case True
    have "vprintf_pre log t s" "vprintf_fuel t s \<le> ?f"
      using good True assms(2) by (auto simp: vprintf_pre_def sb_ok_def sb_small_def vprintf_fuel_def)
    from vprintf_loop_silent [OF assms this(1) _ this(2), of out] good obtain u where
      u: "vprintf_loop ?f mal (Some t) s = Inr (int (length t), u)" "sb_small u"
        "vprintf_loop_debug ?f mal (Some t) (s, out) = Inr (int (length t), (u, out))" by blast
    have len: "s_len s' < s_size s'" using plain(2) by (simp add: sb_ok_def)
    let ?n = "if SBUF_FREESPACE u < int (length t) then SBUF_FREESPACE u else int (length t)"
    let ?v = "let s = u\<lparr>s_len := s_len u + ?n\<rparr>;
              s = (if SBUF_ISSECTION s then s\<lparr>s_sect_len := s_sect_len s + ?n\<rparr> else s)
          in if \<not> SBUF_HASROOM s \<and> \<not> SBUF_CANEXTEND s then s\<lparr>s_error := ENOMEM\<rparr> else s"
    have v: "?v = s'" "r = (if s_error s' \<noteq> 0 then -1 else 0)"
      using plain(1) True u(1) by (auto simp: sbuf_printf_def sbuf_vprintf_def bind_m_Inr Let_def)
    have "sb_small ?v" using u(2) by (simp add: Let_def)
    then have "sb_small s'" unfolding v(1) .
    moreover have "sbuf_printf_debug ?f mal (Some t) (s, out) = Inr (r, (s', out))"
      unfolding checked using True u(3) v len
      by (simp add: bind_m_Inr seq_m_def plain_def zoom_m_def modify_m_def gets_m_def ASSERT_def Let_def)
    ultimately show ?thesis by simp
  qed
  with plain show "\<exists>x u. sbuf_printf (nat (s_len s) + 2) mal (Some t) s = Inr (x, u) \<and>
      sbuf_printf_debug (nat (s_len (fst (s, out))) + 2) mal (Some t) (s, out) = Inr (x, (u, out)) \<and> sb_good log u"
    by auto
qed

section \<open>Finishing and reading\<close>

lemma finish_loop_silent:
  "sb_inv log s \<Longrightarrow> s_drain_func s \<noteq> None \<Longrightarrow> nat (s_len s) \<le> fuel \<Longrightarrow>
   finish_loop_debug fuel (s, out) = plain (finish_loop fuel) (s, out)"
proof (induction fuel arbitrary: s)
  case 0
  then show ?case by (auto simp: finish_loop.simps [of 0 s] plain_def zoom_m_def)
next
  case (Suc fuel)
  show ?case
  proof (cases "s_len s > 0 \<and> s_error s = 0")
    case False
    then show ?thesis by (auto simp: finish_loop.simps [of "Suc fuel" s] plain_def zoom_m_def)
  next
    case True
    from Suc.prems(1,2) obtain F where F: "s_drain_func s = Some F" "drain_ok log F"
      by (auto simp: sb_drain_ok_def)
    from sbuf_drain_spec [OF _ F] True Suc.prems(1) obtain r u where
      u: "sbuf_drain s = Inr (r, u)" "sb_ok u" "sb_same s u" "s_error u = r" "r = 0 \<longrightarrow> s_len u < s_len s"
      by blast
    have upd: "u\<lparr>s_error := r\<rparr> = u" using u(4) by simp
    have "sbuf_drain_debug (s, out) = Inr (r, (u, out))"
      using drain_silent [OF _ _ Suc.prems(2), of log out] True Suc.prems(1) u(1) by (simp add: plain_Inr)
    then have run: "finish_loop_debug (Suc fuel) (s, out) = finish_loop_debug fuel (u, out)"
      "plain (finish_loop (Suc fuel)) (s, out) = plain (finish_loop fuel) (u, out)"
      using True u(1) upd
      by (simp_all add: finish_loop.simps [of "Suc fuel" s] bind_m_Inr plain_eq)
    show ?thesis
    proof (cases "r = 0")
      case False
      then show ?thesis unfolding run using u(4)
        by (cases fuel) (simp_all add: finish_loop.simps [of _ u] plain_def zoom_m_def)
    next
      case True
      have inv: "sb_inv log u" "s_drain_func u \<noteq> None"
        using u(2,3) Suc.prems(1) F(1) by (auto simp: sb_drain_ok_def sb_same_def)
      from Suc.IH [OF inv] u(5) True Suc.prems(3) show ?thesis unfolding run by simp
    qed
  qed
qed

text \<open>
  Finishing an open buffer reports nothing, nor does deleting it; its data may only be asked for then,
  and neither the data nor the length of a buffer with a drain.
\<close>

theorem sbuf_debug_finish:
  assumes "sb_ok s" and "sb_drain_ok log s" and "\<not> SBUF_ISFINISHED s" and "nat (s_len s) \<le> fuel"
  shows "\<exists>r s'. sbuf_finish fuel s = Inr (r, s') \<and> sbuf_finish_debug fuel (s, out) = Inr (r, (s', out)) \<and>
    sbuf_delete_debug (s', out) = plain sbuf_delete (s', out)"
    and "sbuf_data_debug (s, out) = Inr (sbuf_data s, (s, out @ [94] @ (if s_drain_func s = None then [] else [571])))"
    and "sbuf_len_debug (s, out) = Inr (sbuf_len s, (s, out @ (if s_drain_func s = None then [] else [586])))"
proof -
  have fin: "s_flags s AND SBUF_FINISHED = 0" using assms(3) by (simp add: SBUF_ISFINISHED_def)
  let ?loop = "\<lambda>s. if s_drain_func s \<noteq> None then finish_loop fuel s else Inr ((), s)"
  let ?loopd = "\<lambda>(s, out). if s_drain_func s \<noteq> None then finish_loop_debug fuel (s, out) else Inr ((), (s, out))"
  have loop: "?loopd (s, out) = plain ?loop (s, out)"
    using finish_loop_silent [of s log fuel out] assms by (auto simp: plain_def zoom_m_def)
  have "sbuf_finish_debug fuel (s, out) = plain (sbuf_finish fuel) (s, out)"
    unfolding sbuf_finish_debug_def sbuf_finish_def checks_hold(1) [OF assms(1)] checks_hold(2) [OF fin] plain_seq
    using loop by (simp add: seq_m_def)
  moreover from sbuf_finish_spec [OF _ assms(4), of log] assms(1,2) obtain r s' where
    s': "sbuf_finish fuel s = Inr (r, s')" "sb_ok s'" by blast
  ultimately show "\<exists>r s'. sbuf_finish fuel s = Inr (r, s') \<and> sbuf_finish_debug fuel (s, out) = Inr (r, (s', out)) \<and>
      sbuf_delete_debug (s', out) = plain sbuf_delete (s', out)"
    by (simp add: plain_Inr sbuf_delete_debug_def checks_hold)
  have "SBUF_FINISHED \<noteq> 0" by (simp add: flag_consts)
  with fin assms(1) show "sbuf_data_debug (s, out) =
      Inr (sbuf_data s, (s, out @ [94] @ (if s_drain_func s = None then [] else [571])))"
    by (simp add: sbuf_data_debug_def checks_hold assert_sbuf_state_def ASSERT_prints plain_Inr gets_m_def)
  show "sbuf_len_debug (s, out) = Inr (sbuf_len s, (s, out @ (if s_drain_func s = None then [] else [586])))"
    using assms(1) by (simp add: sbuf_len_debug_def checks_hold ASSERT_prints plain_Inr gets_m_def)
qed

section \<open>Runs\<close>

fun sbuf_step_debug :: "(nat \<Rightarrow> bool) \<Rightarrow> sbuf_call \<Rightarrow> ('d sbuf \<times> nat list, unit) op" where
  "sbuf_step_debug mal (Bcat bs) = seq_m (sbuf_bcat_debug mal bs) (return_m ())"
| "sbuf_step_debug mal (Bcpy bs) = seq_m (sbuf_bcpy_debug mal bs) (return_m ())"
| "sbuf_step_debug mal (Cat str) = seq_m (sbuf_cat_debug mal str) (return_m ())"
| "sbuf_step_debug mal (Cpy str) = seq_m (sbuf_cpy_debug mal str) (return_m ())"
| "sbuf_step_debug mal (Putc c) = seq_m (sbuf_putc_debug mal c) (return_m ())"
| "sbuf_step_debug mal (Printf t) =
     seq_m (\<lambda>p. sbuf_printf_debug (nat (s_len (fst p)) + 2) mal (Some t) p) (return_m ())"
| "sbuf_step_debug mal (Setpos pos) = seq_m (sbuf_setpos_debug pos) (return_m ())"
| "sbuf_step_debug mal Trim = seq_m sbuf_trim_debug (return_m ())"
| "sbuf_step_debug mal Clear = sbuf_clear_debug"
| "sbuf_step_debug mal Start_section = seq_m (sbuf_start_section_debug True) (return_m ())"
| "sbuf_step_debug mal (End_section old_len pad c) =
     seq_m (sbuf_end_section_debug mal old_len pad c) (return_m ())"

definition run_calls_debug :: "((nat \<Rightarrow> bool) \<times> sbuf_call) list \<Rightarrow> ('d sbuf \<times> nat list, unit) op" where
  "run_calls_debug = each_m (\<lambda>(mal, c). sbuf_step_debug mal c)"

text \<open>
  What a call on an open buffer is reported for: a position outside the buffer or inside a section,
  trimming a buffer with a drain, a section that begins with bytes already counted, and the end of a
  section that was not begun.
\<close>

fun warnings :: "sbuf_call \<Rightarrow> 'd sbuf \<Rightarrow> nat list" where
  "warnings (Setpos pos) s = (if pos \<ge> 0 then [] else [243]) @ (if pos < s_size s then [] else [245]) @
     (if SBUF_ISSECTION s then [248] else [])"
| "warnings Trim s = (if s_drain_func s = None then [] else [514])"
| "warnings Start_section s = (if SBUF_ISSECTION s \<or> s_sect_len s = 0 then [] else [634])"
| "warnings (End_section old_len pad c) s = (if SBUF_ISSECTION s then [] else [658])"
| "warnings _ s = []"

fun run_warnings :: "((nat \<Rightarrow> bool) \<times> sbuf_call) list \<Rightarrow> 'd sbuf \<Rightarrow> nat list" where
  "run_warnings [] s = []"
| "run_warnings ((mal, c) # cs) s = warnings c s @
     (case sbuf_step mal c s of Inl e \<Rightarrow> [] | Inr (_, t) \<Rightarrow> run_warnings cs t)"

text \<open>A call reports exactly its warnings.\<close>

definition reports ::
  "('d option \<Rightarrow> byte list) \<Rightarrow> ('d sbuf \<Rightarrow> nat list) \<Rightarrow> ('d sbuf \<times> nat list, 'a) op \<Rightarrow> ('d sbuf, 'a) op \<Rightarrow> bool" where
  "reports log w f g \<longleftrightarrow> (\<forall>s out. sb_good log s \<longrightarrow>
     (\<exists>x t. g s = Inr (x, t) \<and> f (s, out) = Inr (x, (t, out @ w s)) \<and> sb_good log t))"

lemma reports_quiet: "silent log f g \<Longrightarrow> (\<And>s. w s = []) \<Longrightarrow> reports log w f g"
  by (fastforce simp: reports_def dest: silentD)

lemmas reports_silent = reports_quiet [where w = "\<lambda>_. []", OF _ refl]

lemma reportsD:
  assumes "reports log w f g" and "sb_good log s"
  shows "\<exists>x t. g s = Inr (x, t) \<and> f (s, out) = Inr (x, (t, out @ w s)) \<and> sb_good log t"
  using assms unfolding reports_def by blast

lemma reports_return:
  assumes "reports log w f g"
  shows "reports log w (seq_m f (return_m ())) (seq_m g (return_m ()))"
  unfolding reports_def
proof (intro allI impI)
  fix s out assume "sb_good log s"
  from reportsD [OF assms this, of out] obtain x t where
    "g s = Inr (x, t)" "f (s, out) = Inr (x, (t, out @ w s))" "sb_good log t" by blast
  then show "\<exists>x t. seq_m g (return_m ()) s = Inr (x, t) \<and>
      seq_m f (return_m ()) (s, out) = Inr (x, (t, out @ w s)) \<and> sb_good log t"
    by (simp add: seq_m_def return_m_def)
qed

lemma reports_checked:
  assumes "reports log w f g"
  shows "reports log w (seq_m assert_sbuf_integrity (seq_m (assert_sbuf_state 0) f)) g"
  using assms by (simp add: reports_def checks_hold sb_small_def)

lemma reports_assert:
  assumes "reports log w f g"
  shows "reports log (\<lambda>s. (if e s then [] else [l]) @ w s) (seq_m (ASSERT l e) f) g"
  unfolding reports_def
proof (intro allI impI)
  fix s out assume "sb_good log s"
  from reportsD [OF assms this, of "out @ (if e s then [] else [l])"]
  show "\<exists>x t. g s = Inr (x, t) \<and>
      seq_m (ASSERT l e) f (s, out) = Inr (x, (t, out @ (if e s then [] else [l]) @ w s)) \<and> sb_good log t"
    by (simp add: ASSERT_prints)
qed

lemma plain_setpos: "silent log (plain (sbuf_setpos pos)) (sbuf_setpos pos)"
  by (rule silent_plain) (auto simp: sbuf_setpos_def sb_drain_ok_def sb_ok_def)

lemma plain_trim: "silent log (plain sbuf_trim) sbuf_trim"
proof (rule silent_plain)
  fix s :: "'a sbuf" assume good: "sb_good log s"
  show "\<exists>x t. sbuf_trim s = Inr (x, t) \<and> sb_good log t"
  proof (cases "s_error s = 0")
    case False
    with good show ?thesis by (simp add: sbuf_trim_def)
  next
    case True
    from trim_loop_spec [OF _ refl] good obtain t where
      t: "trim_loop (nat (s_len s)) s = Inr ((), t)" "sb_ok t" "sb_same s t" by blast
    moreover have "sb_drain_ok log t" using sb_inv_same [OF t(3)] good by blast
    moreover have "sb_small t" using keeps_smallD [OF trim_loop_small t(1)] good by blast
    ultimately show ?thesis using True by (simp add: sbuf_trim_def seq_m_def return_m_def)
  qed
qed

lemma plain_start_section: "silent log (plain (sbuf_start_section True)) (sbuf_start_section True)"
  by (rule silent_plain) (auto simp: sbuf_start_section_def sb_drain_ok_def)

lemma reports_start_section:
  "reports log (warnings Start_section) (sbuf_start_section_debug True) (sbuf_start_section True)"
proof -
  have "reports log (warnings Start_section) (\<lambda>(s, out).
      seq_m (if \<not> SBUF_ISSECTION s then ASSERT 634 (\<lambda>s. s_sect_len s = 0) else ASSERT 640 (\<lambda>s. True))
        (plain (sbuf_start_section True)) (s, out)) (sbuf_start_section True)"
    using reports_silent [OF plain_start_section, of log] by (auto simp: reports_def ASSERT_prints)
  then show ?thesis unfolding sbuf_start_section_debug_def by (rule reports_checked)
qed

lemma reports_end_section:
  assumes "modest mal"
  shows "reports log (warnings (End_section old_len pad c)) (sbuf_end_section_debug mal old_len pad c)
    (sbuf_end_section mal old_len pad c)"
proof -
  have pads: "silent log (\<lambda>(s, out). if pad > 1
         then pad_loop_debug mal c (nat (section_padding (s_sect_len s) pad)) (s, out)
         else Inr ((), (s, out)))
      (\<lambda>s. if pad > 1 then pad_loop mal c (nat (section_padding (s_sect_len s) pad)) s
                 else Inr ((), s))"
  proof (rule silentI)
    fix s :: "'a sbuf" and out assume good: "sb_good log s"
    let ?n = "nat (section_padding (s_sect_len s) pad)"
    from silentD [OF silent_pad_loop [OF assms] good, of c ?n out] good
    show "\<exists>x t. (if pad > 1 then pad_loop mal c ?n s else Inr ((), s)) = Inr (x, t) \<and>
        (\<lambda>(s, out). if pad > 1 then pad_loop_debug mal c (nat (section_padding (s_sect_len s) pad)) (s, out)
           else Inr ((), (s, out))) (s, out) = Inr (x, (t, out)) \<and> sb_good log t" by auto
  qed
  have final: "silent log (plain (\<lambda>s. let len = s_sect_len s;
                s = (if old_len = -1 then SBUF_CLEARFLAG SBUF_INSECTION (s\<lparr>s_sect_len := 0\<rparr>)
                     else s\<lparr>s_sect_len := s_sect_len s + old_len\<rparr>)
            in Inr (if s_error s \<noteq> 0 then -1 else len, s)))
      (\<lambda>s. let len = s_sect_len s;
                s = (if old_len = -1 then SBUF_CLEARFLAG SBUF_INSECTION (s\<lparr>s_sect_len := 0\<rparr>)
                     else s\<lparr>s_sect_len := s_sect_len s + old_len\<rparr>)
            in Inr (if s_error s \<noteq> 0 then -1 else len, s))"
    by (rule silent_plain) (auto simp: Let_def sb_drain_ok_def)
  from reports_checked [OF reports_assert [where l = 658 and e = SBUF_ISSECTION,
      OF reports_silent [OF silent_seq [OF pads final]]]]
  show ?thesis by (simp add: sbuf_end_section_debug_def sbuf_end_section_def reports_def)
qed

lemma reports_setpos: "reports log (warnings (Setpos pos)) (sbuf_setpos_debug pos) (sbuf_setpos pos)"
  using reports_checked [OF reports_assert [where l = 243 and e = "\<lambda>s. pos \<ge> 0",
    OF reports_assert [where l = 245 and e = "\<lambda>s. pos < s_size s",
    OF reports_assert [where l = 248 and e = "\<lambda>s. \<not> SBUF_ISSECTION s",
    OF reports_silent [OF plain_setpos [of log pos]]]]]]
  by (auto simp: sbuf_setpos_debug_def reports_def)

lemma reports_trim: "reports log (warnings Trim) sbuf_trim_debug sbuf_trim"
  using reports_checked [OF reports_assert [where l = 514 and e = "\<lambda>s. s_drain_func s = None",
    OF reports_silent [OF plain_trim [of log]]]]
  by (auto simp: sbuf_trim_debug_def reports_def)

lemma step_printf: "sbuf_step mal (Printf t) =
    seq_m (\<lambda>s. sbuf_printf (nat (s_len s) + 2) mal (Some t) s) (return_m ())"
  by (simp add: seq_m_def fun_eq_iff)

lemma reports_step:
  assumes "modest mal" and "call_ok c"
  shows "reports log (warnings c) (sbuf_step_debug mal c) (sbuf_step mal c)"
proof (cases c)
  case (Printf t)
  show ?thesis
    unfolding Printf step_printf sbuf_step_debug.simps
    by (intro reports_return reports_quiet silent_printf assms(1)) (use assms(2) Printf in simp_all)
qed (use assms in \<open>auto intro!: reports_return reports_setpos reports_trim reports_start_section reports_end_section
  reports_quiet silent_bcat silent_bcpy silent_cat silent_cpy silent_putc silent_clear\<close>)

lemma run_calls_report:
  "sb_good log s \<Longrightarrow> \<forall>(mal, c) \<in> set cs. modest mal \<and> call_ok c \<Longrightarrow>
   \<exists>t. run_calls cs s = Inr ((), t) \<and> run_calls_debug cs (s, out) = Inr ((), (t, out @ run_warnings cs s)) \<and>
     sb_good log t"
proof (induction cs arbitrary: s out)
  case Nil
  then show ?case by (simp add: run_calls_def run_calls_debug_def return_m_def)
next
  case (Cons p cs)
  obtain mal c where p: "p = (mal, c)" by (cases p)
  have "reports log (warnings c) (sbuf_step_debug mal c) (sbuf_step mal c)"
    by (rule reports_step) (use Cons.prems(2) p in simp_all)
  from reportsD [OF this Cons.prems(1), of out] obtain t where
    t: "sbuf_step mal c s = Inr ((), t)" "sbuf_step_debug mal c (s, out) = Inr ((), (t, out @ warnings c s))"
      "sb_good log t" by auto
  from Cons.IH [OF t(3), of "out @ warnings c s"] Cons.prems(2) obtain u where
    "run_calls cs t = Inr ((), u)"
    "run_calls_debug cs (t, out @ warnings c s) = Inr ((), (u, (out @ warnings c s) @ run_warnings cs t))"
    "sb_good log u" by auto
  with t(1,2) show ?case by (simp add: p run_calls_def run_calls_debug_def seq_m_def)
qed

section \<open>Properties\<close>

text \<open>C22: Any run of calls on an open buffer gives the same result in a \<open>DEBUG\<close> build as in a plain one,
  and the assertions that are reported are those of the rules the calls break, in order: a run that
  keeps to the rules prints nothing.  The internal assertions, about the storage, the flags, the
  drain and the growth, never fail, for any drain that keeps its contract and any allocator that
  gives no blocks above 1 GiB.\<close>

theorem sbuf_debug_reports:
  assumes "sb_ok s" and "sb_drain_ok log s" and "\<not> SBUF_ISFINISHED s" and "s_size s \<le> 2 ^ 30"
    and "\<forall>(mal, c) \<in> set cs. call_ok c \<and> (\<forall>n. mal n \<longrightarrow> n \<le> 2 ^ 30)"
  shows "\<exists>s'. run_calls cs s = Inr ((), s') \<and>
    run_calls_debug cs (s, out) = Inr ((), (s', out @ run_warnings cs s))"
proof -
  have "sb_small s" using assms(3,4) by (simp add: sb_small_def SBUF_ISFINISHED_def)
  moreover have "\<forall>(mal, c) \<in> set cs. modest mal \<and> call_ok c" using assms(5) by (auto simp: modest_def)
  ultimately show ?thesis using run_calls_report [of s log cs out] assms(1,2) by blast
qed

text \<open>Trimming a buffer with a drain, a position past the end, and a section that was not begun.\<close>

theorem sbuf_debug_reports_witness:
  "\<exists>s'. run_calls_debug [(\<lambda>n. n \<le> 100, Cat [104, 105, 0]), (\<lambda>_. False, Printf (replicate 20 33)),
      (\<lambda>_. False, Trim), (\<lambda>_. False, Setpos 8), (\<lambda>_. False, End_section (-1) 8 32)] (demo_drained, []) =
      Inr ((), (s', [514, 245, 658]))"
proof -
  let ?cs = "[(\<lambda>n::nat. n \<le> 100, Cat [104, 105, 0]), (\<lambda>_. False, Printf (replicate 20 33)),
      (\<lambda>_. False, Trim), (\<lambda>_. False, Setpos 8), (\<lambda>_. False, End_section (-1) 8 32)]"
  have "\<not> SBUF_ISFINISHED demo_drained" "s_size demo_drained \<le> 2 ^ 30"
    by (simp_all add: demo_drained_def demo_fixed_def zero_sbuf_def flag_preds flag_consts)
  from sbuf_debug_reports [OF demo_simps(3) _ this, of demo_log ?cs "[]"] obtain s' where
    "run_calls_debug ?cs (demo_drained, []) = Inr ((), (s', run_warnings ?cs demo_drained))" by auto
  moreover have "run_warnings ?cs demo_drained = [514, 245, 658]"
    by code_simp
  ultimately show ?thesis by auto
qed

end
