(* ===== verification/Links.thy ===== *)
theory Links
  imports XpcPrelude
begin

text \<open>
  Chains of next pointers, which every queue of \<open>compat_queue.h\<close> is made of, and the loops over
  them.  A chain is seen through a function that gives the next pointer of an element that exists.
  Only a list of elements that ends is a chain; the loops take fuel because memory may hold a cycle.
\<close>

section \<open>Chains\<close>

text \<open>\<open>fchain N f xs\<close>: from the pointer \<open>f\<close> the elements of \<open>xs\<close> follow, then NULL.
  \<open>seg N f xs n\<close>: from \<open>f\<close> the elements of \<open>xs\<close> follow, then the pointer \<open>n\<close>.\<close>

primrec fchain :: "('e \<Rightarrow> 'e option option) \<Rightarrow> 'e option \<Rightarrow> 'e list \<Rightarrow> bool" where
  "fchain N f [] \<longleftrightarrow> f = None"
| "fchain N f (x # xs) \<longleftrightarrow> f = Some x \<and> (\<exists>n. N x = Some n \<and> fchain N n xs)"

primrec seg :: "('e \<Rightarrow> 'e option option) \<Rightarrow> 'e option \<Rightarrow> 'e list \<Rightarrow> 'e option \<Rightarrow> bool" where
  "seg N f [] n \<longleftrightarrow> f = n"
| "seg N f (x # xs) n \<longleftrightarrow> f = Some x \<and> (\<exists>g. N x = Some g \<and> seg N g xs n)"

lemma fchain_cong:
  "(\<And>x. x \<in> set xs \<Longrightarrow> N' x = N x) \<Longrightarrow> fchain N' f xs = fchain N f xs"
  by (induction xs arbitrary: f) auto

lemma fchain_seg: "fchain N f xs \<longleftrightarrow> seg N f xs None"
  by (induction xs arbitrary: f) auto

lemma seg_cong: "(\<And>x. x \<in> set xs \<Longrightarrow> N' x = N x) \<Longrightarrow> seg N' f xs n = seg N f xs n"
  by (induction xs arbitrary: f) auto

lemma seg_other [simp]: "e \<notin> set xs \<Longrightarrow> seg (N(e := g)) f xs n = seg N f xs n"
  by (rule seg_cong) auto

lemma seg_append: "seg N f (xs @ ys) n \<longleftrightarrow> (\<exists>g. seg N f xs g \<and> seg N g ys n)"
  by (induction xs arbitrary: f) auto

lemma seg_first: "seg N f xs n \<Longrightarrow> f = (case xs of [] \<Rightarrow> n | x # _ \<Rightarrow> Some x)"
  by (cases xs) auto

lemma seg_exists: "seg N f xs n \<Longrightarrow> x \<in> set xs \<Longrightarrow> \<exists>g. N x = Some g"
  by (induction xs arbitrary: f) auto

text \<open>Writing the next pointer of the last element redirects the segment.\<close>

lemma seg_redirect:
  "seg N f (xs @ [x]) n \<Longrightarrow> distinct (xs @ [x]) \<Longrightarrow> seg (N(x := Some n')) f (xs @ [x]) n'"
  by (auto simp: seg_append)

text \<open>What a chain holds is determined by its first pointer.\<close>

lemma fchain_unique: "fchain N f xs \<Longrightarrow> fchain N f ys \<Longrightarrow> xs = ys"
proof (induction xs arbitrary: f ys)
  case Nil
  then show ?case by (cases ys) auto
next
  case (Cons x xs)
  then show ?case by (cases ys) auto
qed

section \<open>Loops along a chain\<close>

text \<open>
  The loop of the \<open>FOREACH\<close> macros: the body says whether the loop goes on; the next pointer is
  read after the body, or before it in the \<open>SAFE\<close> loop.
\<close>

fun links_loop ::
  "nat \<Rightarrow> ('e \<Rightarrow> ('s, 'e option) op) \<Rightarrow> ('e \<Rightarrow> ('s, bool) op) \<Rightarrow> 'e option \<Rightarrow> ('s, bool) op" where
  "links_loop fuel step body None = return_m True"
| "links_loop 0 step body (Some e) = fail_m Diverges"
| "links_loop (Suc fuel) step body (Some e) =
     bind_m (body e) (\<lambda>continue.
     if continue then bind_m (step e) (links_loop fuel step body) else return_m False)"

fun links_loop_safe ::
  "nat \<Rightarrow> ('e \<Rightarrow> ('s, 'e option) op) \<Rightarrow> ('e \<Rightarrow> ('s, bool) op) \<Rightarrow> 'e option \<Rightarrow> ('s, bool) op" where
  "links_loop_safe fuel step body None = return_m True"
| "links_loop_safe 0 step body (Some e) = fail_m Diverges"
| "links_loop_safe (Suc fuel) step body (Some e) =
     bind_m (step e) (\<lambda>tvar.
     bind_m (body e) (\<lambda>continue.
     if continue then links_loop_safe fuel step body tvar else return_m False))"

text \<open>The loop over a list that a traversal amounts to.\<close>

primrec for_each :: "('e \<Rightarrow> ('s, bool) op) \<Rightarrow> 'e list \<Rightarrow> ('s, bool) op" where
  "for_each body [] = return_m True"
| "for_each body (x # xs) =
     bind_m (body x) (\<lambda>continue. if continue then for_each body xs else return_m False)"

lemma links_loop_chain:
  assumes "fchain (N s) f xs" and "length xs \<le> fuel"
    and run: "\<And>s x n. N s x = Some n \<Longrightarrow> step x s = Inr (n, s)"
    and "\<And>x y s s'. x \<in> set xs \<Longrightarrow> y \<in> set xs \<Longrightarrow> body x s = Inr (True, s') \<Longrightarrow> N s' y = N s y"
  shows "links_loop fuel step body f s = for_each body xs s"
  using assms(1,2,4)
proof (induction xs arbitrary: f s fuel)
  case Nil
  then show ?case by simp
next
  case (Cons x xs)
  from Cons.prems(1) obtain n where f: "f = Some x" and n: "N s x = Some n"
    and chain: "fchain (N s) n xs" by auto
  from Cons.prems(2) obtain k where k: "fuel = Suc k" "length xs \<le> k" by (cases fuel) auto
  have "links_loop k step body n t = for_each body xs t" if b: "body x s = Inr (True, t)" for t
  proof (rule Cons.IH)
    show "fchain (N t) n xs"
      using chain fchain_cong [of xs "N t" "N s" n] Cons.prems(3) [OF _ _ b] by simp
  qed (use Cons.prems(3) k in auto)
  moreover have "N t x = Some n" if "body x s = Inr (True, t)" for t
    using Cons.prems(3) [OF _ _ that, of x] n by simp
  ultimately show ?case
    unfolding f k by (auto simp: bind_m_def run split: sum.splits)
qed

lemma links_loop_safe_chain:
  assumes "fchain (N s) f xs" and "distinct xs" and "length xs \<le> fuel"
    and run: "\<And>s x n. N s x = Some n \<Longrightarrow> step x s = Inr (n, s)"
    and "\<And>x y s s'. x \<in> set xs \<Longrightarrow> y \<in> set xs \<Longrightarrow> x \<noteq> y \<Longrightarrow> body x s = Inr (True, s') \<Longrightarrow> N s' y = N s y"
  shows "links_loop_safe fuel step body f s = for_each body xs s"
  using assms(1-3,5)
proof (induction xs arbitrary: f s fuel)
  case Nil
  then show ?case by simp
next
  case (Cons x xs)
  from Cons.prems(1) obtain n where f: "f = Some x" and n: "N s x = Some n"
    and chain: "fchain (N s) n xs" by auto
  from Cons.prems(3) obtain k where k: "fuel = Suc k" "length xs \<le> k" by (cases fuel) auto
  have "links_loop_safe k step body n t = for_each body xs t" if b: "body x s = Inr (True, t)" for t
  proof (rule Cons.IH)
    have "N t y = N s y" if "y \<in> set xs" for y
      using Cons.prems(4) [OF _ _ _ b, of y] Cons.prems(2) that by auto
    then show "fchain (N t) n xs" using chain fchain_cong [of xs "N t" "N s" n] by simp
  qed (use Cons.prems(2,4) k in auto)
  then show ?case
    unfolding f k using n by (auto simp: bind_m_def run split: sum.splits)
qed

text \<open>
  A traversal of elements that lead into each other for ever does not end, however much fuel it
  is given.
\<close>

lemma links_loop_cycle:
  assumes "x \<in> C" and "I s"
    and "\<And>x s. x \<in> C \<Longrightarrow> I s \<Longrightarrow> \<exists>s'. body x s = Inr (True, s') \<and> I s'"
    and "\<And>x s. x \<in> C \<Longrightarrow> I s \<Longrightarrow> \<exists>y \<in> C. step x s = Inr (Some y, s)"
  shows "links_loop fuel step body (Some x) s = Inl Diverges"
  using assms(1,2)
proof (induction fuel arbitrary: x s)
  case 0
  then show ?case by (simp add: fail_m_def)
next
  case (Suc fuel)
  from assms(3) [OF Suc.prems] obtain t where t: "body x s = Inr (True, t)" "I t" by blast
  from assms(4) [OF Suc.prems(1) t(2)] obtain y where y: "y \<in> C" "step x t = Inr (Some y, t)" by blast
  from Suc.IH [OF y(1) t(2)] t y(2) show ?case by (simp add: bind_m_def)
qed

end
