(* ===== verification/QueueContract.thy ===== *)
theory QueueContract
  imports Links
begin

text \<open>
  What the queues of \<open>compat_queue.h\<close> promise, as contracts over the list of elements that a head
  represents, and what follows from the contracts alone.
\<close>

section \<open>The contract of a queue, and what follows from it\<close>

text \<open>
  The clients of the queue (arrays, dictionaries) only use that a represented queue can be
  extended by a fresh cell, that this leaves every disjoint queue alone, and that its first
  element can be taken out.
\<close>

locale growing_queue =
  fixes rep :: "'s \<Rightarrow> 'h \<Rightarrow> 'e list \<Rightarrow> bool"
    and cell :: "'s \<Rightarrow> 'e \<Rightarrow> bool"
    and put :: "'h \<Rightarrow> 'e \<Rightarrow> ('s, unit) op"
  assumes put_law: "rep s h xs \<Longrightarrow> cell s e \<Longrightarrow> e \<notin> set xs \<Longrightarrow>
      \<exists>s'. put h e s = Inr ((), s') \<and> rep s' h (xs @ [e]) \<and> cell s' = cell s \<and>
        (\<forall>h' ys. h' \<noteq> h \<longrightarrow> rep s h' ys \<longrightarrow> set ys \<inter> set (xs @ [e]) = {} \<longrightarrow> rep s' h' ys)"
begin

lemma put_all:
  assumes "rep s h xs" and "\<forall>e \<in> set es. cell s e" and "distinct es" and "set es \<inter> set xs = {}"
  shows "\<exists>s'. each_m (put h) es s = Inr ((), s') \<and> rep s' h (xs @ es) \<and> cell s' = cell s \<and>
    (\<forall>h' ys. h' \<noteq> h \<longrightarrow> rep s h' ys \<longrightarrow> set ys \<inter> set (xs @ es) = {} \<longrightarrow> rep s' h' ys)"
  using assms
proof (induction es arbitrary: s xs)
  case Nil
  then show ?case by (simp add: return_m_def)
next
  case (Cons e es)
  from put_law [of s h xs e] Cons.prems obtain t where t: "put h e s = Inr ((), t)"
    "rep t h (xs @ [e])" "cell t = cell s"
    and other: "\<And>h' ys. h' \<noteq> h \<Longrightarrow> rep s h' ys \<Longrightarrow> set ys \<inter> set (xs @ [e]) = {} \<Longrightarrow> rep t h' ys"
    by auto
  from Cons.IH [OF t(2)] Cons.prems t(3) obtain s' where s': "each_m (put h) es t = Inr ((), s')"
    "rep s' h (xs @ e # es)" "cell s' = cell s"
    and other': "\<And>h' ys. h' \<noteq> h \<Longrightarrow> rep t h' ys \<Longrightarrow> set ys \<inter> set (xs @ e # es) = {} \<Longrightarrow>
      rep s' h' ys"
    by auto
  have "rep s' h' ys" if "h' \<noteq> h" "rep s h' ys" "set ys \<inter> set (xs @ e # es) = {}" for h' ys
    using other [OF that(1,2)] other' [OF that(1) _ that(3)] that(3) by auto
  with t(1) s' show ?case by (simp add: seq_m_Inr)
qed

end

locale fifo_queue = growing_queue +
  fixes take_out :: "'h \<Rightarrow> 'e \<Rightarrow> ('s, unit) op"
  assumes take_out_law: "rep s h (x # xs) \<Longrightarrow>
      \<exists>s'. take_out h x s = Inr ((), s') \<and> rep s' h xs \<and> cell s' = cell s"
begin

lemma take_out_all:
  "rep s h xs \<Longrightarrow> \<exists>s'. each_m (take_out h) xs s = Inr ((), s') \<and> rep s' h [] \<and> cell s' = cell s"
proof (induction xs arbitrary: s)
  case Nil
  then show ?case by (simp add: return_m_def)
next
  case (Cons x xs)
  from take_out_law [OF Cons.prems] obtain t where
    "take_out h x s = Inr ((), t)" "rep t h xs" "cell t = cell s" by blast
  with Cons.IH [of t] show ?case by (auto simp: seq_m_Inr)
qed

text \<open>What is put in comes out in the same order and leaves the queue as it was.\<close>

lemma put_all_take_out_all:
  assumes "rep s h []" and "\<forall>e \<in> set es. cell s e" and "distinct es"
  shows "\<exists>s' s''. each_m (put h) es s = Inr ((), s') \<and> rep s' h es \<and>
    each_m (take_out h) es s' = Inr ((), s'') \<and> rep s'' h [] \<and> cell s'' = cell s"
  using put_all [OF assms] take_out_all by fastforce

end

text \<open>The contract of a stack: elements are put in and taken out at the head.\<close>

locale lifo_stack =
  fixes rep :: "'s \<Rightarrow> 'h \<Rightarrow> 'e list \<Rightarrow> bool"
    and cell :: "'s \<Rightarrow> 'e \<Rightarrow> bool"
    and push :: "'h \<Rightarrow> 'e \<Rightarrow> ('s, unit) op"
    and pop :: "'h \<Rightarrow> ('s, unit) op"
  assumes push_law: "rep s h xs \<Longrightarrow> cell s e \<Longrightarrow> e \<notin> set xs \<Longrightarrow>
      \<exists>s'. push h e s = Inr ((), s') \<and> rep s' h (e # xs) \<and> cell s' = cell s"
    and pop_law: "rep s h (x # xs) \<Longrightarrow> \<exists>s'. pop h s = Inr ((), s') \<and> rep s' h xs \<and> cell s' = cell s"
begin

lemma push_all:
  assumes "rep s h xs" and "\<forall>e \<in> set es. cell s e" and "distinct es" and "set es \<inter> set xs = {}"
  shows "\<exists>s'. each_m (push h) es s = Inr ((), s') \<and> rep s' h (rev es @ xs) \<and> cell s' = cell s"
  using assms
proof (induction es arbitrary: s xs)
  case Nil
  then show ?case by (simp add: return_m_def)
next
  case (Cons e es)
  from push_law [of s h xs e] Cons.prems obtain t where t: "push h e s = Inr ((), t)"
    "rep t h (e # xs)" "cell t = cell s" by auto
  with Cons.IH [OF t(2)] Cons.prems show ?case by (auto simp: seq_m_Inr)
qed

lemma pop_all:
  "rep s h (es @ xs) \<Longrightarrow> \<exists>s'. each_m (\<lambda>_. pop h) es s = Inr ((), s') \<and> rep s' h xs \<and> cell s' = cell s"
proof (induction es arbitrary: s)
  case Nil
  then show ?case by (simp add: return_m_def)
next
  case (Cons e es)
  with pop_law [of s h e "es @ xs"] obtain t where
    "pop h s = Inr ((), t)" "rep t h (es @ xs)" "cell t = cell s" by auto
  with Cons.IH [of t] show ?case by (auto simp: seq_m_Inr)
qed

text \<open>The last one in is the first one out, and what was below stays.\<close>

lemma push_all_pop_all:
  assumes "rep s h xs" and "\<forall>e \<in> set es. cell s e" and "distinct es" and "set es \<inter> set xs = {}"
  shows "\<exists>s' s''. each_m (push h) es s = Inr ((), s') \<and> rep s' h (rev es @ xs) \<and>
    each_m (\<lambda>_. pop h) (rev es) s' = Inr ((), s'') \<and> rep s'' h xs \<and> cell s'' = cell s"
proof -
  from push_all [OF assms] obtain s' where
    s': "each_m (push h) es s = Inr ((), s')" "rep s' h (rev es @ xs)" "cell s' = cell s" by blast
  from pop_all [OF s'(2)] s' show ?thesis by auto
qed

end

end
