(* ===== verification/TailQueueRep.thy ===== *)
theory TailQueueRep
  imports TailQueue QueueContract
begin

text \<open>
  What the tail queue of \<open>TailQueue\<close> represents: \<open>tq_rep q h xs\<close> says that the head \<open>h\<close> and
  the entries of \<open>xs\<close> form a well-linked queue holding \<open>xs\<close> in this order.  Each updating
  macro is proved to implement the list operation of its name on represented queues and to
  leave every other queue alone; the traversals visit exactly the list.
\<close>

section \<open>Linked segments\<close>

text \<open>
  \<open>dseg E p f xs l n\<close>: starting from the cell \<open>p\<close>, which holds \<open>f\<close>, the entries of \<open>xs\<close> are
  linked forwards and backwards; \<open>l\<close> is the cell after the last of them and holds \<open>n\<close>.
\<close>

primrec dseg ::
  "('e \<Rightarrow> ('h, 'e) tq_entry option) \<Rightarrow> ('h, 'e) tq_loc \<Rightarrow> 'e option \<Rightarrow> 'e list \<Rightarrow> ('h, 'e) tq_loc \<Rightarrow> 'e option \<Rightarrow> bool"
where
  "dseg E p f [] l n \<longleftrightarrow> l = p \<and> f = n"
| "dseg E p f (x # xs) l n \<longleftrightarrow> f = Some x \<and>
     (\<exists>en. E x = Some en \<and> tqe_prev en = p \<and> dseg E (ElemNext x) (tqe_next en) xs l n)"

definition tq_rep :: "('h, 'e) tq_mem \<Rightarrow> 'h \<Rightarrow> 'e list \<Rightarrow> bool" where
  "tq_rep q h xs \<longleftrightarrow> distinct xs \<and>
     (\<exists>hh. heads q h = Some hh \<and> dseg (ents q) (HeadFirst h) (tqh_first hh) xs (tqh_last hh) None)"

text \<open>\<open>tq_same q q' H E\<close>: from \<open>q\<close> to \<open>q'\<close> only heads in \<open>H\<close> and entries in \<open>E\<close> were written.\<close>

definition tq_same :: "('h, 'e) tq_mem \<Rightarrow> ('h, 'e) tq_mem \<Rightarrow> 'h set \<Rightarrow> 'e set \<Rightarrow> bool" where
  "tq_same q q' H E \<longleftrightarrow>
     (\<forall>h. h \<notin> H \<longrightarrow> heads q' h = heads q h) \<and> (\<forall>e. e \<notin> E \<longrightarrow> ents q' e = ents q e) \<and>
     dom (heads q') = dom (heads q) \<and> dom (ents q') = dom (ents q)"

lemma dseg_append:
  "dseg E p f (xs @ ys) l n \<longleftrightarrow> (\<exists>l' n'. dseg E p f xs l' n' \<and> dseg E l' n' ys l n)"
  by (induction xs arbitrary: p f) auto

lemma dseg_cong:
  "(\<And>x. x \<in> set xs \<Longrightarrow> E' x = E x) \<Longrightarrow> dseg E' p f xs l n = dseg E p f xs l n"
  by (induction xs arbitrary: p f) auto

lemma dseg_ents: "dseg E p f xs l n \<Longrightarrow> x \<in> set xs \<Longrightarrow> \<exists>en. E x = Some en"
  by (induction xs arbitrary: p f) auto

lemma dseg_first: "dseg E p f xs l n \<Longrightarrow> f = (case xs of [] \<Rightarrow> n | x # _ \<Rightarrow> Some x)"
  by (cases xs) auto

lemma dseg_last: "dseg E p f xs l n \<Longrightarrow> l = (if xs = [] then p else ElemNext (last xs))"
  by (induction xs arbitrary: p f) auto

lemma dseg_other [simp]:
  "e \<notin> set xs \<Longrightarrow> dseg (E(e \<mapsto> en)) p f xs l n = dseg E p f xs l n"
  by (rule dseg_cong) auto

lemma dseg_next_cell:
  assumes "dseg E p f (xs @ [x]) l n" and "distinct (xs @ [x])"
    and "E' x = map_option (tqe_next_update (\<lambda>_. n')) (E x)"
    and "\<And>y. y \<in> set xs \<Longrightarrow> E' y = E y"
  shows "dseg E' p f (xs @ [x]) l n'"
  using assms dseg_cong [of xs E' E] by (auto simp: dseg_append)

lemma tq_repI:
  "distinct xs \<Longrightarrow> heads q h = Some hh \<Longrightarrow>
   dseg (ents q) (HeadFirst h) (tqh_first hh) xs (tqh_last hh) None \<Longrightarrow> tq_rep q h xs"
  by (auto simp: tq_rep_def)

lemma tq_repE:
  assumes "tq_rep q h xs"
  obtains hh where "distinct xs" "heads q h = Some hh"
    "dseg (ents q) (HeadFirst h) (tqh_first hh) xs (tqh_last hh) None"
  using assms by (auto simp: tq_rep_def)

lemma tq_rep_distinct: "tq_rep q h xs \<Longrightarrow> distinct xs"
  by (simp add: tq_rep_def)

lemma tq_rep_ents: "tq_rep q h xs \<Longrightarrow> x \<in> set xs \<Longrightarrow> \<exists>en. ents q x = Some en"
  by (auto elim!: tq_repE dest: dseg_ents)

lemma tq_rep_frame:
  "tq_rep q h ys \<Longrightarrow> tq_same q q' H E \<Longrightarrow> h \<notin> H \<Longrightarrow> set ys \<inter> E = {} \<Longrightarrow> tq_rep q' h ys"
  using dseg_cong [of ys "ents q'" "ents q"] by (fastforce simp: tq_rep_def tq_same_def)

lemma tq_same_refl [simp]: "tq_same q q H E"
  by (simp add: tq_same_def)

lemma tq_same_trans:
  "tq_same q q' H E \<Longrightarrow> tq_same q' q'' H' E' \<Longrightarrow> tq_same q q'' (H \<union> H') (E \<union> E')"
  by (auto simp: tq_same_def)

lemma tq_same_mono: "tq_same q q' H E \<Longrightarrow> H \<subseteq> H' \<Longrightarrow> E \<subseteq> E' \<Longrightarrow> tq_same q q' H' E'"
  by (auto simp: tq_same_def)

text \<open>The list a head represents is unique: the links determine it.\<close>

lemma dseg_unique:
  "dseg (ents q) p f xs l None \<Longrightarrow> dseg (ents q) p f ys l' None \<Longrightarrow> xs = ys"
proof (induction xs arbitrary: p f ys)
  case Nil
  then show ?case by (cases ys) auto
next
  case (Cons x xs)
  then show ?case by (cases ys) auto
qed

lemma tq_rep_unique: "tq_rep q h xs \<Longrightarrow> tq_rep q h ys \<Longrightarrow> xs = ys"
  by (fastforce elim!: tq_repE dest: dseg_unique)

section \<open>The updating macros on represented queues\<close>

lemmas tq_defs = get_head_def get_ent_def set_first_def set_last_def set_next_def set_prev_def
  TAILQ_FIRST_def TAILQ_NEXT_def TAILQ_EMPTY_def TAILQ_LAST_def TAILQ_PREV_def TAILQ_INIT_def

lemma set_field_runs [exec]:
  "ents q e \<noteq> None \<Longrightarrow> set_next e p q =
     Inr ((), q\<lparr>ents := (ents q)(e \<mapsto> (the (ents q e))\<lparr>tqe_next := p\<rparr>)\<rparr>)"
  "ents q e \<noteq> None \<Longrightarrow> set_prev e l q =
     Inr ((), q\<lparr>ents := (ents q)(e \<mapsto> (the (ents q e))\<lparr>tqe_prev := l\<rparr>)\<rparr>)"
  "heads q h \<noteq> None \<Longrightarrow> set_first h p q =
     Inr ((), q\<lparr>heads := (heads q)(h \<mapsto> (the (heads q h))\<lparr>tqh_first := p\<rparr>)\<rparr>)"
  "heads q h \<noteq> None \<Longrightarrow> set_last h l q =
     Inr ((), q\<lparr>heads := (heads q)(h \<mapsto> (the (heads q h))\<lparr>tqh_last := l\<rparr>)\<rparr>)"
  by (auto simp: tq_defs run_defs)

lemma get_runs [exec]:
  "heads q h \<noteq> None \<Longrightarrow> get_head h q = Inr (the (heads q h), q)"
  "heads q h \<noteq> None \<Longrightarrow> TAILQ_FIRST h q = Inr (tqh_first (the (heads q h)), q)"
  "ents q e \<noteq> None \<Longrightarrow> get_ent e q = Inr (the (ents q e), q)"
  "ents q e \<noteq> None \<Longrightarrow> TAILQ_NEXT e q = Inr (tqe_next (the (ents q e)), q)"
  by (auto simp: tq_defs run_defs)

text \<open>
  Two steps occur in every update: writing the cell a segment ends in, and making the rest of
  the queue (or the head's \<open>tqh_last\<close>, when nothing is left) point back to another cell.
\<close>

lemma store_loc_rep:
  assumes "dseg (ents q) (HeadFirst h) (tqh_first hh) as l n" and "heads q h = Some hh" and "distinct as"
  shows "\<exists>q' hh'. store_loc l p q = Inr ((), q') \<and> heads q' h = Some hh' \<and>
     tqh_last hh' = tqh_last hh \<and> dseg (ents q') (HeadFirst h) (tqh_first hh') as l p \<and>
     tq_same q q' {h} (set as)"
proof (cases as rule: rev_cases)
  case Nil
  with assms show ?thesis by (auto simp: exec tq_same_def)
next
  case (snoc ys y)
  with assms(1) have l: "l = ElemNext y" by (auto dest: dseg_last)
  from assms(1) snoc obtain en where en: "ents q y = Some en" using dseg_ents by fastforce
  let ?q = "q\<lparr>ents := (ents q)(y \<mapsto> en\<lparr>tqe_next := p\<rparr>)\<rparr>"
  have "dseg (ents ?q) (HeadFirst h) (tqh_first hh) (ys @ [y]) l p"
  proof (rule dseg_next_cell)
    show "dseg (ents q) (HeadFirst h) (tqh_first hh) (ys @ [y]) l n" using assms(1) snoc by simp
  qed (use assms(3) en snoc in auto)
  then show ?thesis using assms(2) en snoc l by (auto simp: exec tq_same_def)
qed

lemma relink_rep:
  assumes "dseg (ents q) l n bs (tqh_last hh) None" and "heads q h = Some hh" and "distinct bs"
  shows "\<exists>q' hh'. (case n of Some e \<Rightarrow> set_prev e l' | None \<Rightarrow> set_last h l') q = Inr ((), q') \<and>
     heads q' h = Some hh' \<and> tqh_first hh' = tqh_first hh \<and>
     dseg (ents q') l' n bs (tqh_last hh') None \<and> tq_same q q' {h} (set bs)"
proof (cases bs)
  case Nil
  with assms show ?thesis by (auto simp: exec tq_same_def)
next
  case (Cons b cs)
  with assms show ?thesis by (auto simp: exec tq_same_def)
qed

lemma tq_same_dseg:
  "tq_same q q' H E \<Longrightarrow> set xs \<inter> E = {} \<Longrightarrow> dseg (ents q') p f xs l n = dseg (ents q) p f xs l n"
  by (rule dseg_cong) (auto simp: tq_same_def)

lemma tq_same_ents: "tq_same q q' H E \<Longrightarrow> e \<notin> E \<Longrightarrow> ents q' e = ents q e"
  by (simp add: tq_same_def)

lemma tq_rep_split:
  "tq_rep q h (as @ x # bs) \<longleftrightarrow> distinct (as @ x # bs) \<and>
     (\<exists>hh en. heads q h = Some hh \<and> ents q x = Some en \<and>
       dseg (ents q) (HeadFirst h) (tqh_first hh) as (tqe_prev en) (Some x) \<and>
       dseg (ents q) (ElemNext x) (tqe_next en) bs (tqh_last hh) None)"
  by (auto simp: tq_rep_def dseg_append)

lemma tq_rep_joinI:
  assumes "distinct (as @ bs)" and "heads q h = Some hh"
    and "dseg (ents q) (HeadFirst h) (tqh_first hh) as l n" and "dseg (ents q) l n bs (tqh_last hh) None"
  shows "tq_rep q h (as @ bs)"
  using assms by (auto simp: tq_rep_def dseg_append)

lemma remove_rep:
  assumes rep: "tq_rep q h (as @ x # bs)"
  shows "\<exists>q'. TAILQ_REMOVE h x q = Inr ((), q') \<and> tq_rep q' h (as @ bs) \<and>
     tq_same q q' {h} (set as \<union> set bs)"
proof -
  from rep obtain hh en where d: "distinct (as @ x # bs)" and hh: "heads q h = Some hh"
    and en: "ents q x = Some en"
    and sa: "dseg (ents q) (HeadFirst h) (tqh_first hh) as (tqe_prev en) (Some x)"
    and sb: "dseg (ents q) (ElemNext x) (tqe_next en) bs (tqh_last hh) None"
    by (auto simp: tq_rep_split)
  from relink_rep [OF sb hh, of "tqe_prev en"] d obtain q1 h1 where
    run1: "(case tqe_next en of Some e \<Rightarrow> set_prev e (tqe_prev en)
            | None \<Rightarrow> set_last h (tqe_prev en)) q = Inr ((), q1)"
    and h1: "heads q1 h = Some h1" "tqh_first h1 = tqh_first hh"
    and sb1: "dseg (ents q1) (tqe_prev en) (tqe_next en) bs (tqh_last h1) None"
    and same1: "tq_same q q1 {h} (set bs)" by auto
  have "dseg (ents q1) (HeadFirst h) (tqh_first h1) as (tqe_prev en) (Some x)"
    using sa d h1 by (simp add: tq_same_dseg [OF same1] Int_commute)
  from store_loc_rep [OF this h1(1), of "tqe_next en"] d obtain q2 h2 where
    run2: "store_loc (tqe_prev en) (tqe_next en) q1 = Inr ((), q2)"
    and h2: "heads q2 h = Some h2" "tqh_last h2 = tqh_last h1"
    and sa2: "dseg (ents q2) (HeadFirst h) (tqh_first h2) as (tqe_prev en) (tqe_next en)"
    and same2: "tq_same q1 q2 {h} (set as)" by auto
  have en1: "ents q1 x = Some en" using en d tq_same_ents [OF same1] by auto
  have "TAILQ_REMOVE h x q = Inr ((), q2)"
    using en en1 run1 run2
    by (simp add: TAILQ_REMOVE_def get_runs bind_m_Inr seq_m_Inr cong: option.case_cong)
  moreover have sb2: "dseg (ents q2) (tqe_prev en) (tqe_next en) bs (tqh_last h2) None"
    using sb1 d h2 by (simp add: tq_same_dseg [OF same2] Int_commute)
  have "tq_rep q2 h (as @ bs)" by (rule tq_rep_joinI [OF _ h2(1) sa2 sb2]) (use d in auto)
  moreover have "tq_same q q2 {h} (set as \<union> set bs)"
    using tq_same_trans [OF same1 same2] by (simp add: Un_commute)
  ultimately show ?thesis by blast
qed

lemma insert_after_rep:
  assumes rep: "tq_rep q h (as @ x # bs)" and new: "e \<notin> set (as @ x # bs)"
    and live: "ents q e = Some ee"
  shows "\<exists>q'. TAILQ_INSERT_AFTER h x e q = Inr ((), q') \<and> tq_rep q' h (as @ x # e # bs) \<and>
     tq_same q q' {h} (insert e (insert x (set bs)))"
proof -
  from rep obtain hh en where d: "distinct (as @ x # bs)" and hh: "heads q h = Some hh"
    and en: "ents q x = Some en"
    and sa: "dseg (ents q) (HeadFirst h) (tqh_first hh) as (tqe_prev en) (Some x)"
    and sb: "dseg (ents q) (ElemNext x) (tqe_next en) bs (tqh_last hh) None"
    by (auto simp: tq_rep_split)
  let ?q1 = "q\<lparr>ents := (ents q)(e \<mapsto> ee\<lparr>tqe_next := tqe_next en\<rparr>)\<rparr>"
  have "dseg (ents ?q1) (ElemNext x) (tqe_next en) bs (tqh_last hh) None" using sb new by simp
  from relink_rep [OF this, of h "ElemNext e"] hh d obtain q2 h2 where
    run: "(case tqe_next en of Some n \<Rightarrow> set_prev n (ElemNext e)
           | None \<Rightarrow> set_last h (ElemNext e)) ?q1 = Inr ((), q2)"
    and h2: "heads q2 h = Some h2" "tqh_first h2 = tqh_first hh"
    and sb2: "dseg (ents q2) (ElemNext e) (tqe_next en) bs (tqh_last h2) None"
    and same: "tq_same ?q1 q2 {h} (set bs)" by auto
  have x2: "ents q2 x = Some en" and e2: "ents q2 e = Some (ee\<lparr>tqe_next := tqe_next en\<rparr>)"
    using en d new tq_same_ents [OF same] by auto
  let ?q3 = "q2\<lparr>ents := (ents q2)(x \<mapsto> en\<lparr>tqe_next := Some e\<rparr>,
                   e \<mapsto> ee\<lparr>tqe_next := tqe_next en, tqe_prev := ElemNext x\<rparr>)\<rparr>"
  have "TAILQ_INSERT_AFTER h x e q = Inr ((), ?q3)"
    using new en live run x2 e2
    by (simp add: TAILQ_INSERT_AFTER_def get_runs set_field_runs bind_m_Inr seq_m_Inr)
  moreover have "dseg (ents q2) (HeadFirst h) (tqh_first h2) as (tqe_prev en) (Some x)"
    using sa d new h2 by (simp add: tq_same_dseg [OF same] Int_commute)
  then have "tq_rep ?q3 h (as @ x # e # bs)"
    using sb2 h2 d new by (auto simp: tq_rep_split fun_upd_twist)
  moreover have "tq_same q ?q3 {h} (insert e (insert x (set bs)))"
    using same x2 e2 en live by (auto simp: tq_same_def)
  ultimately show ?thesis by blast
qed

lemma insert_head_rep:
  assumes rep: "tq_rep q h xs" and new: "e \<notin> set xs" and live: "ents q e = Some ee"
  shows "\<exists>q'. TAILQ_INSERT_HEAD h e q = Inr ((), q') \<and> tq_rep q' h (e # xs) \<and>
     tq_same q q' {h} (insert e (set xs))"
proof -
  from rep obtain hh where d: "distinct xs" and hh: "heads q h = Some hh"
    and seg: "dseg (ents q) (HeadFirst h) (tqh_first hh) xs (tqh_last hh) None" by (rule tq_repE)
  let ?q1 = "q\<lparr>ents := (ents q)(e \<mapsto> ee\<lparr>tqe_next := tqh_first hh\<rparr>)\<rparr>"
  have "dseg (ents ?q1) (HeadFirst h) (tqh_first hh) xs (tqh_last hh) None" using seg new by simp
  from relink_rep [OF this, of h "ElemNext e"] hh d obtain q2 h2 where
    run: "(case tqh_first hh of Some n \<Rightarrow> set_prev n (ElemNext e)
           | None \<Rightarrow> set_last h (ElemNext e)) ?q1 = Inr ((), q2)"
    and h2: "heads q2 h = Some h2" "tqh_first h2 = tqh_first hh"
    and seg2: "dseg (ents q2) (ElemNext e) (tqh_first hh) xs (tqh_last h2) None"
    and same: "tq_same ?q1 q2 {h} (set xs)" by auto
  have e2: "ents q2 e = Some (ee\<lparr>tqe_next := tqh_first hh\<rparr>)"
    using new tq_same_ents [OF same] by auto
  let ?q3 = "q2\<lparr>heads := (heads q2)(h \<mapsto> h2\<lparr>tqh_first := Some e\<rparr>),
     ents := (ents q2)(e \<mapsto> ee\<lparr>tqe_next := tqh_first hh, tqe_prev := HeadFirst h\<rparr>)\<rparr>"
  have "TAILQ_INSERT_HEAD h e q = Inr ((), ?q3)"
    using hh live run h2 e2
    by (simp add: TAILQ_INSERT_HEAD_def get_runs set_field_runs bind_m_Inr seq_m_Inr)
  moreover have "dseg (ents ?q3) (ElemNext e) (tqh_first hh) xs (tqh_last h2) None"
    using seg2 new by simp
  then have "tq_rep ?q3 h (e # xs)"
    using d new by (intro tq_repI) auto
  moreover have "tq_same q ?q3 {h} (insert e (set xs))"
    using same e2 live h2 hh by (auto simp: tq_same_def)
  ultimately show ?thesis by blast
qed

lemma insert_before_rep:
  assumes rep: "tq_rep q h (as @ x # bs)" and new: "e \<notin> set (as @ x # bs)"
    and live: "ents q e = Some ee"
  shows "\<exists>q'. TAILQ_INSERT_BEFORE x e q = Inr ((), q') \<and> tq_rep q' h (as @ e # x # bs) \<and>
     tq_same q q' {h} (insert e (insert x (set as)))"
proof -
  from rep obtain hh en where d: "distinct (as @ x # bs)" and hh: "heads q h = Some hh"
    and en: "ents q x = Some en"
    and sa: "dseg (ents q) (HeadFirst h) (tqh_first hh) as (tqe_prev en) (Some x)"
    and sb: "dseg (ents q) (ElemNext x) (tqe_next en) bs (tqh_last hh) None"
    by (auto simp: tq_rep_split)
  let ?ee = "ee\<lparr>tqe_prev := tqe_prev en, tqe_next := Some x\<rparr>"
  let ?q1 = "q\<lparr>ents := (ents q)(e \<mapsto> ?ee)\<rparr>"
  have "dseg (ents ?q1) (HeadFirst h) (tqh_first hh) as (tqe_prev en) (Some x)" using sa new by simp
  from store_loc_rep [OF this, of "Some e"] hh d obtain q2 h2 where
    run: "store_loc (tqe_prev en) (Some e) ?q1 = Inr ((), q2)"
    and h2: "heads q2 h = Some h2" "tqh_last h2 = tqh_last hh"
    and sa2: "dseg (ents q2) (HeadFirst h) (tqh_first h2) as (tqe_prev en) (Some e)"
    and same: "tq_same ?q1 q2 {h} (set as)" by auto
  have x2: "ents q2 x = Some en" and e2: "ents q2 e = Some ?ee"
    using en d new tq_same_ents [OF same] by auto
  let ?q3 = "q2\<lparr>ents := (ents q2)(x \<mapsto> en\<lparr>tqe_prev := ElemNext e\<rparr>)\<rparr>"
  have "TAILQ_INSERT_BEFORE x e q = Inr ((), ?q3)"
    using new en live run x2
    by (auto simp: TAILQ_INSERT_BEFORE_def get_runs set_field_runs bind_m_Inr seq_m_Inr)
  moreover have "dseg (ents q2) (ElemNext x) (tqe_next en) bs (tqh_last h2) None"
    using sb d new h2 by (simp add: tq_same_dseg [OF same] Int_commute)
  then have "tq_rep ?q3 h (as @ e # x # bs)"
    using sa2 h2 d new e2 by (auto simp: tq_rep_split)
  moreover have "tq_same q ?q3 {h} (insert e (insert x (set as)))"
    using same x2 e2 en live by (auto simp: tq_same_def)
  ultimately show ?thesis by blast
qed

lemma insert_tail_rep:
  assumes rep: "tq_rep q h xs" and new: "e \<notin> set xs" and live: "ents q e = Some ee"
  shows "\<exists>q'. TAILQ_INSERT_TAIL h e q = Inr ((), q') \<and> tq_rep q' h (xs @ [e]) \<and>
     tq_same q q' {h} (insert e (set xs))"
proof -
  from rep obtain hh where d: "distinct xs" and hh: "heads q h = Some hh"
    and seg: "dseg (ents q) (HeadFirst h) (tqh_first hh) xs (tqh_last hh) None" by (rule tq_repE)
  let ?ee = "ee\<lparr>tqe_next := None, tqe_prev := tqh_last hh\<rparr>"
  let ?q1 = "q\<lparr>ents := (ents q)(e \<mapsto> ?ee)\<rparr>"
  have "dseg (ents ?q1) (HeadFirst h) (tqh_first hh) xs (tqh_last hh) None" using seg new by simp
  from store_loc_rep [OF this, of "Some e"] hh d obtain q2 h2 where
    run: "store_loc (tqh_last hh) (Some e) ?q1 = Inr ((), q2)"
    and h2: "heads q2 h = Some h2" "tqh_last h2 = tqh_last hh"
    and seg2: "dseg (ents q2) (HeadFirst h) (tqh_first h2) xs (tqh_last hh) (Some e)"
    and same: "tq_same ?q1 q2 {h} (set xs)" by auto
  have e2: "ents q2 e = Some ?ee" using new tq_same_ents [OF same] by auto
  let ?q3 = "q2\<lparr>heads := (heads q2)(h \<mapsto> h2\<lparr>tqh_last := ElemNext e\<rparr>)\<rparr>"
  have "TAILQ_INSERT_TAIL h e q = Inr ((), ?q3)"
    using hh live run h2
    by (simp add: TAILQ_INSERT_TAIL_def get_runs set_field_runs bind_m_Inr seq_m_Inr)
  moreover have "tq_rep ?q3 h (xs @ [e])"
    using seg2 h2 d new e2 by (auto simp: tq_rep_split)
  moreover have "tq_same q ?q3 {h} (insert e (set xs))"
    using same e2 live h2 hh by (auto simp: tq_same_def)
  ultimately show ?thesis by blast
qed

lemma replace_rep:
  assumes rep: "tq_rep q h (as @ x # bs)" and new: "e \<notin> set (as @ x # bs)"
    and live: "ents q e = Some ee"
  shows "\<exists>q'. TAILQ_REPLACE h x e q = Inr ((), q') \<and> tq_rep q' h (as @ e # bs) \<and>
     tq_same q q' {h} (insert e (set as \<union> set bs))"
proof -
  from rep obtain hh en where d: "distinct (as @ x # bs)" and hh: "heads q h = Some hh"
    and en: "ents q x = Some en"
    and sa: "dseg (ents q) (HeadFirst h) (tqh_first hh) as (tqe_prev en) (Some x)"
    and sb: "dseg (ents q) (ElemNext x) (tqe_next en) bs (tqh_last hh) None"
    by (auto simp: tq_rep_split)
  let ?q1 = "q\<lparr>ents := (ents q)(e \<mapsto> ee\<lparr>tqe_next := tqe_next en\<rparr>)\<rparr>"
  have "dseg (ents ?q1) (ElemNext x) (tqe_next en) bs (tqh_last hh) None" using sb new by simp
  from relink_rep [OF this, of h "ElemNext e"] hh d obtain q2 h2 where
    run2: "(case tqe_next en of Some n \<Rightarrow> set_prev n (ElemNext e)
           | None \<Rightarrow> set_last h (ElemNext e)) ?q1 = Inr ((), q2)"
    and h2: "heads q2 h = Some h2" "tqh_first h2 = tqh_first hh"
    and sb2: "dseg (ents q2) (ElemNext e) (tqe_next en) bs (tqh_last h2) None"
    and same2: "tq_same ?q1 q2 {h} (set bs)" by auto
  have x2: "ents q2 x = Some en" and e2: "ents q2 e = Some (ee\<lparr>tqe_next := tqe_next en\<rparr>)"
    using en d new tq_same_ents [OF same2] by auto
  let ?ee = "ee\<lparr>tqe_next := tqe_next en, tqe_prev := tqe_prev en\<rparr>"
  let ?q3 = "q2\<lparr>ents := (ents q2)(e \<mapsto> ?ee)\<rparr>"
  have "dseg (ents ?q3) (HeadFirst h) (tqh_first h2) as (tqe_prev en) (Some x)"
    using sa d new h2 by (simp add: tq_same_dseg [OF same2] Int_commute)
  from store_loc_rep [OF this, of "Some e"] h2 d obtain q4 h4 where
    run4: "store_loc (tqe_prev en) (Some e) ?q3 = Inr ((), q4)"
    and h4: "heads q4 h = Some h4" "tqh_last h4 = tqh_last h2"
    and sa4: "dseg (ents q4) (HeadFirst h) (tqh_first h4) as (tqe_prev en) (Some e)"
    and same4: "tq_same ?q3 q4 {h} (set as)" by auto
  have "TAILQ_REPLACE h x e q = Inr ((), q4)"
    using new en live run2 x2 e2 run4
    by (simp add: TAILQ_REPLACE_def get_runs set_field_runs bind_m_Inr seq_m_Inr)
  moreover have "dseg (ents ?q3) (ElemNext e) (tqe_next en) bs (tqh_last h2) None"
    using sb2 new by simp
  then have "dseg (ents q4) (ElemNext e) (tqe_next en) bs (tqh_last h4) None"
    using d h4 tq_same_dseg [OF same4, of bs] by (auto simp: Int_commute)
  then have "tq_rep q4 h (as @ e # bs)"
    using sa4 h4 d new tq_same_ents [OF same4, of e] by (auto simp: tq_rep_split)
  moreover have "tq_same q q4 {h} (insert e (set as \<union> set bs))"
    using same2 same4 e2 live by (auto simp: tq_same_def)
  ultimately show ?thesis by blast
qed

lemma init_rep:
  "\<exists>q'. TAILQ_INIT h q = Inr ((), q') \<and> tq_rep q' h [] \<and>
     (\<forall>h'. h' \<noteq> h \<longrightarrow> heads q' h' = heads q h') \<and> ents q' = ents q"
  by (simp add: tq_defs tq_rep_def run_defs)

lemma concat_rep:
  assumes r1: "tq_rep q h1 xs" and r2: "tq_rep q h2 ys" and ne: "h1 \<noteq> h2"
    and dis: "set xs \<inter> set ys = {}"
  shows "\<exists>q'. TAILQ_CONCAT h1 h2 q = Inr ((), q') \<and> tq_rep q' h1 (xs @ ys) \<and>
     tq_rep q' h2 [] \<and> tq_same q q' {h1, h2} (set xs \<union> set ys)"
proof -
  from r1 obtain hh1 where d1: "distinct xs" and hh1: "heads q h1 = Some hh1"
    and s1: "dseg (ents q) (HeadFirst h1) (tqh_first hh1) xs (tqh_last hh1) None" by (rule tq_repE)
  from r2 obtain hh2 where d2: "distinct ys" and hh2: "heads q h2 = Some hh2"
    and s2: "dseg (ents q) (HeadFirst h2) (tqh_first hh2) ys (tqh_last hh2) None" by (rule tq_repE)
  show ?thesis
  proof (cases ys)
    case Nil
    with s2 have "tqh_first hh2 = None" by simp
    with hh2 have "TAILQ_CONCAT h1 h2 q = Inr ((), q)"
      by (simp add: TAILQ_CONCAT_def get_runs run_defs)
    with Nil r1 r2 show ?thesis by auto
  next
    case (Cons y ys')
    with s2 obtain en where f2: "tqh_first hh2 = Some y" and en: "ents q y = Some en"
      and s2': "dseg (ents q) (ElemNext y) (tqe_next en) ys' (tqh_last hh2) None" by auto
    from store_loc_rep [OF s1 hh1 d1, of "Some y"] obtain q1 k1 where
      run: "store_loc (tqh_last hh1) (Some y) q = Inr ((), q1)"
      and k1: "heads q1 h1 = Some k1" "tqh_last k1 = tqh_last hh1"
      and s1': "dseg (ents q1) (HeadFirst h1) (tqh_first k1) xs (tqh_last hh1) (Some y)"
      and same: "tq_same q q1 {h1} (set xs)" by auto
    have y1: "ents q1 y = Some en" and k2: "heads q1 h2 = Some hh2"
      using en hh2 ne dis Cons same by (auto simp: tq_same_def)
    let ?q2 = "q1\<lparr>ents := (ents q1)(y \<mapsto> en\<lparr>tqe_prev := tqh_last hh1\<rparr>),
      heads := (heads q1)(h1 \<mapsto> k1\<lparr>tqh_last := tqh_last hh2\<rparr>,
        h2 \<mapsto> \<lparr>tqh_first = None, tqh_last = HeadFirst h2\<rparr>)\<rparr>"
    have "TAILQ_CONCAT h1 h2 q = Inr ((), ?q2)"
      using hh1 hh2 f2 run k1 y1 k2 ne
      by (simp add: TAILQ_CONCAT_def get_runs set_field_runs bind_m_Inr seq_m_Inr
          TAILQ_INIT_def modify_m_def)
    moreover have "dseg (ents ?q2) (ElemNext y) (tqe_next en) ys' (tqh_last hh2) None"
      using s2' d2 dis Cons tq_same_dseg [OF same, of ys'] by (auto simp: Int_commute)
    then have "tq_rep ?q2 h1 (xs @ ys)"
      using s1' d1 d2 dis ne Cons by (auto simp: tq_rep_split)
    moreover have "tq_rep ?q2 h2 []" by (simp add: tq_rep_def)
    moreover have "tq_same q ?q2 {h1, h2} (set xs \<union> set ys)"
      using same en hh2 k1 y1 k2 hh1 Cons by (auto simp: tq_same_def)
    ultimately show ?thesis by blast
  qed
qed

section \<open>The access macros on represented queues\<close>

lemma first_rep: "tq_rep q h xs \<Longrightarrow>
  TAILQ_FIRST h q = Inr (case xs of [] \<Rightarrow> None | x # _ \<Rightarrow> Some x, q)"
  by (auto elim!: tq_repE simp: get_runs dest: dseg_first)

lemma empty_rep: "tq_rep q h xs \<Longrightarrow> TAILQ_EMPTY h q = Inr (xs = [], q)"
  using first_rep [of q h xs] by (cases xs) (simp_all add: TAILQ_EMPTY_def run_defs)

lemma next_rep:
  assumes "tq_rep q h (as @ x # bs)"
  shows "TAILQ_NEXT x q = Inr (case bs of [] \<Rightarrow> None | b # _ \<Rightarrow> Some b, q)"
  using assms by (auto simp: tq_rep_split get_runs dest!: dseg_first)

text \<open>
  The cast in \<open>TAILQ_LAST\<close> and \<open>TAILQ_PREV\<close> is sound.  The second word of the entry a cell is in
  is the address of the cell that holds this entry; the second word of the head is the
  address of the queue's last cell, which holds NULL.
\<close>

lemma second_word_rep:
  assumes "tq_rep q h (as @ bs)" and "dseg (ents q) (HeadFirst h) f as l n"
  shows "bind_m (second_word l) load_loc q =
     Inr (if as = [] then None else Some (last as), q)"
proof (cases as rule: rev_cases)
  case Nil
  from assms Nil obtain hh where hh: "heads q h = Some hh" and l: "l = HeadFirst h"
    and s: "dseg (ents q) (HeadFirst h) (tqh_first hh) bs (tqh_last hh) None"
    by (auto simp: tq_rep_def)
  show ?thesis
  proof (cases bs rule: rev_cases)
    case Nil
    with hh l s \<open>as = []\<close> show ?thesis by (simp add: exec)
  next
    case (snoc cs c)
    with hh l s \<open>as = []\<close> show ?thesis
      by (cases cs rule: rev_cases) (auto simp: exec dseg_append)
  qed
next
  case (snoc cs c)
  with assms(2) obtain en l' where l: "l = ElemNext c" and en: "ents q c = Some en"
    and s: "dseg (ents q) (HeadFirst h) f cs (tqe_prev en) (Some c)" by (auto simp: dseg_append)
  from assms(1) obtain hh where hh: "heads q h = Some hh" by (auto simp: tq_rep_def)
  from assms(1) snoc s have "tqh_first hh = f"
    using hh by (auto simp: tq_rep_def dseg_append dest!: dseg_first split: list.splits)
  with s hh l en snoc show ?thesis
    by (cases cs rule: rev_cases) (auto simp: exec dseg_append)
qed

lemma last_rep: "tq_rep q h xs \<Longrightarrow>
  TAILQ_LAST h q = Inr (if xs = [] then None else Some (last xs), q)"
  using second_word_rep [of q h xs "[]"]
  by (auto elim!: tq_repE simp: TAILQ_LAST_def get_runs bind_m_Inr)

lemma prev_rep: "tq_rep q h (as @ x # bs) \<Longrightarrow>
  TAILQ_PREV x q = Inr (if as = [] then None else Some (last as), q)"
  using second_word_rep [of q h as "x # bs"]
  by (auto simp: tq_rep_split TAILQ_PREV_def get_runs bind_m_Inr)

section \<open>The traversals visit exactly the list\<close>

text \<open>What a traversal follows: the \<open>next\<close> pointers, from a first pointer to NULL.\<close>

definition nexts :: "('h, 'e) tq_mem \<Rightarrow> 'e \<Rightarrow> 'e option option" where
  "nexts q e = map_option tqe_next (ents q e)"

lemma dseg_fchain: "dseg (ents q) p f xs l None \<Longrightarrow> fchain (nexts q) f xs"
  by (induction xs arbitrary: p f) (auto simp: nexts_def)

lemma rep_fchain:
  assumes "tq_rep q h xs"
  obtains hh where "heads q h = Some hh" "fchain (nexts q) (tqh_first hh) xs"
  using assms by (auto elim!: tq_repE dest: dseg_fchain)

lemma next_run: "nexts q e = Some n \<Longrightarrow> TAILQ_NEXT e q = Inr (n, q)"
  by (auto simp: nexts_def get_runs)

text \<open>The loops of the tail queue are loops along a chain.\<close>

lemma tailq_foreach_loop:
  "TAILQ_FOREACH fuel get body f = links_loop fuel (\<lambda>e. zoom_m get (\<lambda>_ s. s) (TAILQ_NEXT e)) body f"
  "TAILQ_FOREACH_SAFE fuel get body f =
     links_loop_safe fuel (\<lambda>e. zoom_m get (\<lambda>_ s. s) (TAILQ_NEXT e)) body f"
  "TAILQ_FOREACH_REVERSE fuel get body f =
     links_loop fuel (\<lambda>e. zoom_m get (\<lambda>_ s. s) (TAILQ_PREV e)) body f"
  "TAILQ_FOREACH_REVERSE_SAFE fuel get body f =
     links_loop_safe fuel (\<lambda>e. zoom_m get (\<lambda>_ s. s) (TAILQ_PREV e)) body f"
proof -
  show "TAILQ_FOREACH fuel get body f = links_loop fuel (\<lambda>e. zoom_m get (\<lambda>_ s. s) (TAILQ_NEXT e)) body f"
  proof (induction fuel arbitrary: f)
    case (Suc n)
    then have "TAILQ_FOREACH n get body = links_loop n (\<lambda>e. zoom_m get (\<lambda>_ s. s) (TAILQ_NEXT e)) body" by (rule ext)
    then show ?case by (cases f) (simp_all cong: if_cong)
  qed (case_tac f; simp)
  show "TAILQ_FOREACH_SAFE fuel get body f = links_loop_safe fuel (\<lambda>e. zoom_m get (\<lambda>_ s. s) (TAILQ_NEXT e)) body f"
  proof (induction fuel arbitrary: f)
    case (Suc n)
    then have "TAILQ_FOREACH_SAFE n get body = links_loop_safe n (\<lambda>e. zoom_m get (\<lambda>_ s. s) (TAILQ_NEXT e)) body" by (rule ext)
    then show ?case by (cases f) (simp_all cong: if_cong)
  qed (case_tac f; simp)
  show "TAILQ_FOREACH_REVERSE fuel get body f = links_loop fuel (\<lambda>e. zoom_m get (\<lambda>_ s. s) (TAILQ_PREV e)) body f"
  proof (induction fuel arbitrary: f)
    case (Suc n)
    then have "TAILQ_FOREACH_REVERSE n get body = links_loop n (\<lambda>e. zoom_m get (\<lambda>_ s. s) (TAILQ_PREV e)) body" by (rule ext)
    then show ?case by (cases f) (simp_all cong: if_cong)
  qed (case_tac f; simp)
  show "TAILQ_FOREACH_REVERSE_SAFE fuel get body f = links_loop_safe fuel (\<lambda>e. zoom_m get (\<lambda>_ s. s) (TAILQ_PREV e)) body f"
  proof (induction fuel arbitrary: f)
    case (Suc n)
    then have "TAILQ_FOREACH_REVERSE_SAFE n get body = links_loop_safe n (\<lambda>e. zoom_m get (\<lambda>_ s. s) (TAILQ_PREV e)) body" by (rule ext)
    then show ?case by (cases f) (simp_all cong: if_cong)
  qed (case_tac f; simp)
qed

lemma foreach_chain:
  assumes "fchain (nexts (get s)) f xs" and "length xs \<le> fuel"
    and "\<And>x y s s'. x \<in> set xs \<Longrightarrow> y \<in> set xs \<Longrightarrow> body x s = Inr (True, s') \<Longrightarrow>
       nexts (get s') y = nexts (get s) y"
  shows "TAILQ_FOREACH fuel get body f s = for_each body xs s"
  unfolding tailq_foreach_loop
  by (rule links_loop_chain [where N = "\<lambda>s. nexts (get s)"])
    (use assms in \<open>auto simp: zoom_m_def next_run\<close>)

text \<open>
  The rule for a traversal whose body changes the state but not the links it follows: \<open>J vis s\<close>
  holds when the entries \<open>vis\<close> have been visited.
\<close>

lemma foreach_or_fault:
  assumes chain: "fchain N f xs" and fuel: "length xs \<le> fuel" and init: "J [] s"
    and links: "\<And>vis s y. J vis s \<Longrightarrow> y \<in> set xs \<Longrightarrow> nexts (get s) y = N y"
    and step: "\<And>vis x rest s. xs = vis @ x # rest \<Longrightarrow> J vis s \<Longrightarrow>
       if bad (length vis) then body x s = Inl e
       else \<exists>s'. body x s = Inr (True, s') \<and> J (vis @ [x]) s'"
  shows "if \<exists>i < length xs. bad i then TAILQ_FOREACH fuel get body f s = Inl e
    else \<exists>s'. TAILQ_FOREACH fuel get body f s = Inr (True, s') \<and> J xs s'"
proof -
  have "if \<exists>i < length xs. length vis \<le> i \<and> bad i then TAILQ_FOREACH fuel get body f s = Inl e
      else \<exists>s'. TAILQ_FOREACH fuel get body f s = Inr (True, s') \<and> J xs s'"
    if "xs = vis @ rest" "fchain N f rest" "length rest \<le> fuel" "J vis s" for vis rest f fuel s
    using that
  proof (induction rest arbitrary: vis f fuel s)
    case Nil
    then show ?case by (auto simp: return_m_def)
  next
    case (Cons x rest)
    from Cons.prems(2) obtain n where f: "f = Some x" and n: "N x = Some n" "fchain N n rest" by auto
    from Cons.prems(3) obtain k where k: "fuel = Suc k" "length rest \<le> k" by (cases fuel) auto
    show ?case
    proof (cases "bad (length vis)")
      case True
      then have "TAILQ_FOREACH fuel get body f s = Inl e"
        using step [OF Cons.prems(1,4)] by (simp add: f k(1) bind_m_def)
      moreover have "length vis < length xs" using Cons.prems(1) by simp
      ultimately show ?thesis using True by (auto intro: exI [of _ "length vis"])
    next
      case False
      with step [OF Cons.prems(1,4)] obtain t where t: "body x s = Inr (True, t)" "J (vis @ [x]) t" by auto
      have "nexts (get t) x = Some n" using links [OF t(2), of x] n(1) Cons.prems(1) by simp
      with t(1) have run: "TAILQ_FOREACH fuel get body f s = TAILQ_FOREACH k get body n t"
        by (simp add: f k(1) bind_m_def zoom_m_def next_run)
      have same: "(\<exists>i < length xs. length vis \<le> i \<and> bad i) = (\<exists>i < length xs. Suc (length vis) \<le> i \<and> bad i)"
        using False by (metis Suc_leD le_neq_implies_less Suc_leI)
      have "if \<exists>i < length xs. Suc (length vis) \<le> i \<and> bad i then TAILQ_FOREACH k get body n t = Inl e
          else \<exists>s'. TAILQ_FOREACH k get body n t = Inr (True, s') \<and> J xs s'"
        using Cons.IH [of "vis @ [x]" n k t] Cons.prems(1) n(2) k(2) t(2) by simp
      then show ?thesis unfolding run same .
    qed
  qed
  from this [of "[]" xs f fuel s] chain fuel init show ?thesis by simp
qed

lemma foreach_invariant:
  assumes "fchain N f xs" and "length xs \<le> fuel" and "J [] s"
    and "\<And>vis s y. J vis s \<Longrightarrow> y \<in> set xs \<Longrightarrow> nexts (get s) y = N y"
    and "\<And>vis x rest s. xs = vis @ x # rest \<Longrightarrow> J vis s \<Longrightarrow>
       \<exists>s'. body x s = Inr (True, s') \<and> J (vis @ [x]) s'"
  shows "\<exists>s'. TAILQ_FOREACH fuel get body f s = Inr (True, s') \<and> J xs s'"
proof -
  have "if \<exists>i < length xs. False then TAILQ_FOREACH fuel get body f s = Inl Diverges
      else \<exists>s'. TAILQ_FOREACH fuel get body f s = Inr (True, s') \<and> J xs s'"
    by (rule foreach_or_fault [where J = J, OF assms(1-4)]) (simp_all add: assms(5))
  then show ?thesis by simp
qed

lemma foreach_safe_chain:
  assumes "fchain (nexts (get s)) f xs" and "distinct xs" and "length xs \<le> fuel"
    and "\<And>x y s s'. x \<in> set xs \<Longrightarrow> y \<in> set xs \<Longrightarrow> x \<noteq> y \<Longrightarrow> body x s = Inr (True, s') \<Longrightarrow>
       nexts (get s') y = nexts (get s) y"
  shows "TAILQ_FOREACH_SAFE fuel get body f s = for_each body xs s"
  unfolding tailq_foreach_loop
  by (rule links_loop_safe_chain [where N = "\<lambda>s. nexts (get s)"])
    (use assms in \<open>auto simp: zoom_m_def next_run\<close>)

lemma foreach_cycle_diverges:
  assumes "x \<in> C" and "I s"
    and "\<And>x s. x \<in> C \<Longrightarrow> I s \<Longrightarrow> \<exists>s'. body x s = Inr (True, s') \<and> I s'"
    and "\<And>x s. x \<in> C \<Longrightarrow> I s \<Longrightarrow> \<exists>y \<in> C. nexts (get s) x = Some (Some y)"
  shows "TAILQ_FOREACH fuel get body (Some x) s = Inl Diverges"
  unfolding tailq_foreach_loop
  by (rule links_loop_cycle [where I = I, OF assms(1,2)])
    (use assms(3,4) in \<open>fastforce simp: zoom_m_def dest: next_run\<close>)+

text \<open>The backward loops follow the back pointers, and visit the list in reverse.\<close>

definition prevs :: "('h, 'e) tq_mem \<Rightarrow> 'e \<Rightarrow> 'e option option" where
  "prevs q e = (case TAILQ_PREV e q of Inl _ \<Rightarrow> None | Inr (p, _) \<Rightarrow> Some p)"

lemma prev_reads:
  fixes q :: "('h, 'e) tq_mem"
  shows "TAILQ_PREV e q = Inr (p, q') \<Longrightarrow> q' = q"
proof -
  have s: "second_word l q = Inr (l', q') \<Longrightarrow> q' = q" and l: "load_loc l q = Inr (p, q') \<Longrightarrow> q' = q"
    for q q' and l l' :: "('h, 'e) tq_loc" and p by (cases l; auto simp: tq_defs run_defs split: option.splits)+
  show "TAILQ_PREV e q = Inr (p, q') \<Longrightarrow> ?thesis"
    by (auto simp: TAILQ_PREV_def get_ent_def the_m_def elim!: bind_m_InrE dest!: s l split: option.splits)
qed

lemma prev_run: "prevs q e = Some p \<Longrightarrow> TAILQ_PREV e q = Inr (p, q)"
  by (auto simp: prevs_def split: sum.splits dest: prev_reads)

lemma rep_prev_chain:
  "tq_rep q h (as @ bs) \<Longrightarrow> fchain (prevs q) (if as = [] then None else Some (last as)) (rev as)"
proof (induction as arbitrary: bs rule: rev_induct)
  case (snoc x as)
  then have "prevs q x = Some (if as = [] then None else Some (last as))"
    using prev_rep [of q h as x bs] by (simp add: prevs_def)
  with snoc.IH [of "x # bs"] snoc.prems show ?case by auto
qed simp

lemma foreach_reverse_rep:
  assumes "tq_rep (get s) h xs" and "length xs \<le> fuel"
    and "\<And>x y s s'. x \<in> set xs \<Longrightarrow> y \<in> set xs \<Longrightarrow> body x s = Inr (True, s') \<Longrightarrow>
       prevs (get s') y = prevs (get s) y"
  shows "bind_m (zoom_m get (\<lambda>_ s. s) (TAILQ_LAST h)) (TAILQ_FOREACH_REVERSE fuel get body) s =
    for_each body (rev xs) s"
proof -
  let ?l = "if xs = [] then None else Some (last xs)"
  have "fchain (prevs (get s)) ?l (rev xs)" using rep_prev_chain [of "get s" h xs "[]"] assms(1) by simp
  then have "TAILQ_FOREACH_REVERSE fuel get body ?l s = for_each body (rev xs) s"
    unfolding tailq_foreach_loop
    by (rule links_loop_chain [where N = "\<lambda>s. prevs (get s)"])
      (use assms(2,3) in \<open>auto simp: zoom_m_def prev_run\<close>)
  moreover have "zoom_m get (\<lambda>_ s. s) (TAILQ_LAST h) s = Inr (?l, s)"
    using last_rep [OF assms(1)] by (simp add: zoom_m_def)
  ultimately show ?thesis by (simp add: bind_m_Inr)
qed

lemma foreach_reverse_safe_rep:
  assumes "tq_rep (get s) h xs" and "length xs \<le> fuel"
    and "\<And>x y s s'. x \<in> set xs \<Longrightarrow> y \<in> set xs \<Longrightarrow> x \<noteq> y \<Longrightarrow> body x s = Inr (True, s') \<Longrightarrow>
       prevs (get s') y = prevs (get s) y"
  shows "bind_m (zoom_m get (\<lambda>_ s. s) (TAILQ_LAST h)) (TAILQ_FOREACH_REVERSE_SAFE fuel get body) s =
    for_each body (rev xs) s"
proof -
  let ?l = "if xs = [] then None else Some (last xs)"
  have "fchain (prevs (get s)) ?l (rev xs)" using rep_prev_chain [of "get s" h xs "[]"] assms(1) by simp
  then have "TAILQ_FOREACH_REVERSE_SAFE fuel get body ?l s = for_each body (rev xs) s"
    unfolding tailq_foreach_loop
    by (rule links_loop_safe_chain [where N = "\<lambda>s. prevs (get s)"])
      (use assms tq_rep_distinct [OF assms(1)] in \<open>auto simp: zoom_m_def prev_run\<close>)
  moreover have "zoom_m get (\<lambda>_ s. s) (TAILQ_LAST h) s = Inr (?l, s)"
    using last_rep [OF assms(1)] by (simp add: zoom_m_def)
  ultimately show ?thesis by (simp add: bind_m_Inr)
qed

text \<open>Putting the last element in a second time links it to itself.\<close>

lemma insert_tail_twice_cycle:
  assumes "tq_rep q h (xs @ [e])"
  shows "\<exists>q'. TAILQ_INSERT_TAIL h e q = Inr ((), q') \<and>
     ents q' e = Some \<lparr>tqe_next = Some e, tqe_prev = ElemNext e\<rparr> \<and>
     (\<forall>x. x \<noteq> e \<longrightarrow> ents q' x = ents q x)"
proof -
  from assms obtain hh en where hh: "heads q h = Some hh" and en: "ents q e = Some en"
    and l: "tqh_last hh = ElemNext e"
    by (auto simp: tq_rep_split)
  then show ?thesis
    by (simp add: TAILQ_INSERT_TAIL_def get_runs set_field_runs seq_m_def bind_m_def)
qed

section \<open>Queues do not share elements\<close>

text \<open>An entry's back pointer names its predecessor or its head, so it is in one queue only.\<close>

lemma tq_rep_no_sharing:
  "tq_rep q h (as @ x # bs) \<Longrightarrow> tq_rep q h' (cs @ x # ds) \<Longrightarrow> h = h'"
proof (induction "length as" arbitrary: as x bs cs ds)
  case 0
  then have "as = []" by simp
  with 0(2) obtain en where en: "ents q x = Some en" "tqe_prev en = HeadFirst h"
    by (auto simp: tq_rep_def)
  with 0(3) show ?case
    by (cases cs rule: rev_cases) (auto simp: tq_rep_def dseg_append dest!: dseg_last split: if_splits)
next
  case (Suc n)
  then obtain as' y where as: "as = as' @ [y]" by (cases as rule: rev_cases) auto
  with Suc.prems(1) obtain en where en: "ents q x = Some en" "tqe_prev en = ElemNext y"
    by (auto simp: tq_rep_def dseg_append)
  with Suc.prems(2) obtain cs' where "cs = cs' @ [y]"
    by (cases cs rule: rev_cases) (auto simp: tq_rep_def dseg_append)
  with Suc as show ?case by simp
qed

lemma tq_rep_disjoint:
  assumes "tq_rep q h xs" and "tq_rep q h' ys" and "h \<noteq> h'"
  shows "set xs \<inter> set ys = {}"
proof (rule ccontr)
  assume "set xs \<inter> set ys \<noteq> {}"
  then obtain x as bs cs ds where "xs = as @ x # bs" "ys = cs @ x # ds"
    by (metis disjoint_iff split_list)
  with assms tq_rep_no_sharing show False by metis
qed

section \<open>The tail queue meets the contract\<close>

definition tq_cell :: "('h, 'e) tq_mem \<Rightarrow> 'e \<Rightarrow> bool" where
  "tq_cell q e \<longleftrightarrow> ents q e \<noteq> None"

lemma tq_same_cell: "tq_same q q' H E \<Longrightarrow> tq_cell q' = tq_cell q"
  by (auto simp: tq_same_def tq_cell_def fun_eq_iff dom_def set_eq_iff)

interpretation tailq: fifo_queue tq_rep tq_cell TAILQ_INSERT_TAIL TAILQ_REMOVE
proof unfold_locales
  fix q :: "('h, 'e) tq_mem" and h xs and e :: 'e
  assume rep: "tq_rep q h xs" and "tq_cell q e" and new: "e \<notin> set xs"
  then obtain ee where "ents q e = Some ee" by (auto simp: tq_cell_def)
  from insert_tail_rep [OF rep new this] obtain q' where
    "TAILQ_INSERT_TAIL h e q = Inr ((), q')" "tq_rep q' h (xs @ [e])"
    and same: "tq_same q q' {h} (insert e (set xs))" by blast
  then show "\<exists>q'. TAILQ_INSERT_TAIL h e q = Inr ((), q') \<and> tq_rep q' h (xs @ [e]) \<and>
      tq_cell q' = tq_cell q \<and> (\<forall>h' ys. h' \<noteq> h \<longrightarrow> tq_rep q h' ys \<longrightarrow>
        set ys \<inter> set (xs @ [e]) = {} \<longrightarrow> tq_rep q' h' ys)"
    using tq_same_cell [OF same] tq_rep_frame [OF _ same] by fastforce
next
  fix q :: "('h, 'e) tq_mem" and h x xs
  assume "tq_rep q h (x # xs)"
  with remove_rep [of q h "[]" x xs] show "\<exists>q'. TAILQ_REMOVE h x q = Inr ((), q') \<and>
      tq_rep q' h xs \<and> tq_cell q' = tq_cell q"
    using tq_same_cell by fastforce
qed

text \<open>The static initialiser, which names the head for which it is written, is the empty queue.\<close>

definition TAILQ_HEAD_INITIALIZER :: "'h \<Rightarrow> ('h, 'e) tq_head" where
  "TAILQ_HEAD_INITIALIZER h = \<lparr>tqh_first = None, tqh_last = HeadFirst h\<rparr>"

lemma tailq_initializer_rep: "heads q h = Some (TAILQ_HEAD_INITIALIZER h) \<Longrightarrow> tq_rep q h []"
  by (simp add: TAILQ_HEAD_INITIALIZER_def tq_rep_def)

end
