(* ===== verification/TailQueueClaims.thy ===== *)
theory TailQueueClaims
  imports TailQueueRep
begin

text \<open>The properties of the tail queue macros, over the lists of elements that queues represent.\<close>

text \<open>A queue memory with the head 0 and three entries to evaluate the properties on.\<close>

definition demo_q :: "(nat, nat) tq_mem" where
  "demo_q = \<lparr>heads = (\<lambda>h. if h < 2 then Some \<lparr>tqh_first = None, tqh_last = HeadFirst h\<rparr> else None),
     ents = (\<lambda>e. if e < 4 then Some \<lparr>tqe_next = Some 9, tqe_prev = HeadFirst 9\<rparr> else None)\<rparr>"

lemma demo_q_rep: "tq_rep demo_q 0 []" "tq_rep demo_q 1 []" "tq_cell demo_q 1" "tq_cell demo_q 2"
  "tq_cell demo_q 3"
  by (simp_all add: demo_q_def tq_rep_def tq_cell_def)

text \<open>C24: A queue is first in, first out: entries put in with \<open>TAILQ_INSERT_TAIL\<close> are in the queue in
  that order, and taking them out from the front with \<open>TAILQ_REMOVE\<close> empties it again.\<close>

theorem tailq_fifo:
  assumes "tq_rep q h []" and "\<forall>e \<in> set es. tq_cell q e" and "distinct es"
  shows "\<exists>q' q''. each_m (TAILQ_INSERT_TAIL h) es q = Inr ((), q') \<and> tq_rep q' h es \<and>
    each_m (TAILQ_REMOVE h) es q' = Inr ((), q'') \<and> tq_rep q'' h [] \<and> tq_cell q'' = tq_cell q"
  using assms by (rule tailq.put_all_take_out_all)

theorem tailq_fifo_witness:
  "\<exists>q' q''. each_m (TAILQ_INSERT_TAIL 0) [1, 2, 3] demo_q = Inr ((), q') \<and> tq_rep q' 0 [1, 2, 3] \<and>
    each_m (TAILQ_REMOVE 0) [1, 2, 3] q' = Inr ((), q'') \<and> tq_rep q'' 0 []"
  using tailq_fifo [of demo_q 0 "[1, 2, 3]"] demo_q_rep by auto

text \<open>The access macros agree with the list: \<open>TAILQ_FIRST\<close>, \<open>TAILQ_NEXT\<close>, and \<open>TAILQ_LAST\<close> and
  \<open>TAILQ_PREV\<close>, which read the back pointers through a cast of an entry to a head.\<close>

theorem tailq_access:
  assumes "tq_rep q h (as @ x # bs)"
  shows "TAILQ_FIRST h q = Inr (Some (hd (as @ [x])), q) \<and>
    TAILQ_LAST h q = Inr (Some (last (x # bs)), q) \<and>
    TAILQ_NEXT x q = Inr (case bs of [] \<Rightarrow> None | b # _ \<Rightarrow> Some b, q) \<and>
    TAILQ_PREV x q = Inr (if as = [] then None else Some (last as), q) \<and>
    TAILQ_EMPTY h q = Inr (False, q)"
proof -
  have "TAILQ_FIRST h q = Inr (Some (hd (as @ [x])), q)"
    using first_rep [OF assms] by (cases as) simp_all
  moreover have "TAILQ_LAST h q = Inr (Some (last (x # bs)), q)"
    using last_rep [OF assms] by simp
  ultimately show ?thesis
    using next_rep [OF assms] prev_rep [OF assms] empty_rep [OF assms] by simp
qed

lemma demo_q3: "\<exists>q. each_m (TAILQ_INSERT_TAIL 0) [1, 2, 3] demo_q = Inr ((), q) \<and> tq_rep q 0 [1, 2, 3] \<and>
    tq_rep q 1 [] \<and> tq_cell q = tq_cell demo_q"
  using tailq.put_all [OF demo_q_rep(1), of "[1, 2, 3]"] demo_q_rep by auto

theorem tailq_access_witness:
  "\<exists>q. each_m (TAILQ_INSERT_TAIL 0) [1, 2, 3] demo_q = Inr ((), q) \<and>
    TAILQ_PREV 2 q = Inr (Some 1, q) \<and> TAILQ_LAST 0 q = Inr (Some 3, q)"
proof -
  obtain q where q: "each_m (TAILQ_INSERT_TAIL 0) [1, 2, 3] demo_q = Inr ((), q)"
    "tq_rep q 0 ([1] @ 2 # [3])" using demo_q3 by auto
  from tailq_access [OF q(2)] q(1) show ?thesis by auto
qed

text \<open>\<open>TAILQ_INSERT_AFTER\<close> and \<open>TAILQ_INSERT_BEFORE\<close> put a new entry next to the given one, and
  \<open>TAILQ_REMOVE\<close> of it restores the list, wherever in the queue the place is.\<close>

theorem tailq_insert_remove:
  assumes "tq_rep q h (as @ x # bs)" and "e \<notin> set (as @ x # bs)" and "tq_cell q e"
  shows "(\<exists>q1 q2. TAILQ_INSERT_AFTER h x e q = Inr ((), q1) \<and> tq_rep q1 h (as @ x # e # bs) \<and>
      TAILQ_REMOVE h e q1 = Inr ((), q2) \<and> tq_rep q2 h (as @ x # bs)) \<and>
    (\<exists>q1 q2. TAILQ_INSERT_BEFORE x e q = Inr ((), q1) \<and> tq_rep q1 h (as @ e # x # bs) \<and>
      TAILQ_REMOVE h e q1 = Inr ((), q2) \<and> tq_rep q2 h (as @ x # bs))"
proof -
  from assms(3) obtain ee where ee: "ents q e = Some ee" by (auto simp: tq_cell_def)
  from insert_after_rep [OF assms(1,2) ee] obtain q1 where
    "TAILQ_INSERT_AFTER h x e q = Inr ((), q1)" "tq_rep q1 h (as @ x # e # bs)" by blast
  moreover from insert_before_rep [OF assms(1,2) ee] obtain p1 where
    "TAILQ_INSERT_BEFORE x e q = Inr ((), p1)" "tq_rep p1 h (as @ e # x # bs)" by blast
  ultimately show ?thesis
    using remove_rep [of q1 h "as @ [x]" e bs] remove_rep [of p1 h as e "x # bs"] by auto
qed

theorem tailq_insert_remove_witness:
  "\<exists>q q1 q2. TAILQ_INSERT_TAIL 0 1 demo_q = Inr ((), q) \<and> TAILQ_INSERT_BEFORE 1 3 q = Inr ((), q1) \<and>
    tq_rep q1 0 [3, 1] \<and> TAILQ_REMOVE 0 3 q1 = Inr ((), q2) \<and> tq_rep q2 0 [1]"
proof -
  from tailq.put_law [OF demo_q_rep(1,3)] obtain q where q: "TAILQ_INSERT_TAIL 0 1 demo_q = Inr ((), q)"
    "tq_rep q 0 ([] @ 1 # [])" "tq_cell q = tq_cell demo_q" by auto
  have "tq_cell q 3" using q(3) demo_q_rep(5) by simp
  with tailq_insert_remove [OF q(2), of 3] q(1) show ?thesis by auto
qed

text \<open>\<open>TAILQ_CONCAT\<close> moves all entries of the second queue to the end of the first and leaves the
  second one empty and usable.\<close>

theorem tailq_concat:
  assumes "tq_rep q h1 xs" and "tq_rep q h2 ys" and "h1 \<noteq> h2"
  shows "\<exists>q'. TAILQ_CONCAT h1 h2 q = Inr ((), q') \<and> tq_rep q' h1 (xs @ ys) \<and> tq_rep q' h2 []"
  using concat_rep [OF assms tq_rep_disjoint [OF assms]] by blast

theorem tailq_concat_witness:
  "\<exists>q q'. each_m (TAILQ_INSERT_TAIL 0) [1, 2, 3] demo_q = Inr ((), q) \<and>
    TAILQ_CONCAT 1 0 q = Inr ((), q') \<and> tq_rep q' 1 [1, 2, 3] \<and> tq_rep q' 0 []"
proof -
  obtain q where q: "each_m (TAILQ_INSERT_TAIL 0) [1, 2, 3] demo_q = Inr ((), q)"
    "tq_rep q 0 [1, 2, 3]" "tq_rep q 1 []" using demo_q3 by blast
  from tailq_concat [OF q(3,2)] q(1) show ?thesis by auto
qed

end
