(* ===== verification/ListQueue.thy ===== *)
theory ListQueue
  imports TailQueueRep
begin

text \<open>
  The doubly-linked list of \<open>libOpenXPC/compat_queue.h\<close>: the \<open>LIST\<close> macros.  A head holds the
  pointer to the first element only; an entry holds the pointer to the next and, as in a tail
  queue, the address of the cell that points to it.  The second half shows that a list is a tail queue
  that has forgotten its \<open>tqh_last\<close>: every macro does what the tail queue macro does.
\<close>

section \<open>Heads and entries\<close>

record 'e ls_head =
  lh_first :: "'e option"

record ('h, 'e) ls_entry =
  le_next :: "'e option"
  le_prev :: "('h, 'e) tq_loc"

record ('h, 'e) ls_mem =
  ls_heads :: "'h \<Rightarrow> 'e ls_head option"
  ls_ents :: "'e \<Rightarrow> ('h, 'e) ls_entry option"

definition ls_get :: "'e \<Rightarrow> (('h, 'e) ls_mem, ('h, 'e) ls_entry) op" where
  "ls_get e = the_m BadPointer (\<lambda>s. ls_ents s e)"

definition ls_set_first :: "'h \<Rightarrow> 'e option \<Rightarrow> (('h, 'e) ls_mem, unit) op" where
  "ls_set_first h p = seq_m (the_m BadHead (\<lambda>s. ls_heads s h))
     (modify_m (\<lambda>s. s\<lparr>ls_heads := (ls_heads s)(h \<mapsto> \<lparr>lh_first = p\<rparr>)\<rparr>))"

definition ls_set_next :: "'e \<Rightarrow> 'e option \<Rightarrow> (('h, 'e) ls_mem, unit) op" where
  "ls_set_next e p = bind_m (ls_get e) (\<lambda>en.
     modify_m (\<lambda>s. s\<lparr>ls_ents := (ls_ents s)(e \<mapsto> en\<lparr>le_next := p\<rparr>)\<rparr>))"

definition ls_set_prev :: "'e \<Rightarrow> ('h, 'e) tq_loc \<Rightarrow> (('h, 'e) ls_mem, unit) op" where
  "ls_set_prev e l = bind_m (ls_get e) (\<lambda>en.
     modify_m (\<lambda>s. s\<lparr>ls_ents := (ls_ents s)(e \<mapsto> en\<lparr>le_prev := l\<rparr>)\<rparr>))"

text \<open>\<open>*l\<close> and \<open>*l = p\<close> for the address \<open>l\<close> of a cell.\<close>

fun ls_load :: "('h, 'e) tq_loc \<Rightarrow> (('h, 'e) ls_mem, 'e option) op" where
  "ls_load (HeadFirst h) = bind_m (the_m BadHead (\<lambda>s. ls_heads s h)) (\<lambda>hh. return_m (lh_first hh))"
| "ls_load (ElemNext e) = bind_m (ls_get e) (\<lambda>en. return_m (le_next en))"

fun ls_store :: "('h, 'e) tq_loc \<Rightarrow> 'e option \<Rightarrow> (('h, 'e) ls_mem, unit) op" where
  "ls_store (HeadFirst h) p = ls_set_first h p"
| "ls_store (ElemNext e) p = ls_set_next e p"

section \<open>The macros\<close>

definition LIST_FIRST :: "'h \<Rightarrow> (('h, 'e) ls_mem, 'e option) op" where
  "LIST_FIRST h = bind_m (the_m BadHead (\<lambda>s. ls_heads s h)) (\<lambda>hh. return_m (lh_first hh))"

definition LIST_NEXT :: "'e \<Rightarrow> (('h, 'e) ls_mem, 'e option) op" where
  "LIST_NEXT e = bind_m (ls_get e) (\<lambda>en. return_m (le_next en))"

definition LIST_EMPTY :: "'h \<Rightarrow> (('h, 'e) ls_mem, bool) op" where
  "LIST_EMPTY h = bind_m (LIST_FIRST h) (\<lambda>p. return_m (p = None))"

definition LIST_FOREACH ::
  "nat \<Rightarrow> ('s \<Rightarrow> ('h, 'e) ls_mem) \<Rightarrow> 'h \<Rightarrow> ('e \<Rightarrow> ('s, bool) op) \<Rightarrow> ('s, bool) op" where
  "LIST_FOREACH fuel get h body =
     bind_m (zoom_m get (\<lambda>_ s. s) (LIST_FIRST h))
       (links_loop fuel (\<lambda>e. zoom_m get (\<lambda>_ s. s) (LIST_NEXT e)) body)"

definition LIST_FOREACH_SAFE ::
  "nat \<Rightarrow> ('s \<Rightarrow> ('h, 'e) ls_mem) \<Rightarrow> 'h \<Rightarrow> ('e \<Rightarrow> ('s, bool) op) \<Rightarrow> ('s, bool) op" where
  "LIST_FOREACH_SAFE fuel get h body =
     bind_m (zoom_m get (\<lambda>_ s. s) (LIST_FIRST h))
       (links_loop_safe fuel (\<lambda>e. zoom_m get (\<lambda>_ s. s) (LIST_NEXT e)) body)"

definition LIST_INIT :: "'h \<Rightarrow> (('h, 'e) ls_mem, unit) op" where
  "LIST_INIT h = modify_m (\<lambda>s. s\<lparr>ls_heads := (ls_heads s)(h \<mapsto> \<lparr>lh_first = None\<rparr>)\<rparr>)"

definition LIST_MOVE :: "'h \<Rightarrow> 'h \<Rightarrow> (('h, 'e) ls_mem, unit) op" where
  "LIST_MOVE h1 h2 =
     seq_m (LIST_INIT h2)
     (bind_m (LIST_EMPTY h1) (\<lambda>empty.
     if \<not> empty then
       bind_m (LIST_FIRST h1) (\<lambda>f.
       seq_m (ls_set_first h2 f)
       (bind_m (LIST_FIRST h2) (\<lambda>f2.
       seq_m (deref_m f2 (\<lambda>e. ls_set_prev e (HeadFirst h2)))
       (LIST_INIT h1))))
     else return_m ()))"

definition LIST_INSERT_AFTER :: "'e \<Rightarrow> 'e \<Rightarrow> (('h, 'e) ls_mem, unit) op" where
  "LIST_INSERT_AFTER listelm elm =
     bind_m (LIST_NEXT listelm) (\<lambda>p.
     seq_m (ls_set_next elm p)
     (seq_m (if p \<noteq> None
             then bind_m (LIST_NEXT listelm) (\<lambda>n. deref_m n (\<lambda>e. ls_set_prev e (ElemNext elm)))
             else return_m ())
     (seq_m (ls_set_next listelm (Some elm))
     (ls_set_prev elm (ElemNext listelm)))))"

definition LIST_INSERT_BEFORE :: "'e \<Rightarrow> 'e \<Rightarrow> (('h, 'e) ls_mem, unit) op" where
  "LIST_INSERT_BEFORE listelm elm =
     bind_m (ls_get listelm) (\<lambda>le.
     seq_m (ls_set_prev elm (le_prev le))
     (seq_m (ls_set_next elm (Some listelm))
     (bind_m (ls_get listelm) (\<lambda>le.
     seq_m (ls_store (le_prev le) (Some elm))
     (ls_set_prev listelm (ElemNext elm))))))"

definition LIST_INSERT_HEAD :: "'h \<Rightarrow> 'e \<Rightarrow> (('h, 'e) ls_mem, unit) op" where
  "LIST_INSERT_HEAD h elm =
     bind_m (LIST_FIRST h) (\<lambda>p.
     seq_m (ls_set_next elm p)
     (seq_m (if p \<noteq> None
             then bind_m (LIST_FIRST h) (\<lambda>f. deref_m f (\<lambda>e. ls_set_prev e (ElemNext elm)))
             else return_m ())
     (seq_m (ls_set_first h (Some elm))
     (ls_set_prev elm (HeadFirst h)))))"

definition LIST_REMOVE :: "'e \<Rightarrow> (('h, 'e) ls_mem, unit) op" where
  "LIST_REMOVE elm =
     bind_m (ls_get elm) (\<lambda>en.
     seq_m (if le_next en \<noteq> None
            then deref_m (le_next en) (\<lambda>n. ls_set_prev n (le_prev en)) else return_m ())
     (bind_m (ls_get elm) (\<lambda>en.
     ls_store (le_prev en) (le_next en))))"

definition LIST_REPLACE :: "'e \<Rightarrow> 'e \<Rightarrow> (('h, 'e) ls_mem, unit) op" where
  "LIST_REPLACE elm elm2 =
     bind_m (LIST_NEXT elm) (\<lambda>p.
     seq_m (ls_set_next elm2 p)
     (seq_m (if p \<noteq> None
             then bind_m (LIST_NEXT elm2) (\<lambda>n. deref_m n (\<lambda>e. ls_set_prev e (ElemNext elm2)))
             else return_m ())
     (bind_m (ls_get elm) (\<lambda>en.
     seq_m (ls_set_prev elm2 (le_prev en))
     (bind_m (ls_get elm2) (\<lambda>en2.
     ls_store (le_prev en2) (Some elm2)))))))"

section \<open>A list is a tail queue that has forgotten its end\<close>

definition forget_ent :: "('h, 'e) tq_entry \<Rightarrow> ('h, 'e) ls_entry" where
  "forget_ent en = \<lparr>le_next = tqe_next en, le_prev = tqe_prev en\<rparr>"

definition forget :: "('h, 'e) tq_mem \<Rightarrow> ('h, 'e) ls_mem" where
  "forget q = \<lparr>ls_heads = (\<lambda>h. map_option (\<lambda>hh. \<lparr>lh_first = tqh_first hh\<rparr>) (heads q h)),
     ls_ents = (\<lambda>e. map_option forget_ent (ents q e))\<rparr>"

definition ls_rep :: "('h, 'e) ls_mem \<Rightarrow> 'h \<Rightarrow> 'e list \<Rightarrow> bool" where
  "ls_rep s h xs \<longleftrightarrow> (\<exists>q. s = forget q \<and> tq_rep q h xs)"

text \<open>
  An operation on lists does what the tail queue operation does: it returns the same, and
  what it leaves is the memory that the other leaves, without the ends.
\<close>

definition simulates :: "(('h, 'e) ls_mem, 'a) op \<Rightarrow> (('h, 'e) tq_mem, 'a) op \<Rightarrow> bool" where
  "simulates f g \<longleftrightarrow> (\<forall>q x q'. g q = Inr (x, q') \<longrightarrow> f (forget q) = Inr (x, forget q'))"

lemma simulatesD: "simulates f g \<Longrightarrow> g q = Inr (x, q') \<Longrightarrow> f (forget q) = Inr (x, forget q')"
  by (simp add: simulates_def)

lemma sim_access:
  "simulates (LIST_FIRST h) (TAILQ_FIRST h)" "simulates (LIST_NEXT e) (TAILQ_NEXT e)"
  "simulates (LIST_EMPTY h) (TAILQ_EMPTY h)"
  by (auto simp: simulates_def LIST_FIRST_def TAILQ_FIRST_def LIST_NEXT_def TAILQ_NEXT_def
      LIST_EMPTY_def TAILQ_EMPTY_def get_head_def get_ent_def ls_get_def run_defs forget_def forget_ent_def
      split: option.splits)

lemma sim_set:
  "simulates (ls_set_first h p) (set_first h p)" "simulates (ls_set_next e p) (set_next e p)"
  "simulates (ls_set_prev e l) (set_prev e l)" "simulates (ls_store l p) (store_loc l p)"
  "simulates (return_m ()) (set_last h l)"
proof -
  show a: "simulates (ls_set_first h p) (set_first h p)" "simulates (ls_set_next e p) (set_next e p)" for h e p
    by (auto simp: simulates_def ls_set_first_def set_first_def ls_set_next_def set_next_def get_head_def
        get_ent_def ls_get_def run_defs forget_def forget_ent_def fun_eq_iff split: option.splits)
  show "simulates (ls_set_prev e l) (set_prev e l)" "simulates (return_m ()) (set_last h l)"
    by (auto simp: simulates_def ls_set_prev_def set_prev_def set_last_def get_head_def
        get_ent_def ls_get_def run_defs forget_def forget_ent_def fun_eq_iff split: option.splits)
  show "simulates (ls_store l p) (store_loc l p)" by (cases l) (simp_all add: a)
qed

lemma sim_bind:
  "simulates f g \<Longrightarrow> (\<And>x. simulates (f' x) (g' x)) \<Longrightarrow> simulates (bind_m f f') (bind_m g g')"
  by (auto simp: simulates_def bind_m_def split: sum.splits)

lemma sim_seq: "simulates f g \<Longrightarrow> simulates f' g' \<Longrightarrow> simulates (seq_m f f') (seq_m g g')"
  by (auto simp: simulates_def seq_m_def split: sum.splits)

lemma sim_get:
  "(\<And>en. simulates (f' (forget_ent en)) (g' en)) \<Longrightarrow> simulates (bind_m (ls_get e) f') (bind_m (get_ent e) g')"
  by (auto simp: simulates_def bind_m_def ls_get_def get_ent_def the_m_def forget_def split: option.splits)

lemma forget_ent_sel [simp]: "le_next (forget_ent en) = tqe_next en" "le_prev (forget_ent en) = tqe_prev en"
  by (simp_all add: forget_ent_def)

text \<open>
  Three macros read a pointer again that they have just copied into the new entry; it has not
  changed, also when the two entries are the same.
\<close>

lemma reread:
  "LIST_NEXT x s = Inr (p, t) \<Longrightarrow> ls_set_next e p t = Inr ((), u) \<Longrightarrow> LIST_NEXT x u = Inr (p, u)"
  "ls_set_next e p t = Inr ((), u) \<Longrightarrow> LIST_NEXT e u = Inr (p, u)"
  "LIST_FIRST h s = Inr (p, t) \<Longrightarrow> ls_set_next e p t = Inr ((), u) \<Longrightarrow> LIST_FIRST h u = Inr (p, u)"
  by (auto simp: LIST_NEXT_def LIST_FIRST_def ls_get_def ls_set_next_def run_defs
      split: option.splits if_splits)

lemma bind_seq_cong:
  assumes "\<And>s p t u. f s = Inr (p, t) \<Longrightarrow> g p t = Inr ((), u) \<Longrightarrow> k p u = k' p u"
  shows "bind_m f (\<lambda>p. seq_m (g p) (k p)) = bind_m f (\<lambda>p. seq_m (g p) (k' p))"
  using assms by (auto simp: fun_eq_iff bind_m_def seq_m_def split: sum.splits)

lemma LIST_once:
  "LIST_INSERT_AFTER x e = bind_m (LIST_NEXT x) (\<lambda>p. seq_m (ls_set_next e p)
     (seq_m (case p of None \<Rightarrow> return_m () | Some n \<Rightarrow> ls_set_prev n (ElemNext e))
     (seq_m (ls_set_next x (Some e)) (ls_set_prev e (ElemNext x)))))"
  "LIST_INSERT_HEAD h e = bind_m (LIST_FIRST h) (\<lambda>p. seq_m (ls_set_next e p)
     (seq_m (case p of None \<Rightarrow> return_m () | Some n \<Rightarrow> ls_set_prev n (ElemNext e))
     (seq_m (ls_set_first h (Some e)) (ls_set_prev e (HeadFirst h)))))"
  "LIST_REPLACE x e = bind_m (LIST_NEXT x) (\<lambda>p. seq_m (ls_set_next e p)
     (seq_m (case p of None \<Rightarrow> return_m () | Some n \<Rightarrow> ls_set_prev n (ElemNext e))
     (bind_m (ls_get x) (\<lambda>en. seq_m (ls_set_prev e (le_prev en))
     (bind_m (ls_get e) (\<lambda>en2. ls_store (le_prev en2) (Some e)))))))"
  unfolding LIST_INSERT_AFTER_def LIST_INSERT_HEAD_def LIST_REPLACE_def
  by (rule bind_seq_cong, simp add: seq_m_def bind_m_def reread split: option.split)+

lemma list_remove_sim: "simulates (LIST_REMOVE e) (TAILQ_REMOVE h e)"
  unfolding LIST_REMOVE_def TAILQ_REMOVE_def
  by (rule sim_get, rule sim_seq, simp add: sim_set split: option.split, rule sim_get, simp add: sim_set)

lemma list_insert_before_sim: "simulates (LIST_INSERT_BEFORE x e) (TAILQ_INSERT_BEFORE x e)"
  unfolding LIST_INSERT_BEFORE_def TAILQ_INSERT_BEFORE_def
  by (intro sim_get sim_seq sim_set; simp add: sim_set sim_get sim_seq)

lemma sim_relink:
  "simulates (case p of None \<Rightarrow> return_m () | Some n \<Rightarrow> ls_set_prev n l)
     (case p of Some n \<Rightarrow> set_prev n l | None \<Rightarrow> set_last h l')"
  by (simp add: sim_set split: option.split)

lemma list_insert_after_sim: "simulates (LIST_INSERT_AFTER x e) (TAILQ_INSERT_AFTER h x e)"
  unfolding LIST_once TAILQ_INSERT_AFTER_def
  by (intro sim_bind sim_access sim_seq sim_set sim_relink)

lemma list_insert_head_sim: "simulates (LIST_INSERT_HEAD h e) (TAILQ_INSERT_HEAD h e)"
  unfolding LIST_once TAILQ_INSERT_HEAD_def
  by (intro sim_bind sim_access sim_seq sim_set sim_relink)

lemma list_replace_sim: "simulates (LIST_REPLACE x e) (TAILQ_REPLACE h x e)"
  unfolding LIST_once TAILQ_REPLACE_def
  by (intro sim_bind sim_access sim_seq sim_set sim_relink sim_get; simp add: sim_set sim_get sim_seq)

section \<open>What the macros do to lists\<close>

definition ls_cell :: "('h, 'e) ls_mem \<Rightarrow> 'e \<Rightarrow> bool" where
  "ls_cell s e \<longleftrightarrow> ls_ents s e \<noteq> None"

lemma forget_cell [simp]: "ls_cell (forget q) = tq_cell q"
  by (simp add: fun_eq_iff ls_cell_def tq_cell_def forget_def)

text \<open>
  The list of a memory on its own: the entries are linked forwards and backwards.  A tail queue
  that it is the rest of can always be found, by adding the ends.
\<close>

definition linked :: "('e \<Rightarrow> ('h, 'e) ls_entry option) \<Rightarrow> 'e \<Rightarrow> ('h, 'e) tq_entry option" where
  "linked E e = map_option (\<lambda>en. \<lparr>tqe_next = le_next en, tqe_prev = le_prev en\<rparr>) (E e)"

lemma linked_forget [simp]: "linked (ls_ents (forget q)) = ents q"
  by (auto simp: linked_def forget_def forget_ent_def fun_eq_iff map_option.compositionality comp_def
      option.map_ident_strong)

lemma ls_rep_iff:
  "ls_rep s h xs \<longleftrightarrow> distinct xs \<and> (\<exists>hh l. ls_heads s h = Some hh \<and>
     dseg (linked (ls_ents s)) (HeadFirst h) (lh_first hh) xs l None)"
proof
  assume "ls_rep s h xs"
  then obtain q where s: "s = forget q" "tq_rep q h xs" by (auto simp: ls_rep_def)
  then show "distinct xs \<and> (\<exists>hh l. ls_heads s h = Some hh \<and>
      dseg (linked (ls_ents s)) (HeadFirst h) (lh_first hh) xs l None)"
    unfolding s(1) linked_forget by (auto simp: tq_rep_def forget_def)
next
  assume "distinct xs \<and> (\<exists>hh l. ls_heads s h = Some hh \<and>
      dseg (linked (ls_ents s)) (HeadFirst h) (lh_first hh) xs l None)"
  then obtain hh l where d: "distinct xs" and hh: "ls_heads s h = Some hh"
    and sg: "dseg (linked (ls_ents s)) (HeadFirst h) (lh_first hh) xs l None" by blast
  let ?q = "\<lparr>heads = (\<lambda>h'. map_option (\<lambda>hh. \<lparr>tqh_first = lh_first hh, tqh_last = l\<rparr>) (ls_heads s h')),
    ents = linked (ls_ents s)\<rparr>"
  have "forget ?q = s"
    by (cases s) (auto simp: forget_def forget_ent_def linked_def fun_eq_iff map_option.compositionality comp_def
        option.map_ident_strong)
  moreover have "tq_rep ?q h xs" using d hh sg by (auto simp: tq_rep_def)
  ultimately show "ls_rep s h xs" unfolding ls_rep_def by metis
qed

lemma ls_repE:
  assumes "ls_rep s h xs"
  obtains q where "s = forget q" and "tq_rep q h xs"
  using assms by (auto simp: ls_rep_def)

lemma ls_rep_forget: "tq_rep q h xs \<Longrightarrow> ls_rep (forget q) h xs"
  by (auto simp: ls_rep_def)

text \<open>Only heads in \<open>H\<close> and entries in \<open>E\<close> were written.\<close>

definition ls_same :: "('h, 'e) ls_mem \<Rightarrow> ('h, 'e) ls_mem \<Rightarrow> 'h set \<Rightarrow> 'e set \<Rightarrow> bool" where
  "ls_same s s' H E \<longleftrightarrow> (\<forall>h. h \<notin> H \<longrightarrow> ls_heads s' h = ls_heads s h) \<and>
     (\<forall>e. e \<notin> E \<longrightarrow> ls_ents s' e = ls_ents s e) \<and> ls_cell s' = ls_cell s"

lemma forget_same: "tq_same q q' H E \<Longrightarrow> ls_same (forget q) (forget q') H E"
  by (simp add: ls_same_def tq_same_cell) (simp add: tq_same_def forget_def)

lemma ls_rep_frame:
  assumes "ls_rep s h xs" and "ls_same s s' H E" and "h \<notin> H" and "set xs \<inter> E = {}"
  shows "ls_rep s' h xs"
proof -
  have "dseg (linked (ls_ents s')) p f xs l n = dseg (linked (ls_ents s)) p f xs l n" for p f l n
    by (rule dseg_cong) (use assms(2,4) in \<open>auto simp: ls_same_def linked_def\<close>)
  with assms(1-3) show ?thesis by (simp add: ls_rep_iff ls_same_def)
qed

text \<open>One rule carries what is proved of a tail queue macro over to its list macro.\<close>

lemma list_from_tailq:
  assumes "simulates f g" and "s = forget q"
    and "\<exists>q'. g q = Inr ((), q') \<and> tq_rep q' h ys \<and> tq_same q q' H E"
  shows "\<exists>s'. f s = Inr ((), s') \<and> ls_rep s' h ys \<and> ls_same s s' H E"
  using assms by (auto dest: simulatesD ls_rep_forget forget_same)

lemma list_insert_head_rep:
  assumes "ls_rep s h xs" and "ls_cell s e" and "e \<notin> set xs"
  shows "\<exists>s'. LIST_INSERT_HEAD h e s = Inr ((), s') \<and> ls_rep s' h (e # xs) \<and> ls_same s s' {h} (insert e (set xs))"
proof -
  from assms(1) obtain q where q: "s = forget q" "tq_rep q h xs" by (rule ls_repE)
  with assms(2) obtain ee where "ents q e = Some ee" by (auto simp: tq_cell_def)
  from list_from_tailq [OF list_insert_head_sim q(1) insert_head_rep [OF q(2) assms(3) this]] show ?thesis .
qed

lemma list_insert_after_rep:
  assumes "ls_rep s h (as @ x # bs)" and "ls_cell s e" and "e \<notin> set (as @ x # bs)"
  shows "\<exists>s'. LIST_INSERT_AFTER x e s = Inr ((), s') \<and> ls_rep s' h (as @ x # e # bs) \<and>
    ls_same s s' {h} (insert e (insert x (set bs)))"
proof -
  from assms(1) obtain q where q: "s = forget q" "tq_rep q h (as @ x # bs)" by (rule ls_repE)
  with assms(2) obtain ee where "ents q e = Some ee" by (auto simp: tq_cell_def)
  from list_from_tailq [OF list_insert_after_sim q(1) insert_after_rep [OF q(2) assms(3) this]] show ?thesis .
qed

lemma list_insert_before_rep:
  assumes "ls_rep s h (as @ x # bs)" and "ls_cell s e" and "e \<notin> set (as @ x # bs)"
  shows "\<exists>s'. LIST_INSERT_BEFORE x e s = Inr ((), s') \<and> ls_rep s' h (as @ e # x # bs) \<and>
    ls_same s s' {h} (insert e (insert x (set as)))"
proof -
  from assms(1) obtain q where q: "s = forget q" "tq_rep q h (as @ x # bs)" by (rule ls_repE)
  with assms(2) obtain ee where "ents q e = Some ee" by (auto simp: tq_cell_def)
  from list_from_tailq [OF list_insert_before_sim q(1) insert_before_rep [OF q(2) assms(3) this]] show ?thesis .
qed

lemma list_remove_rep:
  assumes "ls_rep s h (as @ x # bs)"
  shows "\<exists>s'. LIST_REMOVE x s = Inr ((), s') \<and> ls_rep s' h (as @ bs) \<and> ls_same s s' {h} (set as \<union> set bs)"
proof -
  from assms obtain q where q: "s = forget q" "tq_rep q h (as @ x # bs)" by (rule ls_repE)
  from list_from_tailq [OF list_remove_sim q(1) remove_rep [OF q(2)]] show ?thesis .
qed

lemma list_replace_rep:
  assumes "ls_rep s h (as @ x # bs)" and "ls_cell s e" and "e \<notin> set (as @ x # bs)"
  shows "\<exists>s'. LIST_REPLACE x e s = Inr ((), s') \<and> ls_rep s' h (as @ e # bs) \<and>
    ls_same s s' {h} (insert e (set as \<union> set bs))"
proof -
  from assms(1) obtain q where q: "s = forget q" "tq_rep q h (as @ x # bs)" by (rule ls_repE)
  with assms(2) obtain ee where "ents q e = Some ee" by (auto simp: tq_cell_def)
  from list_from_tailq [OF list_replace_sim q(1) replace_rep [OF q(2) assms(3) this]] show ?thesis .
qed

text \<open>\<open>LIST_INIT\<close> and \<open>LIST_MOVE\<close> have no counterpart.\<close>

lemma list_init_rep: "\<exists>s'. LIST_INIT h s = Inr ((), s') \<and> ls_rep s' h [] \<and> ls_same s s' {h} {}"
  by (simp add: LIST_INIT_def modify_m_def ls_rep_iff ls_same_def ls_cell_def [abs_def])

lemma list_first_rep: "ls_rep s h xs \<Longrightarrow> LIST_FIRST h s = Inr (case xs of [] \<Rightarrow> None | x # _ \<Rightarrow> Some x, s)"
  by (auto elim!: ls_repE dest: first_rep intro: simulatesD [OF sim_access(1)])

lemma list_move_rep:
  assumes rep: "ls_rep s h1 xs" and ne: "h1 \<noteq> h2"
  shows "\<exists>s'. LIST_MOVE h1 h2 s = Inr ((), s') \<and> ls_rep s' h2 xs \<and> ls_rep s' h1 [] \<and>
    ls_same s s' {h1, h2} (set xs)"
proof -
  from rep obtain hh l where d: "distinct xs" and hh: "ls_heads s h1 = Some hh"
    and sg: "dseg (linked (ls_ents s)) (HeadFirst h1) (lh_first hh) xs l None" by (auto simp: ls_rep_iff)
  show ?thesis
  proof (cases xs)
    case Nil
    let ?s = "s\<lparr>ls_heads := (ls_heads s)(h2 \<mapsto> \<lparr>lh_first = None\<rparr>)\<rparr>"
    have "lh_first hh = None" using sg Nil by simp
    then have "LIST_MOVE h1 h2 s = Inr ((), ?s)"
      using hh ne by (simp add: LIST_MOVE_def LIST_INIT_def LIST_EMPTY_def LIST_FIRST_def run_defs)
    moreover have "ls_rep ?s h2 []" "ls_rep ?s h1 []"
      using hh ne \<open>lh_first hh = None\<close> by (simp_all add: ls_rep_iff)
    moreover have "ls_same s ?s {h1, h2} (set xs)" by (simp add: ls_same_def ls_cell_def [abs_def])
    ultimately show ?thesis using Nil by blast
  next
    case (Cons x ys)
    then obtain en where f: "lh_first hh = Some x" and en: "ls_ents s x = Some en"
      and sg': "dseg (linked (ls_ents s)) (ElemNext x) (le_next en) ys l None"
      using sg by (auto simp: linked_def)
    let ?s = "s\<lparr>ls_heads := (ls_heads s)(h2 \<mapsto> \<lparr>lh_first = Some x\<rparr>, h1 \<mapsto> \<lparr>lh_first = None\<rparr>),
      ls_ents := (ls_ents s)(x \<mapsto> en\<lparr>le_prev := HeadFirst h2\<rparr>)\<rparr>"
    have "LIST_MOVE h1 h2 s = Inr ((), ?s)"
      using hh ne f en
      by (simp add: LIST_MOVE_def LIST_INIT_def LIST_EMPTY_def LIST_FIRST_def ls_set_first_def
          ls_set_prev_def ls_get_def run_defs)
    moreover have "linked (ls_ents ?s) y = linked (ls_ents s) y" if "y \<in> set ys" for y
      using d Cons that by (auto simp: linked_def)
    then have "dseg (linked (ls_ents ?s)) (ElemNext x) (le_next en) ys l None"
      using sg' dseg_cong [of ys "linked (ls_ents ?s)" "linked (ls_ents s)"] by simp
    then have "ls_rep ?s h2 xs" using d Cons ne by (auto simp: ls_rep_iff linked_def)
    moreover have "ls_rep ?s h1 []" by (simp add: ls_rep_iff)
    moreover have "ls_same s ?s {h1, h2} (set xs)"
      using en Cons by (auto simp: ls_same_def ls_cell_def fun_eq_iff)
    ultimately show ?thesis by blast
  qed
qed

definition ls_nexts :: "('h, 'e) ls_mem \<Rightarrow> 'e \<Rightarrow> 'e option option" where
  "ls_nexts s e = map_option le_next (ls_ents s e)"

lemma ls_nexts_forget [simp]: "ls_nexts (forget q) = nexts q"
  by (auto simp: fun_eq_iff ls_nexts_def nexts_def forget_def option.map_comp comp_def)

lemma ls_runs:
  "ls_nexts s e = Some n \<Longrightarrow> LIST_NEXT e s = Inr (n, s)"
  by (auto simp: LIST_NEXT_def ls_get_def ls_nexts_def run_defs)

lemma list_chain:
  assumes "ls_rep s h xs"
  obtains f where "LIST_FIRST h s = Inr (f, s)" and "fchain (ls_nexts s) f xs"
proof -
  from assms obtain q where q: "s = forget q" "tq_rep q h xs" by (rule ls_repE)
  from rep_fchain [OF q(2)] obtain hh where hh: "heads q h = Some hh" "fchain (nexts q) (tqh_first hh) xs" .
  have "LIST_FIRST h s = Inr (tqh_first hh, s)"
    using hh(1) by (simp add: q(1) LIST_FIRST_def run_defs forget_def)
  with hh(2) show ?thesis by (intro that) (simp_all add: q(1))
qed

lemma list_foreach_rep:
  assumes "ls_rep (get s) h xs" and "length xs \<le> fuel"
    and "\<And>x y s s'. x \<in> set xs \<Longrightarrow> y \<in> set xs \<Longrightarrow> body x s = Inr (True, s') \<Longrightarrow>
       ls_nexts (get s') y = ls_nexts (get s) y"
  shows "LIST_FOREACH fuel get h body s = for_each body xs s"
proof -
  from assms(1) obtain f where f: "LIST_FIRST h (get s) = Inr (f, get s)" "fchain (ls_nexts (get s)) f xs"
    by (rule list_chain)
  have "links_loop fuel (\<lambda>e. zoom_m get (\<lambda>_ s. s) (LIST_NEXT e)) body f s = for_each body xs s"
    by (rule links_loop_chain [where N = "\<lambda>s. ls_nexts (get s)"])
      (use f(2) assms(2,3) in \<open>auto simp: zoom_m_def ls_runs\<close>)
  with f(1) show ?thesis by (simp add: LIST_FOREACH_def bind_m_Inr zoom_m_def)
qed

lemma list_foreach_safe_rep:
  assumes "ls_rep (get s) h xs" and "length xs \<le> fuel"
    and "\<And>x y s s'. x \<in> set xs \<Longrightarrow> y \<in> set xs \<Longrightarrow> x \<noteq> y \<Longrightarrow> body x s = Inr (True, s') \<Longrightarrow>
       ls_nexts (get s') y = ls_nexts (get s) y"
  shows "LIST_FOREACH_SAFE fuel get h body s = for_each body xs s"
proof -
  from assms(1) obtain f where f: "LIST_FIRST h (get s) = Inr (f, get s)" "fchain (ls_nexts (get s)) f xs"
    by (rule list_chain)
  have "distinct xs" using assms(1) by (simp add: ls_rep_iff)
  then have "links_loop_safe fuel (\<lambda>e. zoom_m get (\<lambda>_ s. s) (LIST_NEXT e)) body f s = for_each body xs s"
    by (intro links_loop_safe_chain [where N = "\<lambda>s. ls_nexts (get s)"])
      (use f(2) assms(2,3) in \<open>auto simp: zoom_m_def ls_runs\<close>)
  with f(1) show ?thesis by (simp add: LIST_FOREACH_SAFE_def bind_m_Inr zoom_m_def)
qed

text \<open>The static initialiser is the empty list.\<close>

definition LIST_HEAD_INITIALIZER :: "'e ls_head" where
  "LIST_HEAD_INITIALIZER = \<lparr>lh_first = None\<rparr>"

lemma list_initializer_rep: "ls_heads s h = Some LIST_HEAD_INITIALIZER \<Longrightarrow> ls_rep s h []"
  by (simp add: LIST_HEAD_INITIALIZER_def ls_rep_iff)

end
