(* ===== verification/QueueDebug.thy ===== *)
theory QueueDebug
  imports ListQueue
begin

text \<open>
  The queue macros of \<open>libOpenXPC/compat_queue.h\<close> in a build with \<open>QUEUEDEBUG\<close>: consistency checks
  before an update, which end the program with \<open>err\<close> when they fail, and entries that are made
  unusable when they are removed.  On well-formed queues the checks pass, and the macros do what
  they do without them.
\<close>

section \<open>The checks of the tail queue\<close>

text \<open>\<open>QUEUEDEBUG_ABORT\<close> is \<open>err(1, ...)\<close>, which does not return.\<close>

definition QUEUEDEBUG_ABORT :: "('s, unit) op" where
  "QUEUEDEBUG_ABORT = fail_m AssertFails"

definition QUEUEDEBUG_TAILQ_INSERT_HEAD :: "'h \<Rightarrow> 'e \<Rightarrow> (('h, 'e) tq_mem, unit) op" where
  "QUEUEDEBUG_TAILQ_INSERT_HEAD h elm =
     bind_m (TAILQ_FIRST h) (\<lambda>f. case f of
       None \<Rightarrow> return_m ()
     | Some e \<Rightarrow> bind_m (get_ent e) (\<lambda>en.
         if tqe_prev en \<noteq> HeadFirst h then QUEUEDEBUG_ABORT else return_m ()))"

definition QUEUEDEBUG_TAILQ_INSERT_TAIL :: "'h \<Rightarrow> 'e \<Rightarrow> (('h, 'e) tq_mem, unit) op" where
  "QUEUEDEBUG_TAILQ_INSERT_TAIL h elm =
     bind_m (get_head h) (\<lambda>hh.
     bind_m (load_loc (tqh_last hh)) (\<lambda>p.
     if p \<noteq> None then QUEUEDEBUG_ABORT else return_m ()))"

definition QUEUEDEBUG_TAILQ_OP :: "'e \<Rightarrow> (('h, 'e) tq_mem, unit) op" where
  "QUEUEDEBUG_TAILQ_OP elm =
     bind_m (get_ent elm) (\<lambda>en.
     seq_m (case tqe_next en of
         None \<Rightarrow> return_m ()
       | Some n \<Rightarrow> bind_m (get_ent n) (\<lambda>nn.
           if tqe_prev nn \<noteq> ElemNext elm then QUEUEDEBUG_ABORT else return_m ()))
     (bind_m (load_loc (tqe_prev en)) (\<lambda>p.
     if p \<noteq> Some elm then QUEUEDEBUG_ABORT else return_m ())))"

definition QUEUEDEBUG_TAILQ_PREREMOVE :: "'h \<Rightarrow> 'e \<Rightarrow> (('h, 'e) tq_mem, unit) op" where
  "QUEUEDEBUG_TAILQ_PREREMOVE h elm =
     bind_m (get_ent elm) (\<lambda>en.
     if tqe_next en = None
     then bind_m (get_head h) (\<lambda>hh.
       if tqh_last hh \<noteq> ElemNext elm then QUEUEDEBUG_ABORT else return_m ())
     else return_m ())"

text \<open>Both pointers of a removed entry become the address 1, which no entry has: \<open>one\<close>.\<close>

definition QUEUEDEBUG_TAILQ_POSTREMOVE :: "'e \<Rightarrow> 'e \<Rightarrow> (('h, 'e) tq_mem, unit) op" where
  "QUEUEDEBUG_TAILQ_POSTREMOVE one elm =
     seq_m (set_next elm (Some one)) (set_prev elm (ElemNext one))"

section \<open>The updating macros with their checks\<close>

definition TAILQ_INSERT_HEAD_debug :: "'h \<Rightarrow> 'e \<Rightarrow> (('h, 'e) tq_mem, unit) op" where
  "TAILQ_INSERT_HEAD_debug h elm =
     seq_m (QUEUEDEBUG_TAILQ_INSERT_HEAD h elm) (TAILQ_INSERT_HEAD h elm)"

definition TAILQ_INSERT_TAIL_debug :: "'h \<Rightarrow> 'e \<Rightarrow> (('h, 'e) tq_mem, unit) op" where
  "TAILQ_INSERT_TAIL_debug h elm =
     seq_m (QUEUEDEBUG_TAILQ_INSERT_TAIL h elm) (TAILQ_INSERT_TAIL h elm)"

definition TAILQ_INSERT_AFTER_debug :: "'h \<Rightarrow> 'e \<Rightarrow> 'e \<Rightarrow> (('h, 'e) tq_mem, unit) op" where
  "TAILQ_INSERT_AFTER_debug h listelm elm =
     seq_m (QUEUEDEBUG_TAILQ_OP listelm) (TAILQ_INSERT_AFTER h listelm elm)"

definition TAILQ_INSERT_BEFORE_debug :: "'e \<Rightarrow> 'e \<Rightarrow> (('h, 'e) tq_mem, unit) op" where
  "TAILQ_INSERT_BEFORE_debug listelm elm =
     seq_m (QUEUEDEBUG_TAILQ_OP listelm) (TAILQ_INSERT_BEFORE listelm elm)"

definition TAILQ_REMOVE_debug :: "'e \<Rightarrow> 'h \<Rightarrow> 'e \<Rightarrow> (('h, 'e) tq_mem, unit) op" where
  "TAILQ_REMOVE_debug one h elm =
     seq_m (QUEUEDEBUG_TAILQ_PREREMOVE h elm)
     (seq_m (QUEUEDEBUG_TAILQ_OP elm)
     (seq_m (TAILQ_REMOVE h elm)
     (QUEUEDEBUG_TAILQ_POSTREMOVE one elm)))"

definition TAILQ_REPLACE_debug :: "'e \<Rightarrow> 'h \<Rightarrow> 'e \<Rightarrow> 'e \<Rightarrow> (('h, 'e) tq_mem, unit) op" where
  "TAILQ_REPLACE_debug one h elm elm2 =
     seq_m (TAILQ_REPLACE h elm elm2) (QUEUEDEBUG_TAILQ_POSTREMOVE one elm)"

section \<open>Lists\<close>

definition QUEUEDEBUG_LIST_INSERT_HEAD :: "'h \<Rightarrow> 'e \<Rightarrow> (('h, 'e) ls_mem, unit) op" where
  "QUEUEDEBUG_LIST_INSERT_HEAD h elm =
     bind_m (LIST_FIRST h) (\<lambda>f. case f of
       None \<Rightarrow> return_m ()
     | Some e \<Rightarrow> bind_m (ls_get e) (\<lambda>en.
         if le_prev en \<noteq> HeadFirst h then QUEUEDEBUG_ABORT else return_m ()))"

definition QUEUEDEBUG_LIST_OP :: "'e \<Rightarrow> (('h, 'e) ls_mem, unit) op" where
  "QUEUEDEBUG_LIST_OP elm =
     bind_m (ls_get elm) (\<lambda>en.
     seq_m (case le_next en of
         None \<Rightarrow> return_m ()
       | Some n \<Rightarrow> bind_m (ls_get n) (\<lambda>nn.
           if le_prev nn \<noteq> ElemNext elm then QUEUEDEBUG_ABORT else return_m ()))
     (bind_m (ls_load (le_prev en)) (\<lambda>p.
     if p \<noteq> Some elm then QUEUEDEBUG_ABORT else return_m ())))"

definition QUEUEDEBUG_LIST_POSTREMOVE :: "'e \<Rightarrow> 'e \<Rightarrow> (('h, 'e) ls_mem, unit) op" where
  "QUEUEDEBUG_LIST_POSTREMOVE one elm =
     seq_m (ls_set_next elm (Some one)) (ls_set_prev elm (ElemNext one))"

definition LIST_INSERT_AFTER_debug :: "'e \<Rightarrow> 'e \<Rightarrow> (('h, 'e) ls_mem, unit) op" where
  "LIST_INSERT_AFTER_debug listelm elm =
     seq_m (QUEUEDEBUG_LIST_OP listelm) (LIST_INSERT_AFTER listelm elm)"

definition LIST_INSERT_BEFORE_debug :: "'e \<Rightarrow> 'e \<Rightarrow> (('h, 'e) ls_mem, unit) op" where
  "LIST_INSERT_BEFORE_debug listelm elm =
     seq_m (QUEUEDEBUG_LIST_OP listelm) (LIST_INSERT_BEFORE listelm elm)"

definition LIST_INSERT_HEAD_debug :: "'h \<Rightarrow> 'e \<Rightarrow> (('h, 'e) ls_mem, unit) op" where
  "LIST_INSERT_HEAD_debug h elm =
     seq_m (QUEUEDEBUG_LIST_INSERT_HEAD h elm) (LIST_INSERT_HEAD h elm)"

definition LIST_REMOVE_debug :: "'e \<Rightarrow> 'e \<Rightarrow> (('h, 'e) ls_mem, unit) op" where
  "LIST_REMOVE_debug one elm =
     seq_m (QUEUEDEBUG_LIST_OP elm)
     (seq_m (LIST_REMOVE elm) (QUEUEDEBUG_LIST_POSTREMOVE one elm))"

definition LIST_REPLACE_debug :: "'e \<Rightarrow> 'e \<Rightarrow> 'e \<Rightarrow> (('h, 'e) ls_mem, unit) op" where
  "LIST_REPLACE_debug one elm elm2 =
     seq_m (LIST_REPLACE elm elm2) (QUEUEDEBUG_LIST_POSTREMOVE one elm)"

section \<open>The checks pass on well-formed queues\<close>

lemma check_insert_head_rep: "tq_rep q h xs \<Longrightarrow> QUEUEDEBUG_TAILQ_INSERT_HEAD h e q = Inr ((), q)"
  by (cases xs) (auto simp: QUEUEDEBUG_TAILQ_INSERT_HEAD_def tq_rep_def bind_m_Inr get_runs return_m_def)

lemma load_end:
  assumes "dseg (ents q) (HeadFirst h) f as l n" and "heads q h = Some hh" and "tqh_first hh = f"
  shows "load_loc l q = Inr (n, q)"
proof (cases as rule: rev_cases)
  case Nil
  with assms show ?thesis by (auto simp: bind_m_Inr get_runs return_m_def)
next
  case (snoc ys y)
  with assms show ?thesis by (auto simp: dseg_append bind_m_Inr get_runs return_m_def)
qed

lemma check_insert_tail_rep: "tq_rep q h xs \<Longrightarrow> QUEUEDEBUG_TAILQ_INSERT_TAIL h e q = Inr ((), q)"
  by (auto simp: QUEUEDEBUG_TAILQ_INSERT_TAIL_def tq_rep_def bind_m_Inr get_runs load_end return_m_def)

lemma check_op_rep: "tq_rep q h (as @ x # bs) \<Longrightarrow> QUEUEDEBUG_TAILQ_OP x q = Inr ((), q)"
proof -
  assume "tq_rep q h (as @ x # bs)"
  then obtain hh en where hh: "heads q h = Some hh" and en: "ents q x = Some en"
    and sa: "dseg (ents q) (HeadFirst h) (tqh_first hh) as (tqe_prev en) (Some x)"
    and sb: "dseg (ents q) (ElemNext x) (tqe_next en) bs (tqh_last hh) None" by (auto simp: tq_rep_split)
  have "load_loc (tqe_prev en) q = Inr (Some x, q)" by (rule load_end [OF sa hh refl])
  then show ?thesis using en sb
    by (cases bs) (auto simp: QUEUEDEBUG_TAILQ_OP_def bind_m_Inr seq_m_Inr get_runs return_m_def)
qed

lemma check_preremove_rep: "tq_rep q h (as @ x # bs) \<Longrightarrow> QUEUEDEBUG_TAILQ_PREREMOVE h x q = Inr ((), q)"
  by (cases bs) (auto simp: QUEUEDEBUG_TAILQ_PREREMOVE_def tq_rep_split bind_m_Inr get_runs return_m_def)

text \<open>What is written to an entry that is in no queue does not matter to the queues.\<close>

definition poisoned :: "'e \<Rightarrow> 'e \<Rightarrow> ('h, 'e) tq_mem \<Rightarrow> ('h, 'e) tq_mem" where
  "poisoned one e q = q\<lparr>ents := (ents q)(e \<mapsto> \<lparr>tqe_next = Some one, tqe_prev = ElemNext one\<rparr>)\<rparr>"

lemma postremove_runs: "tq_cell q e \<Longrightarrow> QUEUEDEBUG_TAILQ_POSTREMOVE one e q = Inr ((), poisoned one e q)"
proof -
  assume "tq_cell q e"
  then obtain en where en: "ents q e = Some en" by (auto simp: tq_cell_def)
  then show ?thesis
    by (cases en) (simp add: QUEUEDEBUG_TAILQ_POSTREMOVE_def set_field_runs seq_m_Inr poisoned_def)
qed

lemma poisoned_rep: "tq_rep q h xs \<Longrightarrow> e \<notin> set xs \<Longrightarrow> tq_rep (poisoned one e q) h xs"
  by (simp add: tq_rep_def poisoned_def)

lemma poisoned_cell: "tq_cell q e \<Longrightarrow> tq_cell (poisoned one e q) = tq_cell q"
  by (auto simp: poisoned_def tq_cell_def fun_eq_iff)

lemma remove_debug_rep:
  assumes "tq_rep q h (as @ x # bs)"
  shows "\<exists>q'. TAILQ_REMOVE h x q = Inr ((), q') \<and> tq_rep q' h (as @ bs) \<and>
    TAILQ_REMOVE_debug one h x q = Inr ((), poisoned one x q') \<and>
    tq_rep (poisoned one x q') h (as @ bs)"
proof -
  from remove_rep [OF assms] obtain q' where
    q': "TAILQ_REMOVE h x q = Inr ((), q')" "tq_rep q' h (as @ bs)" "tq_same q q' {h} (set as \<union> set bs)" by blast
  have "tq_cell q' x" using tq_same_cell [OF q'(3)] tq_rep_ents [OF assms, of x] by (simp add: tq_cell_def)
  then have dbg: "TAILQ_REMOVE_debug one h x q = Inr ((), poisoned one x q')"
    using q'(1) check_op_rep [OF assms] check_preremove_rep [OF assms]
    by (simp add: TAILQ_REMOVE_debug_def seq_m_Inr postremove_runs)
  have "x \<notin> set (as @ bs)" using tq_rep_distinct [OF assms] by simp
  with q' have "tq_rep (poisoned one x q') h (as @ bs)" by (auto intro: poisoned_rep)
  with dbg q'(1,2) show ?thesis by (intro exI [of _ q'] conjI)
qed

lemma replace_debug_rep:
  assumes rep: "tq_rep q h (as @ x # bs)" and new: "e \<notin> set (as @ x # bs)" and live: "ents q e = Some ee"
  shows "\<exists>q'. TAILQ_REPLACE h x e q = Inr ((), q') \<and> TAILQ_REPLACE_debug one h x e q = Inr ((), poisoned one x q') \<and>
    tq_rep (poisoned one x q') h (as @ e # bs)"
proof -
  from replace_rep [OF rep new live] obtain q' where
    q': "TAILQ_REPLACE h x e q = Inr ((), q')" "tq_rep q' h (as @ e # bs)"
      "tq_same q q' {h} (insert e (set as \<union> set bs))" by blast
  have "tq_cell q' x" using tq_same_cell [OF q'(3)] tq_rep_ents [OF rep, of x] by (simp add: tq_cell_def)
  then have "TAILQ_REPLACE_debug one h x e q = Inr ((), poisoned one x q')"
    using q'(1) by (simp add: TAILQ_REPLACE_debug_def seq_m_Inr postremove_runs)
  moreover have "x \<notin> set (as @ e # bs)" using tq_rep_distinct [OF rep] new by auto
  then have "tq_rep (poisoned one x q') h (as @ e # bs)" by (rule poisoned_rep [OF q'(2)])
  ultimately show ?thesis using q'(1) by (intro exI [of _ q'] conjI)
qed

section \<open>Removing an entry twice\<close>

text \<open>The checks stop at an entry that was removed: its next pointer leads nowhere.\<close>

lemma poisoned_op: "ents q one = None \<Longrightarrow> one \<noteq> e \<Longrightarrow> QUEUEDEBUG_TAILQ_OP e (poisoned one e q) = Inl BadPointer"
  by (simp add: QUEUEDEBUG_TAILQ_OP_def poisoned_def get_ent_def run_defs)

lemma poisoned_remove:
  assumes "ents q one = None" and "one \<noteq> e"
  shows "TAILQ_REMOVE_debug one h e (poisoned one e q) = Inl BadPointer"
proof -
  have "QUEUEDEBUG_TAILQ_PREREMOVE h e (poisoned one e q) = Inr ((), poisoned one e q)"
    by (simp add: QUEUEDEBUG_TAILQ_PREREMOVE_def poisoned_def get_ent_def run_defs)
  with poisoned_op [OF assms] show ?thesis by (simp add: TAILQ_REMOVE_debug_def seq_m_Inr seq_m_Inl)
qed

text \<open>Without the checks a removal writes what the entry's stale pointers say.\<close>

lemma remove_by_pointers:
  assumes "ents q e = Some en" and "ents q z = Some zn" and "tqe_next en = tqe_next zn"
    and "tqe_prev en = tqe_prev zn" and "tqe_next zn \<noteq> Some e" and "tqe_next zn \<noteq> Some z"
  shows "TAILQ_REMOVE h e q = TAILQ_REMOVE h z q"
proof -
  have same: "en = zn" using assms(3,4) by (cases en; cases zn) simp
  have "get_ent e q' = Inr (zn, q') \<and> get_ent z q' = Inr (zn, q')"
    if "(case tqe_next zn of Some n \<Rightarrow> set_prev n (tqe_prev zn) | None \<Rightarrow> set_last h (tqe_prev zn)) q =
      Inr ((), q')" for q'
    using that assms(1,2,5,6) same
    by (auto simp: set_prev_def set_last_def get_ent_def get_head_def run_defs split: option.splits)
  then show ?thesis using assms(1,2) unfolding same
    by (auto simp: TAILQ_REMOVE_def bind_m_Inr get_runs seq_m_def split: sum.splits cong: option.case_cong)
qed

text \<open>Done at once, it writes what is there already.\<close>

lemma remove_again:
  assumes rep: "tq_rep q h (as @ x # e # bs)" and q1: "TAILQ_REMOVE h e q = Inr ((), q1)"
  shows "TAILQ_REMOVE h e q1 = Inr ((), q1)"
proof -
  have rep': "tq_rep q h ((as @ [x]) @ e # bs)" using rep by simp
  from remove_rep [OF rep'] q1 have q1': "tq_rep q1 h (as @ x # bs)"
      "tq_same q q1 {h} (set (as @ [x]) \<union> set bs)" by auto
  have d: "e \<notin> set (as @ [x]) \<union> set bs" using tq_rep_distinct [OF rep] by auto
  from rep' obtain hh en where en: "ents q e = Some en" "tqe_prev en = ElemNext x"
    "tqe_next en = (case bs of [] \<Rightarrow> None | b # _ \<Rightarrow> Some b)"
    by (auto simp: tq_rep_def dseg_append dest!: dseg_first)
  have e1: "ents q1 e = Some en" using en(1) tq_same_ents [OF q1'(2) d] by simp
  from q1'(1) obtain h1 xn where h1: "heads q1 h = Some h1" and xn: "ents q1 x = Some xn"
    and sb: "dseg (ents q1) (ElemNext x) (tqe_next xn) bs (tqh_last h1) None" by (auto simp: tq_rep_split)
  have x: "tqe_next xn = tqe_next en" using dseg_first [OF sb] en(3) by simp
  show ?thesis
  proof (cases bs)
    case Nil
    then show ?thesis using en e1 h1 xn x sb
      by (cases q1; cases h1; cases xn) (auto simp: TAILQ_REMOVE_def tq_defs run_defs fun_upd_idem)
  next
    case (Cons b bs')
    with sb obtain bn where "ents q1 b = Some bn" "tqe_prev bn = ElemNext x" by auto
    moreover have "b \<noteq> e" "b \<noteq> x" "x \<noteq> e" using Cons d tq_rep_distinct [OF rep] by auto
    ultimately show ?thesis using Cons en e1 h1 xn x
      by (cases q1; cases bn; cases xn) (auto simp: TAILQ_REMOVE_def tq_defs run_defs fun_upd_idem)
  qed
qed

lemma stale_remove:
  assumes rep: "tq_rep q h (as @ x # e # bs)" and z: "tq_cell q z" "z \<notin> set (as @ x # e # bs)"
  shows "\<exists>q1 q2 q3. TAILQ_REMOVE h e q = Inr ((), q1) \<and>
    TAILQ_INSERT_AFTER h x z q1 = Inr ((), q2) \<and> tq_rep q2 h (as @ x # z # bs) \<and>
    TAILQ_REMOVE h e q2 = Inr ((), q3) \<and> tq_rep q3 h (as @ x # bs)"
proof -
  have rep': "tq_rep q h ((as @ [x]) @ e # bs)" using rep by simp
  from remove_rep [OF rep'] obtain q1 where
    q1: "TAILQ_REMOVE h e q = Inr ((), q1)" "tq_rep q1 h (as @ x # bs)"
      "tq_same q q1 {h} (set (as @ [x]) \<union> set bs)" by auto
  obtain zz where zz: "ents q1 z = Some zz"
    using z(1) tq_same_cell [OF q1(3)] by (auto simp: tq_cell_def fun_eq_iff)
  from insert_after_rep [OF q1(2) _ zz] z(2) obtain q2 where
    q2: "TAILQ_INSERT_AFTER h x z q1 = Inr ((), q2)" "tq_rep q2 h (as @ x # z # bs)"
      "tq_same q1 q2 {h} (insert z (insert x (set bs)))" by auto
  have d: "e \<notin> set (as @ [x]) \<union> set bs" "e \<notin> insert z (insert x (set bs))" "z \<notin> set bs"
    using tq_rep_distinct [OF rep] z(2) by auto
  from rep' obtain hh en where en: "ents q e = Some en" "tqe_prev en = ElemNext x"
    "tqe_next en = (case bs of [] \<Rightarrow> None | b # _ \<Rightarrow> Some b)"
    by (auto simp: tq_rep_def dseg_append dest!: dseg_first)
  have e2: "ents q2 e = Some en"
    using en(1) d tq_same_ents [OF q1(3), of e] tq_same_ents [OF q2(3), of e] by simp
  have "tq_rep q2 h ((as @ [x]) @ z # bs)" using q2(2) by simp
  then obtain zn where zn: "ents q2 z = Some zn" "tqe_prev zn = ElemNext x"
    "tqe_next zn = (case bs of [] \<Rightarrow> None | b # _ \<Rightarrow> Some b)"
    by (auto simp: tq_rep_def dseg_append dest!: dseg_first)
  have "TAILQ_REMOVE h e q2 = TAILQ_REMOVE h z q2"
    by (rule remove_by_pointers [OF e2 zn(1)]) (use en zn d in \<open>auto split: list.splits\<close>)
  moreover obtain q3 where "TAILQ_REMOVE h z q2 = Inr ((), q3)" "tq_rep q3 h (as @ x # bs)"
    using remove_rep [of q2 h "as @ [x]" z bs] q2(2) by auto
  ultimately show ?thesis using q1(1) q2 by auto
qed

section \<open>The checks of lists\<close>

lemma sim_abort: "simulates QUEUEDEBUG_ABORT QUEUEDEBUG_ABORT"
  by (simp add: simulates_def QUEUEDEBUG_ABORT_def fail_m_def)

lemma sim_return: "simulates (return_m x) (return_m x)"
  by (simp add: simulates_def return_m_def)

lemma sim_load: "simulates (ls_load l) (load_loc l)"
  by (cases l) (auto simp: simulates_def get_head_def get_ent_def ls_get_def run_defs forget_def
      forget_ent_def split: option.splits)

lemma sim_case:
  "simulates f g \<Longrightarrow> (\<And>n. simulates (f' n) (g' n)) \<Longrightarrow>
   simulates (case p of None \<Rightarrow> f | Some n \<Rightarrow> f' n) (case p of None \<Rightarrow> g | Some n \<Rightarrow> g' n)"
  by (simp split: option.split)

lemma sim_if: "simulates f g \<Longrightarrow> simulates f' g' \<Longrightarrow> simulates (if b then f else f') (if b then g else g')"
  by simp

lemmas sim_intros = sim_bind sim_seq sim_access sim_set sim_abort sim_return sim_load sim_case sim_if

lemma sim_check_insert_head:
  "simulates (QUEUEDEBUG_LIST_INSERT_HEAD h e) (QUEUEDEBUG_TAILQ_INSERT_HEAD h e)"
  unfolding QUEUEDEBUG_LIST_INSERT_HEAD_def QUEUEDEBUG_TAILQ_INSERT_HEAD_def
  by (intro sim_intros sim_get, unfold forget_ent_sel, intro sim_intros)

lemma sim_check_op: "simulates (QUEUEDEBUG_LIST_OP e) (QUEUEDEBUG_TAILQ_OP e)"
  unfolding QUEUEDEBUG_LIST_OP_def QUEUEDEBUG_TAILQ_OP_def
  by (rule sim_get, unfold forget_ent_sel, intro sim_intros sim_get, unfold forget_ent_sel, intro sim_intros)

lemma sim_postremove: "simulates (QUEUEDEBUG_LIST_POSTREMOVE one e) (QUEUEDEBUG_TAILQ_POSTREMOVE one e)"
  unfolding QUEUEDEBUG_LIST_POSTREMOVE_def QUEUEDEBUG_TAILQ_POSTREMOVE_def by (intro sim_intros)

end
