(* ===== verification/SlistQueue.thy ===== *)
theory SlistQueue
  imports QueueContract
begin

text \<open>
  The singly-linked list of \<open>libOpenXPC/compat_queue.h\<close>: the \<open>SLIST\<close> macros.  A head holds the
  pointer to the first element, an entry the pointer to the next; nothing points back.  Memory maps
  the heads and entries that exist, and every macro is translated assignment by assignment.  The
  second half shows which list operations the macros implement.
\<close>

section \<open>Heads and entries\<close>

record 'e sl_head =
  slh_first :: "'e option"

record 'e sl_entry =
  sle_next :: "'e option"

record ('h, 'e) sl_mem =
  sl_heads :: "'h \<Rightarrow> 'e sl_head option"
  sl_ents :: "'e \<Rightarrow> 'e sl_entry option"

definition sl_set_first :: "'h \<Rightarrow> 'e option \<Rightarrow> (('h, 'e) sl_mem, unit) op" where
  "sl_set_first h p = seq_m (the_m BadHead (\<lambda>s. sl_heads s h))
     (modify_m (\<lambda>s. s\<lparr>sl_heads := (sl_heads s)(h \<mapsto> \<lparr>slh_first = p\<rparr>)\<rparr>))"

definition sl_set_next :: "'e \<Rightarrow> 'e option \<Rightarrow> (('h, 'e) sl_mem, unit) op" where
  "sl_set_next e p = seq_m (the_m BadPointer (\<lambda>s. sl_ents s e))
     (modify_m (\<lambda>s. s\<lparr>sl_ents := (sl_ents s)(e \<mapsto> \<lparr>sle_next = p\<rparr>)\<rparr>))"

section \<open>The macros\<close>

definition SLIST_FIRST :: "'h \<Rightarrow> (('h, 'e) sl_mem, 'e option) op" where
  "SLIST_FIRST h = bind_m (the_m BadHead (\<lambda>s. sl_heads s h)) (\<lambda>hh. return_m (slh_first hh))"

definition SLIST_NEXT :: "'e \<Rightarrow> (('h, 'e) sl_mem, 'e option) op" where
  "SLIST_NEXT e = bind_m (the_m BadPointer (\<lambda>s. sl_ents s e)) (\<lambda>en. return_m (sle_next en))"

definition SLIST_EMPTY :: "'h \<Rightarrow> (('h, 'e) sl_mem, bool) op" where
  "SLIST_EMPTY h = bind_m (SLIST_FIRST h) (\<lambda>p. return_m (p = None))"

definition SLIST_FOREACH ::
  "nat \<Rightarrow> ('s \<Rightarrow> ('h, 'e) sl_mem) \<Rightarrow> 'h \<Rightarrow> ('e \<Rightarrow> ('s, bool) op) \<Rightarrow> ('s, bool) op" where
  "SLIST_FOREACH fuel get h body =
     bind_m (zoom_m get (\<lambda>_ s. s) (SLIST_FIRST h))
       (links_loop fuel (\<lambda>e. zoom_m get (\<lambda>_ s. s) (SLIST_NEXT e)) body)"

definition SLIST_FOREACH_SAFE ::
  "nat \<Rightarrow> ('s \<Rightarrow> ('h, 'e) sl_mem) \<Rightarrow> 'h \<Rightarrow> ('e \<Rightarrow> ('s, bool) op) \<Rightarrow> ('s, bool) op" where
  "SLIST_FOREACH_SAFE fuel get h body =
     bind_m (zoom_m get (\<lambda>_ s. s) (SLIST_FIRST h))
       (links_loop_safe fuel (\<lambda>e. zoom_m get (\<lambda>_ s. s) (SLIST_NEXT e)) body)"

text \<open>\<open>SLIST_INIT\<close> writes a head, whatever it held before.\<close>

definition SLIST_INIT :: "'h \<Rightarrow> (('h, 'e) sl_mem, unit) op" where
  "SLIST_INIT h = modify_m (\<lambda>s. s\<lparr>sl_heads := (sl_heads s)(h \<mapsto> \<lparr>slh_first = None\<rparr>)\<rparr>)"

definition SLIST_INSERT_AFTER :: "'e \<Rightarrow> 'e \<Rightarrow> (('h, 'e) sl_mem, unit) op" where
  "SLIST_INSERT_AFTER slistelm elm =
     bind_m (SLIST_NEXT slistelm) (\<lambda>n.
     seq_m (sl_set_next elm n)
     (sl_set_next slistelm (Some elm)))"

definition SLIST_INSERT_HEAD :: "'h \<Rightarrow> 'e \<Rightarrow> (('h, 'e) sl_mem, unit) op" where
  "SLIST_INSERT_HEAD h elm =
     bind_m (SLIST_FIRST h) (\<lambda>f.
     seq_m (sl_set_next elm f)
     (sl_set_first h (Some elm)))"

definition SLIST_REMOVE_AFTER :: "'e \<Rightarrow> (('h, 'e) sl_mem, unit) op" where
  "SLIST_REMOVE_AFTER slistelm =
     bind_m (SLIST_NEXT slistelm) (\<lambda>n.
     bind_m (deref_m n SLIST_NEXT) (\<lambda>nn.
     sl_set_next slistelm nn))"

definition SLIST_REMOVE_HEAD :: "'h \<Rightarrow> (('h, 'e) sl_mem, unit) op" where
  "SLIST_REMOVE_HEAD h =
     bind_m (SLIST_FIRST h) (\<lambda>f.
     bind_m (deref_m f SLIST_NEXT) (\<lambda>n.
     sl_set_first h n))"

text \<open>The \<open>while\<close> loop of \<open>SLIST_REMOVE\<close>: from \<open>curelm\<close> on, the element before \<open>elm\<close>.\<close>

fun slist_before :: "nat \<Rightarrow> 'e \<Rightarrow> 'e option \<Rightarrow> (('h, 'e) sl_mem, 'e) op" where
  "slist_before fuel elm None = fail_m NullDeref"
| "slist_before 0 elm (Some curelm) = fail_m Diverges"
| "slist_before (Suc fuel) elm (Some curelm) =
     bind_m (SLIST_NEXT curelm) (\<lambda>n.
     if n \<noteq> Some elm then slist_before fuel elm n else return_m curelm)"

definition SLIST_REMOVE :: "nat \<Rightarrow> 'h \<Rightarrow> 'e \<Rightarrow> (('h, 'e) sl_mem, unit) op" where
  "SLIST_REMOVE fuel h elm =
     bind_m (SLIST_FIRST h) (\<lambda>f.
     if f = Some elm then SLIST_REMOVE_HEAD h
     else
       bind_m (slist_before fuel elm f) (\<lambda>curelm.
       bind_m (SLIST_NEXT curelm) (\<lambda>n.
       bind_m (deref_m n SLIST_NEXT) (\<lambda>nn.
       sl_set_next curelm nn))))"

section \<open>Lists\<close>

definition sl_nexts :: "('h, 'e) sl_mem \<Rightarrow> 'e \<Rightarrow> 'e option option" where
  "sl_nexts s e = map_option sle_next (sl_ents s e)"

definition sl_rep :: "('h, 'e) sl_mem \<Rightarrow> 'h \<Rightarrow> 'e list \<Rightarrow> bool" where
  "sl_rep s h xs \<longleftrightarrow> distinct xs \<and>
     (\<exists>hh. sl_heads s h = Some hh \<and> seg (sl_nexts s) (slh_first hh) xs None)"

definition sl_cell :: "('h, 'e) sl_mem \<Rightarrow> 'e \<Rightarrow> bool" where
  "sl_cell s e \<longleftrightarrow> sl_ents s e \<noteq> None"

text \<open>\<open>sl_same s s' H E\<close>: from \<open>s\<close> to \<open>s'\<close> only heads in \<open>H\<close> and entries in \<open>E\<close> were written.\<close>

definition sl_same :: "('h, 'e) sl_mem \<Rightarrow> ('h, 'e) sl_mem \<Rightarrow> 'h set \<Rightarrow> 'e set \<Rightarrow> bool" where
  "sl_same s s' H E \<longleftrightarrow> (\<forall>h. h \<notin> H \<longrightarrow> sl_heads s' h = sl_heads s h) \<and>
     (\<forall>e. e \<notin> E \<longrightarrow> sl_ents s' e = sl_ents s e) \<and> sl_cell s' = sl_cell s"

lemma sl_rep_distinct: "sl_rep s h xs \<Longrightarrow> distinct xs"
  by (simp add: sl_rep_def)

lemma sl_rep_frame:
  "sl_rep s h xs \<Longrightarrow> sl_same s s' H E \<Longrightarrow> h \<notin> H \<Longrightarrow> set xs \<inter> E = {} \<Longrightarrow> sl_rep s' h xs"
  using seg_cong [of xs "sl_nexts s'" "sl_nexts s"] by (fastforce simp: sl_rep_def sl_same_def sl_nexts_def)

lemma sl_runs:
  "sl_heads s h = Some hh \<Longrightarrow> SLIST_FIRST h s = Inr (slh_first hh, s)"
  "sl_heads s h = Some hh \<Longrightarrow> sl_set_first h p s = Inr ((), s\<lparr>sl_heads := (sl_heads s)(h \<mapsto> \<lparr>slh_first = p\<rparr>)\<rparr>)"
  "sl_nexts s e = Some n \<Longrightarrow> SLIST_NEXT e s = Inr (n, s)"
  "sl_nexts s e = Some n \<Longrightarrow> sl_set_next e p s = Inr ((), s\<lparr>sl_ents := (sl_ents s)(e \<mapsto> \<lparr>sle_next = p\<rparr>)\<rparr>)"
  by (auto simp: SLIST_FIRST_def SLIST_NEXT_def sl_set_first_def sl_set_next_def sl_nexts_def run_defs)

lemma sl_nexts_upd [simp]:
  "sl_nexts (s\<lparr>sl_heads := hs\<rparr>) = sl_nexts s"
  "sl_nexts (s\<lparr>sl_ents := (sl_ents s)(e \<mapsto> \<lparr>sle_next = p\<rparr>)\<rparr>) = (sl_nexts s)(e := Some p)"
  by (auto simp: sl_nexts_def fun_eq_iff)

lemma sl_cell_nexts: "sl_cell s e \<longleftrightarrow> (\<exists>n. sl_nexts s e = Some n)"
  by (auto simp: sl_cell_def sl_nexts_def)

lemma sl_same_upd:
  assumes "sl_cell s e"
  shows "sl_same s (s\<lparr>sl_ents := (sl_ents s)(e \<mapsto> en)\<rparr>) {} {e}"
  using assms by (auto simp: sl_same_def sl_cell_def fun_eq_iff)

text \<open>What each macro does to the list.\<close>

lemma slist_init_rep: "\<exists>s'. SLIST_INIT h s = Inr ((), s') \<and> sl_rep s' h [] \<and> sl_same s s' {h} {}"
  by (simp add: SLIST_INIT_def modify_m_def sl_rep_def sl_same_def sl_cell_def [abs_def])

lemma slist_insert_head_rep:
  assumes "sl_rep s h xs" and "sl_cell s e" and "e \<notin> set xs"
  shows "\<exists>s'. SLIST_INSERT_HEAD h e s = Inr ((), s') \<and> sl_rep s' h (e # xs) \<and> sl_same s s' {h} {e}"
proof -
  from assms obtain hh n where hh: "sl_heads s h = Some hh" "seg (sl_nexts s) (slh_first hh) xs None"
    and e: "sl_nexts s e = Some n" by (auto simp: sl_rep_def sl_cell_nexts)
  let ?s = "s\<lparr>sl_ents := (sl_ents s)(e \<mapsto> \<lparr>sle_next = slh_first hh\<rparr>),
    sl_heads := (sl_heads s)(h \<mapsto> \<lparr>slh_first = Some e\<rparr>)\<rparr>"
  have "SLIST_INSERT_HEAD h e s = Inr ((), ?s)"
    using hh e by (simp add: SLIST_INSERT_HEAD_def bind_m_Inr seq_m_Inr sl_runs)
  moreover have "sl_rep ?s h (e # xs)" using hh assms(1,3) by (simp add: sl_rep_def)
  moreover have "sl_same s ?s {h} {e}" using assms(2) by (auto simp: sl_same_def sl_cell_def fun_eq_iff)
  ultimately show ?thesis by blast
qed

lemma slist_remove_head_rep:
  assumes "sl_rep s h (x # xs)"
  shows "\<exists>s'. SLIST_REMOVE_HEAD h s = Inr ((), s') \<and> sl_rep s' h xs \<and> sl_same s s' {h} {}"
proof -
  from assms obtain hh n where hh: "sl_heads s h = Some hh" "slh_first hh = Some x"
    "sl_nexts s x = Some n" "seg (sl_nexts s) n xs None" by (auto simp: sl_rep_def)
  then show ?thesis using assms
    by (auto simp: SLIST_REMOVE_HEAD_def bind_m_Inr sl_runs sl_rep_def sl_same_def sl_cell_def fun_eq_iff)
qed

text \<open>Inserting after an element and removing after it redirect that element's pointer.\<close>

lemma sl_rep_split:
  "sl_rep s h (as @ x # bs) \<longleftrightarrow> distinct (as @ x # bs) \<and> (\<exists>hh n. sl_heads s h = Some hh \<and>
     seg (sl_nexts s) (slh_first hh) as (Some x) \<and> sl_nexts s x = Some n \<and> seg (sl_nexts s) n bs None)"
  by (auto simp: sl_rep_def seg_append)

lemma slist_insert_after_rep:
  assumes "sl_rep s h (as @ x # bs)" and "sl_cell s e" and "e \<notin> set (as @ x # bs)"
  shows "\<exists>s'. SLIST_INSERT_AFTER x e s = Inr ((), s') \<and> sl_rep s' h (as @ x # e # bs) \<and>
    sl_same s s' {} {x, e}"
proof -
  from assms obtain hh n ne where hh: "sl_heads s h = Some hh"
    and segs: "seg (sl_nexts s) (slh_first hh) as (Some x)" "sl_nexts s x = Some n" "seg (sl_nexts s) n bs None"
    and e: "sl_nexts s e = Some ne" by (auto simp: sl_rep_split sl_cell_nexts)
  let ?s = "s\<lparr>sl_ents := (sl_ents s)(e \<mapsto> \<lparr>sle_next = n\<rparr>, x \<mapsto> \<lparr>sle_next = Some e\<rparr>)\<rparr>"
  have nx: "sl_nexts ?s = (sl_nexts s)(e := Some n, x := Some (Some e))"
    by (auto simp: sl_nexts_def fun_eq_iff)
  have "SLIST_INSERT_AFTER x e s = Inr ((), ?s)"
    using segs e assms(3) by (simp add: SLIST_INSERT_AFTER_def bind_m_Inr seq_m_Inr sl_runs)
  moreover have "sl_rep ?s h (as @ x # e # bs)"
    unfolding sl_rep_split nx using hh segs assms by (auto simp: sl_rep_def)
  moreover have "sl_same s ?s {} {x, e}"
    using assms(2) segs(2) by (auto simp: sl_same_def sl_cell_def fun_eq_iff sl_nexts_def)
  ultimately show ?thesis by blast
qed

lemma slist_remove_after_rep:
  assumes "sl_rep s h (as @ x # y # bs)"
  shows "\<exists>s'. SLIST_REMOVE_AFTER x s = Inr ((), s') \<and> sl_rep s' h (as @ x # bs) \<and> sl_same s s' {} {x}"
proof -
  from assms obtain hh n where hh: "sl_heads s h = Some hh"
    and segs: "seg (sl_nexts s) (slh_first hh) as (Some x)" "sl_nexts s x = Some (Some y)"
      "sl_nexts s y = Some n" "seg (sl_nexts s) n bs None" by (auto simp: sl_rep_split)
  let ?s = "s\<lparr>sl_ents := (sl_ents s)(x \<mapsto> \<lparr>sle_next = n\<rparr>)\<rparr>"
  have "SLIST_REMOVE_AFTER x s = Inr ((), ?s)"
    using segs by (simp add: SLIST_REMOVE_AFTER_def bind_m_Inr sl_runs)
  moreover have "sl_rep ?s h (as @ x # bs)"
    unfolding sl_rep_split using hh segs assms by (auto simp: sl_rep_def)
  moreover have "sl_same s ?s {} {x}"
    using segs(2) by (intro sl_same_upd) (simp add: sl_cell_nexts)
  ultimately show ?thesis by blast
qed

text \<open>The search ends at the element before the one looked for, or at the end of the list.\<close>

lemma slist_before_found:
  "seg (sl_nexts s) f (as @ [x]) (Some e) \<Longrightarrow> e \<notin> set (as @ [x]) \<Longrightarrow> length as < fuel \<Longrightarrow>
   slist_before fuel e f s = Inr (x, s)"
proof (induction as arbitrary: f fuel)
  case Nil
  then show ?case by (cases fuel) (auto simp: bind_m_Inr sl_runs return_m_def)
next
  case (Cons a as)
  from Cons.prems obtain n where n: "f = Some a" "sl_nexts s a = Some n" "seg (sl_nexts s) n (as @ [x]) (Some e)"
    by auto
  moreover have "n \<noteq> Some e" using n(3) Cons.prems(2) by (cases as) auto
  moreover obtain k where "fuel = Suc k" "length as < k" using Cons.prems(3) by (cases fuel) auto
  ultimately show ?case using Cons.IH [of n k] Cons.prems(2) by (simp add: bind_m_Inr sl_runs)
qed

lemma slist_before_missing:
  "seg (sl_nexts s) f xs None \<Longrightarrow> e \<notin> set xs \<Longrightarrow> length xs \<le> fuel \<Longrightarrow>
   slist_before fuel e f s = Inl NullDeref"
proof (induction xs arbitrary: f fuel)
  case Nil
  then show ?case by (simp add: fail_m_def)
next
  case (Cons a xs)
  from Cons.prems obtain n where n: "f = Some a" "sl_nexts s a = Some n" "seg (sl_nexts s) n xs None" by auto
  moreover have "n \<noteq> Some e" using n(3) Cons.prems(2) by (cases xs) auto
  moreover obtain k where "fuel = Suc k" "length xs \<le> k" using Cons.prems(3) by (cases fuel) auto
  ultimately show ?case using Cons.IH [of n k] Cons.prems(2) by (simp add: bind_m_Inr sl_runs)
qed

lemma slist_remove_rep:
  assumes "sl_rep s h (as @ e # bs)" and "length as \<le> fuel"
  shows "\<exists>s'. SLIST_REMOVE fuel h e s = Inr ((), s') \<and> sl_rep s' h (as @ bs) \<and> sl_same s s' {h} (set as)"
proof (cases as rule: rev_cases)
  case Nil
  with assms(1) obtain hh where "sl_heads s h = Some hh" "slh_first hh = Some e" by (auto simp: sl_rep_def)
  then have "SLIST_REMOVE fuel h e s = SLIST_REMOVE_HEAD h s"
    by (simp add: SLIST_REMOVE_def bind_m_Inr sl_runs)
  with slist_remove_head_rep [of s h e bs] assms(1) Nil show ?thesis by simp
next
  case (snoc cs x)
  with assms(1) have rep: "sl_rep s h (cs @ x # e # bs)" by simp
  then obtain hh where hh: "sl_heads s h = Some hh" and sg: "seg (sl_nexts s) (slh_first hh) (cs @ [x]) (Some e)"
    and d: "e \<notin> set (cs @ [x])" by (auto simp: sl_rep_def seg_append)
  have "slist_before fuel e (slh_first hh) s = Inr (x, s)"
    using slist_before_found [OF sg d] assms(2) snoc by simp
  moreover have "slh_first hh \<noteq> Some e" using seg_first [OF sg] d by (cases cs) auto
  ultimately have "SLIST_REMOVE fuel h e s = SLIST_REMOVE_AFTER x s"
    using hh by (simp add: SLIST_REMOVE_def SLIST_REMOVE_AFTER_def bind_m_Inr sl_runs)
  moreover obtain s' where "SLIST_REMOVE_AFTER x s = Inr ((), s')" "sl_rep s' h (cs @ x # bs)" "sl_same s s' {} {x}"
    using slist_remove_after_rep [OF rep] by blast
  ultimately show ?thesis using snoc by (auto simp: sl_same_def)
qed

lemma slist_foreach_rep:
  assumes "sl_rep (get s) h xs" and "length xs \<le> fuel"
    and "\<And>x y s s'. x \<in> set xs \<Longrightarrow> y \<in> set xs \<Longrightarrow> body x s = Inr (True, s') \<Longrightarrow>
       sl_nexts (get s') y = sl_nexts (get s) y"
  shows "SLIST_FOREACH fuel get h body s = for_each body xs s"
proof -
  from assms(1) obtain hh where hh: "sl_heads (get s) h = Some hh" "fchain (sl_nexts (get s)) (slh_first hh) xs"
    by (auto simp: sl_rep_def fchain_seg)
  have "links_loop fuel (\<lambda>e. zoom_m get (\<lambda>_ s. s) (SLIST_NEXT e)) body (slh_first hh) s = for_each body xs s"
    by (rule links_loop_chain [where N = "\<lambda>s. sl_nexts (get s)"])
      (use hh(2) assms(2,3) in \<open>auto simp: zoom_m_def sl_runs\<close>)
  with hh(1) show ?thesis by (simp add: SLIST_FOREACH_def bind_m_Inr zoom_m_def sl_runs)
qed

lemma slist_foreach_safe_rep:
  assumes "sl_rep (get s) h xs" and "length xs \<le> fuel"
    and "\<And>x y s s'. x \<in> set xs \<Longrightarrow> y \<in> set xs \<Longrightarrow> x \<noteq> y \<Longrightarrow> body x s = Inr (True, s') \<Longrightarrow>
       sl_nexts (get s') y = sl_nexts (get s) y"
  shows "SLIST_FOREACH_SAFE fuel get h body s = for_each body xs s"
proof -
  from assms(1) obtain hh where hh: "sl_heads (get s) h = Some hh" "fchain (sl_nexts (get s)) (slh_first hh) xs"
    by (auto simp: sl_rep_def fchain_seg)
  have "links_loop_safe fuel (\<lambda>e. zoom_m get (\<lambda>_ s. s) (SLIST_NEXT e)) body (slh_first hh) s = for_each body xs s"
    by (rule links_loop_safe_chain [where N = "\<lambda>s. sl_nexts (get s)"])
      (use hh(2) assms(2,3) sl_rep_distinct [OF assms(1)] in \<open>auto simp: zoom_m_def sl_runs\<close>)
  with hh(1) show ?thesis by (simp add: SLIST_FOREACH_SAFE_def bind_m_Inr zoom_m_def sl_runs)
qed

interpretation slist: lifo_stack sl_rep sl_cell SLIST_INSERT_HEAD SLIST_REMOVE_HEAD
proof unfold_locales
  fix s :: "('h, 'e) sl_mem" and h xs and e :: 'e
  assume "sl_rep s h xs" and "sl_cell s e" and "e \<notin> set xs"
  from slist_insert_head_rep [OF this] show "\<exists>s'. SLIST_INSERT_HEAD h e s = Inr ((), s') \<and>
      sl_rep s' h (e # xs) \<and> sl_cell s' = sl_cell s" by (auto simp: sl_same_def)
next
  fix s :: "('h, 'e) sl_mem" and h x xs
  assume "sl_rep s h (x # xs)"
  from slist_remove_head_rep [OF this] show "\<exists>s'. SLIST_REMOVE_HEAD h s = Inr ((), s') \<and>
      sl_rep s' h xs \<and> sl_cell s' = sl_cell s" by (auto simp: sl_same_def)
qed

text \<open>The static initialiser is the empty stack.\<close>

definition SLIST_HEAD_INITIALIZER :: "'e sl_head" where
  "SLIST_HEAD_INITIALIZER = \<lparr>slh_first = None\<rparr>"

lemma slist_initializer_rep: "sl_heads s h = Some SLIST_HEAD_INITIALIZER \<Longrightarrow> sl_rep s h []"
  by (simp add: SLIST_HEAD_INITIALIZER_def sl_rep_def)

end
