(* ===== verification/SimpleQueue.thy ===== *)
theory SimpleQueue
  imports TailQueueRep
begin

text \<open>
  The simple queue and the singly-linked tail queue of \<open>libOpenXPC/compat_queue.h\<close>: the
  \<open>SIMPLEQ\<close> and \<open>STAILQ\<close> macros.  A head holds the pointer to the first element and the address of
  the cell that ends the list, the head's own or that of the last entry; an entry holds the pointer
  to the next.  The fields \<open>stqh_first\<close>, \<open>stqh_last\<close> and \<open>stqe_next\<close> of the second family are laid
  out as \<open>sqh_first\<close>, \<open>sqh_last\<close> and \<open>sqe_next\<close> of the first, and the macros of both work on the
  same memory here; each is translated from its own text.
\<close>

section \<open>Heads and entries\<close>

record ('h, 'e) sq_head =
  sqh_first :: "'e option"
  sqh_last :: "('h, 'e) tq_loc"

record 'e sq_entry =
  sqe_next :: "'e option"

record ('h, 'e) sq_mem =
  sq_heads :: "'h \<Rightarrow> ('h, 'e) sq_head option"
  sq_ents :: "'e \<Rightarrow> 'e sq_entry option"

definition sq_get_head :: "'h \<Rightarrow> (('h, 'e) sq_mem, ('h, 'e) sq_head) op" where
  "sq_get_head h = the_m BadHead (\<lambda>s. sq_heads s h)"

definition sq_set_first :: "'h \<Rightarrow> 'e option \<Rightarrow> (('h, 'e) sq_mem, unit) op" where
  "sq_set_first h p = bind_m (sq_get_head h) (\<lambda>hh.
     modify_m (\<lambda>s. s\<lparr>sq_heads := (sq_heads s)(h \<mapsto> hh\<lparr>sqh_first := p\<rparr>)\<rparr>))"

definition sq_set_last :: "'h \<Rightarrow> ('h, 'e) tq_loc \<Rightarrow> (('h, 'e) sq_mem, unit) op" where
  "sq_set_last h l = bind_m (sq_get_head h) (\<lambda>hh.
     modify_m (\<lambda>s. s\<lparr>sq_heads := (sq_heads s)(h \<mapsto> hh\<lparr>sqh_last := l\<rparr>)\<rparr>))"

definition sq_set_next :: "'e \<Rightarrow> 'e option \<Rightarrow> (('h, 'e) sq_mem, unit) op" where
  "sq_set_next e p = seq_m (the_m BadPointer (\<lambda>s. sq_ents s e))
     (modify_m (\<lambda>s. s\<lparr>sq_ents := (sq_ents s)(e \<mapsto> \<lparr>sqe_next = p\<rparr>)\<rparr>))"

text \<open>\<open>*l = p\<close> for the address \<open>l\<close> of a cell.\<close>

fun sq_store :: "('h, 'e) tq_loc \<Rightarrow> 'e option \<Rightarrow> (('h, 'e) sq_mem, unit) op" where
  "sq_store (HeadFirst h) p = sq_set_first h p"
| "sq_store (ElemNext e) p = sq_set_next e p"

section \<open>The macros of the simple queue\<close>

text \<open>
  \<open>LAST\<close> subtracts the offset of the entry from the address of the cell that ends the list, which
  gives the element when the cell is the next pointer of an entry.  For the head's own cell it gives
  an address before the head, which is no element.
\<close>

fun entry_of :: "('h, 'e) tq_loc \<Rightarrow> (('h, 'e) sq_mem, 'e option) op" where
  "entry_of (ElemNext e) = return_m (Some e)"
| "entry_of (HeadFirst h) = fail_m BadPointer"

definition SIMPLEQ_FIRST :: "'h \<Rightarrow> (('h, 'e) sq_mem, 'e option) op" where
  "SIMPLEQ_FIRST h = bind_m (sq_get_head h) (\<lambda>hh. return_m (sqh_first hh))"

definition SIMPLEQ_NEXT :: "'e \<Rightarrow> (('h, 'e) sq_mem, 'e option) op" where
  "SIMPLEQ_NEXT e = bind_m (the_m BadPointer (\<lambda>s. sq_ents s e)) (\<lambda>en. return_m (sqe_next en))"

definition SIMPLEQ_EMPTY :: "'h \<Rightarrow> (('h, 'e) sq_mem, bool) op" where
  "SIMPLEQ_EMPTY h = bind_m (SIMPLEQ_FIRST h) (\<lambda>p. return_m (p = None))"

definition SIMPLEQ_FOREACH ::
  "nat \<Rightarrow> ('s \<Rightarrow> ('h, 'e) sq_mem) \<Rightarrow> 'h \<Rightarrow> ('e \<Rightarrow> ('s, bool) op) \<Rightarrow> ('s, bool) op" where
  "SIMPLEQ_FOREACH fuel get h body =
     bind_m (zoom_m get (\<lambda>_ s. s) (SIMPLEQ_FIRST h))
       (links_loop fuel (\<lambda>e. zoom_m get (\<lambda>_ s. s) (SIMPLEQ_NEXT e)) body)"

definition SIMPLEQ_FOREACH_SAFE ::
  "nat \<Rightarrow> ('s \<Rightarrow> ('h, 'e) sq_mem) \<Rightarrow> 'h \<Rightarrow> ('e \<Rightarrow> ('s, bool) op) \<Rightarrow> ('s, bool) op" where
  "SIMPLEQ_FOREACH_SAFE fuel get h body =
     bind_m (zoom_m get (\<lambda>_ s. s) (SIMPLEQ_FIRST h))
       (links_loop_safe fuel (\<lambda>e. zoom_m get (\<lambda>_ s. s) (SIMPLEQ_NEXT e)) body)"

definition SIMPLEQ_INIT :: "'h \<Rightarrow> (('h, 'e) sq_mem, unit) op" where
  "SIMPLEQ_INIT h = modify_m (\<lambda>s. s\<lparr>sq_heads := (sq_heads s)(h \<mapsto>
     \<lparr>sqh_first = None, sqh_last = HeadFirst h\<rparr>)\<rparr>)"

definition SIMPLEQ_INSERT_HEAD :: "'h \<Rightarrow> 'e \<Rightarrow> (('h, 'e) sq_mem, unit) op" where
  "SIMPLEQ_INSERT_HEAD h elm =
     bind_m (SIMPLEQ_FIRST h) (\<lambda>f.
     seq_m (sq_set_next elm f)
     (seq_m (if f = None then sq_set_last h (ElemNext elm) else return_m ())
     (sq_set_first h (Some elm))))"

definition SIMPLEQ_INSERT_TAIL :: "'h \<Rightarrow> 'e \<Rightarrow> (('h, 'e) sq_mem, unit) op" where
  "SIMPLEQ_INSERT_TAIL h elm =
     seq_m (sq_set_next elm None)
     (bind_m (sq_get_head h) (\<lambda>hh.
     seq_m (sq_store (sqh_last hh) (Some elm))
     (sq_set_last h (ElemNext elm))))"

definition SIMPLEQ_INSERT_AFTER :: "'h \<Rightarrow> 'e \<Rightarrow> 'e \<Rightarrow> (('h, 'e) sq_mem, unit) op" where
  "SIMPLEQ_INSERT_AFTER h listelm elm =
     bind_m (SIMPLEQ_NEXT listelm) (\<lambda>n.
     seq_m (sq_set_next elm n)
     (seq_m (if n = None then sq_set_last h (ElemNext elm) else return_m ())
     (sq_set_next listelm (Some elm))))"

definition SIMPLEQ_REMOVE_HEAD :: "'h \<Rightarrow> (('h, 'e) sq_mem, unit) op" where
  "SIMPLEQ_REMOVE_HEAD h =
     bind_m (SIMPLEQ_FIRST h) (\<lambda>f.
     bind_m (deref_m f SIMPLEQ_NEXT) (\<lambda>n.
     seq_m (sq_set_first h n)
     (if n = None then sq_set_last h (HeadFirst h) else return_m ())))"

definition SIMPLEQ_REMOVE_AFTER :: "'h \<Rightarrow> 'e \<Rightarrow> (('h, 'e) sq_mem, unit) op" where
  "SIMPLEQ_REMOVE_AFTER h elm =
     bind_m (SIMPLEQ_NEXT elm) (\<lambda>n.
     bind_m (deref_m n SIMPLEQ_NEXT) (\<lambda>nn.
     seq_m (sq_set_next elm nn)
     (if nn = None then sq_set_last h (ElemNext elm) else return_m ())))"

text \<open>The \<open>while\<close> loop of \<open>SIMPLEQ_REMOVE\<close>: from \<open>curelm\<close> on, the element before \<open>elm\<close>.\<close>

fun simpleq_before :: "nat \<Rightarrow> 'e \<Rightarrow> 'e option \<Rightarrow> (('h, 'e) sq_mem, 'e) op" where
  "simpleq_before fuel elm None = fail_m NullDeref"
| "simpleq_before 0 elm (Some curelm) = fail_m Diverges"
| "simpleq_before (Suc fuel) elm (Some curelm) =
     bind_m (SIMPLEQ_NEXT curelm) (\<lambda>n.
     if n \<noteq> Some elm then simpleq_before fuel elm n else return_m curelm)"

definition SIMPLEQ_REMOVE :: "nat \<Rightarrow> 'h \<Rightarrow> 'e \<Rightarrow> (('h, 'e) sq_mem, unit) op" where
  "SIMPLEQ_REMOVE fuel h elm =
     bind_m (SIMPLEQ_FIRST h) (\<lambda>f.
     if f = Some elm then SIMPLEQ_REMOVE_HEAD h
     else
       bind_m (simpleq_before fuel elm f) (\<lambda>curelm.
       bind_m (SIMPLEQ_NEXT curelm) (\<lambda>n.
       bind_m (deref_m n SIMPLEQ_NEXT) (\<lambda>nn.
       seq_m (sq_set_next curelm nn)
       (if nn = None then sq_set_last h (ElemNext curelm) else return_m ())))))"

definition SIMPLEQ_CONCAT :: "'h \<Rightarrow> 'h \<Rightarrow> (('h, 'e) sq_mem, unit) op" where
  "SIMPLEQ_CONCAT h1 h2 =
     bind_m (SIMPLEQ_EMPTY h2) (\<lambda>empty.
     if \<not> empty then
       bind_m (SIMPLEQ_FIRST h2) (\<lambda>f.
       bind_m (sq_get_head h1) (\<lambda>hh1.
       seq_m (sq_store (sqh_last hh1) f)
       (bind_m (sq_get_head h2) (\<lambda>hh2.
       seq_m (sq_set_last h1 (sqh_last hh2))
       (SIMPLEQ_INIT h2)))))
     else return_m ())"

definition SIMPLEQ_LAST :: "'h \<Rightarrow> (('h, 'e) sq_mem, 'e option) op" where
  "SIMPLEQ_LAST h =
     bind_m (SIMPLEQ_EMPTY h) (\<lambda>empty.
     if empty then return_m None
     else bind_m (sq_get_head h) (\<lambda>hh. entry_of (sqh_last hh)))"

section \<open>The macros of the singly-linked tail queue\<close>

definition STAILQ_FIRST :: "'h \<Rightarrow> (('h, 'e) sq_mem, 'e option) op" where
  "STAILQ_FIRST h = bind_m (sq_get_head h) (\<lambda>hh. return_m (sqh_first hh))"

definition STAILQ_NEXT :: "'e \<Rightarrow> (('h, 'e) sq_mem, 'e option) op" where
  "STAILQ_NEXT e = bind_m (the_m BadPointer (\<lambda>s. sq_ents s e)) (\<lambda>en. return_m (sqe_next en))"

definition STAILQ_EMPTY :: "'h \<Rightarrow> (('h, 'e) sq_mem, bool) op" where
  "STAILQ_EMPTY h = bind_m (STAILQ_FIRST h) (\<lambda>p. return_m (p = None))"

definition STAILQ_FOREACH ::
  "nat \<Rightarrow> ('s \<Rightarrow> ('h, 'e) sq_mem) \<Rightarrow> 'h \<Rightarrow> ('e \<Rightarrow> ('s, bool) op) \<Rightarrow> ('s, bool) op" where
  "STAILQ_FOREACH fuel get h body =
     bind_m (zoom_m get (\<lambda>_ s. s) (STAILQ_FIRST h))
       (links_loop fuel (\<lambda>e. zoom_m get (\<lambda>_ s. s) (STAILQ_NEXT e)) body)"

definition STAILQ_FOREACH_SAFE ::
  "nat \<Rightarrow> ('s \<Rightarrow> ('h, 'e) sq_mem) \<Rightarrow> 'h \<Rightarrow> ('e \<Rightarrow> ('s, bool) op) \<Rightarrow> ('s, bool) op" where
  "STAILQ_FOREACH_SAFE fuel get h body =
     bind_m (zoom_m get (\<lambda>_ s. s) (STAILQ_FIRST h))
       (links_loop_safe fuel (\<lambda>e. zoom_m get (\<lambda>_ s. s) (STAILQ_NEXT e)) body)"

definition STAILQ_INIT :: "'h \<Rightarrow> (('h, 'e) sq_mem, unit) op" where
  "STAILQ_INIT h = modify_m (\<lambda>s. s\<lparr>sq_heads := (sq_heads s)(h \<mapsto>
     \<lparr>sqh_first = None, sqh_last = HeadFirst h\<rparr>)\<rparr>)"

definition STAILQ_INSERT_HEAD :: "'h \<Rightarrow> 'e \<Rightarrow> (('h, 'e) sq_mem, unit) op" where
  "STAILQ_INSERT_HEAD h elm =
     bind_m (STAILQ_FIRST h) (\<lambda>f.
     seq_m (sq_set_next elm f)
     (seq_m (if f = None then sq_set_last h (ElemNext elm) else return_m ())
     (sq_set_first h (Some elm))))"

definition STAILQ_INSERT_TAIL :: "'h \<Rightarrow> 'e \<Rightarrow> (('h, 'e) sq_mem, unit) op" where
  "STAILQ_INSERT_TAIL h elm =
     seq_m (sq_set_next elm None)
     (bind_m (sq_get_head h) (\<lambda>hh.
     seq_m (sq_store (sqh_last hh) (Some elm))
     (sq_set_last h (ElemNext elm))))"

definition STAILQ_INSERT_AFTER :: "'h \<Rightarrow> 'e \<Rightarrow> 'e \<Rightarrow> (('h, 'e) sq_mem, unit) op" where
  "STAILQ_INSERT_AFTER h listelm elm =
     bind_m (STAILQ_NEXT listelm) (\<lambda>n.
     seq_m (sq_set_next elm n)
     (seq_m (if n = None then sq_set_last h (ElemNext elm) else return_m ())
     (sq_set_next listelm (Some elm))))"

definition STAILQ_REMOVE_HEAD :: "'h \<Rightarrow> (('h, 'e) sq_mem, unit) op" where
  "STAILQ_REMOVE_HEAD h =
     bind_m (STAILQ_FIRST h) (\<lambda>f.
     bind_m (deref_m f STAILQ_NEXT) (\<lambda>n.
     seq_m (sq_set_first h n)
     (if n = None then sq_set_last h (HeadFirst h) else return_m ())))"

text \<open>The \<open>while\<close> loop of \<open>STAILQ_REMOVE\<close>: from \<open>curelm\<close> on, the element before \<open>elm\<close>.\<close>

fun stailq_before :: "nat \<Rightarrow> 'e \<Rightarrow> 'e option \<Rightarrow> (('h, 'e) sq_mem, 'e) op" where
  "stailq_before fuel elm None = fail_m NullDeref"
| "stailq_before 0 elm (Some curelm) = fail_m Diverges"
| "stailq_before (Suc fuel) elm (Some curelm) =
     bind_m (STAILQ_NEXT curelm) (\<lambda>n.
     if n \<noteq> Some elm then stailq_before fuel elm n else return_m curelm)"

definition STAILQ_REMOVE :: "nat \<Rightarrow> 'h \<Rightarrow> 'e \<Rightarrow> (('h, 'e) sq_mem, unit) op" where
  "STAILQ_REMOVE fuel h elm =
     bind_m (STAILQ_FIRST h) (\<lambda>f.
     if f = Some elm then STAILQ_REMOVE_HEAD h
     else
       bind_m (stailq_before fuel elm f) (\<lambda>curelm.
       bind_m (STAILQ_NEXT curelm) (\<lambda>n.
       bind_m (deref_m n STAILQ_NEXT) (\<lambda>nn.
       seq_m (sq_set_next curelm nn)
       (if nn = None then sq_set_last h (ElemNext curelm) else return_m ())))))"

definition STAILQ_CONCAT :: "'h \<Rightarrow> 'h \<Rightarrow> (('h, 'e) sq_mem, unit) op" where
  "STAILQ_CONCAT h1 h2 =
     bind_m (STAILQ_EMPTY h2) (\<lambda>empty.
     if \<not> empty then
       bind_m (STAILQ_FIRST h2) (\<lambda>f.
       bind_m (sq_get_head h1) (\<lambda>hh1.
       seq_m (sq_store (sqh_last hh1) f)
       (bind_m (sq_get_head h2) (\<lambda>hh2.
       seq_m (sq_set_last h1 (sqh_last hh2))
       (STAILQ_INIT h2)))))
     else return_m ())"

definition STAILQ_LAST :: "'h \<Rightarrow> (('h, 'e) sq_mem, 'e option) op" where
  "STAILQ_LAST h =
     bind_m (STAILQ_EMPTY h) (\<lambda>empty.
     if empty then return_m None
     else bind_m (sq_get_head h) (\<lambda>hh. entry_of (sqh_last hh)))"

text \<open>The two families are the same operations.\<close>

lemma stailq_access: "STAILQ_FIRST = SIMPLEQ_FIRST" "STAILQ_NEXT = SIMPLEQ_NEXT"
  by (simp_all add: fun_eq_iff STAILQ_FIRST_def SIMPLEQ_FIRST_def STAILQ_NEXT_def SIMPLEQ_NEXT_def)

lemma stailq_before: "stailq_before fuel elm f = simpleq_before fuel elm f"
  by (induction fuel elm f rule: stailq_before.induct)
    (simp_all add: stailq_access fun_eq_iff bind_m_def split: sum.splits)

lemma stailq_is_simpleq:
  "STAILQ_EMPTY = SIMPLEQ_EMPTY" "STAILQ_FOREACH = SIMPLEQ_FOREACH"
  "STAILQ_FOREACH_SAFE = SIMPLEQ_FOREACH_SAFE" "STAILQ_INIT = SIMPLEQ_INIT"
  "STAILQ_INSERT_HEAD = SIMPLEQ_INSERT_HEAD" "STAILQ_INSERT_TAIL = SIMPLEQ_INSERT_TAIL"
  "STAILQ_INSERT_AFTER = SIMPLEQ_INSERT_AFTER" "STAILQ_REMOVE_HEAD = SIMPLEQ_REMOVE_HEAD"
  "STAILQ_REMOVE = SIMPLEQ_REMOVE" "STAILQ_CONCAT = SIMPLEQ_CONCAT" "STAILQ_LAST = SIMPLEQ_LAST"
proof -
  show e: "STAILQ_EMPTY = SIMPLEQ_EMPTY" and "STAILQ_FOREACH = SIMPLEQ_FOREACH"
    and "STAILQ_FOREACH_SAFE = SIMPLEQ_FOREACH_SAFE" and i: "STAILQ_INIT = SIMPLEQ_INIT"
    and "STAILQ_INSERT_HEAD = SIMPLEQ_INSERT_HEAD" and "STAILQ_INSERT_TAIL = SIMPLEQ_INSERT_TAIL"
    and "STAILQ_INSERT_AFTER = SIMPLEQ_INSERT_AFTER" and r: "STAILQ_REMOVE_HEAD = SIMPLEQ_REMOVE_HEAD"
    by (simp_all add: fun_eq_iff stailq_access STAILQ_EMPTY_def SIMPLEQ_EMPTY_def STAILQ_FOREACH_def
        SIMPLEQ_FOREACH_def STAILQ_FOREACH_SAFE_def SIMPLEQ_FOREACH_SAFE_def STAILQ_INIT_def
        SIMPLEQ_INIT_def STAILQ_INSERT_HEAD_def SIMPLEQ_INSERT_HEAD_def STAILQ_INSERT_TAIL_def
        SIMPLEQ_INSERT_TAIL_def STAILQ_INSERT_AFTER_def SIMPLEQ_INSERT_AFTER_def
        STAILQ_REMOVE_HEAD_def SIMPLEQ_REMOVE_HEAD_def)
  show "STAILQ_REMOVE = SIMPLEQ_REMOVE" and "STAILQ_CONCAT = SIMPLEQ_CONCAT" and "STAILQ_LAST = SIMPLEQ_LAST"
    by (simp_all add: fun_eq_iff stailq_access stailq_before e i r STAILQ_REMOVE_def SIMPLEQ_REMOVE_def
        STAILQ_CONCAT_def SIMPLEQ_CONCAT_def STAILQ_LAST_def SIMPLEQ_LAST_def cong: if_cong)
qed

end
