(* ===== verification/SimpleQueueRep.thy ===== *)
theory SimpleQueueRep
  imports SimpleQueue
begin

text \<open>
  What the simple queues represent: \<open>sq_rep s h xs\<close> says that the entries of \<open>xs\<close> are chained from
  the head \<open>h\<close> in this order and that the head knows where the chain ends.  Each macro is proved to
  do to the list what its name says, and to leave every other queue alone.
\<close>

definition sq_nexts :: "('h, 'e) sq_mem \<Rightarrow> 'e \<Rightarrow> 'e option option" where
  "sq_nexts s e = map_option sqe_next (sq_ents s e)"

definition end_cell :: "'h \<Rightarrow> 'e list \<Rightarrow> ('h, 'e) tq_loc" where
  "end_cell h xs = (if xs = [] then HeadFirst h else ElemNext (last xs))"

definition sq_rep :: "('h, 'e) sq_mem \<Rightarrow> 'h \<Rightarrow> 'e list \<Rightarrow> bool" where
  "sq_rep s h xs \<longleftrightarrow> distinct xs \<and> (\<exists>hh. sq_heads s h = Some hh \<and>
     seg (sq_nexts s) (sqh_first hh) xs None \<and> sqh_last hh = end_cell h xs)"

definition sq_cell :: "('h, 'e) sq_mem \<Rightarrow> 'e \<Rightarrow> bool" where
  "sq_cell s e \<longleftrightarrow> sq_ents s e \<noteq> None"

text \<open>\<open>sq_same s s' H E\<close>: from \<open>s\<close> to \<open>s'\<close> only heads in \<open>H\<close> and entries in \<open>E\<close> were written.\<close>

definition sq_same :: "('h, 'e) sq_mem \<Rightarrow> ('h, 'e) sq_mem \<Rightarrow> 'h set \<Rightarrow> 'e set \<Rightarrow> bool" where
  "sq_same s s' H E \<longleftrightarrow> (\<forall>h. h \<notin> H \<longrightarrow> sq_heads s' h = sq_heads s h) \<and>
     (\<forall>e. e \<notin> E \<longrightarrow> sq_ents s' e = sq_ents s e) \<and> sq_cell s' = sq_cell s"

lemma sq_rep_distinct: "sq_rep s h xs \<Longrightarrow> distinct xs"
  by (simp add: sq_rep_def)

lemma sq_rep_frame:
  "sq_rep s h xs \<Longrightarrow> sq_same s s' H E \<Longrightarrow> h \<notin> H \<Longrightarrow> set xs \<inter> E = {} \<Longrightarrow> sq_rep s' h xs"
  using seg_cong [of xs "sq_nexts s'" "sq_nexts s"] by (fastforce simp: sq_rep_def sq_same_def sq_nexts_def)

lemma end_cell_simps [simp]:
  "end_cell h [] = HeadFirst h" "end_cell h [x] = ElemNext x" "end_cell h (xs @ [x]) = ElemNext x"
  "end_cell h (xs @ x # ys) = end_cell h (x # ys)"
  by (simp_all add: end_cell_def)

lemma end_cell_Cons: "end_cell h (x # xs) = (if xs = [] then ElemNext x else end_cell h xs)"
  by (simp add: end_cell_def)

lemma sq_runs:
  "sq_heads s h = Some hh \<Longrightarrow> sq_get_head h s = Inr (hh, s)"
  "sq_heads s h = Some hh \<Longrightarrow> SIMPLEQ_FIRST h s = Inr (sqh_first hh, s)"
  "sq_heads s h = Some hh \<Longrightarrow> sq_set_first h p s =
     Inr ((), s\<lparr>sq_heads := (sq_heads s)(h \<mapsto> hh\<lparr>sqh_first := p\<rparr>)\<rparr>)"
  "sq_heads s h = Some hh \<Longrightarrow> sq_set_last h l s =
     Inr ((), s\<lparr>sq_heads := (sq_heads s)(h \<mapsto> hh\<lparr>sqh_last := l\<rparr>)\<rparr>)"
  "sq_nexts s e = Some n \<Longrightarrow> SIMPLEQ_NEXT e s = Inr (n, s)"
  "sq_nexts s e = Some n \<Longrightarrow> sq_set_next e p s = Inr ((), s\<lparr>sq_ents := (sq_ents s)(e \<mapsto> \<lparr>sqe_next = p\<rparr>)\<rparr>)"
  by (auto simp: SIMPLEQ_FIRST_def SIMPLEQ_NEXT_def sq_get_head_def sq_set_first_def sq_set_last_def
      sq_set_next_def sq_nexts_def run_defs)

lemma sq_nexts_upd [simp]:
  "sq_nexts (s\<lparr>sq_heads := hs\<rparr>) = sq_nexts s"
  "sq_nexts (s\<lparr>sq_ents := (sq_ents s)(e \<mapsto> \<lparr>sqe_next = p\<rparr>)\<rparr>) = (sq_nexts s)(e := Some p)"
  by (auto simp: sq_nexts_def fun_eq_iff)

lemma sq_nexts_upd2 [simp]:
  "sq_nexts (s\<lparr>sq_ents := es, sq_heads := hs\<rparr>) = sq_nexts (s\<lparr>sq_ents := es\<rparr>)"
  by (simp add: sq_nexts_def [abs_def])

lemma sq_cell_nexts: "sq_cell s e \<longleftrightarrow> (\<exists>n. sq_nexts s e = Some n)"
  by (auto simp: sq_cell_def sq_nexts_def)

lemma sq_head_upd [simp]:
  fixes hh :: "('h, 'e) sq_head"
  shows "hh\<lparr>sqh_first := f\<rparr> = \<lparr>sqh_first = f, sqh_last = sqh_last hh\<rparr>"
    "hh\<lparr>sqh_last := l\<rparr> = \<lparr>sqh_first = sqh_first hh, sqh_last = l\<rparr>"
    "\<lparr>sqh_first = sqh_first hh, sqh_last = sqh_last hh\<rparr> = hh"
  by (cases hh; simp)+

lemma sq_rep_split:
  "sq_rep s h (as @ x # bs) \<longleftrightarrow> distinct (as @ x # bs) \<and> (\<exists>hh n. sq_heads s h = Some hh \<and>
     seg (sq_nexts s) (sqh_first hh) as (Some x) \<and> sq_nexts s x = Some n \<and>
     seg (sq_nexts s) n bs None \<and> sqh_last hh = end_cell h (x # bs))"
  by (auto simp: sq_rep_def seg_append)

lemma seg_None: "seg N None xs n \<longleftrightarrow> xs = [] \<and> n = None"
  by (cases xs) auto

lemma seg_at_end: "seg N n xs None \<Longrightarrow> n = None \<longleftrightarrow> xs = []"
  by (cases xs) auto

section \<open>The updating macros\<close>

lemma simpleq_init_rep: "\<exists>s'. SIMPLEQ_INIT h s = Inr ((), s') \<and> sq_rep s' h [] \<and> sq_same s s' {h} {}"
  by (simp add: SIMPLEQ_INIT_def modify_m_def sq_rep_def sq_same_def sq_cell_def [abs_def])

lemma simpleq_insert_head_rep:
  assumes "sq_rep s h xs" and "sq_cell s e" and "e \<notin> set xs"
  shows "\<exists>s'. SIMPLEQ_INSERT_HEAD h e s = Inr ((), s') \<and> sq_rep s' h (e # xs) \<and> sq_same s s' {h} {e}"
proof -
  from assms obtain hh n where hh: "sq_heads s h = Some hh" "seg (sq_nexts s) (sqh_first hh) xs None"
    "sqh_last hh = end_cell h xs" and e: "sq_nexts s e = Some n" by (auto simp: sq_rep_def sq_cell_nexts)
  let ?l = "if sqh_first hh = None then ElemNext e else sqh_last hh"
  let ?s = "s\<lparr>sq_ents := (sq_ents s)(e \<mapsto> \<lparr>sqe_next = sqh_first hh\<rparr>),
    sq_heads := (sq_heads s)(h \<mapsto> \<lparr>sqh_first = Some e, sqh_last = ?l\<rparr>)\<rparr>"
  have "SIMPLEQ_INSERT_HEAD h e s = Inr ((), ?s)"
    using hh(1) e by (simp add: SIMPLEQ_INSERT_HEAD_def bind_m_Inr seq_m_Inr sq_runs return_m_def)
  moreover have "sq_rep ?s h (e # xs)"
    using hh assms(1,3) seg_at_end [OF hh(2)] by (simp add: sq_rep_def end_cell_Cons)
  moreover have "sq_same s ?s {h} {e}" using assms(2) by (auto simp: sq_same_def sq_cell_def fun_eq_iff)
  ultimately show ?thesis by blast
qed

text \<open>Storing a pointer in the cell that ends the list continues the list with it.\<close>

lemma sq_store_end:
  assumes "sq_heads s h = Some hh" and "seg (sq_nexts s) (sqh_first hh) xs None" and "distinct xs"
  shows "\<exists>s' hh'. sq_store (end_cell h xs) p s = Inr ((), s') \<and> sq_heads s' h = Some hh' \<and>
    sqh_last hh' = sqh_last hh \<and> seg (sq_nexts s') (sqh_first hh') xs p \<and> sq_same s s' {h} (set xs)"
proof (cases xs rule: rev_cases)
  case Nil
  then show ?thesis using assms(1) by (auto simp: sq_runs sq_same_def sq_cell_def [abs_def])
next
  case (snoc ys y)
  then obtain n where y: "sq_nexts s y = Some n" using assms(2) seg_exists by fastforce
  then have "sq_same s (s\<lparr>sq_ents := (sq_ents s)(y \<mapsto> \<lparr>sqe_next = p\<rparr>)\<rparr>) {h} (set xs)"
    using snoc by (auto simp: sq_same_def sq_cell_def sq_nexts_def fun_eq_iff)
  moreover have "seg ((sq_nexts s)(y := Some p)) (sqh_first hh) xs p"
    using seg_redirect [of "sq_nexts s" _ ys y] assms(2,3) snoc by simp
  ultimately show ?thesis using snoc y assms(1) by (simp add: sq_runs)
qed

lemma simpleq_insert_tail_rep:
  assumes "sq_rep s h xs" and "sq_cell s e" and "e \<notin> set xs"
  shows "\<exists>s'. SIMPLEQ_INSERT_TAIL h e s = Inr ((), s') \<and> sq_rep s' h (xs @ [e]) \<and>
    sq_same s s' {h} (insert e (set xs))"
proof -
  from assms obtain hh n where hh: "sq_heads s h = Some hh" "seg (sq_nexts s) (sqh_first hh) xs None"
    "sqh_last hh = end_cell h xs" and e: "sq_nexts s e = Some n" by (auto simp: sq_rep_def sq_cell_nexts)
  let ?s = "s\<lparr>sq_ents := (sq_ents s)(e \<mapsto> \<lparr>sqe_next = None\<rparr>)\<rparr>"
  have "seg (sq_nexts ?s) (sqh_first hh) xs None" using hh(2) assms(3) by simp
  from sq_store_end [of ?s, OF _ this sq_rep_distinct [OF assms(1)], where p = "Some e" and h = h] hh(1)
  obtain s1 hh1 where st: "sq_store (end_cell h xs) (Some e) ?s = Inr ((), s1)" "sq_heads s1 h = Some hh1"
    "seg (sq_nexts s1) (sqh_first hh1) xs (Some e)" "sq_same ?s s1 {h} (set xs)" by auto
  let ?s2 = "s1\<lparr>sq_heads := (sq_heads s1)(h \<mapsto> hh1\<lparr>sqh_last := ElemNext e\<rparr>)\<rparr>"
  have "SIMPLEQ_INSERT_TAIL h e s = Inr ((), ?s2)"
    using hh e st by (simp add: SIMPLEQ_INSERT_TAIL_def bind_m_Inr seq_m_Inr sq_runs)
  moreover have "sq_nexts s1 e = Some None" using st(4) assms(3) by (simp add: sq_same_def sq_nexts_def)
  then have "sq_rep ?s2 h (xs @ [e])"
    using st(3) assms(1,3) by (simp add: sq_rep_def seg_append)
  moreover have "sq_same s ?s2 {h} (insert e (set xs))"
    using st(4) assms(2) by (auto simp: sq_same_def sq_cell_def fun_eq_iff)
  ultimately show ?thesis by blast
qed

lemma simpleq_insert_after_rep:
  assumes "sq_rep s h (as @ x # bs)" and "sq_cell s e" and "e \<notin> set (as @ x # bs)"
  shows "\<exists>s'. SIMPLEQ_INSERT_AFTER h x e s = Inr ((), s') \<and> sq_rep s' h (as @ x # e # bs) \<and>
    sq_same s s' {h} {x, e}"
proof -
  from assms obtain hh n ne where hh: "sq_heads s h = Some hh" "sqh_last hh = end_cell h (x # bs)"
    and segs: "seg (sq_nexts s) (sqh_first hh) as (Some x)" "sq_nexts s x = Some n" "seg (sq_nexts s) n bs None"
    and e: "sq_nexts s e = Some ne" by (auto simp: sq_rep_split sq_cell_nexts)
  let ?l = "if n = None then ElemNext e else sqh_last hh"
  let ?s = "s\<lparr>sq_ents := (sq_ents s)(e \<mapsto> \<lparr>sqe_next = n\<rparr>, x \<mapsto> \<lparr>sqe_next = Some e\<rparr>),
    sq_heads := (sq_heads s)(h \<mapsto> hh\<lparr>sqh_last := ?l\<rparr>)\<rparr>"
  have nx: "sq_nexts ?s = (sq_nexts s)(e := Some n, x := Some (Some e))"
    by (auto simp: sq_nexts_def fun_eq_iff)
  have "(sq_heads s)(h \<mapsto> hh) = sq_heads s" using hh(1) by (simp add: map_upd_triv)
  then have "SIMPLEQ_INSERT_AFTER h x e s = Inr ((), ?s)"
    using hh(1) segs e assms(3) by (simp add: SIMPLEQ_INSERT_AFTER_def bind_m_Inr seq_m_Inr sq_runs return_m_def)
  moreover have "sq_rep ?s h (as @ x # e # bs)"
    unfolding sq_rep_split nx using hh segs assms seg_at_end [OF segs(3)]
    by (auto simp: sq_rep_def end_cell_Cons)
  moreover have "sq_same s ?s {h} {x, e}"
    using assms(2) segs(2) by (auto simp: sq_same_def sq_cell_def fun_eq_iff sq_nexts_def)
  ultimately show ?thesis by blast
qed

lemma simpleq_remove_head_rep:
  assumes "sq_rep s h (x # xs)"
  shows "\<exists>s'. SIMPLEQ_REMOVE_HEAD h s = Inr ((), s') \<and> sq_rep s' h xs \<and> sq_same s s' {h} {}"
proof -
  from assms obtain hh n where hh: "sq_heads s h = Some hh" "sqh_first hh = Some x"
    "sq_nexts s x = Some n" "seg (sq_nexts s) n xs None" "sqh_last hh = end_cell h (x # xs)"
    by (auto simp: sq_rep_def)
  then show ?thesis using assms seg_at_end [OF hh(4)]
    by (auto simp: SIMPLEQ_REMOVE_HEAD_def bind_m_Inr seq_m_Inr sq_runs return_m_def sq_rep_def
        sq_same_def sq_cell_def fun_eq_iff end_cell_Cons)
qed

lemma simpleq_remove_after_rep:
  assumes "sq_rep s h (as @ x # y # bs)"
  shows "\<exists>s'. SIMPLEQ_REMOVE_AFTER h x s = Inr ((), s') \<and> sq_rep s' h (as @ x # bs) \<and> sq_same s s' {h} {x}"
proof -
  from assms obtain hh n where hh: "sq_heads s h = Some hh" "sqh_last hh = end_cell h (x # y # bs)"
    and segs: "seg (sq_nexts s) (sqh_first hh) as (Some x)" "sq_nexts s x = Some (Some y)"
      "sq_nexts s y = Some n" "seg (sq_nexts s) n bs None" by (auto simp: sq_rep_split)
  let ?l = "if n = None then ElemNext x else sqh_last hh"
  let ?s = "s\<lparr>sq_ents := (sq_ents s)(x \<mapsto> \<lparr>sqe_next = n\<rparr>),
    sq_heads := (sq_heads s)(h \<mapsto> hh\<lparr>sqh_last := ?l\<rparr>)\<rparr>"
  have "(sq_heads s)(h \<mapsto> hh) = sq_heads s" using hh(1) by (simp add: map_upd_triv)
  then have "SIMPLEQ_REMOVE_AFTER h x s = Inr ((), ?s)"
    using segs hh(1) by (simp add: SIMPLEQ_REMOVE_AFTER_def bind_m_Inr seq_m_Inr sq_runs return_m_def)
  moreover have "sq_rep ?s h (as @ x # bs)"
    unfolding sq_rep_split using hh segs assms seg_at_end [OF segs(4)]
    by (auto simp: sq_rep_def end_cell_Cons)
  moreover have "sq_same s ?s {h} {x}"
    using segs(2) by (auto simp: sq_same_def sq_cell_def fun_eq_iff sq_nexts_def)
  ultimately show ?thesis by blast
qed

lemma simpleq_before_found:
  "seg (sq_nexts s) f (as @ [x]) (Some e) \<Longrightarrow> e \<notin> set (as @ [x]) \<Longrightarrow> length as < fuel \<Longrightarrow>
   simpleq_before fuel e f s = Inr (x, s)"
proof (induction as arbitrary: f fuel)
  case Nil
  then show ?case by (cases fuel) (auto simp: bind_m_Inr sq_runs return_m_def)
next
  case (Cons a as)
  from Cons.prems obtain n where n: "f = Some a" "sq_nexts s a = Some n" "seg (sq_nexts s) n (as @ [x]) (Some e)"
    by auto
  moreover have "n \<noteq> Some e" using n(3) Cons.prems(2) by (cases as) auto
  moreover obtain k where "fuel = Suc k" "length as < k" using Cons.prems(3) by (cases fuel) auto
  ultimately show ?case using Cons.IH [of n k] Cons.prems(2) by (simp add: bind_m_Inr sq_runs)
qed

text \<open>After its search \<open>SIMPLEQ_REMOVE\<close> is \<open>SIMPLEQ_REMOVE_AFTER\<close>.\<close>

lemma simpleq_remove_rep:
  assumes "sq_rep s h (as @ e # bs)" and "length as \<le> fuel"
  shows "\<exists>s'. SIMPLEQ_REMOVE fuel h e s = Inr ((), s') \<and> sq_rep s' h (as @ bs) \<and> sq_same s s' {h} (set as)"
proof (cases as rule: rev_cases)
  case Nil
  with assms(1) obtain hh where "sq_heads s h = Some hh" "sqh_first hh = Some e" by (auto simp: sq_rep_def)
  then have "SIMPLEQ_REMOVE fuel h e s = SIMPLEQ_REMOVE_HEAD h s"
    by (simp add: SIMPLEQ_REMOVE_def bind_m_Inr sq_runs)
  with simpleq_remove_head_rep [of s h e bs] assms(1) Nil show ?thesis by simp
next
  case (snoc cs x)
  with assms(1) have rep: "sq_rep s h (cs @ x # e # bs)" by simp
  then obtain hh where hh: "sq_heads s h = Some hh" and sg: "seg (sq_nexts s) (sqh_first hh) (cs @ [x]) (Some e)"
    and d: "e \<notin> set (cs @ [x])" by (auto simp: sq_rep_def seg_append)
  have "simpleq_before fuel e (sqh_first hh) s = Inr (x, s)"
    using simpleq_before_found [OF sg d] assms(2) snoc by simp
  moreover have "sqh_first hh \<noteq> Some e" using seg_first [OF sg] d by (cases cs) auto
  ultimately have "SIMPLEQ_REMOVE fuel h e s = SIMPLEQ_REMOVE_AFTER h x s"
    using hh by (simp add: SIMPLEQ_REMOVE_def SIMPLEQ_REMOVE_AFTER_def bind_m_Inr sq_runs)
  moreover obtain s' where "SIMPLEQ_REMOVE_AFTER h x s = Inr ((), s')" "sq_rep s' h (cs @ x # bs)" "sq_same s s' {h} {x}"
    using simpleq_remove_after_rep [OF rep] by blast
  ultimately show ?thesis using snoc by (auto simp: sq_same_def)
qed

lemma simpleq_concat_rep:
  assumes r1: "sq_rep s h1 xs" and r2: "sq_rep s h2 ys" and ne: "h1 \<noteq> h2" and dis: "set xs \<inter> set ys = {}"
  shows "\<exists>s'. SIMPLEQ_CONCAT h1 h2 s = Inr ((), s') \<and> sq_rep s' h1 (xs @ ys) \<and> sq_rep s' h2 [] \<and>
    sq_same s s' {h1, h2} (set xs)"
proof -
  from r1 obtain k1 where k1: "sq_heads s h1 = Some k1" "seg (sq_nexts s) (sqh_first k1) xs None"
    "sqh_last k1 = end_cell h1 xs" by (auto simp: sq_rep_def)
  from r2 obtain k2 where k2: "sq_heads s h2 = Some k2" "seg (sq_nexts s) (sqh_first k2) ys None"
    "sqh_last k2 = end_cell h2 ys" by (auto simp: sq_rep_def)
  show ?thesis
  proof (cases ys rule: rev_cases)
    case Nil
    then have "SIMPLEQ_CONCAT h1 h2 s = Inr ((), s)"
      using k2 by (simp add: SIMPLEQ_CONCAT_def SIMPLEQ_EMPTY_def bind_m_Inr sq_runs return_m_def)
    with r1 r2 Nil show ?thesis by (auto simp: sq_same_def)
  next
    case (snoc zs z)
    from sq_store_end [OF k1(1,2) sq_rep_distinct [OF r1], of "sqh_first k2"] obtain s1 j1 where
      s1: "sq_store (end_cell h1 xs) (sqh_first k2) s = Inr ((), s1)" "sq_heads s1 h1 = Some j1"
      "seg (sq_nexts s1) (sqh_first j1) xs (sqh_first k2)" "sq_same s s1 {h1} (set xs)" by blast
    have h2: "sq_heads s1 h2 = Some k2" using s1(4) k2(1) ne by (auto simp: sq_same_def)
    let ?s2 = "s1\<lparr>sq_heads := (sq_heads s1)(h1 \<mapsto> j1\<lparr>sqh_last := sqh_last k2\<rparr>,
      h2 \<mapsto> \<lparr>sqh_first = None, sqh_last = HeadFirst h2\<rparr>)\<rparr>"
    have "SIMPLEQ_CONCAT h1 h2 s = Inr ((), ?s2)"
      using k1 k2 s1 h2 snoc seg_at_end [OF k2(2)]
      by (simp add: SIMPLEQ_CONCAT_def SIMPLEQ_EMPTY_def SIMPLEQ_INIT_def modify_m_def bind_m_Inr
          seq_m_Inr sq_runs return_m_def)
    moreover have "sq_nexts s1 y = sq_nexts s y" if "y \<in> set ys" for y
      using s1(4) dis that by (auto simp: sq_same_def sq_nexts_def)
    then have "seg (sq_nexts s1) (sqh_first k2) ys None"
      using k2(2) seg_cong [of ys "sq_nexts s1" "sq_nexts s"] by simp
    then have "sq_rep ?s2 h1 (xs @ ys)"
      using s1(3) k2(3) snoc ne dis sq_rep_distinct [OF r1] sq_rep_distinct [OF r2]
      by (auto simp: sq_rep_def seg_append end_cell_def)
    moreover have "sq_rep ?s2 h2 []" by (simp add: sq_rep_def)
    moreover have "sq_same s ?s2 {h1, h2} (set xs)"
      using s1(4) by (auto simp: sq_same_def sq_cell_def fun_eq_iff)
    ultimately show ?thesis by blast
  qed
qed

section \<open>The access macros and the traversals\<close>

lemma simpleq_first_rep: "sq_rep s h xs \<Longrightarrow> SIMPLEQ_FIRST h s = Inr (case xs of [] \<Rightarrow> None | x # _ \<Rightarrow> Some x, s)"
  by (auto simp: sq_rep_def sq_runs dest: seg_first)

lemma simpleq_last_rep: "sq_rep s h xs \<Longrightarrow> SIMPLEQ_LAST h s = Inr (if xs = [] then None else Some (last xs), s)"
  by (auto simp: SIMPLEQ_LAST_def SIMPLEQ_EMPTY_def sq_rep_def bind_m_Inr sq_runs return_m_def
      end_cell_def dest: seg_at_end)

lemma simpleq_foreach_rep:
  assumes "sq_rep (get s) h xs" and "length xs \<le> fuel"
    and "\<And>x y s s'. x \<in> set xs \<Longrightarrow> y \<in> set xs \<Longrightarrow> body x s = Inr (True, s') \<Longrightarrow>
       sq_nexts (get s') y = sq_nexts (get s) y"
  shows "SIMPLEQ_FOREACH fuel get h body s = for_each body xs s"
proof -
  from assms(1) obtain hh where hh: "sq_heads (get s) h = Some hh" "fchain (sq_nexts (get s)) (sqh_first hh) xs"
    by (auto simp: sq_rep_def fchain_seg)
  have "links_loop fuel (\<lambda>e. zoom_m get (\<lambda>_ s. s) (SIMPLEQ_NEXT e)) body (sqh_first hh) s = for_each body xs s"
    by (rule links_loop_chain [where N = "\<lambda>s. sq_nexts (get s)"])
      (use hh(2) assms(2,3) in \<open>auto simp: zoom_m_def sq_runs\<close>)
  with hh(1) show ?thesis by (simp add: SIMPLEQ_FOREACH_def bind_m_Inr zoom_m_def sq_runs)
qed

lemma simpleq_foreach_safe_rep:
  assumes "sq_rep (get s) h xs" and "length xs \<le> fuel"
    and "\<And>x y s s'. x \<in> set xs \<Longrightarrow> y \<in> set xs \<Longrightarrow> x \<noteq> y \<Longrightarrow> body x s = Inr (True, s') \<Longrightarrow>
       sq_nexts (get s') y = sq_nexts (get s) y"
  shows "SIMPLEQ_FOREACH_SAFE fuel get h body s = for_each body xs s"
proof -
  from assms(1) obtain hh where hh: "sq_heads (get s) h = Some hh" "fchain (sq_nexts (get s)) (sqh_first hh) xs"
    by (auto simp: sq_rep_def fchain_seg)
  have "links_loop_safe fuel (\<lambda>e. zoom_m get (\<lambda>_ s. s) (SIMPLEQ_NEXT e)) body (sqh_first hh) s = for_each body xs s"
    by (rule links_loop_safe_chain [where N = "\<lambda>s. sq_nexts (get s)"])
      (use hh(2) assms(2,3) sq_rep_distinct [OF assms(1)] in \<open>auto simp: zoom_m_def sq_runs\<close>)
  with hh(1) show ?thesis by (simp add: SIMPLEQ_FOREACH_SAFE_def bind_m_Inr zoom_m_def sq_runs)
qed

section \<open>The contract of a queue\<close>

interpretation simpleq: fifo_queue sq_rep sq_cell SIMPLEQ_INSERT_TAIL "\<lambda>h x. SIMPLEQ_REMOVE_HEAD h"
proof unfold_locales
  fix s :: "('h, 'e) sq_mem" and h xs and e :: 'e
  assume "sq_rep s h xs" and "sq_cell s e" and "e \<notin> set xs"
  from simpleq_insert_tail_rep [OF this] obtain s' where
    s': "SIMPLEQ_INSERT_TAIL h e s = Inr ((), s')" "sq_rep s' h (xs @ [e])"
      "sq_same s s' {h} (insert e (set xs))" by blast
  have "sq_rep s' h' ys" if "h' \<noteq> h" "sq_rep s h' ys" "set ys \<inter> set (xs @ [e]) = {}" for h' ys
    by (rule sq_rep_frame [OF that(2) s'(3)]) (use that in auto)
  with s' show "\<exists>s'. SIMPLEQ_INSERT_TAIL h e s = Inr ((), s') \<and> sq_rep s' h (xs @ [e]) \<and>
      sq_cell s' = sq_cell s \<and> (\<forall>h' ys. h' \<noteq> h \<longrightarrow> sq_rep s h' ys \<longrightarrow>
        set ys \<inter> set (xs @ [e]) = {} \<longrightarrow> sq_rep s' h' ys)"
    by (auto simp: sq_same_def)
next
  fix s :: "('h, 'e) sq_mem" and h x xs
  assume "sq_rep s h (x # xs)"
  from simpleq_remove_head_rep [OF this] show "\<exists>s'. SIMPLEQ_REMOVE_HEAD h s = Inr ((), s') \<and>
      sq_rep s' h xs \<and> sq_cell s' = sq_cell s" by (auto simp: sq_same_def)
qed

interpretation simpleq_stack: lifo_stack sq_rep sq_cell SIMPLEQ_INSERT_HEAD SIMPLEQ_REMOVE_HEAD
proof unfold_locales
  fix s :: "('h, 'e) sq_mem" and h xs and e :: 'e
  assume "sq_rep s h xs" and "sq_cell s e" and "e \<notin> set xs"
  from simpleq_insert_head_rep [OF this] show "\<exists>s'. SIMPLEQ_INSERT_HEAD h e s = Inr ((), s') \<and>
      sq_rep s' h (e # xs) \<and> sq_cell s' = sq_cell s" by (auto simp: sq_same_def)
next
  fix s :: "('h, 'e) sq_mem" and h x xs
  assume "sq_rep s h (x # xs)"
  from simpleq_remove_head_rep [OF this] show "\<exists>s'. SIMPLEQ_REMOVE_HEAD h s = Inr ((), s') \<and>
      sq_rep s' h xs \<and> sq_cell s' = sq_cell s" by (auto simp: sq_same_def)
qed

text \<open>The static initialisers, which name the head for which they are written, are the empty queue.\<close>

definition SIMPLEQ_HEAD_INITIALIZER :: "'h \<Rightarrow> ('h, 'e) sq_head" where
  "SIMPLEQ_HEAD_INITIALIZER h = \<lparr>sqh_first = None, sqh_last = HeadFirst h\<rparr>"

definition STAILQ_HEAD_INITIALIZER :: "'h \<Rightarrow> ('h, 'e) sq_head" where
  "STAILQ_HEAD_INITIALIZER h = \<lparr>sqh_first = None, sqh_last = HeadFirst h\<rparr>"

lemma simpleq_initializer_rep:
  "sq_heads s h = Some (SIMPLEQ_HEAD_INITIALIZER h) \<Longrightarrow> sq_rep s h []"
  "sq_heads s h = Some (STAILQ_HEAD_INITIALIZER h) \<Longrightarrow> sq_rep s h []"
  by (simp_all add: SIMPLEQ_HEAD_INITIALIZER_def STAILQ_HEAD_INITIALIZER_def sq_rep_def)

end
