(* ===== verification/QueueClaims.thy ===== *)
theory QueueClaims
  imports QueueDebug SlistQueue SimpleQueueRep TailQueueClaims
begin

text \<open>
  The properties of the queue macros other than the plain tail queue: the singly-linked list, the
  simple queues, the doubly-linked list, and the tail queue with its checks.
\<close>

section \<open>Memories to evaluate the properties on\<close>

definition demo_sl :: "(nat, nat) sl_mem" where
  "demo_sl = \<lparr>sl_heads = (\<lambda>h. if h < 2 then Some \<lparr>slh_first = None\<rparr> else None),
     sl_ents = (\<lambda>e. if e < 4 then Some \<lparr>sle_next = Some 9\<rparr> else None)\<rparr>"

lemma demo_sl_rep: "sl_rep demo_sl 0 []" "sl_cell demo_sl 1" "sl_cell demo_sl 2" "sl_cell demo_sl 3"
  by (simp_all add: demo_sl_def sl_rep_def sl_cell_def)

definition demo_sq :: "(nat, nat) sq_mem" where
  "demo_sq = \<lparr>sq_heads = (\<lambda>h. if h < 2 then Some \<lparr>sqh_first = None, sqh_last = HeadFirst h\<rparr> else None),
     sq_ents = (\<lambda>e. if e < 4 then Some \<lparr>sqe_next = Some 9\<rparr> else None)\<rparr>"

lemma demo_sq_rep: "sq_rep demo_sq 0 []" "sq_rep demo_sq 1 []" "sq_cell demo_sq 1" "sq_cell demo_sq 2"
  "sq_cell demo_sq 3"
  by (simp_all add: demo_sq_def sq_rep_def sq_cell_def)

lemma demo_ls_rep: "ls_rep (forget demo_q) 0 []" "ls_cell (forget demo_q) 1" "ls_cell (forget demo_q) 2"
  using demo_q_rep by (simp_all add: ls_rep_forget)

section \<open>Singly-linked lists\<close>

text \<open>C29: \<open>SLIST_REMOVE\<close> takes an entry out of the list wherever it is, and leaves the others in their
  order; asked for an entry that is not in the list, its search runs off the end and dereferences
  NULL.\<close>

theorem slist_remove_any:
  assumes "sl_rep s h xs" and "length xs \<le> fuel"
  shows "if e \<in> set xs then \<exists>s'. SLIST_REMOVE fuel h e s = Inr ((), s') \<and> sl_rep s' h (remove1 e xs)
    else SLIST_REMOVE fuel h e s = Inl NullDeref"
proof (cases "e \<in> set xs")
  case True
  then obtain as bs where xs: "xs = as @ e # bs" "e \<notin> set as" by (meson split_list_first)
  then show ?thesis using slist_remove_rep [of s h as e bs fuel] assms True by (auto simp: remove1_append)
next
  case False
  obtain hh where hh: "sl_heads s h = Some hh" "seg (sl_nexts s) (slh_first hh) xs None"
    using assms(1) by (auto simp: sl_rep_def)
  have "slh_first hh \<noteq> Some e" using seg_first [OF hh(2)] False by (cases xs) auto
  with False slist_before_missing [OF hh(2) False assms(2)] hh(1) show ?thesis
    by (simp add: SLIST_REMOVE_def bind_m_Inr bind_m_Inl sl_runs)
qed

theorem slist_remove_any_witness:
  "\<exists>s s'. each_m (SLIST_INSERT_HEAD 0) [1, 2, 3] demo_sl = Inr ((), s) \<and>
     SLIST_REMOVE 9 0 2 s = Inr ((), s') \<and> sl_rep s' 0 [3, 1] \<and> SLIST_REMOVE 9 0 7 s = Inl NullDeref"
proof -
  obtain s where s: "each_m (SLIST_INSERT_HEAD 0) [1, 2, 3] demo_sl = Inr ((), s)" "sl_rep s 0 [3, 2, 1]"
    using slist.push_all [OF demo_sl_rep(1), of "[1, 2, 3]"] demo_sl_rep by auto
  from slist_remove_any [OF s(2), of 9 2] slist_remove_any [OF s(2), of 9 7] s(1) show ?thesis by auto
qed

text \<open>A singly-linked list is a stack.\<close>

theorem slist_lifo:
  assumes "sl_rep s h xs" and "\<forall>e \<in> set es. sl_cell s e" and "distinct es" and "set es \<inter> set xs = {}"
  shows "\<exists>s' s''. each_m (SLIST_INSERT_HEAD h) es s = Inr ((), s') \<and> sl_rep s' h (rev es @ xs) \<and>
    each_m (\<lambda>_. SLIST_REMOVE_HEAD h) (rev es) s' = Inr ((), s'') \<and> sl_rep s'' h xs"
  using slist.push_all_pop_all [OF assms] by blast

section \<open>Simple queues\<close>

text \<open>C30: \<open>STAILQ\<close> is first in, first out, as \<open>SIMPLEQ\<close> is: the entries put in at the tail come out at
  the head in the same order.\<close>

theorem stailq_fifo:
  assumes "sq_rep s h []" and "\<forall>e \<in> set es. sq_cell s e" and "distinct es"
  shows "\<exists>s' s''. each_m (STAILQ_INSERT_TAIL h) es s = Inr ((), s') \<and> sq_rep s' h es \<and>
    each_m (\<lambda>_. STAILQ_REMOVE_HEAD h) es s' = Inr ((), s'') \<and> sq_rep s'' h [] \<and>
    each_m (SIMPLEQ_INSERT_TAIL h) es s = Inr ((), s') \<and>
    each_m (\<lambda>_. SIMPLEQ_REMOVE_HEAD h) es s' = Inr ((), s'')"
  using simpleq.put_all_take_out_all [OF assms] unfolding stailq_is_simpleq by blast

theorem stailq_fifo_witness:
  "\<exists>s' s''. each_m (STAILQ_INSERT_TAIL 0) [3, 1] demo_sq = Inr ((), s') \<and> sq_rep s' 0 [3, 1] \<and>
    each_m (\<lambda>_. STAILQ_REMOVE_HEAD 0) [3, 1] s' = Inr ((), s'') \<and> sq_rep s'' 0 []"
  using stailq_fifo [of demo_sq 0 "[3, 1]"] demo_sq_rep by auto

text \<open>C27: \<open>SIMPLEQ_REMOVE\<close> takes an entry out of a queue wherever it is, \<open>SIMPLEQ_CONCAT\<close> moves another
  queue behind it, \<open>SIMPLEQ_INSERT_TAIL\<close> then adds at the very end, where \<open>SIMPLEQ_LAST\<close> finds it:
  the head always knows where the list ends.\<close>

theorem simpleq_requeue:
  assumes "sq_rep s h1 xs" and "sq_rep s h2 ys" and "h1 \<noteq> h2" and "set xs \<inter> set ys = {}"
    and "e \<in> set xs" and "length xs \<le> fuel"
  shows "\<exists>s1 s2 s3. SIMPLEQ_REMOVE fuel h1 e s = Inr ((), s1) \<and> sq_rep s1 h1 (remove1 e xs) \<and>
    SIMPLEQ_CONCAT h1 h2 s1 = Inr ((), s2) \<and> sq_rep s2 h1 (remove1 e xs @ ys) \<and> sq_rep s2 h2 [] \<and>
    SIMPLEQ_INSERT_TAIL h1 e s2 = Inr ((), s3) \<and> sq_rep s3 h1 (remove1 e xs @ ys @ [e]) \<and>
    SIMPLEQ_LAST h1 s3 = Inr (Some e, s3)"
proof -
  obtain as bs where xs: "xs = as @ e # bs" "e \<notin> set as" using assms(5) by (meson split_list_first)
  then have r: "remove1 e xs = as @ bs" and e: "e \<notin> set (as @ bs)" "e \<notin> set ys"
    using sq_rep_distinct [OF assms(1)] assms(4) by (auto simp: remove1_append)
  from simpleq_remove_rep [of s h1 as e bs fuel] assms(1,6) xs obtain s1 where
    s1: "SIMPLEQ_REMOVE fuel h1 e s = Inr ((), s1)" "sq_rep s1 h1 (as @ bs)" "sq_same s s1 {h1} (set as)" by auto
  have "sq_rep s1 h2 ys" by (rule sq_rep_frame [OF assms(2) s1(3)]) (use assms(3,4) xs in auto)
  from simpleq_concat_rep [OF s1(2) this assms(3)] assms(4) xs obtain s2 where
    s2: "SIMPLEQ_CONCAT h1 h2 s1 = Inr ((), s2)" "sq_rep s2 h1 ((as @ bs) @ ys)" "sq_rep s2 h2 []"
      "sq_same s1 s2 {h1, h2} (set (as @ bs))" by auto
  have "sq_cell s e" using assms(1) xs by (auto simp: sq_rep_split sq_cell_nexts)
  then have "sq_cell s2 e" using s1(3) s2(4) by (simp add: sq_same_def)
  from simpleq_insert_tail_rep [OF s2(2) this] e obtain s3 where
    "SIMPLEQ_INSERT_TAIL h1 e s2 = Inr ((), s3)" "sq_rep s3 h1 (((as @ bs) @ ys) @ [e])" by auto
  with s1 s2 r simpleq_last_rep [OF this(2)] show ?thesis by auto
qed

theorem simpleq_requeue_witness:
  "\<exists>s s' s1 s2 s3. each_m (SIMPLEQ_INSERT_TAIL 0) [1, 2] demo_sq = Inr ((), s) \<and>
    SIMPLEQ_INSERT_TAIL 1 3 s = Inr ((), s') \<and> SIMPLEQ_REMOVE 2 0 2 s' = Inr ((), s1) \<and>
    SIMPLEQ_CONCAT 0 1 s1 = Inr ((), s2) \<and> SIMPLEQ_INSERT_TAIL 0 2 s2 = Inr ((), s3) \<and>
    sq_rep s3 0 [1, 3, 2] \<and> SIMPLEQ_LAST 0 s3 = Inr (Some 2, s3)"
proof -
  obtain s where s: "each_m (SIMPLEQ_INSERT_TAIL 0) [1, 2] demo_sq = Inr ((), s)" "sq_rep s 0 [1, 2]"
    "sq_rep s 1 []" "sq_cell s = sq_cell demo_sq"
    using simpleq.put_all [OF demo_sq_rep(1), of "[1, 2]"] demo_sq_rep by auto
  from simpleq.put_law [OF s(3), of 3] s demo_sq_rep obtain s' where
    "SIMPLEQ_INSERT_TAIL 1 3 s = Inr ((), s')" "sq_rep s' 1 [3]" "sq_rep s' 0 [1, 2]" by auto
  with simpleq_requeue [of s' 0 "[1, 2]" 1 "[3]" 2 2] s(1) show ?thesis by auto
qed

section \<open>Doubly-linked lists\<close>

text \<open>C26: The \<open>LIST\<close> macros do to the list what their names say: an entry is put in at the head, after
  or before another, replaced, or taken out, wherever it is, with nothing but its own links; and
  \<open>LIST_MOVE\<close> moves a whole list to another head.\<close>

theorem list_operations:
  assumes "ls_rep s h (as @ x # bs)" and "ls_cell s e" and "e \<notin> set (as @ x # bs)" and "h \<noteq> h2"
  shows "(\<exists>s'. LIST_INSERT_HEAD h e s = Inr ((), s') \<and> ls_rep s' h (e # as @ x # bs)) \<and>
    (\<exists>s'. LIST_INSERT_AFTER x e s = Inr ((), s') \<and> ls_rep s' h (as @ x # e # bs)) \<and>
    (\<exists>s'. LIST_INSERT_BEFORE x e s = Inr ((), s') \<and> ls_rep s' h (as @ e # x # bs)) \<and>
    (\<exists>s'. LIST_REPLACE x e s = Inr ((), s') \<and> ls_rep s' h (as @ e # bs)) \<and>
    (\<exists>s'. LIST_REMOVE x s = Inr ((), s') \<and> ls_rep s' h (as @ bs)) \<and>
    (\<exists>s'. LIST_MOVE h h2 s = Inr ((), s') \<and> ls_rep s' h2 (as @ x # bs) \<and> ls_rep s' h [])"
  using list_insert_head_rep [OF assms(1-3)] list_insert_after_rep [OF assms(1-3)]
    list_insert_before_rep [OF assms(1-3)] list_replace_rep [OF assms(1-3)] list_remove_rep [OF assms(1)]
    list_move_rep [OF assms(1,4)] by blast

theorem list_operations_witness:
  "\<exists>s s' s''. LIST_INSERT_HEAD 0 1 (forget demo_q) = Inr ((), s) \<and>
     LIST_INSERT_BEFORE 1 2 s = Inr ((), s') \<and> ls_rep s' 0 [2, 1] \<and>
     LIST_REPLACE 1 2 s = Inr ((), s'') \<and> ls_rep s'' 0 [2]"
proof -
  from list_insert_head_rep [OF demo_ls_rep(1,2)] obtain s where
    s: "LIST_INSERT_HEAD 0 1 (forget demo_q) = Inr ((), s)" "ls_rep s 0 ([] @ 1 # [])"
      "ls_cell s = ls_cell (forget demo_q)" by (auto simp: ls_same_def)
  from list_operations [OF s(2), of 2 1] s(1,3) demo_ls_rep(3) show ?thesis by auto
qed

section \<open>Checks\<close>

text \<open>C25: On any well-formed queue, the empty one included, the updating macros with the checks of a
  \<open>QUEUEDEBUG\<close> build do what they do without them.  No check fails; the insertions end in the same
  memory, and put the entry in; a removed or replaced entry is, besides, left pointing nowhere.\<close>

theorem tailq_debug_agrees:
  assumes "tq_rep q h xs" and "tq_cell q e" and "e \<notin> set xs"
  shows "(\<exists>q'. TAILQ_INSERT_HEAD_debug h e q = Inr ((), q') \<and> TAILQ_INSERT_HEAD h e q = Inr ((), q') \<and>
       tq_rep q' h (e # xs)) \<and>
    (\<exists>q'. TAILQ_INSERT_TAIL_debug h e q = Inr ((), q') \<and> TAILQ_INSERT_TAIL h e q = Inr ((), q') \<and>
       tq_rep q' h (xs @ [e])) \<and>
    (\<forall>as x bs. xs = as @ x # bs \<longrightarrow>
      (\<exists>q'. TAILQ_INSERT_AFTER_debug h x e q = Inr ((), q') \<and> TAILQ_INSERT_AFTER h x e q = Inr ((), q') \<and>
         tq_rep q' h (as @ x # e # bs)) \<and>
      (\<exists>q'. TAILQ_INSERT_BEFORE_debug x e q = Inr ((), q') \<and> TAILQ_INSERT_BEFORE x e q = Inr ((), q') \<and>
         tq_rep q' h (as @ e # x # bs)) \<and>
      (\<exists>q'. TAILQ_REMOVE h x q = Inr ((), q') \<and> TAILQ_REMOVE_debug one h x q = Inr ((), poisoned one x q') \<and>
         tq_rep (poisoned one x q') h (as @ bs)) \<and>
      (\<exists>q'. TAILQ_REPLACE h x e q = Inr ((), q') \<and> TAILQ_REPLACE_debug one h x e q = Inr ((), poisoned one x q') \<and>
         tq_rep (poisoned one x q') h (as @ e # bs)))"
proof (intro conjI allI impI)
  from assms(2) obtain ee where ee: "ents q e = Some ee" by (auto simp: tq_cell_def)
  show "\<exists>q'. TAILQ_INSERT_HEAD_debug h e q = Inr ((), q') \<and> TAILQ_INSERT_HEAD h e q = Inr ((), q') \<and>
      tq_rep q' h (e # xs)"
    using insert_head_rep [OF assms(1,3) ee] check_insert_head_rep [OF assms(1)]
    by (auto simp: TAILQ_INSERT_HEAD_debug_def seq_m_Inr)
  show "\<exists>q'. TAILQ_INSERT_TAIL_debug h e q = Inr ((), q') \<and> TAILQ_INSERT_TAIL h e q = Inr ((), q') \<and>
      tq_rep q' h (xs @ [e])"
    using insert_tail_rep [OF assms(1,3) ee] check_insert_tail_rep [OF assms(1)]
    by (auto simp: TAILQ_INSERT_TAIL_debug_def seq_m_Inr)
  fix as x bs assume xs: "xs = as @ x # bs"
  note rep = assms(1) [unfolded xs] and new = assms(3) [unfolded xs]
  note checked = check_op_rep [OF rep]
  show "\<exists>q'. TAILQ_INSERT_AFTER_debug h x e q = Inr ((), q') \<and> TAILQ_INSERT_AFTER h x e q = Inr ((), q') \<and>
      tq_rep q' h (as @ x # e # bs)"
    using insert_after_rep [OF rep new ee] checked by (auto simp: TAILQ_INSERT_AFTER_debug_def seq_m_Inr)
  show "\<exists>q'. TAILQ_INSERT_BEFORE_debug x e q = Inr ((), q') \<and> TAILQ_INSERT_BEFORE x e q = Inr ((), q') \<and>
      tq_rep q' h (as @ e # x # bs)"
    using insert_before_rep [OF rep new ee] checked by (auto simp: TAILQ_INSERT_BEFORE_debug_def seq_m_Inr)
  show "\<exists>q'. TAILQ_REMOVE h x q = Inr ((), q') \<and> TAILQ_REMOVE_debug one h x q = Inr ((), poisoned one x q') \<and>
      tq_rep (poisoned one x q') h (as @ bs)"
    using remove_debug_rep [OF rep, of one] by (elim exE conjE) (intro exI conjI)
  show "\<exists>q'. TAILQ_REPLACE h x e q = Inr ((), q') \<and> TAILQ_REPLACE_debug one h x e q = Inr ((), poisoned one x q') \<and>
      tq_rep (poisoned one x q') h (as @ e # bs)"
    by (rule replace_debug_rep [OF rep new ee])
qed

theorem tailq_debug_agrees_witness:
  "\<exists>q q' q''. TAILQ_INSERT_HEAD_debug 0 1 demo_q = Inr ((), q) \<and> tq_rep q 0 [1] \<and>
     TAILQ_INSERT_AFTER_debug 0 1 3 q = Inr ((), q') \<and> tq_rep q' 0 [1, 3] \<and>
     TAILQ_REMOVE_debug 9 0 1 q = Inr ((), poisoned 9 1 q'') \<and> tq_rep (poisoned 9 1 q'') 0 []"
proof -
  obtain ee where "ents demo_q 1 = Some ee" using demo_q_rep(3) by (auto simp: tq_cell_def)
  from insert_head_rep [OF demo_q_rep(1) _ this] tailq_debug_agrees [OF demo_q_rep(1,3)] obtain q where
    q: "TAILQ_INSERT_HEAD_debug 0 1 demo_q = Inr ((), q)" "tq_rep q 0 [1]" "tq_cell q = tq_cell demo_q"
    using tq_same_cell by fastforce
  have "tq_cell q 3" using q(3) demo_q_rep(5) by simp
  from tailq_debug_agrees [OF q(2) this, of 9] have
    "(\<exists>q'. TAILQ_INSERT_AFTER_debug 0 1 3 q = Inr ((), q') \<and> tq_rep q' 0 [1, 3]) \<and>
     (\<exists>q''. TAILQ_REMOVE_debug 9 0 1 q = Inr ((), poisoned 9 1 q'') \<and> tq_rep (poisoned 9 1 q'') 0 [])" by fastforce
  with q show ?thesis by blast
qed

text \<open>C28: Removing an entry, not the first of its queue, that was removed before.  In a plain build, doing it at once changes nothing;
  but when another entry has been put in where it was, the second \<open>TAILQ_REMOVE\<close> succeeds and takes
  out that other entry, silently.  With \<open>QUEUEDEBUG\<close> the second removal stops at the pointers that
  the first one left.\<close>

theorem tailq_double_remove:
  assumes "tq_rep q h (as @ x # e # bs)" and "tq_cell q z" and "z \<notin> set (as @ x # e # bs)"
    and "\<not> tq_cell q one"
  shows "(\<exists>q1 q2 q3. TAILQ_REMOVE h e q = Inr ((), q1) \<and> TAILQ_REMOVE h e q1 = Inr ((), q1) \<and>
      TAILQ_INSERT_AFTER h x z q1 = Inr ((), q2) \<and> tq_rep q2 h (as @ x # z # bs) \<and>
      TAILQ_REMOVE h e q2 = Inr ((), q3) \<and> tq_rep q3 h (as @ x # bs)) \<and>
    (\<exists>q1. TAILQ_REMOVE_debug one h e q = Inr ((), q1) \<and> TAILQ_REMOVE_debug one h e q1 = Inl BadPointer)"
proof -
  have rep: "tq_rep q h ((as @ [x]) @ e # bs)" using assms(1) by simp
  from remove_rep [OF rep] obtain q' where
    q': "TAILQ_REMOVE h e q = Inr ((), q')" "tq_same q q' {h} (set (as @ [x]) \<union> set bs)" by blast
  from remove_debug_rep [OF rep, of one] q'(1) have
    run: "TAILQ_REMOVE_debug one h e q = Inr ((), poisoned one e q')" by auto
  have "\<not> tq_cell q' one" using assms(4) tq_same_cell [OF q'(2)] by simp
  then have "ents q' one = None" by (simp add: tq_cell_def)
  moreover have "one \<noteq> e" using assms(4) tq_rep_ents [OF assms(1), of e] by (auto simp: tq_cell_def)
  ultimately have "TAILQ_REMOVE_debug one h e (poisoned one e q') = Inl BadPointer" by (rule poisoned_remove)
  with run stale_remove [OF assms(1-3)] remove_again [OF assms(1) q'(1)] q'(1) show ?thesis by auto
qed

theorem tailq_double_remove_witness:
  "\<exists>q q1 q2 q3. each_m (TAILQ_INSERT_TAIL 0) [1, 2] demo_q = Inr ((), q) \<and>
     TAILQ_REMOVE 0 2 q = Inr ((), q1) \<and> TAILQ_REMOVE 0 2 q1 = Inr ((), q1) \<and>
     TAILQ_INSERT_AFTER 0 1 3 q1 = Inr ((), q2) \<and>
     tq_rep q2 0 [1, 3] \<and> TAILQ_REMOVE 0 2 q2 = Inr ((), q3) \<and> tq_rep q3 0 [1]"
proof -
  obtain q where q: "each_m (TAILQ_INSERT_TAIL 0) [1, 2] demo_q = Inr ((), q)" "tq_rep q 0 ([] @ 1 # 2 # [])"
    "tq_cell q = tq_cell demo_q"
    using tailq.put_all [OF demo_q_rep(1), of "[1, 2]"] demo_q_rep by auto
  have "tq_cell q 3" "\<not> tq_cell q 9" using q(3) demo_q_rep(5) by (simp_all add: tq_cell_def demo_q_def)
  from tailq_double_remove [OF q(2) this(1) _ this(2)] q(1) show ?thesis by auto
qed

section \<open>Traversals\<close>

text \<open>The traversals of the tail queue visit the list in order, or in reverse, when the body leaves
  the links alone.\<close>

theorem tailq_traverse:
  assumes "tq_rep (get s) h xs" and "length xs \<le> fuel"
    and "\<And>x s s'. x \<in> set xs \<Longrightarrow> body x s = Inr (True, s') \<Longrightarrow> get s' = get s"
  shows "bind_m (zoom_m get (\<lambda>_ s. s) (TAILQ_FIRST h)) (TAILQ_FOREACH fuel get body) s = for_each body xs s \<and>
    bind_m (zoom_m get (\<lambda>_ s. s) (TAILQ_LAST h)) (TAILQ_FOREACH_REVERSE fuel get body) s =
      for_each body (rev xs) s \<and>
    bind_m (zoom_m get (\<lambda>_ s. s) (TAILQ_LAST h)) (TAILQ_FOREACH_REVERSE_SAFE fuel get body) s =
      for_each body (rev xs) s"
proof -
  from rep_fchain [OF assms(1)] obtain hh where hh: "heads (get s) h = Some hh"
    "fchain (nexts (get s)) (tqh_first hh) xs" .
  have "TAILQ_FOREACH fuel get body (tqh_first hh) s = for_each body xs s"
    by (rule foreach_chain) (use hh(2) assms(2,3) in auto)
  moreover have "zoom_m get (\<lambda>_ s. s) (TAILQ_FIRST h) s = Inr (tqh_first hh, s)"
    using hh(1) by (simp add: zoom_m_def get_runs)
  ultimately show ?thesis
    using foreach_reverse_rep [of get s h xs fuel body] foreach_reverse_safe_rep [of get s h xs fuel body] assms
    by (simp add: bind_m_Inr)
qed

end
