(* ===== verification/XpcMem.thy ===== *)
theory XpcMem
  imports TailQueueRep
begin

unbundle bit_operations_syntax

text \<open>
  The memory libOpenXPC works on (\<open>libOpenXPC/xpc_internal.h\<close>): XPC objects and dictionary
  pairs at addresses, the links that chain them into arrays and dictionaries, C strings and
  byte blocks, and the allocator.  A pointer is an optional address, \<open>None\<close> being NULL.
\<close>

section \<open>Types and objects\<close>

type_synonym addr = nat
type_synonym ptr = "addr option"

text \<open>The type descriptors \<open>_xpc_type_...\<close> of \<open>xpc_type.c\<close>; objects point to one of them.\<close>

datatype xpc_type =
    XPC_TYPE_INVALID
  | XPC_TYPE_ARRAY
  | XPC_TYPE_BOOL
  | XPC_TYPE_CONNECTION
  | XPC_TYPE_DATA
  | XPC_TYPE_DATE
  | XPC_TYPE_DICTIONARY
  | XPC_TYPE_ENDPOINT
  | XPC_TYPE_NULL
  | XPC_TYPE_ERROR
  | XPC_TYPE_FD
  | XPC_TYPE_INT64
  | XPC_TYPE_UINT64
  | XPC_TYPE_SHMEM
  | XPC_TYPE_STRING
  | XPC_TYPE_UUID
  | XPC_TYPE_DOUBLE

fun type_description :: "xpc_type \<Rightarrow> string" where
  "type_description XPC_TYPE_INVALID = ''<invalid>''"
| "type_description XPC_TYPE_ARRAY = ''array''"
| "type_description XPC_TYPE_BOOL = ''bool''"
| "type_description XPC_TYPE_CONNECTION = ''connection''"
| "type_description XPC_TYPE_DATA = ''data''"
| "type_description XPC_TYPE_DATE = ''date''"
| "type_description XPC_TYPE_DICTIONARY = ''dictionary''"
| "type_description XPC_TYPE_ENDPOINT = ''endpoint''"
| "type_description XPC_TYPE_NULL = ''null''"
| "type_description XPC_TYPE_ERROR = ''error''"
| "type_description XPC_TYPE_FD = ''file descriptor''"
| "type_description XPC_TYPE_INT64 = ''int64''"
| "type_description XPC_TYPE_UINT64 = ''uint64''"
| "type_description XPC_TYPE_SHMEM = ''shared memory''"
| "type_description XPC_TYPE_STRING = ''string''"
| "type_description XPC_TYPE_UUID = ''UUID''"
| "type_description XPC_TYPE_DOUBLE = ''double''"

text \<open>
  The union \<open>xpc_u\<close>.  The scalar members \<open>ui\<close>, \<open>i\<close>, \<open>d\<close>, \<open>b\<close> and \<open>fd\<close> overlay the same eight
  bytes, little endian: \<open>b\<close> is the lowest byte and \<open>fd\<close> the lowest four.  A double is its bit
  pattern.  So these members are one constructor: reading one of them when another was written
  gives the bytes that are there, as in C, and is no fault; \<open>xpc_hash\<close> reads \<open>ui\<close> of a boolean.
  \<open>str\<close> and \<open>ptr\<close> are pointers to a string and to a block, \<open>uuid\<close> is the sixteen bytes of
  a UUID (in a build with \<open>HAVE_uuid\<close>; without it there are no objects of that type); the heads \<open>dict\<close> and
  \<open>array\<close> live in the queue memories at the object's address.  These are constructors of their own:
  reading one of them when another kind of member was written is the fault \<open>BadUnion\<close>.
\<close>

datatype xpc_u =
    U_bits "64 word"
  | U_str ptr
  | U_ptr ptr
  | U_uuid "byte list"
  | U_dict
  | U_array

record xpc_object =
  xo_xpc_type :: xpc_type
  xo_flags :: "16 word"
  xo_refcnt :: "32 word"
  xo_size :: "64 word"
  xo_u :: xpc_u

record xpc_dict_pair =
  dp_key :: ptr
  dp_value :: ptr

definition XPC_FROM_WIRE :: "16 word" where "XPC_FROM_WIRE = 0x1"

section \<open>The memory\<close>

text \<open>
  \<open>arrq\<close> holds the array heads (at array objects) and every object's \<open>xo_link\<close>; \<open>dictq\<close> holds
  the dictionary heads (at dictionary objects) and every pair's \<open>xo_link\<close>.  A string cell is the
  bytes before its NUL.  The rest is the environment: which allocation succeeds, what
  uninitialised memory reads as, \<open>dup\<close>, and the first word of the clock.
\<close>

record xmem =
  objs :: "addr \<Rightarrow> xpc_object option"
  arrq :: "(addr, addr) tq_mem"
  pairs :: "addr \<Rightarrow> xpc_dict_pair option"
  dictq :: "(addr, addr) tq_mem"
  strs :: "addr \<Rightarrow> byte list option"
  blobs :: "addr \<Rightarrow> byte list option"
  next_addr :: addr
  malloc_ok :: "addr \<Rightarrow> bool"
  stack_junk :: "64 word"
  junk_link :: "(addr, addr) tq_entry"
  sys_dup :: "32 word \<Rightarrow> 32 word"
  clock_word :: "64 word"

abbreviation arr_op :: "((addr, addr) tq_mem, 'a) op \<Rightarrow> (xmem, 'a) op" where
  "arr_op \<equiv> zoom_m arrq (\<lambda>q. arrq_update (\<lambda>_. q))"

abbreviation dict_op :: "((addr, addr) tq_mem, 'a) op \<Rightarrow> (xmem, 'a) op" where
  "dict_op \<equiv> zoom_m dictq (\<lambda>q. dictq_update (\<lambda>_. q))"

section \<open>Allocation\<close>

text \<open>\<open>malloc\<close> returns a fresh address, or NULL when this allocation is one that fails.\<close>

definition malloc :: "(xmem, ptr) op" where
  "malloc m = Inr (if malloc_ok m (next_addr m) then Some (next_addr m) else None,
     m\<lparr>next_addr := Suc (next_addr m)\<rparr>)"

text \<open>
  The static objects \<open>_xpc_bool_true\<close> and \<open>_xpc_bool_false\<close> are at the first two addresses.
  They are initialised with a type and a value only, so their reference count is 0.
\<close>

definition xpc_bool_true :: addr where "xpc_bool_true = 0"
definition xpc_bool_false :: addr where "xpc_bool_false = 1"

definition static_bool :: "bool \<Rightarrow> xpc_object" where
  "static_bool b = \<lparr>xo_xpc_type = XPC_TYPE_BOOL, xo_flags = 0, xo_refcnt = 0, xo_size = 0,
     xo_u = U_bits (if b then 1 else 0)\<rparr>"

definition free_object :: "addr \<Rightarrow> (xmem, unit) op" where
  "free_object a m =
     (if objs m a = None \<or> a = xpc_bool_true \<or> a = xpc_bool_false then Inl BadFree
      else Inr ((), m\<lparr>objs := (objs m)(a := None),
        arrq := (arrq m)\<lparr>heads := (heads (arrq m))(a := None), ents := (ents (arrq m))(a := None)\<rparr>,
        dictq := (dictq m)\<lparr>heads := (heads (dictq m))(a := None)\<rparr>\<rparr>))"

definition free_pair :: "addr \<Rightarrow> (xmem, unit) op" where
  "free_pair p m =
     (if pairs m p = None then Inl BadFree
      else Inr ((), m\<lparr>pairs := (pairs m)(p := None),
        dictq := (dictq m)\<lparr>ents := (ents (dictq m))(p := None)\<rparr>\<rparr>))"

section \<open>Field accesses\<close>

definition get_obj :: "ptr \<Rightarrow> (xmem, xpc_object) op" where
  "get_obj p = deref_m p (\<lambda>a. the_m BadPointer (\<lambda>m. objs m a))"

definition upd_obj :: "ptr \<Rightarrow> (xpc_object \<Rightarrow> xpc_object) \<Rightarrow> (xmem, unit) op" where
  "upd_obj p f = bind_m (get_obj p) (\<lambda>xo.
     modify_m (\<lambda>m. m\<lparr>objs := (objs m)(the p \<mapsto> f xo)\<rparr>))"

definition get_pair :: "addr \<Rightarrow> (xmem, xpc_dict_pair) op" where
  "get_pair p = the_m BadPointer (\<lambda>m. pairs m p)"

definition upd_pair :: "addr \<Rightarrow> (xpc_dict_pair \<Rightarrow> xpc_dict_pair) \<Rightarrow> (xmem, unit) op" where
  "upd_pair p f = bind_m (get_pair p) (\<lambda>dp.
     modify_m (\<lambda>m. m\<lparr>pairs := (pairs m)(p \<mapsto> f dp)\<rparr>))"

text \<open>Reading a string or a block: the pointer must be to one that is there.\<close>

definition get_str :: "ptr \<Rightarrow> (xmem, byte list) op" where
  "get_str p = deref_m p (\<lambda>a. the_m BadPointer (\<lambda>m. strs m a))"

definition get_bytes :: "ptr \<Rightarrow> nat \<Rightarrow> (xmem, byte list) op" where
  "get_bytes p n =
     (if n = 0 then return_m []
      else bind_m (deref_m p (\<lambda>a. the_m BadPointer (\<lambda>m. blobs m a))) (\<lambda>b.
        if n \<le> length b then return_m (take n b) else fail_m OutOfBounds))"

text \<open>Reading the union members.\<close>

definition u_ui :: "xpc_u \<Rightarrow> (xmem, 64 word) op" where
  "u_ui u = (case u of U_bits w \<Rightarrow> return_m w | _ \<Rightarrow> fail_m BadUnion)"

definition u_str :: "xpc_u \<Rightarrow> (xmem, ptr) op" where
  "u_str u = (case u of U_str p \<Rightarrow> return_m p | _ \<Rightarrow> fail_m BadUnion)"

definition u_ptr :: "xpc_u \<Rightarrow> (xmem, ptr) op" where
  "u_ptr u = (case u of U_ptr p \<Rightarrow> return_m p | _ \<Rightarrow> fail_m BadUnion)"

definition u_uuid :: "xpc_u \<Rightarrow> (xmem, byte list) op" where
  "u_uuid u = (case u of U_uuid bs \<Rightarrow> return_m bs | _ \<Rightarrow> fail_m BadUnion)"

definition u_b :: "xpc_u \<Rightarrow> (xmem, bool) op" where
  "u_b u = bind_m (u_ui u) (\<lambda>w. return_m (w AND 0xFF \<noteq> 0))"

definition u_fd :: "xpc_u \<Rightarrow> (xmem, 32 word) op" where
  "u_fd u = bind_m (u_ui u) (\<lambda>w. return_m (ucast w))"

text \<open>Writing a member that is narrower than the union keeps the bytes above it.\<close>

definition with_b :: "bool \<Rightarrow> 64 word \<Rightarrow> 64 word" where
  "with_b b w = (w AND NOT 0xFF) OR (if b then 1 else 0)"

definition with_fd :: "32 word \<Rightarrow> 64 word \<Rightarrow> 64 word" where
  "with_fd fd w = (w AND NOT 0xFFFFFFFF) OR ucast fd"

section \<open>Strings and blocks from libc\<close>

definition strlen :: "ptr \<Rightarrow> (xmem, 64 word) op" where
  "strlen p = bind_m (get_str p) (\<lambda>s. return_m (word_of_nat (length s)))"

definition new_str :: "byte list \<Rightarrow> (xmem, ptr) op" where
  "new_str s = bind_m malloc (\<lambda>p.
     case p of
       None \<Rightarrow> return_m None
     | Some a \<Rightarrow> seq_m (modify_m (\<lambda>m. m\<lparr>strs := (strs m)(a \<mapsto> s)\<rparr>)) (return_m (Some a)))"

definition strdup :: "ptr \<Rightarrow> (xmem, ptr) op" where
  "strdup p = bind_m (get_str p) new_str"

text \<open>\<open>strcmp(a, b) == 0\<close>\<close>

definition str_eq :: "ptr \<Rightarrow> ptr \<Rightarrow> (xmem, bool) op" where
  "str_eq p q = bind_m (get_str p) (\<lambda>s. bind_m (get_str q) (\<lambda>t. return_m (s = t)))"

section \<open>Reference counts\<close>

text \<open>\<open>xpc_retain\<close>: \<open>__atomic_add_fetch(&xo->xo_refcnt, 1)\<close>, modulo \<open>2 ^ 32\<close>.\<close>

definition xpc_retain :: "ptr \<Rightarrow> (xmem, ptr) op" where
  "xpc_retain obj =
     seq_m (upd_obj obj (\<lambda>xo. xo\<lparr>xo_refcnt := xo_refcnt xo + 1\<rparr>)) (return_m obj)"

section \<open>Loops over the links\<close>

text \<open>
  The loops inside the library that only search keep their local variables beside the memory.
  All addresses are below \<open>next_addr\<close>, so a chain without a cycle has no more elements than that
  and the loop ends within this fuel.
\<close>

definition walk_fuel :: "xmem \<Rightarrow> nat" where
  "walk_fuel m = Suc (next_addr m)"

definition on_mem :: "(xmem, 'a) op \<Rightarrow> ('l \<times> xmem, 'a) op" where
  "on_mem f = zoom_m snd (\<lambda>m (l, _). (l, m)) f"

definition on_local :: "('l \<Rightarrow> 'l) \<Rightarrow> ('l \<times> xmem, unit) op" where
  "on_local f = modify_m (\<lambda>(l, m). (f l, m))"

definition with_local :: "'l \<Rightarrow> ('l \<times> xmem, 'a) op \<Rightarrow> (xmem, 'a \<times> 'l) op" where
  "with_local l f m = (case f (l, m) of Inl e \<Rightarrow> Inl e | Inr (x, (l', m')) \<Rightarrow> Inr ((x, l'), m'))"

section \<open>How the accesses run\<close>

lemma get_obj_runs [exec]:
  "get_obj None m = Inl NullDeref"
  "objs m a = Some xo \<Longrightarrow> get_obj (Some a) m = Inr (xo, m)"
  "objs m a = None \<Longrightarrow> get_obj (Some a) m = Inl BadPointer"
  by (simp_all add: get_obj_def run_defs)

lemma upd_obj_runs [exec]:
  "upd_obj None f m = Inl NullDeref"
  "objs m a = Some xo \<Longrightarrow> upd_obj (Some a) f m = Inr ((), m\<lparr>objs := (objs m)(a \<mapsto> f xo)\<rparr>)"
  by (simp_all add: upd_obj_def get_obj_def run_defs)

lemma get_pair_runs [exec]: "pairs m p = Some dp \<Longrightarrow> get_pair p m = Inr (dp, m)"
  by (simp add: get_pair_def run_defs)

lemma upd_pair_runs [exec]:
  "pairs m p = Some dp \<Longrightarrow> upd_pair p f m = Inr ((), m\<lparr>pairs := (pairs m)(p \<mapsto> f dp)\<rparr>)"
  by (simp add: upd_pair_def get_pair_def run_defs)

lemma get_str_runs [exec]:
  "get_str None m = Inl NullDeref"
  "strs m a = Some s \<Longrightarrow> get_str (Some a) m = Inr (s, m)"
  by (simp_all add: get_str_def run_defs)

lemma str_eq_runs [exec]:
  "strs m a = Some s \<Longrightarrow> strs m b = Some t \<Longrightarrow> str_eq (Some a) (Some b) m = Inr (s = t, m)"
  by (simp add: str_eq_def get_str_runs run_defs)

lemma xpc_retain_runs [exec]:
  "xpc_retain None m = Inl NullDeref"
  "objs m a = Some xo \<Longrightarrow> xpc_retain (Some a) m =
     Inr (Some a, m\<lparr>objs := (objs m)(a \<mapsto> xo\<lparr>xo_refcnt := xo_refcnt xo + 1\<rparr>)\<rparr>)"
  by (simp_all add: xpc_retain_def upd_obj_runs run_defs)

lemma u_runs [exec]:
  "u_ui (U_bits w) m = Inr (w, m)" "u_str (U_str p) m = Inr (p, m)" "u_ptr (U_ptr p) m = Inr (p, m)"
  "u_uuid (U_uuid bs) m = Inr (bs, m)"
  "u_b (U_bits w) m = Inr (w AND 0xFF \<noteq> 0, m)" "u_fd (U_bits w) m = Inr (ucast w, m)"
  by (simp_all add: u_ui_def u_str_def u_ptr_def u_uuid_def u_b_def u_fd_def run_defs)

end
