(* ===== verification/XpcType.thy ===== *)
theory XpcType
  imports XpcMem
begin

text \<open>
  \<open>libOpenXPC/xpc_type.c\<close> up to \<open>xpc_get_type\<close>: the creation of objects and the typed
  accessors, with those of UUIDs (\<open>HAVE_uuid\<close>).  What is compiled only for Mach is left out here.
\<close>

section \<open>Creation of an object\<close>

definition init_object :: "addr \<Rightarrow> xpc_type \<Rightarrow> xpc_u \<Rightarrow> 64 word \<Rightarrow> 16 word \<Rightarrow> (xmem, unit) op" where
  "init_object a type u sz flags = modify_m (\<lambda>m. m\<lparr>
     objs := (objs m)(a \<mapsto> \<lparr>xo_xpc_type = type, xo_flags = flags, xo_refcnt = 1, xo_size = sz,
       xo_u = u\<rparr>),
     arrq := (arrq m)\<lparr>ents := (ents (arrq m))(a \<mapsto> junk_link m)\<rparr>\<rparr>)"

definition xpc_prim_create_flags ::
  "xpc_type \<Rightarrow> xpc_u \<Rightarrow> 64 word \<Rightarrow> 16 word \<Rightarrow> (xmem, ptr) op" where
  "xpc_prim_create_flags type u sz flags = bind_m malloc (\<lambda>xo.
     case xo of
       None \<Rightarrow> return_m None
     | Some a \<Rightarrow>
         seq_m (init_object a type u sz flags)
         (seq_m (if type = XPC_TYPE_DICTIONARY
                 then seq_m (dict_op (TAILQ_INIT a)) (upd_obj (Some a) (\<lambda>xo. xo\<lparr>xo_u := U_dict\<rparr>))
                 else return_m ())
         (seq_m (if type = XPC_TYPE_ARRAY
                 then seq_m (arr_op (TAILQ_INIT a)) (upd_obj (Some a) (\<lambda>xo. xo\<lparr>xo_u := U_array\<rparr>))
                 else return_m ())
         (return_m (Some a)))))"

definition xpc_prim_create :: "xpc_type \<Rightarrow> xpc_u \<Rightarrow> 64 word \<Rightarrow> (xmem, ptr) op" where
  "xpc_prim_create type u sz = xpc_prim_create_flags type u sz 0"

section \<open>Scalars\<close>

text \<open>The accessors' pattern: a default for NULL and for objects of another type.\<close>

definition typed_get ::
  "xpc_type \<Rightarrow> 'a \<Rightarrow> (xpc_object \<Rightarrow> (xmem, 'a) op) \<Rightarrow> ptr \<Rightarrow> (xmem, 'a) op" where
  "typed_get type dflt read obj =
     (if obj = None then return_m dflt
      else bind_m (get_obj obj) (\<lambda>xo. if xo_xpc_type xo = type then read xo else return_m dflt))"

definition xpc_null_create :: "(xmem, ptr) op" where
  "xpc_null_create = xpc_prim_create XPC_TYPE_NULL (U_bits 0) 0"

text \<open>
  \<open>val.b = value\<close> writes one byte of the uninitialised local \<open>val\<close>; the whole union is then
  copied into the object.  \<open>val.fd\<close> likewise writes four.
\<close>

definition xpc_bool_create :: "bool \<Rightarrow> (xmem, ptr) op" where
  "xpc_bool_create b = bind_m (gets_m stack_junk) (\<lambda>junk.
     xpc_prim_create XPC_TYPE_BOOL (U_bits (with_b b junk)) 1)"

definition xpc_bool_get_value :: "ptr \<Rightarrow> (xmem, bool) op" where
  "xpc_bool_get_value = typed_get XPC_TYPE_BOOL False (\<lambda>xo. u_b (xo_u xo))"

definition xpc_int64_create :: "64 word \<Rightarrow> (xmem, ptr) op" where
  "xpc_int64_create i = xpc_prim_create XPC_TYPE_INT64 (U_bits i) 1"

definition xpc_int64_get_value :: "ptr \<Rightarrow> (xmem, 64 word) op" where
  "xpc_int64_get_value = typed_get XPC_TYPE_INT64 0 (\<lambda>xo. u_ui (xo_u xo))"

definition xpc_uint64_create :: "64 word \<Rightarrow> (xmem, ptr) op" where
  "xpc_uint64_create ui = xpc_prim_create XPC_TYPE_UINT64 (U_bits ui) 1"

definition xpc_uint64_get_value :: "ptr \<Rightarrow> (xmem, 64 word) op" where
  "xpc_uint64_get_value = typed_get XPC_TYPE_UINT64 0 (\<lambda>xo. u_ui (xo_u xo))"

definition xpc_double_create :: "64 word \<Rightarrow> (xmem, ptr) op" where
  "xpc_double_create d = xpc_prim_create XPC_TYPE_DOUBLE (U_bits d) 1"

text \<open>This accessor reads the type of a NULL pointer's object too.\<close>

definition xpc_double_get_value :: "ptr \<Rightarrow> (xmem, 64 word) op" where
  "xpc_double_get_value obj = bind_m (get_obj obj) (\<lambda>xo.
     if xo_xpc_type xo = XPC_TYPE_DOUBLE then u_ui (xo_u xo) else return_m 0)"

definition xpc_date_create :: "64 word \<Rightarrow> (xmem, ptr) op" where
  "xpc_date_create interval = xpc_prim_create XPC_TYPE_DATE (U_bits interval) 1"

text \<open>\<open>*(uint64_t *)&tp\<close> is the first word of the \<open>timespec\<close>, its seconds.\<close>

definition xpc_date_create_from_current :: "(xmem, ptr) op" where
  "xpc_date_create_from_current = bind_m (gets_m clock_word) (\<lambda>ui.
     xpc_prim_create XPC_TYPE_DATE (U_bits ui) 1)"

definition xpc_date_get_value :: "ptr \<Rightarrow> (xmem, 64 word) op" where
  "xpc_date_get_value = typed_get XPC_TYPE_DATE 0 (\<lambda>xo. u_ui (xo_u xo))"

definition xpc_fd_create :: "32 word \<Rightarrow> (xmem, ptr) op" where
  "xpc_fd_create fd = bind_m (gets_m (\<lambda>m. with_fd (sys_dup m fd) (stack_junk m))) (\<lambda>w.
     xpc_prim_create XPC_TYPE_FD (U_bits w) 1)"

definition xpc_ext_fd_get_fd :: "ptr \<Rightarrow> (xmem, 32 word) op" where
  "xpc_ext_fd_get_fd = typed_get XPC_TYPE_FD (-1) (\<lambda>xo. u_fd (xo_u xo))"

section \<open>Data and strings\<close>

text \<open>The result of \<open>malloc(length)\<close> is not checked before the copy.\<close>

definition xpc_data_create :: "ptr \<Rightarrow> 64 word \<Rightarrow> (xmem, ptr) op" where
  "xpc_data_create bytes len = bind_m malloc (\<lambda>p.
     bind_m (get_bytes bytes (unat len)) (\<lambda>bs.
     seq_m (case p of
         None \<Rightarrow> if len = 0 then return_m () else fail_m NullDeref
       | Some a \<Rightarrow> modify_m (\<lambda>m. m\<lparr>blobs := (blobs m)(a \<mapsto> bs)\<rparr>))
     (xpc_prim_create XPC_TYPE_DATA (U_ptr p) len)))"

definition xpc_data_create_nocopy :: "ptr \<Rightarrow> 64 word \<Rightarrow> (xmem, ptr) op" where
  "xpc_data_create_nocopy bytes len = xpc_prim_create XPC_TYPE_DATA (U_ptr bytes) len"

definition xpc_data_get_length :: "ptr \<Rightarrow> (xmem, 64 word) op" where
  "xpc_data_get_length = typed_get XPC_TYPE_DATA 0 (\<lambda>xo. return_m (xo_size xo))"

definition xpc_data_get_bytes_ptr :: "ptr \<Rightarrow> (xmem, ptr) op" where
  "xpc_data_get_bytes_ptr = typed_get XPC_TYPE_DATA None (\<lambda>xo. u_ptr (xo_u xo))"

definition xpc_data_get_bytes :: "ptr \<Rightarrow> ptr \<Rightarrow> 64 word \<Rightarrow> 64 word \<Rightarrow> (xmem, 64 word) op" where
  "xpc_data_get_bytes obj buffer off len = return_m 0"

definition xpc_string_create :: "ptr \<Rightarrow> (xmem, ptr) op" where
  "xpc_string_create str = bind_m (strdup str) (\<lambda>p. bind_m (strlen str) (\<lambda>n.
     xpc_prim_create XPC_TYPE_STRING (U_str p) n))"

text \<open>
  The format and its arguments are given by the text they expand to.  When \<open>vasprintf\<close> fails to
  allocate, the contents of \<open>val.str\<close> are undefined, and \<open>strlen\<close> reads through it.
\<close>

definition xpc_string_create_with_format_and_arguments :: "byte list \<Rightarrow> (xmem, ptr) op" where
  "xpc_string_create_with_format_and_arguments expansion = bind_m (new_str expansion) (\<lambda>p.
     case p of
       None \<Rightarrow> fail_m BadPointer
     | Some a \<Rightarrow> bind_m (strlen (Some a)) (\<lambda>n. xpc_prim_create XPC_TYPE_STRING (U_str p) n))"

definition xpc_string_create_with_format :: "byte list \<Rightarrow> (xmem, ptr) op" where
  "xpc_string_create_with_format expansion =
     xpc_string_create_with_format_and_arguments expansion"

definition xpc_string_get_length :: "ptr \<Rightarrow> (xmem, 64 word) op" where
  "xpc_string_get_length = typed_get XPC_TYPE_STRING 0 (\<lambda>xo. return_m (xo_size xo))"

definition xpc_string_get_string_ptr :: "ptr \<Rightarrow> (xmem, ptr) op" where
  "xpc_string_get_string_ptr = typed_get XPC_TYPE_STRING None (\<lambda>xo. u_str (xo_u xo))"

section \<open>UUIDs\<close>

text \<open>
  A \<open>uuid_t\<close> is sixteen bytes.  \<open>xpc_uuid_get_bytes\<close> returns a pointer into the object: here the
  bytes that it points to, \<open>None\<close> for NULL.
\<close>

definition xpc_uuid_create :: "ptr \<Rightarrow> (xmem, ptr) op" where
  "xpc_uuid_create uuid = bind_m (get_bytes uuid 16) (\<lambda>bs. xpc_prim_create XPC_TYPE_UUID (U_uuid bs) 1)"

definition xpc_uuid_get_bytes :: "ptr \<Rightarrow> (xmem, byte list option) op" where
  "xpc_uuid_get_bytes = typed_get XPC_TYPE_UUID None
     (\<lambda>xo. bind_m (u_uuid (xo_u xo)) (\<lambda>bs. return_m (Some bs)))"

section \<open>Types and equality\<close>

definition xpc_get_type :: "ptr \<Rightarrow> (xmem, xpc_type) op" where
  "xpc_get_type obj = bind_m (get_obj obj) (\<lambda>xo. return_m (xo_xpc_type xo))"

definition xpc_equal :: "ptr \<Rightarrow> ptr \<Rightarrow> (xmem, bool) op" where
  "xpc_equal x1 x2 = return_m False"

definition xpc_get_type_name :: "ptr \<Rightarrow> (xmem, string) op" where
  "xpc_get_type_name obj = bind_m (get_obj obj) (\<lambda>xo. return_m (type_description (xo_xpc_type xo)))"

end
