(* ===== verification/XpcArray.thy ===== *)
theory XpcArray
  imports XpcType
begin

text \<open>
  \<open>libOpenXPC/xpc_array.c\<close>: arrays as tail queues of objects linked through their \<open>xo_link\<close>.
  The address \<open>&xo->xo_array\<close> is computed without an access, so a NULL array faults at the first
  access to a field; an object of another type faults at the access to a head it does not have.
\<close>

section \<open>Appending, replacing, reading\<close>

definition XPC_ARRAY_APPEND :: "64 word" where "XPC_ARRAY_APPEND = -1"

definition xpc_array_append_value :: "ptr \<Rightarrow> ptr \<Rightarrow> (xmem, unit) op" where
  "xpc_array_append_value xarray obj =
     deref_m xarray (\<lambda>a. deref_m obj (\<lambda>v.
     seq_m (arr_op (TAILQ_INSERT_TAIL a v))
     (seq_m (xpc_retain obj) (return_m ()))))"

primrec append_all :: "ptr \<Rightarrow> ptr list \<Rightarrow> (xmem, unit) op" where
  "append_all xo [] = return_m ()"
| "append_all xo (v # vs) = seq_m (xpc_array_append_value xo v) (append_all xo vs)"

definition xpc_array_create :: "ptr list \<Rightarrow> (xmem, ptr) op" where
  "xpc_array_create objects = bind_m (xpc_prim_create XPC_TYPE_ARRAY (U_bits 0) 0) (\<lambda>xo.
     seq_m (append_all xo objects) (return_m xo))"

text \<open>
  The loop of \<open>xpc_array_set_value\<close>; its local is the counter \<open>i\<close>.  The element replaced is
  given to \<open>free\<close>, whatever its reference count.
\<close>

definition set_value_body :: "addr \<Rightarrow> 64 word \<Rightarrow> ptr \<Rightarrow> addr \<Rightarrow> (64 word \<times> xmem, bool) op" where
  "set_value_body a index obj xotmp = bind_m (gets_m fst) (\<lambda>i.
     seq_m (on_local (\<lambda>i. i + 1))
     (if i = index then
        on_mem (deref_m obj (\<lambda>v.
          seq_m (arr_op (TAILQ_INSERT_AFTER a xotmp v))
          (seq_m (arr_op (TAILQ_REMOVE a xotmp))
          (seq_m (xpc_retain obj)
          (seq_m (free_object xotmp) (return_m False))))))
      else return_m True))"

definition xpc_array_set_value :: "ptr \<Rightarrow> 64 word \<Rightarrow> ptr \<Rightarrow> (xmem, unit) op" where
  "xpc_array_set_value xarray index obj =
     (if index = XPC_ARRAY_APPEND then xpc_array_append_value xarray obj
      else bind_m (get_obj xarray) (\<lambda>xo.
        if index \<ge> xo_size xo then return_m ()
        else bind_m (arr_op (TAILQ_FIRST (the xarray))) (\<lambda>f m.
          seq_m (with_local 0 (TAILQ_FOREACH_SAFE (walk_fuel m) (\<lambda>s. arrq (snd s))
                   (set_value_body (the xarray) index obj) f))
            (return_m ()) m)))"

text \<open>The locals of \<open>xpc_array_get_value\<close> are \<open>i\<close> and the pointer it returns.\<close>

definition get_value_body :: "64 word \<Rightarrow> addr \<Rightarrow> ((64 word \<times> ptr) \<times> xmem, bool) op" where
  "get_value_body index xotmp = bind_m (gets_m (\<lambda>s. fst (fst s))) (\<lambda>i.
     seq_m (on_local (\<lambda>(i, r). (i + 1, r)))
     (if i = index then seq_m (on_local (\<lambda>(i, r). (i, Some xotmp))) (return_m False)
      else return_m True))"

definition xpc_array_get_value :: "ptr \<Rightarrow> 64 word \<Rightarrow> (xmem, ptr) op" where
  "xpc_array_get_value xarray index = bind_m (get_obj xarray) (\<lambda>xo.
     if index > xo_size xo then return_m None
     else bind_m (arr_op (TAILQ_FIRST (the xarray))) (\<lambda>f m.
       bind_m (with_local (0, None) (TAILQ_FOREACH (walk_fuel m) (\<lambda>s. arrq (snd s))
                (get_value_body index) f))
         (\<lambda>(_, (i, r)). return_m r) m))"

definition xpc_array_get_count :: "ptr \<Rightarrow> (xmem, 64 word) op" where
  "xpc_array_get_count xarray = bind_m (get_obj xarray) (\<lambda>xo. return_m (xo_size xo))"

section \<open>Typed setters and getters\<close>

definition xpc_array_set_bool :: "ptr \<Rightarrow> 64 word \<Rightarrow> bool \<Rightarrow> (xmem, unit) op" where
  "xpc_array_set_bool xarray index b =
     bind_m (xpc_bool_create b) (xpc_array_set_value xarray index)"

definition xpc_array_set_int64 :: "ptr \<Rightarrow> 64 word \<Rightarrow> 64 word \<Rightarrow> (xmem, unit) op" where
  "xpc_array_set_int64 xarray index i =
     bind_m (xpc_int64_create i) (xpc_array_set_value xarray index)"

definition xpc_array_set_uint64 :: "ptr \<Rightarrow> 64 word \<Rightarrow> 64 word \<Rightarrow> (xmem, unit) op" where
  "xpc_array_set_uint64 xarray index ui =
     bind_m (xpc_uint64_create ui) (xpc_array_set_value xarray index)"

definition xpc_array_set_double :: "ptr \<Rightarrow> 64 word \<Rightarrow> 64 word \<Rightarrow> (xmem, unit) op" where
  "xpc_array_set_double xarray index d =
     bind_m (xpc_double_create d) (xpc_array_set_value xarray index)"

definition xpc_array_set_date :: "ptr \<Rightarrow> 64 word \<Rightarrow> 64 word \<Rightarrow> (xmem, unit) op" where
  "xpc_array_set_date xarray index i =
     bind_m (xpc_date_create i) (xpc_array_set_value xarray index)"

definition xpc_array_set_data :: "ptr \<Rightarrow> 64 word \<Rightarrow> ptr \<Rightarrow> 64 word \<Rightarrow> (xmem, unit) op" where
  "xpc_array_set_data xarray index data len =
     bind_m (xpc_data_create data len) (xpc_array_set_value xarray index)"

definition xpc_array_set_string :: "ptr \<Rightarrow> 64 word \<Rightarrow> ptr \<Rightarrow> (xmem, unit) op" where
  "xpc_array_set_string xarray index str =
     bind_m (xpc_string_create str) (xpc_array_set_value xarray index)"

definition xpc_array_set_uuid :: "ptr \<Rightarrow> 64 word \<Rightarrow> ptr \<Rightarrow> (xmem, unit) op" where
  "xpc_array_set_uuid xarray index value =
     bind_m (xpc_uuid_create value) (xpc_array_set_value xarray index)"

definition xpc_array_set_fd :: "ptr \<Rightarrow> 64 word \<Rightarrow> 32 word \<Rightarrow> (xmem, unit) op" where
  "xpc_array_set_fd xarray index fd =
     bind_m (xpc_fd_create fd) (xpc_array_set_value xarray index)"

definition xpc_array_get_bool :: "ptr \<Rightarrow> 64 word \<Rightarrow> (xmem, bool) op" where
  "xpc_array_get_bool xarray index = bind_m (xpc_array_get_value xarray index) xpc_bool_get_value"

definition xpc_array_get_int64 :: "ptr \<Rightarrow> 64 word \<Rightarrow> (xmem, 64 word) op" where
  "xpc_array_get_int64 xarray index = bind_m (xpc_array_get_value xarray index) xpc_int64_get_value"

definition xpc_array_get_uint64 :: "ptr \<Rightarrow> 64 word \<Rightarrow> (xmem, 64 word) op" where
  "xpc_array_get_uint64 xarray index =
     bind_m (xpc_array_get_value xarray index) xpc_uint64_get_value"

definition xpc_array_get_double :: "ptr \<Rightarrow> 64 word \<Rightarrow> (xmem, 64 word) op" where
  "xpc_array_get_double xarray index =
     bind_m (xpc_array_get_value xarray index) xpc_double_get_value"

definition xpc_array_get_date :: "ptr \<Rightarrow> 64 word \<Rightarrow> (xmem, 64 word) op" where
  "xpc_array_get_date xarray index = bind_m (xpc_array_get_value xarray index) xpc_date_get_value"

text \<open>The result is the pointer and what is stored through \<open>length\<close>.\<close>

definition xpc_array_get_data :: "ptr \<Rightarrow> 64 word \<Rightarrow> (xmem, ptr \<times> 64 word) op" where
  "xpc_array_get_data xarray index = bind_m (xpc_array_get_value xarray index) (\<lambda>xotmp.
     bind_m (xpc_data_get_length xotmp) (\<lambda>len.
     bind_m (xpc_data_get_bytes_ptr xotmp) (\<lambda>p. return_m (p, len))))"

definition xpc_array_get_uuid :: "ptr \<Rightarrow> 64 word \<Rightarrow> (xmem, byte list option) op" where
  "xpc_array_get_uuid xarray index = bind_m (xpc_array_get_value xarray index) xpc_uuid_get_bytes"

definition xpc_array_get_string :: "ptr \<Rightarrow> 64 word \<Rightarrow> (xmem, ptr) op" where
  "xpc_array_get_string xarray index =
     bind_m (xpc_array_get_value xarray index) xpc_string_get_string_ptr"

definition xpc_array_dup_fd :: "ptr \<Rightarrow> 64 word \<Rightarrow> (xmem, 32 word) op" where
  "xpc_array_dup_fd xarray index = return_m (-1)"

section \<open>Applying a function\<close>

text \<open>
  The applier runs on the memory and on what its \<open>udata\<close> points to, or on what the block
  captured.  It may change the memory, so the traversal takes its own fuel.
\<close>

definition apply_array_body ::
  "(64 word \<Rightarrow> ptr \<Rightarrow> ('u \<times> xmem, bool) op) \<Rightarrow> addr \<Rightarrow> (64 word \<times> 'u \<times> xmem, bool) op" where
  "apply_array_body applier xotmp =
     (\<lambda>(i, um). case applier i (Some xotmp) um of
        Inl e \<Rightarrow> Inl e
      | Inr (continue, um') \<Rightarrow> Inr (continue, (i + 1, um')))"

definition xpc_array_apply_fun ::
  "nat \<Rightarrow> ptr \<Rightarrow> (64 word \<Rightarrow> ptr \<Rightarrow> ('u \<times> xmem, bool) op) \<Rightarrow> ('u \<times> xmem, bool) op" where
  "xpc_array_apply_fun fuel xarray applier =
     bind_m (on_mem (deref_m xarray (\<lambda>a. arr_op (TAILQ_FIRST a)))) (\<lambda>f um.
       case TAILQ_FOREACH fuel (\<lambda>s. arrq (snd (snd s))) (apply_array_body applier) f (0, um) of
         Inl e \<Rightarrow> Inl e
       | Inr (r, (_, um')) \<Rightarrow> Inr (r, um'))"

definition xpc_array_apply ::
  "nat \<Rightarrow> ptr \<Rightarrow> (64 word \<Rightarrow> ptr \<Rightarrow> ('u \<times> xmem, bool) op) \<Rightarrow> ('u \<times> xmem, bool) op" where
  "xpc_array_apply fuel xarray applier =
     bind_m (on_mem (deref_m xarray (\<lambda>a. arr_op (TAILQ_FIRST a)))) (\<lambda>f um.
       case TAILQ_FOREACH fuel (\<lambda>s. arrq (snd (snd s))) (apply_array_body applier) f (0, um) of
         Inl e \<Rightarrow> Inl e
       | Inr (r, (_, um')) \<Rightarrow> Inr (r, um'))"

end
