(* ===== verification/XpcDict.thy ===== *)
theory XpcDict
  imports XpcType
begin

text \<open>
  \<open>libOpenXPC/xpc_dictionary.c\<close>: dictionaries as tail queues of pairs.  A pair holds the key
  pointer it was given and the value pointer.
\<close>

section \<open>Searching and setting\<close>

text \<open>
  The loop of \<open>xpc_dictionary_set_value\<close>: replace the value of the first pair with the key and
  leave the function.  The loop's result is \<open>True\<close> when no pair has it.
\<close>

definition dict_set_body :: "ptr \<Rightarrow> ptr \<Rightarrow> addr \<Rightarrow> (xmem, bool) op" where
  "dict_set_body k v pair = bind_m (get_pair pair) (\<lambda>dp.
     bind_m (str_eq (dp_key dp) k) (\<lambda>eq.
     if eq then seq_m (upd_pair pair (\<lambda>dp. dp\<lparr>dp_value := v\<rparr>)) (return_m False)
     else return_m True))"

text \<open>A new pair; the result of \<open>malloc\<close> is not checked.\<close>

definition dict_add_pair :: "ptr \<Rightarrow> ptr \<Rightarrow> ptr \<Rightarrow> (xmem, unit) op" where
  "dict_add_pair xdict k v =
     seq_m (upd_obj xdict (\<lambda>xo. xo\<lparr>xo_size := xo_size xo + 1\<rparr>))
     (bind_m malloc (\<lambda>p. deref_m p (\<lambda>pair.
     seq_m (modify_m (\<lambda>m. m\<lparr>pairs := (pairs m)(pair \<mapsto> \<lparr>dp_key = k, dp_value = v\<rparr>),
       dictq := (dictq m)\<lparr>ents := (ents (dictq m))(pair \<mapsto> junk_link m)\<rparr>\<rparr>))
     (seq_m (dict_op (TAILQ_INSERT_TAIL (the xdict) pair))
     (seq_m (xpc_retain v) (return_m ()))))))"

definition xpc_dictionary_set_value :: "ptr \<Rightarrow> ptr \<Rightarrow> ptr \<Rightarrow> (xmem, unit) op" where
  "xpc_dictionary_set_value xdict k v =
     bind_m (deref_m xdict (\<lambda>d. dict_op (TAILQ_FIRST d))) (\<lambda>f m.
       bind_m (TAILQ_FOREACH (walk_fuel m) dictq (dict_set_body k v) f)
         (\<lambda>missing. if missing then dict_add_pair xdict k v else return_m ()) m)"

primrec dict_set_all :: "ptr \<Rightarrow> (ptr \<times> ptr) list \<Rightarrow> (xmem, unit) op" where
  "dict_set_all xo [] = return_m ()"
| "dict_set_all xo (kv # kvs) =
     seq_m (xpc_dictionary_set_value xo (fst kv) (snd kv)) (dict_set_all xo kvs)"

text \<open>\<open>keys\<close> and \<open>values\<close> are the two arrays of \<open>count\<close> elements, given together.\<close>

definition xpc_dictionary_create :: "(ptr \<times> ptr) list \<Rightarrow> (xmem, ptr) op" where
  "xpc_dictionary_create kvs =
     bind_m (xpc_prim_create XPC_TYPE_DICTIONARY (U_bits 0) (word_of_nat (length kvs))) (\<lambda>xo.
     seq_m (dict_set_all xo kvs) (return_m xo))"

definition xpc_dictionary_create_reply :: "ptr \<Rightarrow> (xmem, ptr) op" where
  "xpc_dictionary_create_reply original = bind_m (get_obj original) (\<lambda>xo.
     if xo_flags xo AND XPC_FROM_WIRE = 0 then return_m None else xpc_dictionary_create [])"

text \<open>The local of \<open>xpc_dictionary_get_value\<close> is the pointer it returns.\<close>

definition dict_get_body :: "ptr \<Rightarrow> addr \<Rightarrow> (ptr \<times> xmem, bool) op" where
  "dict_get_body k pair = bind_m (on_mem (get_pair pair)) (\<lambda>dp.
     bind_m (on_mem (str_eq (dp_key dp) k)) (\<lambda>eq.
     if eq then seq_m (on_local (\<lambda>_. dp_value dp)) (return_m False)
     else return_m True))"

definition xpc_dictionary_get_value :: "ptr \<Rightarrow> ptr \<Rightarrow> (xmem, ptr) op" where
  "xpc_dictionary_get_value xdict k =
     bind_m (deref_m xdict (\<lambda>d. dict_op (TAILQ_FIRST d))) (\<lambda>f m.
       bind_m (with_local None (TAILQ_FOREACH (walk_fuel m) (\<lambda>s. dictq (snd s)) (dict_get_body k) f))
         (\<lambda>(_, r). return_m r) m)"

definition xpc_dictionary_get_count :: "ptr \<Rightarrow> (xmem, 64 word) op" where
  "xpc_dictionary_get_count xdict = bind_m (get_obj xdict) (\<lambda>xo. return_m (xo_size xo))"

section \<open>Typed setters and getters\<close>

definition xpc_dictionary_set_bool :: "ptr \<Rightarrow> ptr \<Rightarrow> bool \<Rightarrow> (xmem, unit) op" where
  "xpc_dictionary_set_bool xdict k b =
     bind_m (xpc_bool_create b) (xpc_dictionary_set_value xdict k)"

definition xpc_dictionary_set_int64 :: "ptr \<Rightarrow> ptr \<Rightarrow> 64 word \<Rightarrow> (xmem, unit) op" where
  "xpc_dictionary_set_int64 xdict k i =
     bind_m (xpc_int64_create i) (xpc_dictionary_set_value xdict k)"

definition xpc_dictionary_set_uint64 :: "ptr \<Rightarrow> ptr \<Rightarrow> 64 word \<Rightarrow> (xmem, unit) op" where
  "xpc_dictionary_set_uint64 xdict k ui =
     bind_m (xpc_uint64_create ui) (xpc_dictionary_set_value xdict k)"

definition xpc_dictionary_set_string :: "ptr \<Rightarrow> ptr \<Rightarrow> ptr \<Rightarrow> (xmem, unit) op" where
  "xpc_dictionary_set_string xdict k str =
     bind_m (xpc_string_create str) (xpc_dictionary_set_value xdict k)"

definition xpc_dictionary_get_bool :: "ptr \<Rightarrow> ptr \<Rightarrow> (xmem, bool) op" where
  "xpc_dictionary_get_bool xdict k = bind_m (xpc_dictionary_get_value xdict k) xpc_bool_get_value"

definition xpc_dictionary_get_int64 :: "ptr \<Rightarrow> ptr \<Rightarrow> (xmem, 64 word) op" where
  "xpc_dictionary_get_int64 xdict k =
     bind_m (xpc_dictionary_get_value xdict k) xpc_int64_get_value"

definition xpc_dictionary_get_uint64 :: "ptr \<Rightarrow> ptr \<Rightarrow> (xmem, 64 word) op" where
  "xpc_dictionary_get_uint64 xdict k =
     bind_m (xpc_dictionary_get_value xdict k) xpc_uint64_get_value"

definition xpc_dictionary_get_string :: "ptr \<Rightarrow> ptr \<Rightarrow> (xmem, ptr) op" where
  "xpc_dictionary_get_string xdict k =
     bind_m (xpc_dictionary_get_value xdict k) xpc_string_get_string_ptr"

section \<open>Applying a function\<close>

definition apply_dict_body ::
  "(ptr \<Rightarrow> ptr \<Rightarrow> ('u \<times> xmem, bool) op) \<Rightarrow> addr \<Rightarrow> ('u \<times> xmem, bool) op" where
  "apply_dict_body applier pair =
     bind_m (on_mem (get_pair pair)) (\<lambda>dp. applier (dp_key dp) (dp_value dp))"

definition xpc_dictionary_apply ::
  "nat \<Rightarrow> ptr \<Rightarrow> (ptr \<Rightarrow> ptr \<Rightarrow> ('u \<times> xmem, bool) op) \<Rightarrow> ('u \<times> xmem, bool) op" where
  "xpc_dictionary_apply fuel xdict applier =
     bind_m (on_mem (deref_m xdict (\<lambda>d. dict_op (TAILQ_FIRST d))))
       (TAILQ_FOREACH fuel (\<lambda>s. dictq (snd s)) (apply_dict_body applier))"

definition xpc_dictionary_apply_fun ::
  "nat \<Rightarrow> ptr \<Rightarrow> (ptr \<Rightarrow> ptr \<Rightarrow> ('u \<times> xmem, bool) op) \<Rightarrow> ('u \<times> xmem, bool) op" where
  "xpc_dictionary_apply_fun fuel xdict applier =
     bind_m (on_mem (deref_m xdict (\<lambda>d. dict_op (TAILQ_FIRST d))))
       (TAILQ_FOREACH fuel (\<lambda>s. dictq (snd s)) (apply_dict_body applier))"

end
