(* ===== verification/XpcKeeps.thy ===== *)
theory XpcKeeps
  imports XpcArray XpcDict
begin

text \<open>
  What every operation of the library keeps.  A relation between the state before and after that
  is reflexive and transitive is kept by a sequence of operations if each of them keeps it; the
  locale states this once, together with the faults that may happen.  It is used for the queue
  macros, which create and destroy no cell, and for the memory, whose allocation discipline
  (\<open>mem_ok\<close>) no operation breaks, and in which no operation mistakes the type of an object.
\<close>

section \<open>Relations that sequences keep\<close>

definition keeps_or :: "('s \<Rightarrow> 's \<Rightarrow> bool) \<Rightarrow> ('s \<Rightarrow> fault \<Rightarrow> bool) \<Rightarrow> ('s, 'a) op \<Rightarrow> bool" where
  "keeps_or R G f \<longleftrightarrow> (\<forall>s. (\<forall>x s'. f s = Inr (x, s') \<longrightarrow> R s s') \<and> (\<forall>e. f s = Inl e \<longrightarrow> G s e))"

abbreviation keeps :: "('s \<Rightarrow> 's \<Rightarrow> bool) \<Rightarrow> ('s, 'a) op \<Rightarrow> bool" where
  "keeps R \<equiv> keeps_or R (\<lambda>_ _. True)"

lemma keeps_orI:
  "(\<And>s x s'. f s = Inr (x, s') \<Longrightarrow> R s s') \<Longrightarrow> (\<And>s e. f s = Inl e \<Longrightarrow> G s e) \<Longrightarrow> keeps_or R G f"
  by (simp add: keeps_or_def)

lemma keepsI: "(\<And>s x s'. f s = Inr (x, s') \<Longrightarrow> R s s') \<Longrightarrow> keeps R f"
  by (simp add: keeps_or_def)

lemma keepsD: "keeps_or R G f \<Longrightarrow> f s = Inr (x, s') \<Longrightarrow> R s s'"
  by (auto simp: keeps_or_def)

lemma keeps_failD: "keeps_or R G f \<Longrightarrow> f s = Inl e \<Longrightarrow> G s e"
  by (auto simp: keeps_or_def)

lemma keeps_fail_any [simp]: "keeps R (fail_m e)"
  by (simp add: keeps_or_def fail_m_def)

lemma next_faults: "TAILQ_NEXT e q = Inl f \<Longrightarrow> f = BadPointer"
  by (auto simp: TAILQ_NEXT_def get_ent_def run_defs split: option.splits)

locale kept =
  fixes R :: "'s \<Rightarrow> 's \<Rightarrow> bool"
    and G :: "'s \<Rightarrow> fault \<Rightarrow> bool"
  assumes R_refl: "R s s"
    and R_trans: "R s t \<Longrightarrow> R t u \<Longrightarrow> R s u"
    and G_back: "R s t \<Longrightarrow> G t e \<Longrightarrow> G s e"
    and G_other: "e \<noteq> BadUnion \<Longrightarrow> G s e"
begin

lemma keeps_return: "keeps_or R G (return_m x)"
  by (simp add: keeps_or_def return_m_def R_refl)

lemma keeps_fail: "e \<noteq> BadUnion \<Longrightarrow> keeps_or R G (fail_m e)"
  by (simp add: keeps_or_def fail_m_def G_other)

lemma keeps_faults:
  "keeps_or R G (fail_m NullDeref)" "keeps_or R G (fail_m BadPointer)" "keeps_or R G (fail_m BadFree)"
  "keeps_or R G (fail_m OutOfBounds)" "keeps_or R G (fail_m BadHead)" "keeps_or R G (fail_m Diverges)"
  by (simp_all add: keeps_fail)

lemma keeps_gets: "keeps_or R G (gets_m f)"
  by (simp add: keeps_or_def gets_m_def R_refl)

lemma keeps_the: "keeps_or R G (the_m BadPointer f)" "keeps_or R G (the_m BadHead f)"
  by (auto simp: keeps_or_def the_m_def R_refl intro: G_other split: option.splits)

lemma keeps_bind: "keeps_or R G f \<Longrightarrow> (\<And>x. keeps_or R G (g x)) \<Longrightarrow> keeps_or R G (bind_m f g)"
  unfolding keeps_or_def bind_m_def
  by (auto split: sum.splits) (metis R_trans, metis G_back)

lemma keeps_seq: "keeps_or R G f \<Longrightarrow> keeps_or R G g \<Longrightarrow> keeps_or R G (seq_m f g)"
  unfolding keeps_or_def seq_m_def
  by (auto split: sum.splits) (metis R_trans, metis G_back)

lemma keeps_deref: "(\<And>a. keeps_or R G (f a)) \<Longrightarrow> keeps_or R G (deref_m p f)"
  by (cases p) (auto simp: keeps_fail)

lemma keeps_if: "keeps_or R G f \<Longrightarrow> keeps_or R G g \<Longrightarrow> keeps_or R G (if b then f else g)"
  by simp

lemma keeps_option:
  "keeps_or R G f \<Longrightarrow> (\<And>a. keeps_or R G (g a)) \<Longrightarrow> keeps_or R G (case p of None \<Rightarrow> f | Some a \<Rightarrow> g a)"
  by (cases p) auto

lemma keeps_pair: "(\<And>a b. keeps_or R G (g a b)) \<Longrightarrow> keeps_or R G (case p of (a, b) \<Rightarrow> g a b)"
  by (cases p) auto

lemma keeps_bind_walk:
  "keeps_or R G f \<Longrightarrow> (\<And>x n. keeps_or R G (g x n)) \<Longrightarrow> keeps_or R G (bind_m f (\<lambda>x s. g x (N s) s))"
  by (rule keeps_bind) (auto simp: keeps_or_def)

lemma keeps_next: "keeps_or R G (zoom_m get (\<lambda>_ s. s) (TAILQ_NEXT e))"
  by (auto simp: keeps_or_def zoom_m_def R_refl G_other dest: next_faults split: sum.splits)

lemma keeps_foreach:
  "(\<And>e. keeps_or R G (body e)) \<Longrightarrow> keeps_or R G (TAILQ_FOREACH fuel get body p)"
  by (induction fuel get body p rule: TAILQ_FOREACH.induct)
    (auto intro!: keeps_return keeps_faults keeps_bind keeps_next)

lemma keeps_foreach_safe:
  "(\<And>e. keeps_or R G (body e)) \<Longrightarrow> keeps_or R G (TAILQ_FOREACH_SAFE fuel get body p)"
  by (induction fuel get body p rule: TAILQ_FOREACH_SAFE.induct)
    (auto intro!: keeps_return keeps_faults keeps_bind keeps_next)

lemmas keeps_intros = keeps_return keeps_faults keeps_gets keeps_the keeps_bind keeps_seq
  keeps_deref keeps_if keeps_option keeps_pair keeps_foreach keeps_foreach_safe

end

section \<open>Queue macros create and destroy no cell\<close>

definition same_cells :: "('h, 'e) tq_mem \<Rightarrow> ('h, 'e) tq_mem \<Rightarrow> bool" where
  "same_cells q q' \<longleftrightarrow> (\<forall>h. heads q' h = None \<longleftrightarrow> heads q h = None) \<and>
     (\<forall>e. ents q' e = None \<longleftrightarrow> ents q e = None)"

abbreviation keeps_cells :: "(('h, 'e) tq_mem, 'a) op \<Rightarrow> bool" where
  "keeps_cells \<equiv> keeps_or same_cells (\<lambda>_ e. e \<noteq> BadUnion)"

interpretation cells: kept same_cells "\<lambda>_ e. e \<noteq> BadUnion"
  by unfold_locales (auto simp: same_cells_def)

lemma keeps_get_cell: "keeps_cells (get_head h)" "keeps_cells (get_ent e)"
  by (simp_all add: get_head_def get_ent_def cells.keeps_the)

lemma keeps_set_cell:
  "keeps_cells (set_first h p)" "keeps_cells (set_last h l)"
  "keeps_cells (set_next e p)" "keeps_cells (set_prev e l)"
  by (auto simp: keeps_or_def same_cells_def tq_defs run_defs split: option.splits)

lemma keeps_store_loc: "keeps_cells (store_loc l p)"
  by (cases l) (simp_all add: keeps_set_cell)

lemma keeps_load_loc: "keeps_cells (load_loc l)" "keeps_cells (second_word l)"
  by (cases l, auto intro!: cells.keeps_intros keeps_get_cell)+

lemmas tq_keeps = keeps_get_cell keeps_set_cell keeps_store_loc keeps_load_loc cells.keeps_intros

lemma tailq_keeps:
  "keeps_cells (TAILQ_FIRST h)" "keeps_cells (TAILQ_NEXT e)"
  "keeps_cells (TAILQ_INSERT_TAIL h e)" "keeps_cells (TAILQ_INSERT_AFTER h e e')"
  "keeps_cells (TAILQ_REMOVE h e)"
  unfolding TAILQ_FIRST_def TAILQ_NEXT_def TAILQ_INSERT_TAIL_def TAILQ_INSERT_AFTER_def TAILQ_REMOVE_def
  by (intro tq_keeps)+

section \<open>The allocation discipline\<close>

text \<open>
  Everything allocated is below \<open>next_addr\<close>, the static booleans included; an object has a link,
  an array object an array head, a dictionary object a dictionary head, a pair a link, and
  nothing else has one.  The member of an object's union that is live is the one its type names.
\<close>

definition scalar_type :: "xpc_type \<Rightarrow> bool" where
  "scalar_type t \<longleftrightarrow> t \<in> {XPC_TYPE_NULL, XPC_TYPE_BOOL, XPC_TYPE_INT64, XPC_TYPE_UINT64,
     XPC_TYPE_DOUBLE, XPC_TYPE_DATE, XPC_TYPE_FD, XPC_TYPE_ENDPOINT}"

fun member_of :: "xpc_u \<Rightarrow> xpc_type \<Rightarrow> bool" where
  "member_of (U_bits w) t = scalar_type t"
| "member_of (U_str p) t = (t = XPC_TYPE_STRING)"
| "member_of (U_ptr p) t = (t = XPC_TYPE_DATA)"
| "member_of (U_uuid bs) t = (t = XPC_TYPE_UUID)"
| "member_of U_dict t = (t = XPC_TYPE_DICTIONARY)"
| "member_of U_array t = (t = XPC_TYPE_ARRAY)"

definition typed :: "xmem \<Rightarrow> bool" where
  "typed m \<longleftrightarrow> (\<forall>a xo. objs m a = Some xo \<longrightarrow> member_of (xo_u xo) (xo_xpc_type xo))"

definition is_type :: "xmem \<Rightarrow> addr \<Rightarrow> xpc_type \<Rightarrow> bool" where
  "is_type m a t \<longleftrightarrow> (case objs m a of None \<Rightarrow> False | Some xo \<Rightarrow> xo_xpc_type xo = t)"

definition mem_ok :: "xmem \<Rightarrow> bool" where
  "mem_ok m \<longleftrightarrow> typed m \<and> objs m xpc_bool_true \<noteq> None \<and> objs m xpc_bool_false \<noteq> None \<and>
     (\<forall>a \<ge> next_addr m. objs m a = None \<and> pairs m a = None \<and> strs m a = None \<and> blobs m a = None) \<and>
     (\<forall>a. (ents (arrq m) a = None \<longleftrightarrow> objs m a = None) \<and>
          (ents (dictq m) a = None \<longleftrightarrow> pairs m a = None) \<and>
          (heads (arrq m) a = None \<longleftrightarrow> \<not> is_type m a XPC_TYPE_ARRAY) \<and>
          (heads (dictq m) a = None \<longleftrightarrow> \<not> is_type m a XPC_TYPE_DICTIONARY))"

lemma typed_upd [simp]:
  "typed (m\<lparr>arrq := q\<rparr>) = typed m" "typed (m\<lparr>dictq := q\<rparr>) = typed m"
  "typed (m\<lparr>pairs := p\<rparr>) = typed m" "typed (m\<lparr>strs := ss\<rparr>) = typed m"
  "typed (m\<lparr>blobs := bs\<rparr>) = typed m" "typed (m\<lparr>next_addr := n\<rparr>) = typed m"
  by (simp_all add: typed_def)

lemma typed_insert: "typed m \<Longrightarrow> member_of (xo_u xo) (xo_xpc_type xo) \<Longrightarrow>
    typed (m\<lparr>objs := (objs m)(a \<mapsto> xo)\<rparr>)"
  by (simp add: typed_def)

lemma is_type_upd [simp]:
  "is_type (m\<lparr>arrq := q\<rparr>) a t = is_type m a t" "is_type (m\<lparr>dictq := q\<rparr>) a t = is_type m a t"
  "is_type (m\<lparr>pairs := p\<rparr>) a t = is_type m a t" "is_type (m\<lparr>strs := ss\<rparr>) a t = is_type m a t"
  "is_type (m\<lparr>blobs := bs\<rparr>) a t = is_type m a t" "is_type (m\<lparr>next_addr := n\<rparr>) a t = is_type m a t"
  by (simp_all add: is_type_def)

text \<open>
  What an operation may do to a memory in that discipline: allocate, and change or free objects
  and pairs.  Strings and blocks are never changed or freed, and the environment stays.
\<close>

definition same_env :: "xmem \<Rightarrow> xmem \<Rightarrow> bool" where
  "same_env m m' \<longleftrightarrow> malloc_ok m' = malloc_ok m \<and> stack_junk m' = stack_junk m \<and>
     junk_link m' = junk_link m \<and> sys_dup m' = sys_dup m \<and> clock_word m' = clock_word m"

definition mem_step :: "xmem \<Rightarrow> xmem \<Rightarrow> bool" where
  "mem_step m m' \<longleftrightarrow> (mem_ok m \<longrightarrow> mem_ok m' \<and> next_addr m \<le> next_addr m' \<and>
     strs m \<subseteq>\<^sub>m strs m' \<and> blobs m \<subseteq>\<^sub>m blobs m' \<and> same_env m m')"

text \<open>In that discipline no operation reads a member of a union that is not live.\<close>

definition no_confusion :: "xmem \<Rightarrow> fault \<Rightarrow> bool" where
  "no_confusion m e \<longleftrightarrow> (mem_ok m \<longrightarrow> e \<noteq> BadUnion)"

abbreviation sound :: "(xmem, 'a) op \<Rightarrow> bool" where
  "sound \<equiv> keeps_or mem_step no_confusion"

interpretation mem: kept mem_step no_confusion
  by unfold_locales (auto simp: mem_step_def same_env_def no_confusion_def intro: map_le_trans)

section \<open>The accesses keep the discipline\<close>

lemma keeps_arr_op:
  assumes "keeps_cells f"
  shows "sound (arr_op f)"
  by (rule keeps_orI, use keepsD [OF assms] in
      \<open>fastforce elim!: zoom_m_InrE simp: mem_step_def mem_ok_def same_cells_def same_env_def\<close>)
    (use keeps_failD [OF assms] in \<open>auto simp: zoom_m_def no_confusion_def split: sum.splits\<close>)

lemma keeps_dict_op:
  assumes "keeps_cells f"
  shows "sound (dict_op f)"
  by (rule keeps_orI, use keepsD [OF assms] in
      \<open>fastforce elim!: zoom_m_InrE simp: mem_step_def mem_ok_def same_cells_def same_env_def\<close>)
    (use keeps_failD [OF assms] in \<open>auto simp: zoom_m_def no_confusion_def split: sum.splits\<close>)

lemma keeps_gets_obj: "sound (get_obj p)" "sound (get_pair a)"
  "sound (get_str p)" "sound (get_bytes p n)" "sound (str_eq p q)"
  "sound (strlen p)"
  unfolding get_obj_def get_pair_def get_str_def get_bytes_def str_eq_def strlen_def
  by (intro mem.keeps_intros)+

text \<open>What is read of an object depends on its type, and the type says which member is live.\<close>

lemma keeps_bind_obj:
  assumes "\<And>xo. member_of (xo_u xo) (xo_xpc_type xo) \<Longrightarrow> sound (g xo)"
  shows "sound (bind_m (get_obj p) g)"
proof (cases p)
  case None
  then show ?thesis by (simp add: keeps_or_def no_confusion_def bind_m_def get_obj_runs)
next
  case (Some a)
  show ?thesis
  proof (rule keeps_orI)
    fix m x m'
    assume run: "bind_m (get_obj p) g m = Inr (x, m')"
    with Some obtain xo where o: "objs m a = Some xo" "g xo m = Inr (x, m')"
      by (cases "objs m a") (auto simp: bind_m_def get_obj_runs)
    show "mem_step m m'"
    proof (cases "mem_ok m")
      case True
      then have "sound (g xo)" using o(1) assms by (simp add: mem_ok_def typed_def)
      then show ?thesis using o(2) by (rule keepsD)
    qed (simp add: mem_step_def)
  next
    fix m e
    assume run: "bind_m (get_obj p) g m = Inl e"
    show "no_confusion m e"
    proof (cases "objs m a")
      case None
      with Some run show ?thesis by (auto simp: bind_m_def get_obj_runs no_confusion_def)
    next
      case (Some xo)
      with \<open>p = Some a\<close> run have g: "g xo m = Inl e" by (simp add: bind_m_def get_obj_runs)
      have "mem_ok m \<Longrightarrow> sound (g xo)" using Some assms by (simp add: mem_ok_def typed_def)
      with g show ?thesis using keeps_failD [of mem_step no_confusion "g xo" m e]
        by (auto simp: no_confusion_def)
    qed
  qed
qed

lemma keeps_u:
  "member_of u t \<Longrightarrow> scalar_type t \<Longrightarrow>
     sound (u_ui u) \<and> sound (u_b u) \<and> sound (u_fd u)"
  "member_of u XPC_TYPE_STRING \<Longrightarrow> sound (u_str u)"
  "member_of u XPC_TYPE_DATA \<Longrightarrow> sound (u_ptr u)"
  "member_of u XPC_TYPE_UUID \<Longrightarrow> sound (u_uuid u)"
  unfolding u_b_def u_fd_def u_ui_def u_str_def u_ptr_def u_uuid_def
  by (cases u; auto simp: scalar_type_def intro!: mem.keeps_intros)+

lemma keeps_upd_obj:
  assumes "\<And>xo. xo_xpc_type (f xo) = xo_xpc_type xo \<and> xo_u (f xo) = xo_u xo"
  shows "sound (upd_obj p f)"
proof (rule keeps_orI)
  fix m x m'
  assume "upd_obj p f m = Inr (x, m')"
  then obtain a xo where o: "objs m a = Some xo" and m': "m' = m\<lparr>objs := (objs m)(a \<mapsto> f xo)\<rparr>"
    by (cases p) (auto simp: upd_obj_def get_obj_def run_defs split: option.splits)
  then have "is_type m' b t = is_type m b t" for b t
    using assms by (simp add: is_type_def)
  moreover have "typed m \<Longrightarrow> typed m'" using o(1) assms by (auto simp: m' typed_def)
  ultimately show "mem_step m m'" using o
    by (auto simp: mem_step_def mem_ok_def same_env_def m' simp del: not_None_eq)
qed (auto simp: no_confusion_def upd_obj_def get_obj_def deref_m_def run_defs split: option.splits)

lemma keeps_upd_pair: "sound (upd_pair p f)"
proof (rule keeps_orI)
  fix m x m'
  assume "upd_pair p f m = Inr (x, m')"
  then obtain dp where "pairs m p = Some dp" and m': "m' = m\<lparr>pairs := (pairs m)(p \<mapsto> f dp)\<rparr>"
    by (auto simp: upd_pair_def get_pair_def run_defs split: option.splits)
  then show "mem_step m m'"
    by (auto simp: mem_step_def mem_ok_def same_env_def m' simp del: not_None_eq)
qed (auto simp: no_confusion_def upd_pair_def get_pair_def run_defs split: option.splits)

lemma keeps_retain: "sound (xpc_retain p)"
  unfolding xpc_retain_def by (intro mem.keeps_intros keeps_upd_obj) simp

lemma mem_step_next: "mem_step m (m\<lparr>next_addr := Suc (next_addr m)\<rparr>)"
  by (simp add: mem_step_def mem_ok_def same_env_def)

lemma keeps_malloc: "sound malloc"
  by (rule keeps_orI) (auto simp: malloc_def mem_step_next)

lemma keeps_new_str: "sound (new_str s)"
proof (rule keeps_orI)
  fix m x m'
  assume "new_str s m = Inr (x, m')"
  then have "m' = m\<lparr>next_addr := Suc (next_addr m)\<rparr> \<or>
    m' = m\<lparr>next_addr := Suc (next_addr m), strs := (strs m)(next_addr m \<mapsto> s)\<rparr>"
    by (auto simp: new_str_def malloc_def run_defs split: if_splits)
  then show "mem_step m m'"
    using mem_step_next [of m]
    by (auto simp: mem_step_def mem_ok_def same_env_def map_le_def simp del: not_None_eq)
qed (auto simp: new_str_def malloc_def run_defs split: if_splits)

lemma keeps_strdup: "sound (strdup p)"
  unfolding strdup_def by (intro mem.keeps_intros keeps_gets_obj keeps_new_str)

lemma keeps_free_object: "sound (free_object a)"
proof (rule keeps_orI)
  fix m x m'
  assume "free_object a m = Inr (x, m')"
  then have a: "a \<noteq> xpc_bool_true" "a \<noteq> xpc_bool_false" and m': "m' = m\<lparr>objs := (objs m)(a := None),
      arrq := (arrq m)\<lparr>heads := (heads (arrq m))(a := None), ents := (ents (arrq m))(a := None)\<rparr>,
      dictq := (dictq m)\<lparr>heads := (heads (dictq m))(a := None)\<rparr>\<rparr>"
    by (auto simp: free_object_def split: if_splits)
  have "is_type m' b t \<longleftrightarrow> b \<noteq> a \<and> is_type m b t" for b t
    by (simp add: is_type_def m')
  moreover have "typed m \<Longrightarrow> typed m'" by (auto simp: typed_def m')
  ultimately show "mem_step m m'" using a
    by (auto simp: mem_step_def mem_ok_def same_env_def m' simp del: not_None_eq)
qed (auto simp: free_object_def no_confusion_def split: if_splits)

lemma keeps_free_pair: "sound (free_pair p)"
  by (rule keeps_orI) (auto simp: free_pair_def no_confusion_def mem_step_def mem_ok_def same_env_def
      simp del: not_None_eq split: if_splits)

section \<open>A new object\<close>

text \<open>The memory after the creation of an object at \<open>next_addr\<close>.\<close>

definition new_object :: "xpc_type \<Rightarrow> xpc_u \<Rightarrow> 64 word \<Rightarrow> 16 word \<Rightarrow> xmem \<Rightarrow> xmem" where
  "new_object type u sz flags m = (let a = next_addr m; hd = \<lparr>tqh_first = None, tqh_last = HeadFirst a\<rparr> in
     m\<lparr>next_addr := Suc a,
       objs := (objs m)(a \<mapsto> \<lparr>xo_xpc_type = type, xo_flags = flags, xo_refcnt = 1, xo_size = sz,
         xo_u = (if type = XPC_TYPE_DICTIONARY then U_dict else if type = XPC_TYPE_ARRAY then U_array
                 else u)\<rparr>),
       arrq := \<lparr>heads = (if type = XPC_TYPE_ARRAY then (heads (arrq m))(a \<mapsto> hd) else heads (arrq m)),
         ents = (ents (arrq m))(a \<mapsto> junk_link m)\<rparr>,
       dictq := (if type = XPC_TYPE_DICTIONARY
         then (dictq m)\<lparr>heads := (heads (dictq m))(a \<mapsto> hd)\<rparr> else dictq m)\<rparr>)"

lemma prim_create_runs [exec]:
  "malloc_ok m (next_addr m) \<Longrightarrow> xpc_prim_create_flags type u sz flags m =
     Inr (Some (next_addr m), new_object type u sz flags m)"
  "\<not> malloc_ok m (next_addr m) \<Longrightarrow> xpc_prim_create_flags type u sz flags m =
     Inr (None, m\<lparr>next_addr := Suc (next_addr m)\<rparr>)"
  by (simp_all add: xpc_prim_create_flags_def malloc_def init_object_def TAILQ_INIT_def upd_obj_def
      get_obj_def new_object_def run_defs Let_def)

text \<open>The member given must be the one of the type; the queue types have their heads set up.\<close>

abbreviation creatable :: "xpc_type \<Rightarrow> xpc_u \<Rightarrow> bool" where
  "creatable type u \<equiv> type \<in> {XPC_TYPE_ARRAY, XPC_TYPE_DICTIONARY} \<or> member_of u type"

lemma new_object_step:
  assumes "creatable type u"
  shows "mem_step m (new_object type u sz flags m)"
proof -
  let ?m = "new_object type u sz flags m"
  have t: "is_type ?m b t \<longleftrightarrow> (if b = next_addr m then t = type else is_type m b t)" for b t
    by (auto simp: is_type_def new_object_def Let_def)
  have "typed m \<Longrightarrow> typed ?m" using assms by (auto simp: typed_def new_object_def Let_def)
  then show ?thesis
    unfolding mem_step_def mem_ok_def same_env_def t
    by (auto simp: new_object_def Let_def is_type_def simp del: not_None_eq split: option.splits)
qed

lemma mem_ok_new_object:
  "mem_ok m \<Longrightarrow> creatable t u \<Longrightarrow> mem_ok (new_object t u sz fl m) \<and> same_env m (new_object t u sz fl m)"
  using new_object_step [of t u m] by (simp add: mem_step_def)

lemma keeps_prim_create:
  assumes "creatable type u"
  shows "sound (xpc_prim_create_flags type u sz flags)" and "sound (xpc_prim_create type u sz)"
proof -
  show "sound (xpc_prim_create_flags type u sz flags)" for flags
    by (rule keeps_orI; case_tac "malloc_ok s (next_addr s)")
      (auto simp: prim_create_runs new_object_step [OF assms] mem_step_next)
  then show "sound (xpc_prim_create type u sz)" by (simp add: xpc_prim_create_def)
qed

lemma keeps_creates:
  "sound (xpc_prim_create XPC_TYPE_NULL (U_bits w) n)" "sound (xpc_prim_create XPC_TYPE_BOOL (U_bits w) n)"
  "sound (xpc_prim_create XPC_TYPE_INT64 (U_bits w) n)" "sound (xpc_prim_create XPC_TYPE_UINT64 (U_bits w) n)"
  "sound (xpc_prim_create XPC_TYPE_DOUBLE (U_bits w) n)" "sound (xpc_prim_create XPC_TYPE_DATE (U_bits w) n)"
  "sound (xpc_prim_create XPC_TYPE_FD (U_bits w) n)" "sound (xpc_prim_create XPC_TYPE_STRING (U_str p) n)"
  "sound (xpc_prim_create XPC_TYPE_DATA (U_ptr p) n)" "sound (xpc_prim_create XPC_TYPE_ARRAY u n)"
  "sound (xpc_prim_create XPC_TYPE_DICTIONARY u n)"
  by (simp_all add: keeps_prim_create scalar_type_def)

section \<open>Every operation keeps the discipline\<close>

lemma keeps_gets_mem: "sound (gets_m f)"
  by (rule mem.keeps_gets)

lemma keeps_if_type:
  "(xo_xpc_type xo = t \<Longrightarrow> sound f) \<Longrightarrow> sound g \<Longrightarrow> sound (if xo_xpc_type xo = t then f else g)"
  by simp

lemma keeps_if_types:
  "(xo_xpc_type xo \<in> T \<Longrightarrow> sound f) \<Longrightarrow> sound g \<Longrightarrow> sound (if xo_xpc_type xo \<in> T then f else g)"
  by simp

lemma keeps_typed_get:
  assumes "\<And>xo. member_of (xo_u xo) type \<Longrightarrow> sound (read xo)"
  shows "sound (typed_get type dflt read obj)"
  unfolding typed_get_def
  by (intro mem.keeps_if mem.keeps_return keeps_bind_obj keeps_if_type) (use assms in auto)

lemma typed_gets:
  "sound (typed_get XPC_TYPE_BOOL b (\<lambda>xo. u_b (xo_u xo)) p)"
  "sound (typed_get XPC_TYPE_INT64 w (\<lambda>xo. u_ui (xo_u xo)) p)"
  "sound (typed_get XPC_TYPE_UINT64 w (\<lambda>xo. u_ui (xo_u xo)) p)"
  "sound (typed_get XPC_TYPE_DATE w (\<lambda>xo. u_ui (xo_u xo)) p)"
  "sound (typed_get XPC_TYPE_FD fd (\<lambda>xo. u_fd (xo_u xo)) p)"
  "sound (typed_get XPC_TYPE_DATA q (\<lambda>xo. u_ptr (xo_u xo)) p)"
  "sound (typed_get XPC_TYPE_STRING q (\<lambda>xo. u_str (xo_u xo)) p)"
  "sound (typed_get t w (\<lambda>xo. return_m (xo_size xo)) p)"
  by (intro keeps_typed_get; simp add: keeps_u mem.keeps_return scalar_type_def)+

lemmas mem_keeps = mem.keeps_intros keeps_gets_obj keeps_upd_pair keeps_retain keeps_malloc
  keeps_new_str keeps_strdup keeps_free_object keeps_free_pair keeps_creates
  keeps_arr_op keeps_dict_op tailq_keeps

lemma keeps_double_get: "sound (xpc_double_get_value p)"
  unfolding xpc_double_get_value_def
  by (intro keeps_bind_obj keeps_if_type mem.keeps_return) (simp add: keeps_u scalar_type_def)

lemma type_ops_keep:
  "sound xpc_null_create" "sound (xpc_bool_create b)"
  "sound (xpc_int64_create w)" "sound (xpc_uint64_create w)"
  "sound (xpc_double_create w)" "sound (xpc_date_create w)"
  "sound xpc_date_create_from_current" "sound (xpc_fd_create fd)"
  "sound (xpc_data_create_nocopy p w)" "sound (xpc_string_create p)"
  "sound (xpc_bool_get_value p)" "sound (xpc_int64_get_value p)"
  "sound (xpc_uint64_get_value p)" "sound (xpc_double_get_value p)"
  "sound (xpc_date_get_value p)" "sound (xpc_ext_fd_get_fd p)"
  "sound (xpc_data_get_length p)" "sound (xpc_data_get_bytes_ptr p)"
  "sound (xpc_string_get_length p)" "sound (xpc_string_get_string_ptr p)"
  "sound (xpc_string_create_with_format bs)"
  unfolding xpc_null_create_def xpc_bool_create_def xpc_int64_create_def xpc_uint64_create_def
    xpc_double_create_def xpc_date_create_def xpc_date_create_from_current_def xpc_fd_create_def
    xpc_data_create_nocopy_def xpc_string_create_def xpc_bool_get_value_def xpc_int64_get_value_def
    xpc_uint64_get_value_def xpc_date_get_value_def xpc_ext_fd_get_fd_def
    xpc_data_get_length_def xpc_data_get_bytes_ptr_def xpc_string_get_length_def
    xpc_string_get_string_ptr_def xpc_string_create_with_format_def
    xpc_string_create_with_format_and_arguments_def
  by (intro typed_gets keeps_double_get mem_keeps)+

lemma keeps_uuid: "sound (xpc_uuid_create p)" "sound (xpc_uuid_get_bytes p)"
  unfolding xpc_uuid_create_def xpc_uuid_get_bytes_def
  by (intro mem.keeps_bind keeps_gets_obj keeps_prim_create keeps_typed_get mem.keeps_return keeps_u(4); simp)+

lemma get_bytes_state: "get_bytes p n m = Inr (bs, m') \<Longrightarrow> m' = m"
  by (auto simp: get_bytes_def deref_m_def run_defs split: if_splits option.splits)

lemma get_bytes_faults: "get_bytes p n m = Inl e \<Longrightarrow> e \<noteq> BadUnion"
  by (auto simp: get_bytes_def deref_m_def run_defs split: if_splits option.splits)

lemma keeps_data_create: "sound (xpc_data_create p n)"
proof -
  have "sound (bind_m malloc (\<lambda>q. bind_m (get_bytes p (unat n)) (\<lambda>bs.
      seq_m (case q of None \<Rightarrow> if n = 0 then return_m () else fail_m NullDeref
        | Some a \<Rightarrow> modify_m (\<lambda>m. m\<lparr>blobs := (blobs m)(a \<mapsto> bs)\<rparr>)) (return_m q))))" (is "sound ?f")
  proof (rule keeps_orI)
    fix m x m'
    assume "?f m = Inr (x, m')"
    then have "m' = m\<lparr>next_addr := Suc (next_addr m)\<rparr> \<or>
      (\<exists>bs. m' = m\<lparr>next_addr := Suc (next_addr m), blobs := (blobs m)(next_addr m \<mapsto> bs)\<rparr>)"
      by (auto simp: malloc_def run_defs dest!: get_bytes_state split: sum.splits if_splits)
    then show "mem_step m m'"
      using mem_step_next [of m]
      by (auto simp: mem_step_def mem_ok_def same_env_def map_le_def simp del: not_None_eq)
  next
    fix m e
    assume "?f m = Inl e"
    then show "no_confusion m e"
      by (auto simp: no_confusion_def malloc_def run_defs dest!: get_bytes_faults
          split: sum.splits if_splits)
  qed
  moreover have "xpc_data_create p n = bind_m ?f (\<lambda>q. xpc_prim_create XPC_TYPE_DATA (U_ptr q) n)"
    by (rule ext) (auto simp: xpc_data_create_def run_defs split: option.splits sum.splits)
  ultimately show ?thesis by (simp add: mem_keeps)
qed

text \<open>Loops with locals beside the memory.\<close>

definition on_snd :: "('s \<Rightarrow> 't \<Rightarrow> bool) \<Rightarrow> 'l \<times> 's \<Rightarrow> 'l \<times> 't \<Rightarrow> bool" where
  "on_snd R s s' \<longleftrightarrow> R (snd s) (snd s')"

abbreviation lsound :: "('l \<times> xmem, 'a) op \<Rightarrow> bool" where
  "lsound \<equiv> keeps_or (on_snd mem_step) (\<lambda>s. no_confusion (snd s))"

interpretation lmem: kept "on_snd mem_step" "\<lambda>s. no_confusion (snd s)"
  by unfold_locales (auto simp: on_snd_def intro: mem.R_refl mem.R_trans mem.G_back mem.G_other)

interpretation ulmem: kept "on_snd (on_snd mem_step)" "\<lambda>s. no_confusion (snd (snd s))"
  by unfold_locales (auto simp: on_snd_def intro: mem.R_refl mem.R_trans mem.G_back mem.G_other)

lemma keeps_on_mem: "sound f \<Longrightarrow> lsound (on_mem f)"
  by (rule keeps_orI) (auto simp: on_mem_def on_snd_def zoom_m_def split: sum.splits
      dest: keepsD keeps_failD)

lemma keeps_on_local: "lsound (on_local f)"
  by (rule keeps_orI) (auto simp: on_local_def modify_m_def on_snd_def mem.R_refl)

lemma keeps_with_local: "lsound f \<Longrightarrow> sound (with_local l f)"
  by (rule keeps_orI) (auto simp: with_local_def on_snd_def split: sum.splits
      dest: keepsD keeps_failD)

lemmas loop_keeps = lmem.keeps_intros keeps_on_mem keeps_on_local keeps_with_local

lemma keeps_array_append: "sound (xpc_array_append_value p v)"
  unfolding xpc_array_append_value_def by (intro mem_keeps)

lemma keeps_array_set: "sound (xpc_array_set_value p i v)"
proof -
  have "lsound (set_value_body a i v e)" for a e
    unfolding set_value_body_def by (intro loop_keeps mem_keeps)
  then have loop: "sound (seq_m (with_local 0 (TAILQ_FOREACH_SAFE n (\<lambda>s. arrq (snd s))
      (set_value_body a i v) f)) (return_m ()))" for n a f
    by (intro mem_keeps loop_keeps)
  have walk: "sound (bind_m (arr_op (TAILQ_FIRST a)) (\<lambda>f m.
      seq_m (with_local 0 (TAILQ_FOREACH_SAFE (walk_fuel m) (\<lambda>s. arrq (snd s))
        (set_value_body a i v) f)) (return_m ()) m))" for a
    by (rule mem.keeps_bind_walk [where N = walk_fuel]) (intro mem_keeps, rule loop)
  show ?thesis unfolding xpc_array_set_value_def
    by (rule mem.keeps_if, rule keeps_array_append, rule mem.keeps_bind, rule keeps_gets_obj,
        rule mem.keeps_if, rule mem.keeps_return, rule walk)
qed

lemma keeps_array_get: "sound (xpc_array_get_value p i)"
proof -
  have "lsound (get_value_body i e)" for e
    unfolding get_value_body_def by (intro loop_keeps)
  then have loop: "sound (bind_m (with_local (0, None) (TAILQ_FOREACH n (\<lambda>s. arrq (snd s))
      (get_value_body i) f)) (\<lambda>(_, (i, r)). return_m r))" for n f
    by (intro mem.keeps_bind loop_keeps) (auto intro: mem.keeps_return)
  have walk: "sound (bind_m (arr_op (TAILQ_FIRST a)) (\<lambda>f m.
      bind_m (with_local (0, None) (TAILQ_FOREACH (walk_fuel m) (\<lambda>s. arrq (snd s))
        (get_value_body i) f)) (\<lambda>(_, (i, r)). return_m r) m))" for a
    by (rule mem.keeps_bind_walk [where N = walk_fuel]) (intro mem_keeps, rule loop)
  show ?thesis unfolding xpc_array_get_value_def
    by (rule mem.keeps_bind, rule keeps_gets_obj, rule mem.keeps_if, rule mem.keeps_return, rule walk)
qed

lemma keeps_append_all: "sound (append_all p vs)"
  by (induction vs) (simp_all add: mem_keeps keeps_array_append)

lemma keeps_array_create: "sound (xpc_array_create vs)"
  unfolding xpc_array_create_def by (intro mem_keeps keeps_append_all)

lemma new_pair_step:
  "malloc m = Inr (Some p, m1) \<Longrightarrow> mem_step m (m1\<lparr>pairs := (pairs m1)(p \<mapsto> dp),
     dictq := (dictq m1)\<lparr>ents := (ents (dictq m1))(p \<mapsto> en)\<rparr>\<rparr>)"
  by (auto simp: malloc_def mem_step_def mem_ok_def same_env_def simp del: not_None_eq
      split: if_splits)

lemma keeps_alloc:
  assumes step: "\<And>m m1 p. malloc m = Inr (Some p, m1) \<Longrightarrow> mem_step m (h p m1)" and g: "\<And>a. sound (g a)"
  shows "sound (bind_m malloc (\<lambda>p. deref_m p (\<lambda>a. seq_m (modify_m (h a)) (g a))))"
proof -
  have run: "bind_m malloc (\<lambda>p. deref_m p (\<lambda>a. seq_m (modify_m (h a)) (g a))) m =
    (if malloc_ok m (next_addr m) then g (next_addr m) (h (next_addr m) (m\<lparr>next_addr := Suc (next_addr m)\<rparr>))
     else Inl NullDeref)" for m
    by (simp add: malloc_def run_defs)
  have "malloc_ok m (next_addr m) \<Longrightarrow>
      mem_step m (h (next_addr m) (m\<lparr>next_addr := Suc (next_addr m)\<rparr>))" for m
    by (rule step) (simp add: malloc_def)
  then show ?thesis
    by (intro keeps_orI; unfold run)
      (auto split: if_splits intro: mem.G_other mem.R_trans [OF _ keepsD [OF g]]
        mem.G_back [OF _ keeps_failD [OF g]])
qed

lemma keeps_dict_add_pair: "sound (dict_add_pair d k v)"
  unfolding dict_add_pair_def
  by (rule mem.keeps_seq, rule keeps_upd_obj, simp, rule keeps_alloc, erule new_pair_step,
      intro mem_keeps)

lemma keeps_dict_set: "sound (xpc_dictionary_set_value d k v)"
proof -
  have "sound (dict_set_body k v p)" for p
    unfolding dict_set_body_def by (intro mem_keeps)
  then have loop: "sound (bind_m (TAILQ_FOREACH n dictq (dict_set_body k v) f)
      (\<lambda>missing. if missing then dict_add_pair d k v else return_m ()))" for n f
    by (intro mem_keeps keeps_dict_add_pair)
  show ?thesis unfolding xpc_dictionary_set_value_def
    by (rule mem.keeps_bind_walk [where N = walk_fuel]) (intro mem_keeps, rule loop)
qed

lemma keeps_dict_get: "sound (xpc_dictionary_get_value d k)"
proof -
  have "lsound (dict_get_body k p)" for p
    unfolding dict_get_body_def by (intro loop_keeps mem_keeps)
  then have loop: "sound (bind_m (with_local None (TAILQ_FOREACH n (\<lambda>s. dictq (snd s))
      (dict_get_body k) f)) (\<lambda>(_, r). return_m r))" for n f
    by (intro mem.keeps_bind loop_keeps) (auto intro: mem.keeps_return)
  show ?thesis unfolding xpc_dictionary_get_value_def
    by (rule mem.keeps_bind_walk [where N = walk_fuel]) (intro mem_keeps, rule loop)
qed

lemma keeps_dict_set_all: "sound (dict_set_all d kvs)"
  by (induction kvs) (simp_all add: mem_keeps keeps_dict_set)

lemma keeps_dict_create: "sound (xpc_dictionary_create kvs)"
  unfolding xpc_dictionary_create_def by (intro mem_keeps keeps_dict_set_all)

end
