(* ===== verification/XpcObject.thy ===== *)
theory XpcObject
  imports XpcArray XpcDict
begin

text \<open>
  The operations that go through a whole value: \<open>xpc_copy\<close> and \<open>xpc_hash\<close> of
  \<open>libOpenXPC/xpc_type.c\<close>, and the release and destruction of objects of
  \<open>libOpenXPC/xpc_misc.c\<close>.  They call themselves on the elements of arrays and dictionaries.  A
  value that contains itself makes that recursion endless, so each takes fuel, which bounds both
  the depth and the length of each traversal.
\<close>

section \<open>Hashing\<close>

text \<open>The loop of \<open>xpc_data_hash\<close>, from the last byte to the first.\<close>

primrec xpc_data_hash_loop :: "nat \<Rightarrow> 64 word \<Rightarrow> byte list \<Rightarrow> 64 word" where
  "xpc_data_hash_loop 0 h data = h"
| "xpc_data_hash_loop (Suc n) h data =
     xpc_data_hash_loop n ((push_bit 5 h + h) + ucast (data ! n)) data"

definition xpc_data_hash :: "byte list \<Rightarrow> 64 word \<Rightarrow> 64 word" where
  "xpc_data_hash data len = xpc_data_hash_loop (unat len) 5381 data"

text \<open>The bytes \<open>xpc_data_hash\<close> is pointed to: a string with its NUL, or a block.\<close>

definition hash_str :: "ptr \<Rightarrow> 64 word \<Rightarrow> (xmem, 64 word) op" where
  "hash_str p len =
     (if len = 0 then return_m (xpc_data_hash [] 0)
      else bind_m (get_str p) (\<lambda>s.
        if unat len \<le> Suc (length s) then return_m (xpc_data_hash (s @ [0]) len)
        else fail_m OutOfBounds))"

definition hash_bytes :: "ptr \<Rightarrow> 64 word \<Rightarrow> (xmem, 64 word) op" where
  "hash_bytes p len = bind_m (get_bytes p (unat len)) (\<lambda>bs. return_m (xpc_data_hash bs len))"

definition array_hash_cb ::
  "(ptr \<Rightarrow> (xmem, 64 word) op) \<Rightarrow> 64 word \<Rightarrow> ptr \<Rightarrow> (64 word \<times> xmem, bool) op" where
  "array_hash_cb hash idx v = bind_m (on_mem (hash v)) (\<lambda>h.
     seq_m (on_local (\<lambda>acc. acc XOR h)) (return_m True))"

definition dict_hash_cb ::
  "(ptr \<Rightarrow> (xmem, 64 word) op) \<Rightarrow> ptr \<Rightarrow> ptr \<Rightarrow> (64 word \<times> xmem, bool) op" where
  "dict_hash_cb hash k v =
     bind_m (on_mem (bind_m (strlen k) (hash_str k))) (\<lambda>hk.
     seq_m (on_local (\<lambda>acc. acc XOR hk))
     (bind_m (on_mem (hash v)) (\<lambda>h.
     seq_m (on_local (\<lambda>acc. acc XOR h)) (return_m True))))"

primrec xpc_hash :: "nat \<Rightarrow> ptr \<Rightarrow> (xmem, 64 word) op" where
  "xpc_hash 0 obj = fail_m Diverges"
| "xpc_hash (Suc fuel) obj = bind_m (get_obj obj) (\<lambda>xo.
     if xo_xpc_type xo \<in> {XPC_TYPE_BOOL, XPC_TYPE_INT64, XPC_TYPE_UINT64, XPC_TYPE_DATE,
        XPC_TYPE_ENDPOINT} then u_ui (xo_u xo)
     else if xo_xpc_type xo = XPC_TYPE_STRING then
       bind_m (xpc_string_get_string_ptr obj) (\<lambda>p.
       bind_m (xpc_string_get_length obj) (hash_str p))
     else if xo_xpc_type xo = XPC_TYPE_DATA then
       bind_m (xpc_data_get_bytes_ptr obj) (\<lambda>p.
       bind_m (xpc_data_get_length obj) (hash_bytes p))
     else if xo_xpc_type xo = XPC_TYPE_DICTIONARY then
       bind_m (with_local 0 (xpc_dictionary_apply_fun fuel obj (dict_hash_cb (xpc_hash fuel))))
         (\<lambda>(_, h). return_m h)
     else if xo_xpc_type xo = XPC_TYPE_ARRAY then
       bind_m (with_local 0 (xpc_array_apply_fun fuel obj (array_hash_cb (xpc_hash fuel))))
         (\<lambda>(_, h). return_m h)
     else return_m 0)"

section \<open>Copying\<close>

definition dict_copy_cb ::
  "(ptr \<Rightarrow> (xmem, ptr) op) \<Rightarrow> ptr \<Rightarrow> ptr \<Rightarrow> ptr \<Rightarrow> (unit \<times> xmem, bool) op" where
  "dict_copy_cb copy xotmp k v =
     on_mem (bind_m (copy v) (\<lambda>w. seq_m (xpc_dictionary_set_value xotmp k w) (return_m True)))"

definition array_copy_cb ::
  "(ptr \<Rightarrow> (xmem, ptr) op) \<Rightarrow> ptr \<Rightarrow> 64 word \<Rightarrow> ptr \<Rightarrow> (unit \<times> xmem, bool) op" where
  "array_copy_cb copy xotmp idx v =
     on_mem (bind_m (copy v) (\<lambda>w. seq_m (xpc_array_set_value xotmp idx w) (return_m True)))"

primrec xpc_copy :: "nat \<Rightarrow> ptr \<Rightarrow> (xmem, ptr) op" where
  "xpc_copy 0 obj = fail_m Diverges"
| "xpc_copy (Suc fuel) obj = bind_m (get_obj obj) (\<lambda>xo.
     if xo_xpc_type xo \<in> {XPC_TYPE_BOOL, XPC_TYPE_INT64, XPC_TYPE_UINT64, XPC_TYPE_DATE,
        XPC_TYPE_ENDPOINT} then xpc_prim_create (xo_xpc_type xo) (xo_u xo) 1
     else if xo_xpc_type xo = XPC_TYPE_STRING then
       bind_m (xpc_string_get_string_ptr obj) (\<lambda>p. bind_m (strdup p) xpc_string_create)
     else if xo_xpc_type xo = XPC_TYPE_DATA then
       bind_m (xpc_data_get_bytes_ptr obj) (\<lambda>newdata.
       bind_m (xpc_data_get_length obj) (xpc_data_create newdata))
     else if xo_xpc_type xo = XPC_TYPE_DICTIONARY then
       bind_m (xpc_dictionary_create []) (\<lambda>xotmp.
       seq_m (with_local () (xpc_dictionary_apply_fun fuel obj (dict_copy_cb (xpc_copy fuel) xotmp)))
         (return_m xotmp))
     else if xo_xpc_type xo = XPC_TYPE_ARRAY then
       bind_m (xpc_array_create []) (\<lambda>xotmp.
       seq_m (with_local () (xpc_array_apply_fun fuel obj (array_copy_cb (xpc_copy fuel) xotmp)))
         (return_m xotmp))
     else return_m None)"

section \<open>Destruction and release\<close>

definition xpc_dictionary_destroy ::
  "nat \<Rightarrow> (ptr \<Rightarrow> (xmem, unit) op) \<Rightarrow> addr \<Rightarrow> (xmem, unit) op" where
  "xpc_dictionary_destroy fuel destroy dict =
     bind_m (dict_op (TAILQ_FIRST dict)) (\<lambda>f.
     seq_m (TAILQ_FOREACH_SAFE fuel dictq (\<lambda>p.
         seq_m (dict_op (TAILQ_REMOVE dict p))
         (bind_m (get_pair p) (\<lambda>dp.
         seq_m (destroy (dp_value dp))
         (seq_m (free_pair p) (return_m True))))) f)
       (return_m ()))"

definition xpc_array_destroy ::
  "nat \<Rightarrow> (ptr \<Rightarrow> (xmem, unit) op) \<Rightarrow> addr \<Rightarrow> (xmem, unit) op" where
  "xpc_array_destroy fuel destroy dict =
     bind_m (arr_op (TAILQ_FIRST dict)) (\<lambda>f.
     seq_m (TAILQ_FOREACH_SAFE fuel arrq (\<lambda>p.
         seq_m (arr_op (TAILQ_REMOVE dict p))
         (seq_m (destroy (Some p)) (return_m True))) f)
       (return_m ()))"

primrec xpc_object_destroy :: "nat \<Rightarrow> ptr \<Rightarrow> (xmem, unit) op" where
  "xpc_object_destroy 0 xo = fail_m Diverges"
| "xpc_object_destroy (Suc fuel) xo = deref_m xo (\<lambda>a.
     bind_m (get_obj xo) (\<lambda>o1.
     seq_m (if xo_xpc_type o1 = XPC_TYPE_DICTIONARY
            then xpc_dictionary_destroy fuel (xpc_object_destroy fuel) a else return_m ())
     (bind_m (get_obj xo) (\<lambda>o2.
     seq_m (if xo_xpc_type o2 = XPC_TYPE_ARRAY
            then xpc_array_destroy fuel (xpc_object_destroy fuel) a else return_m ())
     (free_object a)))))"

text \<open>
  \<open>atomic_fetchadd_int\<close> is defined as \<open>__atomic_add_fetch\<close>: the value compared with 0 is the
  count after the decrement, as an unsigned number.
\<close>

definition xpc_release :: "nat \<Rightarrow> ptr \<Rightarrow> (xmem, unit) op" where
  "xpc_release fuel obj =
     seq_m (upd_obj obj (\<lambda>xo. xo\<lparr>xo_refcnt := xo_refcnt xo - 1\<rparr>))
     (bind_m (get_obj obj) (\<lambda>xo.
       if xo_refcnt xo > 0 then return_m () else xpc_object_destroy fuel obj))"

end
