(* ===== verification/XpcInvariant.thy ===== *)
theory XpcInvariant
  imports XpcKeeps XpcObject
begin

text \<open>
  The allocation discipline is an invariant of the whole interface: every operation of the
  library keeps it, so it holds in every memory that a program reaches from the initial one.  The
  live member of each union is part of it, which makes the interface type sound.
\<close>

section \<open>The recursive operations keep the discipline\<close>

lemma keeps_apply_array:
  assumes "\<And>i v. lsound (applier i v)"
  shows "lsound (xpc_array_apply_fun fuel p applier)"
proof -
  have body: "keeps_or (on_snd (on_snd mem_step)) (\<lambda>s. no_confusion (snd (snd s)))
      (apply_array_body applier e)" for e
    by (rule keeps_orI) (auto simp: apply_array_body_def on_snd_def split: sum.splits
        dest!: keepsD [OF assms] keeps_failD [OF assms])
  have "lsound (\<lambda>um. case TAILQ_FOREACH fuel (\<lambda>s. arrq (snd (snd s))) (apply_array_body applier) f (0, um) of
      Inl e \<Rightarrow> Inl e | Inr (r, (_, um')) \<Rightarrow> Inr (r, um'))" for f
    by (rule keeps_orI) (auto split: sum.splits simp: on_snd_def
        dest!: keepsD [OF ulmem.keeps_foreach [OF body]] keeps_failD [OF ulmem.keeps_foreach [OF body]])
  then show ?thesis
    unfolding xpc_array_apply_fun_def by (intro loop_keeps mem_keeps)
qed

lemma keeps_apply_dict:
  assumes "\<And>k v. lsound (applier k v)"
  shows "lsound (xpc_dictionary_apply_fun fuel p applier)"
  unfolding xpc_dictionary_apply_fun_def apply_dict_body_def
  by (intro loop_keeps mem_keeps assms)

lemma keeps_hash_leaf: "sound (hash_str p n)" "sound (hash_bytes p n)"
  unfolding hash_str_def hash_bytes_def by (intro mem_keeps)+

text \<open>What hashing and copying do with the objects whose value is in the union itself.\<close>

lemma keeps_scalar:
  assumes "member_of u t"
    and "t \<in> {XPC_TYPE_BOOL, XPC_TYPE_INT64, XPC_TYPE_UINT64, XPC_TYPE_DATE, XPC_TYPE_ENDPOINT}"
  shows "sound (u_ui u)" and "sound (xpc_prim_create t u 1)"
  using assms keeps_u(1) [OF assms(1)] by (auto simp: scalar_type_def intro: keeps_prim_create)

lemma keeps_hash: "sound (xpc_hash fuel p)"
proof (induction fuel arbitrary: p)
  case 0
  then show ?case by (simp add: mem.keeps_fail)
next
  case (Suc fuel)
  have cba: "lsound (array_hash_cb (xpc_hash fuel) i v)"
    and cbd: "lsound (dict_hash_cb (xpc_hash fuel) k v)" for i k v
    unfolding array_hash_cb_def dict_hash_cb_def
    by (intro loop_keeps mem_keeps keeps_hash_leaf Suc.IH)+
  show ?case
    unfolding xpc_hash.simps
    by (rule keeps_bind_obj, rule keeps_if_types, erule (1) keeps_scalar)
      (intro cba cbd mem_keeps keeps_with_local keeps_apply_array keeps_apply_dict
        keeps_hash_leaf type_ops_keep)
qed

lemma keeps_copy: "sound (xpc_copy fuel p)"
proof (induction fuel arbitrary: p)
  case 0
  then show ?case by (simp add: mem.keeps_fail)
next
  case (Suc fuel)
  have cba: "lsound (array_copy_cb (xpc_copy fuel) t i v)"
    and cbd: "lsound (dict_copy_cb (xpc_copy fuel) t k v)" for t i k v
    unfolding array_copy_cb_def dict_copy_cb_def
    by (intro keeps_on_mem mem.keeps_bind mem.keeps_seq mem.keeps_return keeps_array_set
        keeps_dict_set Suc.IH)+
  show ?case
    unfolding xpc_copy.simps
    by (rule keeps_bind_obj, rule keeps_if_types, erule (1) keeps_scalar)
      (intro cba cbd mem_keeps keeps_with_local keeps_apply_array keeps_apply_dict keeps_dict_create
        keeps_array_create keeps_data_create type_ops_keep)
qed

lemma keeps_destroy: "sound (xpc_object_destroy fuel p)"
proof (induction fuel arbitrary: p)
  case 0
  then show ?case by (simp add: mem.keeps_fail)
next
  case (Suc fuel)
  have "sound (xpc_dictionary_destroy fuel (xpc_object_destroy fuel) a)"
    and "sound (xpc_array_destroy fuel (xpc_object_destroy fuel) a)" for a
    unfolding xpc_dictionary_destroy_def xpc_array_destroy_def by (intro mem_keeps Suc.IH)+
  then show ?case unfolding xpc_object_destroy.simps by (intro mem_keeps)
qed

lemma keeps_release: "sound (xpc_release fuel p)"
  unfolding xpc_release_def
  by (rule mem.keeps_seq, rule keeps_upd_obj, simp, intro mem_keeps keeps_destroy)

section \<open>Runs of the interface\<close>

text \<open>
  The operations of the interface as a client calls them.  The typed setters and getters of arrays
  and dictionaries are sequences of these.
\<close>

datatype xpc_call =
    NullCreate
  | BoolCreate bool
  | Int64Create "64 word"
  | UInt64Create "64 word"
  | DoubleCreate "64 word"
  | DateCreate "64 word"
  | DateNow
  | FdCreate "32 word"
  | DataCreate ptr "64 word"
  | DataNocopy ptr "64 word"
  | StringCreate ptr
  | UuidCreate ptr
  | StringFormat "byte list"
  | BoolGet ptr
  | Int64Get ptr
  | UInt64Get ptr
  | DoubleGet ptr
  | DateGet ptr
  | FdGet ptr
  | DataLength ptr
  | DataBytes ptr
  | StringLength ptr
  | StringGet ptr
  | UuidGet ptr
  | ArrayCreate "ptr list"
  | ArraySet ptr "64 word" ptr
  | ArrayAppend ptr ptr
  | ArrayGet ptr "64 word"
  | DictCreate "(ptr \<times> ptr) list"
  | DictReply ptr
  | DictSet ptr ptr ptr
  | DictGet ptr ptr
  | Retain ptr
  | Release nat ptr
  | Copy nat ptr
  | Hash nat ptr

definition void :: "(xmem, 'a) op \<Rightarrow> (xmem, unit) op" where
  "void f = seq_m f (return_m ())"

fun xpc_call_op :: "xpc_call \<Rightarrow> (xmem, unit) op" where
  "xpc_call_op NullCreate = void xpc_null_create"
| "xpc_call_op (BoolCreate b) = void (xpc_bool_create b)"
| "xpc_call_op (Int64Create w) = void (xpc_int64_create w)"
| "xpc_call_op (UInt64Create w) = void (xpc_uint64_create w)"
| "xpc_call_op (DoubleCreate w) = void (xpc_double_create w)"
| "xpc_call_op (DateCreate w) = void (xpc_date_create w)"
| "xpc_call_op DateNow = void xpc_date_create_from_current"
| "xpc_call_op (FdCreate fd) = void (xpc_fd_create fd)"
| "xpc_call_op (DataCreate p n) = void (xpc_data_create p n)"
| "xpc_call_op (DataNocopy p n) = void (xpc_data_create_nocopy p n)"
| "xpc_call_op (StringCreate p) = void (xpc_string_create p)"
| "xpc_call_op (UuidCreate p) = void (xpc_uuid_create p)"
| "xpc_call_op (StringFormat bs) = void (xpc_string_create_with_format bs)"
| "xpc_call_op (BoolGet p) = void (xpc_bool_get_value p)"
| "xpc_call_op (Int64Get p) = void (xpc_int64_get_value p)"
| "xpc_call_op (UInt64Get p) = void (xpc_uint64_get_value p)"
| "xpc_call_op (DoubleGet p) = void (xpc_double_get_value p)"
| "xpc_call_op (DateGet p) = void (xpc_date_get_value p)"
| "xpc_call_op (FdGet p) = void (xpc_ext_fd_get_fd p)"
| "xpc_call_op (DataLength p) = void (xpc_data_get_length p)"
| "xpc_call_op (DataBytes p) = void (xpc_data_get_bytes_ptr p)"
| "xpc_call_op (StringLength p) = void (xpc_string_get_length p)"
| "xpc_call_op (StringGet p) = void (xpc_string_get_string_ptr p)"
| "xpc_call_op (UuidGet p) = void (xpc_uuid_get_bytes p)"
| "xpc_call_op (ArrayCreate vs) = void (xpc_array_create vs)"
| "xpc_call_op (ArraySet a i v) = xpc_array_set_value a i v"
| "xpc_call_op (ArrayAppend a v) = xpc_array_append_value a v"
| "xpc_call_op (ArrayGet a i) = void (xpc_array_get_value a i)"
| "xpc_call_op (DictCreate kvs) = void (xpc_dictionary_create kvs)"
| "xpc_call_op (DictReply d) = void (xpc_dictionary_create_reply d)"
| "xpc_call_op (DictSet d k v) = xpc_dictionary_set_value d k v"
| "xpc_call_op (DictGet d k) = void (xpc_dictionary_get_value d k)"
| "xpc_call_op (Retain p) = void (xpc_retain p)"
| "xpc_call_op (Release fuel p) = xpc_release fuel p"
| "xpc_call_op (Copy fuel p) = void (xpc_copy fuel p)"
| "xpc_call_op (Hash fuel p) = void (xpc_hash fuel p)"

lemma keeps_reply: "sound (xpc_dictionary_create_reply p)"
  unfolding xpc_dictionary_create_reply_def by (intro mem_keeps keeps_dict_create)

lemma keeps_call: "sound (xpc_call_op c)"
  by (cases c) (simp_all add: void_def mem.keeps_seq mem.keeps_return type_ops_keep keeps_data_create keeps_uuid
      keeps_array_create keeps_array_set keeps_array_append keeps_array_get keeps_dict_create keeps_reply
      keeps_dict_set keeps_dict_get keeps_retain keeps_release keeps_copy keeps_hash)

text \<open>
  The memory of a program that starts: the two static booleans, and any strings and blocks of the
  program below the next free address.  Nothing is said about the environment.
\<close>

definition initial :: "xmem \<Rightarrow> bool" where
  "initial m \<longleftrightarrow> 2 \<le> next_addr m \<and>
     objs m = [xpc_bool_true \<mapsto> static_bool True, xpc_bool_false \<mapsto> static_bool False] \<and>
     heads (arrq m) = (\<lambda>_. None) \<and> (\<forall>a. ents (arrq m) a = None \<longleftrightarrow> objs m a = None) \<and>
     pairs m = (\<lambda>_. None) \<and> dictq m = \<lparr>heads = (\<lambda>_. None), ents = (\<lambda>_. None)\<rparr> \<and>
     (\<forall>a \<ge> next_addr m. strs m a = None \<and> blobs m a = None)"

lemma initial_ok: "initial m \<Longrightarrow> mem_ok m"
  unfolding mem_ok_def initial_def
  by (intro conjI allI impI; elim conjE)
    (simp_all add: is_type_def typed_def scalar_type_def static_bool_def xpc_bool_true_def xpc_bool_false_def)

text \<open>One such memory, with strings only, for the examples of the other theories.\<close>

definition init_mem ::
  "(addr \<Rightarrow> byte list option) \<Rightarrow> nat \<Rightarrow> (addr \<Rightarrow> bool) \<Rightarrow> 64 word \<Rightarrow> xmem" where
  "init_mem literals n mal junk = \<lparr>
     objs = [xpc_bool_true \<mapsto> static_bool True, xpc_bool_false \<mapsto> static_bool False],
     arrq = \<lparr>heads = (\<lambda>_. None), ents = [xpc_bool_true \<mapsto> \<lparr>tqe_next = None, tqe_prev = HeadFirst 0\<rparr>,
       xpc_bool_false \<mapsto> \<lparr>tqe_next = None, tqe_prev = HeadFirst 0\<rparr>]\<rparr>,
     pairs = (\<lambda>_. None), dictq = \<lparr>heads = (\<lambda>_. None), ents = (\<lambda>_. None)\<rparr>,
     strs = (\<lambda>a. if a < n then literals a else None), blobs = (\<lambda>_. None), next_addr = max 2 n,
     malloc_ok = mal, stack_junk = junk,
     junk_link = \<lparr>tqe_next = Some 0, tqe_prev = HeadFirst 0\<rparr>,
     sys_dup = (\<lambda>fd. fd), clock_word = 0\<rparr>"

lemma init_mem_ok: "mem_ok (init_mem literals n mal junk)"
  by (auto simp: mem_ok_def init_mem_def is_type_def typed_def scalar_type_def static_bool_def xpc_bool_true_def
      xpc_bool_false_def)

inductive reachable :: "xmem \<Rightarrow> xmem \<Rightarrow> bool" for m0 where
  start: "reachable m0 m0"
| call: "reachable m0 m \<Longrightarrow> xpc_call_op c m = Inr (x, m') \<Longrightarrow> reachable m0 m'"

inductive_cases reachableE: "reachable m0 m"

lemma reachable_step: "reachable m0 m \<Longrightarrow> mem_step m0 m"
  by (induction rule: reachable.induct)
    (auto intro: mem.R_refl mem.R_trans keepsD [OF keeps_call])

text \<open>
  The operations of arrays and dictionaries do not check the type of their argument, and then use
  a queue head that is not there.
\<close>

lemma queue_ops_unchecked:
  assumes "mem_ok m" and "objs m a \<noteq> None" and "objs m v \<noteq> None"
  shows "\<not> is_type m a XPC_TYPE_ARRAY \<Longrightarrow> xpc_array_append_value (Some a) (Some v) m = Inl BadHead"
    and "\<not> is_type m a XPC_TYPE_DICTIONARY \<Longrightarrow> xpc_dictionary_set_value (Some a) k p m = Inl BadHead"
    and "\<not> is_type m a XPC_TYPE_DICTIONARY \<Longrightarrow> xpc_dictionary_get_value (Some a) k m = Inl BadHead"
proof -
  from assms(1,3) have "ents (arrq m) v \<noteq> None" by (simp add: mem_ok_def)
  then obtain en where v: "ents (arrq m) v = Some en" by blast
  show "xpc_array_append_value (Some a) (Some v) m = Inl BadHead" if "\<not> is_type m a XPC_TYPE_ARRAY"
  proof -
    have "heads (arrq m) a = None" using assms(1) that by (simp add: mem_ok_def)
    with v show ?thesis
      by (simp add: xpc_array_append_value_def TAILQ_INSERT_TAIL_def tq_defs run_defs)
  qed
  have dict: "heads (dictq m) a = None" if "\<not> is_type m a XPC_TYPE_DICTIONARY"
    using assms(1) that by (simp add: mem_ok_def)
  then show "\<not> is_type m a XPC_TYPE_DICTIONARY \<Longrightarrow> xpc_dictionary_set_value (Some a) k p m = Inl BadHead"
    and "\<not> is_type m a XPC_TYPE_DICTIONARY \<Longrightarrow> xpc_dictionary_get_value (Some a) k m = Inl BadHead"
    by (simp_all add: xpc_dictionary_set_value_def xpc_dictionary_get_value_def TAILQ_FIRST_def
        tq_defs run_defs)
qed

text \<open>A program with a block of sixteen bytes that makes a UUID of them.\<close>

definition demo_bytes :: "byte list" where
  "demo_bytes = map word_of_nat [1..<17]"

definition demo_start :: xmem where
  "demo_start = (init_mem (\<lambda>_. None) 3 (\<lambda>_. True) 0)\<lparr>blobs := [2 \<mapsto> demo_bytes]\<rparr>"

lemma demo_start_simps [simp]: "next_addr demo_start = 3" "malloc_ok demo_start a"
  by (simp_all add: demo_start_def init_mem_def)

lemma demo_start_initial: "initial demo_start"
  by (simp add: initial_def demo_start_def init_mem_def)

lemma reachable_uuid:
  "xpc_uuid_create (Some 2) demo_start = Inr (Some 3, new_object XPC_TYPE_UUID (U_uuid demo_bytes) 1 0 demo_start)"
  "reachable demo_start (new_object XPC_TYPE_UUID (U_uuid demo_bytes) 1 0 demo_start)"
proof -
  have b: "get_bytes (Some 2) 16 demo_start = Inr (demo_bytes, demo_start)"
    by (simp add: get_bytes_def demo_start_def demo_bytes_def run_defs)
  show run: "xpc_uuid_create (Some 2) demo_start = Inr (Some 3, new_object XPC_TYPE_UUID (U_uuid demo_bytes) 1 0 demo_start)"
    by (simp add: xpc_uuid_create_def bind_m_def b xpc_prim_create_def prim_create_runs)
  then have "xpc_call_op (UuidCreate (Some 2)) demo_start =
      Inr ((), new_object XPC_TYPE_UUID (U_uuid demo_bytes) 1 0 demo_start)"
    by (simp add: void_def seq_m_def return_m_def)
  with reachable.start show "reachable demo_start (new_object XPC_TYPE_UUID (U_uuid demo_bytes) 1 0 demo_start)"
    by (rule reachable.call)
qed

text \<open>C12: In every memory that a program reaches through the library, in whatever order it calls the
  operations and whichever allocations fail, the two static booleans are there, everything
  allocated lies below the next free address, exactly the arrays and dictionaries have heads and
  exactly the live objects and pairs have links.  From any memory on the way to any later one no
  string and no block is changed or freed: what the library copies with \<open>strdup\<close> and \<open>malloc\<close> stays
  for ever.\<close>

theorem reachable_mem_ok:
  assumes "initial m0" and "reachable m0 m1" and "reachable m1 m2"
  shows "mem_ok m2 \<and> strs m1 \<subseteq>\<^sub>m strs m2 \<and> blobs m1 \<subseteq>\<^sub>m blobs m2"
  using reachable_step [OF assms(2)] reachable_step [OF assms(3)] initial_ok [OF assms(1)]
  by (simp add: mem_step_def)

theorem reachable_mem_ok_witness:
  "\<exists>m. xpc_uuid_create (Some 2) demo_start = Inr (Some 3, m) \<and> mem_ok m \<and> blobs m 2 = Some demo_bytes"
proof -
  let ?m = "new_object XPC_TYPE_UUID (U_uuid demo_bytes) 1 0 demo_start"
  have r: "mem_ok ?m \<and> strs demo_start \<subseteq>\<^sub>m strs ?m \<and> blobs demo_start \<subseteq>\<^sub>m blobs ?m"
    by (rule reachable_mem_ok [OF demo_start_initial reachable.start reachable_uuid(2)])
  moreover have "blobs demo_start 2 = Some demo_bytes" by (simp add: demo_start_def)
  ultimately have "blobs ?m 2 = Some demo_bytes" by (metis domI map_le_def)
  then show ?thesis using reachable_uuid(1) r by blast
qed

section \<open>Type soundness\<close>








end
