(* ===== verification/XpcArraySpec.thy ===== *)
theory XpcArraySpec
  imports XpcInvariant
begin

text \<open>
  What the operations on arrays do, in terms of the list of elements an array holds
  (\<open>arr_rep m a vs\<close>), and the array as an instance of the queue contract.
\<close>

section \<open>Arrays as lists\<close>

definition arr_rep :: "xmem \<Rightarrow> addr \<Rightarrow> addr list \<Rightarrow> bool" where
  "arr_rep m a vs \<longleftrightarrow> mem_ok m \<and> tq_rep (arrq m) a vs"

definition live :: "xmem \<Rightarrow> addr \<Rightarrow> bool" where
  "live m v \<longleftrightarrow> objs m v \<noteq> None"

lemma mem_ok_link: "mem_ok m \<Longrightarrow> ents (arrq m) v = None \<longleftrightarrow> objs m v = None"
  by (simp add: mem_ok_def)

lemma arr_rep_live: "arr_rep m a vs \<Longrightarrow> v \<in> set vs \<Longrightarrow> live m v"
  using tq_rep_ents [of "arrq m" a vs v] mem_ok_link [of m v] by (auto simp: arr_rep_def live_def)

lemma live_below: "mem_ok m \<Longrightarrow> live m v \<Longrightarrow> v < next_addr m"
  by (auto simp: mem_ok_def live_def not_less [symmetric] simp del: not_None_eq)

lemma arr_rep_distinct: "arr_rep m a vs \<Longrightarrow> distinct vs"
  by (auto simp: arr_rep_def dest: tq_rep_distinct)

lemma arr_rep_fuel: "arr_rep m a vs \<Longrightarrow> length vs \<le> walk_fuel m"
  using distinct_length_le [of vs "next_addr m"] arr_rep_live [of m a vs] arr_rep_distinct [of m a vs]
  by (fastforce simp: walk_fuel_def arr_rep_def intro: live_below)

lemma arr_rep_obj:
  assumes "arr_rep m a vs"
  obtains xo where "objs m a = Some xo" "xo_xpc_type xo = XPC_TYPE_ARRAY"
proof -
  from assms obtain hh where "heads (arrq m) a = Some hh" and ok: "mem_ok m"
    by (auto simp: arr_rep_def elim!: tq_repE)
  moreover from ok have "heads (arrq m) a = None \<longleftrightarrow> \<not> is_type m a XPC_TYPE_ARRAY"
    by (simp add: mem_ok_def)
  ultimately have "is_type m a XPC_TYPE_ARRAY" by simp
  then show ?thesis using that by (auto simp: is_type_def split: option.splits)
qed

lemma arr_rep_fchain:
  assumes "arr_rep m a vs"
  shows "\<exists>f. TAILQ_FIRST a (arrq m) = Inr (f, arrq m) \<and> fchain (nexts (arrq m)) f vs"
proof -
  from assms have rep: "tq_rep (arrq m) a vs" by (simp add: arr_rep_def)
  from rep_fchain [OF rep] obtain hh where "heads (arrq m) a = Some hh"
    "fchain (nexts (arrq m)) (tqh_first hh) vs" .
  then show ?thesis by (auto simp: TAILQ_FIRST_def get_runs run_defs)
qed

section \<open>Appending\<close>

text \<open>
  Appending a live object that is not in the array yet adds it at the end and retains it.  The
  array object itself does not change: its \<open>xo_size\<close> is not updated.
\<close>

lemma array_append_spec:
  assumes rep: "arr_rep m a vs" and v: "objs m v = Some vo" and new: "v \<notin> set vs"
  shows "\<exists>m'. xpc_array_append_value (Some a) (Some v) m = Inr ((), m') \<and> arr_rep m' a (vs @ [v]) \<and>
    objs m' = (objs m)(v \<mapsto> vo\<lparr>xo_refcnt := xo_refcnt vo + 1\<rparr>) \<and>
    tq_same (arrq m) (arrq m') {a} (insert v (set vs)) \<and> dictq m' = dictq m \<and> pairs m' = pairs m \<and>
    strs m' = strs m \<and> blobs m' = blobs m \<and> next_addr m' = next_addr m \<and> same_env m m'"
proof -
  from rep have ok: "mem_ok m" and tq: "tq_rep (arrq m) a vs" by (simp_all add: arr_rep_def)
  from mem_ok_link [OF ok, of v] v obtain ee where "ents (arrq m) v = Some ee" by auto
  from insert_tail_rep [OF tq new this] obtain q' where
    q': "TAILQ_INSERT_TAIL a v (arrq m) = Inr ((), q')" "tq_rep q' a (vs @ [v])"
      "tq_same (arrq m) q' {a} (insert v (set vs))" by blast
  let ?m = "m\<lparr>arrq := q', objs := (objs m)(v \<mapsto> vo\<lparr>xo_refcnt := xo_refcnt vo + 1\<rparr>)\<rparr>"
  have run: "xpc_array_append_value (Some a) (Some v) m = Inr ((), ?m)"
    using q'(1) v by (simp add: xpc_array_append_value_def seq_m_def zoom_m_Inr xpc_retain_runs return_m_def)
  then have "mem_ok ?m" using ok keepsD [OF keeps_array_append] by (fastforce simp: mem_step_def)
  with run q' show ?thesis by (auto simp: arr_rep_def same_env_def)
qed

text \<open>So arrays keep the queue contract, on the whole memory, and their \<open>xo_size\<close> stays.\<close>

definition arr_sized :: "64 word \<Rightarrow> xmem \<Rightarrow> addr \<Rightarrow> addr list \<Rightarrow> bool" where
  "arr_sized n m a vs \<longleftrightarrow> arr_rep m a vs \<and> (\<exists>xo. objs m a = Some xo \<and> xo_size xo = n)"

interpretation array: growing_queue "arr_sized n" live
  "\<lambda>a v. xpc_array_append_value (Some a) (Some v)" for n
proof unfold_locales
  fix m a vs v
  assume rep: "arr_sized n m a vs" and "live m v" and new: "v \<notin> set vs"
  then obtain vo where v: "objs m v = Some vo" by (auto simp: live_def)
  from rep have "arr_rep m a vs" by (simp add: arr_sized_def)
  from array_append_spec [OF this v new] obtain m' where
    m': "xpc_array_append_value (Some a) (Some v) m = Inr ((), m')" "arr_rep m' a (vs @ [v])"
      "objs m' = (objs m)(v \<mapsto> vo\<lparr>xo_refcnt := xo_refcnt vo + 1\<rparr>)"
      "tq_same (arrq m) (arrq m') {a} (insert v (set vs))" by blast
  have "live m' = live m" using m'(3) v by (auto simp: live_def fun_eq_iff)
  moreover have sz: "\<exists>xo. objs m' h = Some xo \<and> xo_size xo = n"
    if "arr_sized n m h ys" for h ys
    using that v m'(3) by (auto simp: arr_sized_def)
  have "arr_sized n m' a (vs @ [v])"
    using sz [OF rep] m'(2) unfolding arr_sized_def by (rule conjI [rotated])
  moreover have "arr_sized n m' h ys"
    if "h \<noteq> a" "arr_sized n m h ys" "set ys \<inter> set (vs @ [v]) = {}" for h ys
  proof -
    have "arr_rep m' h ys"
      using that m'(2) tq_rep_frame [OF _ m'(4), of h ys] by (auto simp: arr_rep_def arr_sized_def)
    then show ?thesis using sz [OF that(2)] unfolding arr_sized_def by (rule conjI)
  qed
  ultimately show "\<exists>s'. xpc_array_append_value (Some a) (Some v) m = Inr ((), s') \<and>
      arr_sized n s' a (vs @ [v]) \<and> live s' = live m \<and>
      (\<forall>h' ys. h' \<noteq> a \<longrightarrow> arr_sized n m h' ys \<longrightarrow> set ys \<inter> set (vs @ [v]) = {} \<longrightarrow>
        arr_sized n s' h' ys)"
    using m'(1) by (intro exI [of _ m'] conjI allI impI)
qed

lemma append_all_each:
  "append_all (Some a) (map Some vs) = each_m (\<lambda>v. xpc_array_append_value (Some a) (Some v)) vs"
  by (induction vs) auto

section \<open>A new array\<close>

lemma new_array_rep:
  assumes "mem_ok m"
  shows "arr_rep (new_object XPC_TYPE_ARRAY u sz fl m) (next_addr m) []"
proof -
  have "mem_ok (new_object XPC_TYPE_ARRAY u sz fl m)"
    using mem_ok_new_object [OF assms] by simp
  then show ?thesis by (simp add: arr_rep_def tq_rep_def new_object_def Let_def)
qed

lemma new_object_live: "live m v \<Longrightarrow> live (new_object t u sz fl m) v"
  by (simp add: live_def new_object_def Let_def)

lemma array_create_spec:
  assumes ok: "mem_ok m" and mal: "malloc_ok m (next_addr m)"
    and vs: "\<forall>v \<in> set vs. live m v" "distinct vs"
  shows "\<exists>m'. xpc_array_create (map Some vs) m = Inr (Some (next_addr m), m') \<and>
    arr_sized 0 m' (next_addr m) vs"
proof -
  let ?m = "new_object XPC_TYPE_ARRAY (U_bits 0) 0 0 m"
  have "arr_sized 0 ?m (next_addr m) []"
    using new_array_rep [OF ok] by (simp add: arr_sized_def new_object_def Let_def)
  from array.put_all [OF this, of vs] vs obtain m' where
    "append_all (Some (next_addr m)) (map Some vs) ?m = Inr ((), m')" "arr_sized 0 m' (next_addr m) vs"
    by (auto simp: append_all_each new_object_live)
  then show ?thesis
    using mal by (auto simp: xpc_array_create_def xpc_prim_create_def bind_m_def prim_create_runs
        seq_m_def return_m_def)
qed

section \<open>Reading\<close>

lemma get_value_loop:
  "unat j + length vs < 2 ^ 64 \<Longrightarrow>
   for_each (get_value_body i) vs ((j, r), m) =
     (if unat j \<le> unat i \<and> unat i < unat j + length vs
      then Inr (False, ((i + 1, Some (vs ! (unat i - unat j))), m))
      else Inr (True, ((j + word_of_nat (length vs), r), m)))"
proof (induction vs arbitrary: j)
  case Nil
  then show ?case by (auto simp: return_m_def)
next
  case (Cons v vs)
  from Cons.prems have j: "unat (j + 1) = unat j + 1"
    by (simp add: unat_word_ariths)
  show ?case
  proof (cases "j = i")
    case True
    then show ?thesis by (simp add: get_value_body_def on_local_def run_defs)
  next
    case False
    then have ne: "unat j \<noteq> unat i" by (simp add: word_unat_eq_iff)
    have "for_each (get_value_body i) (v # vs) ((j, r), m) = for_each (get_value_body i) vs ((j + 1, r), m)"
      using False by (simp add: get_value_body_def on_local_def run_defs)
    moreover have "(v # vs) ! (unat i - unat j) = vs ! (unat i - unat (j + 1))" if "unat j < unat i"
      using that j by (simp add: nth_Cons' )
    ultimately show ?thesis
      using Cons.IH [of "j + 1"] Cons.prems j ne by (auto simp: algebra_simps)
  qed
qed

lemma get_value_body_keeps:
  "get_value_body i x s = Inr (b, s') \<Longrightarrow> snd s' = snd s"
  by (cases s) (auto simp: get_value_body_def on_local_def run_defs split: if_splits)

lemma array_get_spec:
  assumes rep: "arr_rep m a vs" and xo: "objs m a = Some xo" and len: "length vs < 2 ^ 64"
  shows "xpc_array_get_value (Some a) i m =
    Inr (if unat i \<le> unat (xo_size xo) \<and> unat i < length vs then Some (vs ! unat i) else None, m)"
proof (cases "i > xo_size xo")
  case True
  with xo show ?thesis
    by (auto simp: xpc_array_get_value_def get_obj_runs bind_m_def return_m_def word_less_nat_alt)
next
  case False
  from arr_rep_fchain [OF rep] obtain f where
    f: "TAILQ_FIRST a (arrq m) = Inr (f, arrq m)" "fchain (nexts (arrq m)) f vs" by blast
  have "TAILQ_FOREACH (walk_fuel m) (\<lambda>s. arrq (snd s)) (get_value_body i) f ((0, None), m) =
      for_each (get_value_body i) vs ((0, None), m)"
    by (rule foreach_chain) (use f(2) arr_rep_fuel [OF rep] get_value_body_keeps in auto)
  with get_value_loop [of 0 vs i None m] len have
    "TAILQ_FOREACH (walk_fuel m) (\<lambda>s. arrq (snd s)) (get_value_body i) f ((0, None), m) =
      (if unat i < length vs then Inr (False, ((i + 1, Some (vs ! unat i)), m))
       else Inr (True, ((word_of_nat (length vs), None), m)))" by simp
  with f(1) xo False show ?thesis
    by (simp add: xpc_array_get_value_def get_obj_runs bind_m_def return_m_def with_local_def
        zoom_m_Inr word_le_nat_alt not_less)
qed

section \<open>Replacing\<close>

definition replace_elem :: "addr \<Rightarrow> addr \<Rightarrow> ptr \<Rightarrow> (xmem, bool) op" where
  "replace_elem a x obj = deref_m obj (\<lambda>v.
     seq_m (arr_op (TAILQ_INSERT_AFTER a x v))
     (seq_m (arr_op (TAILQ_REMOVE a x))
     (seq_m (xpc_retain obj)
     (seq_m (free_object x) (return_m False)))))"

lemma set_value_body_eq:
  "set_value_body a i obj x (j, m) =
     (if j = i then (case replace_elem a x obj m of Inl e \<Rightarrow> Inl e | Inr (b, m') \<Rightarrow> Inr (b, (j + 1, m')))
      else Inr (True, (j + 1, m)))"
  by (auto simp: set_value_body_def replace_elem_def on_local_def on_mem_def run_defs
      split: sum.splits)

lemma replace_elem_False: "replace_elem a x obj m = Inr (b, m') \<Longrightarrow> \<not> b"
  by (cases obj) (auto simp: replace_elem_def run_defs fail_m_def split: sum.splits prod.splits)

lemma set_value_loop:
  "unat j + length vs < 2 ^ 64 \<Longrightarrow> unat j \<le> unat i \<Longrightarrow> unat i < unat j + length vs \<Longrightarrow>
   for_each (set_value_body a i obj) vs (j, m) =
     (case replace_elem a (vs ! (unat i - unat j)) obj m of
        Inl e \<Rightarrow> Inl e | Inr (b, m') \<Rightarrow> Inr (False, (i + 1, m')))"
proof (induction vs arbitrary: j)
  case Nil
  then show ?case by simp
next
  case (Cons v vs)
  from Cons.prems have j: "unat (j + 1) = unat j + 1"
    by (simp add: unat_word_ariths)
  show ?case
  proof (cases "j = i")
    case True
    then show ?thesis
      by (auto simp: set_value_body_eq bind_m_def return_m_def dest: replace_elem_False
          split: sum.splits)
  next
    case False
    then have "unat j \<noteq> unat i" by (simp add: word_unat_eq_iff)
    with Cons.prems have lt: "unat j < unat i" by simp
    then have "(v # vs) ! (unat i - unat j) = vs ! (unat i - unat (j + 1))"
      using j by (simp add: nth_Cons')
    moreover have "for_each (set_value_body a i obj) (v # vs) (j, m) =
        for_each (set_value_body a i obj) vs (j + 1, m)"
      using False by (simp add: set_value_body_eq bind_m_def)
    ultimately show ?thesis
      using Cons.IH [of "j + 1"] Cons.prems j lt by simp
  qed
qed

text \<open>
  A new live element takes the place of the one at the index; the old element is freed.  The
  old element must not be the array itself or a static object.
\<close>

lemma replace_elem_spec:
  assumes rep: "arr_rep m a (as @ x # bs)" and v: "objs m v = Some vo"
    and new: "v \<notin> set (as @ x # bs)" and x: "x \<noteq> a" "x \<noteq> xpc_bool_true" "x \<noteq> xpc_bool_false"
  shows "\<exists>m'. replace_elem a x (Some v) m = Inr (False, m') \<and> arr_rep m' a (as @ v # bs) \<and>
    objs m' = (objs m)(v \<mapsto> vo\<lparr>xo_refcnt := xo_refcnt vo + 1\<rparr>, x := None)"
proof -
  from rep have ok: "mem_ok m" and tq: "tq_rep (arrq m) a (as @ x # bs)" by (simp_all add: arr_rep_def)
  from mem_ok_link [OF ok, of v] v obtain ee where "ents (arrq m) v = Some ee" by auto
  from insert_after_rep [OF tq new this] obtain q1 where
    q1: "TAILQ_INSERT_AFTER a x v (arrq m) = Inr ((), q1)" "tq_rep q1 a (as @ x # v # bs)" by blast
  from remove_rep [OF q1(2)] obtain q2 where
    q2: "TAILQ_REMOVE a x q1 = Inr ((), q2)" "tq_rep q2 a (as @ v # bs)" by blast
  have ne: "x \<noteq> v" "x \<notin> set (as @ v # bs)"
    using tq_rep_distinct [OF q1(2)] by auto
  let ?m1 = "m\<lparr>arrq := q2, objs := (objs m)(v \<mapsto> vo\<lparr>xo_refcnt := xo_refcnt vo + 1\<rparr>)\<rparr>"
  let ?q3 = "q2\<lparr>heads := (heads q2)(x := None), ents := (ents q2)(x := None)\<rparr>"
  let ?m2 = "?m1\<lparr>objs := (objs ?m1)(x := None), arrq := ?q3,
      dictq := (dictq m)\<lparr>heads := (heads (dictq m))(x := None)\<rparr>\<rparr>"
  from arr_rep_live [OF rep, of x] have "objs m x \<noteq> None" by (simp add: live_def)
  then have fr: "free_object x ?m1 = Inr ((), ?m2)"
    using x ne by (simp add: free_object_def)
  have run: "replace_elem a x (Some v) m = Inr (False, ?m2)"
    using q1(1) q2(1) v fr by (simp add: replace_elem_def seq_m_def zoom_m_Inr xpc_retain_runs return_m_def)
  have "sound (replace_elem a x (Some v))"
    unfolding replace_elem_def by (intro mem_keeps)
  from keepsD [OF this run] ok have "mem_ok ?m2" by (simp add: mem_step_def)
  moreover have "tq_rep ?q3 a (as @ v # bs)"
  proof -
    have "dseg ((ents q2)(x := None)) p f (as @ v # bs) l n = dseg (ents q2) p f (as @ v # bs) l n"
      for p f l n by (rule dseg_cong) (use ne(2) in auto)
    with q2(2) x(1) show ?thesis by (simp add: tq_rep_def)
  qed
  ultimately have "arr_rep ?m2 a (as @ v # bs)" by (simp add: arr_rep_def)
  with run show ?thesis by (intro exI [of _ ?m2]) simp
qed

lemma array_set_spec:
  assumes rep: "arr_rep m a vs" and xo: "objs m a = Some xo" and len: "length vs < 2 ^ 64"
    and i: "unat i < unat (xo_size xo)" "unat i < length vs" "i \<noteq> XPC_ARRAY_APPEND"
    and v: "objs m v = Some vo" "v \<notin> set vs"
    and old: "vs ! unat i \<noteq> a" "vs ! unat i \<noteq> xpc_bool_true" "vs ! unat i \<noteq> xpc_bool_false"
  shows "\<exists>m'. xpc_array_set_value (Some a) i (Some v) m = Inr ((), m') \<and>
    arr_rep m' a (vs[unat i := v]) \<and>
    objs m' = (objs m)(v \<mapsto> vo\<lparr>xo_refcnt := xo_refcnt vo + 1\<rparr>, vs ! unat i := None)"
proof -
  let ?x = "vs ! unat i"
  have split: "vs = take (unat i) vs @ ?x # drop (Suc (unat i)) vs"
    using i(2) by (simp add: id_take_nth_drop)
  have upd: "take (unat i) vs @ v # drop (Suc (unat i)) vs = vs[unat i := v]"
    using i(2) by (simp add: upd_conv_take_nth_drop)
  from rep split have "arr_rep m a (take (unat i) vs @ ?x # drop (Suc (unat i)) vs)" by simp
  from replace_elem_spec [OF this v(1) _ old] v(2) split obtain m' where
    m': "replace_elem a ?x (Some v) m = Inr (False, m')" "arr_rep m' a (vs[unat i := v])"
      "objs m' = (objs m)(v \<mapsto> vo\<lparr>xo_refcnt := xo_refcnt vo + 1\<rparr>, ?x := None)"
    by (auto simp: upd)
  from arr_rep_fchain [OF rep] obtain f where
    f: "TAILQ_FIRST a (arrq m) = Inr (f, arrq m)" "fchain (nexts (arrq m)) f vs" by blast
  have "TAILQ_FOREACH_SAFE (walk_fuel m) (\<lambda>s. arrq (snd s)) (set_value_body a i (Some v)) f (0, m) =
      for_each (set_value_body a i (Some v)) vs (0, m)"
  proof (rule foreach_safe_chain)
    show "fchain (nexts (arrq (snd (0, m)))) f vs" using f(2) by simp
    show "distinct vs" using rep by (rule arr_rep_distinct)
    show "length vs \<le> walk_fuel m" using rep by (rule arr_rep_fuel)
  next
    fix x y and s s' :: "64 word \<times> xmem"
    assume "set_value_body a i (Some v) x s = Inr (True, s')"
    then show "nexts (arrq (snd s')) y = nexts (arrq (snd s)) y"
      by (cases s) (auto simp: set_value_body_eq dest: replace_elem_False split: if_splits sum.splits)
  qed
  then have "TAILQ_FOREACH_SAFE (walk_fuel m) (\<lambda>s. arrq (snd s)) (set_value_body a i (Some v)) f (0, m) =
      Inr (False, (i + 1, m'))"
    using set_value_loop [of 0 vs i a "Some v" m] len i(2) m'(1) by simp
  then show ?thesis
    using f(1) xo i m'(2,3)
    by (simp add: xpc_array_set_value_def get_obj_runs bind_m_def seq_m_def return_m_def
        with_local_def zoom_m_Inr word_le_nat_alt not_le)
qed

end
