(* ===== verification/XpcArrayClaims.thy ===== *)
theory XpcArrayClaims
  imports XpcArraySpec
begin

text \<open>
  Applying a function to an array, what happens when an object is put in twice, and the
  properties of arrays.
\<close>

section \<open>Applying a function\<close>

text \<open>The calls an application makes on a list of elements: with the index counted in 64 bits.\<close>

primrec apply_list ::
  "(64 word \<Rightarrow> ptr \<Rightarrow> ('u \<times> xmem, bool) op) \<Rightarrow> 64 word \<Rightarrow> addr list \<Rightarrow> ('u \<times> xmem, bool) op" where
  "apply_list f i [] = return_m True"
| "apply_list f i (v # vs) =
     bind_m (f i (Some v)) (\<lambda>continue. if continue then apply_list f (i + 1) vs else return_m False)"

lemma for_each_apply_body:
  "(case for_each (apply_array_body f) vs (i, um) of Inl e \<Rightarrow> Inl e | Inr (r, (_, um')) \<Rightarrow> Inr (r, um')) =
   apply_list f i vs um"
proof (induction vs arbitrary: i um)
  case Nil
  then show ?case by (simp add: return_m_def)
next
  case (Cons v vs)
  show ?case
  proof (cases "f i (Some v) um")
    case (Inl e)
    then show ?thesis by (simp add: apply_array_body_def bind_m_def)
  next
    case (Inr p)
    then obtain c um' where p: "f i (Some v) um = Inr (c, um')" by (cases p) auto
    with Cons.IH [of "i + 1" um'] show ?thesis
      by (cases c) (simp_all add: apply_array_body_def bind_m_def return_m_def)
  qed
qed

text \<open>An applier that leaves the array links alone is called on each element once, in order.\<close>

lemma array_apply_spec:
  assumes rep: "arr_rep m a vs" and fuel: "length vs \<le> fuel"
    and links: "\<And>i v um b um'. f i v um = Inr (b, um') \<Longrightarrow> arrq (snd um') = arrq (snd um)"
  shows "xpc_array_apply_fun fuel (Some a) f (u, m) = apply_list f 0 vs (u, m)"
proof -
  from arr_rep_fchain [OF rep] obtain p where
    p: "TAILQ_FIRST a (arrq m) = Inr (p, arrq m)" "fchain (nexts (arrq m)) p vs" by blast
  have "TAILQ_FOREACH fuel (\<lambda>s. arrq (snd (snd s))) (apply_array_body f) p (0, u, m) =
      for_each (apply_array_body f) vs (0, u, m)"
  proof (rule foreach_chain)
    fix x y and s s' :: "64 word \<times> 'a \<times> xmem"
    assume "apply_array_body f x s = Inr (True, s')"
    then show "nexts (arrq (snd (snd s'))) y = nexts (arrq (snd (snd s))) y"
      by (cases s) (auto simp: apply_array_body_def split: sum.splits dest: links)
  qed (use p(2) fuel in simp_all)
  then show ?thesis
    using p(1) for_each_apply_body [of f vs 0 "(u, m)"]
    by (simp add: xpc_array_apply_fun_def bind_m_def on_mem_def zoom_m_Inr)
qed

section \<open>The same object twice\<close>

lemma fchain_next_in:
  "fchain N f (vs @ [v]) \<Longrightarrow> x \<in> set vs \<Longrightarrow> \<exists>y \<in> set (vs @ [v]). N x = Some (Some y)"
proof (induction vs arbitrary: f)
  case Nil
  then show ?case by simp
next
  case (Cons w vs)
  then show ?case by (cases vs) auto
qed

lemma append_twice:
  assumes rep: "arr_rep m a (vs @ [v])"
  shows "\<exists>m'. xpc_array_append_value (Some a) (Some v) m = Inr ((), m') \<and>
    (\<forall>x \<in> set (vs @ [v]). \<exists>y \<in> set (vs @ [v]). nexts (arrq m') x = Some (Some y)) \<and>
    (\<exists>f \<in> set (vs @ [v]). TAILQ_FIRST a (arrq m') = Inr (Some f, arrq m'))"
proof -
  from rep have tq: "tq_rep (arrq m) a (vs @ [v])" by (simp add: arr_rep_def)
  from insert_tail_twice_cycle [OF tq] obtain q' where q': "TAILQ_INSERT_TAIL a v (arrq m) = Inr ((), q')"
    "ents q' v = Some \<lparr>tqe_next = Some v, tqe_prev = ElemNext v\<rparr>"
    "\<forall>x. x \<noteq> v \<longrightarrow> ents q' x = ents (arrq m) x" by blast
  from arr_rep_live [OF rep, of v] obtain vo where v: "objs m v = Some vo" by (auto simp: live_def)
  let ?m = "m\<lparr>arrq := q', objs := (objs m)(v \<mapsto> vo\<lparr>xo_refcnt := xo_refcnt vo + 1\<rparr>)\<rparr>"
  have run: "xpc_array_append_value (Some a) (Some v) m = Inr ((), ?m)"
    using q'(1) v by (simp add: xpc_array_append_value_def seq_m_def zoom_m_Inr xpc_retain_runs return_m_def)
  from rep_fchain [OF tq] obtain hh where hh: "heads (arrq m) a = Some hh"
    "fchain (nexts (arrq m)) (tqh_first hh) (vs @ [v])" .
  have "nexts q' x = nexts (arrq m) x" if "x \<noteq> v" for x using q'(3) that by (simp add: nexts_def)
  moreover have "nexts q' v = Some (Some v)" using q'(2) by (simp add: nexts_def)
  moreover have "v \<notin> set vs" using arr_rep_distinct [OF rep] by simp
  ultimately have cyc: "\<forall>x \<in> set (vs @ [v]). \<exists>y \<in> set (vs @ [v]). nexts q' x = Some (Some y)"
    using fchain_next_in [OF hh(2)] by (metis Un_iff empty_iff insert_iff list.set set_append)
  from tq obtain en where "ents (arrq m) v = Some en" "tqh_last hh = ElemNext v"
    using hh(1) by (auto simp: tq_rep_split)
  then have "tqh_first (the (heads q' a)) = tqh_first hh" and "heads q' a \<noteq> None"
    using q'(1) hh(1) by (auto simp: TAILQ_INSERT_TAIL_def get_runs set_field_runs seq_m_def bind_m_def)
  then obtain h' where "heads q' a = Some h'" "tqh_first h' = tqh_first hh" by auto
  moreover obtain f where "tqh_first hh = Some f" "f \<in> set (vs @ [v])"
    using hh(2) by (cases vs) auto
  ultimately have "\<exists>f \<in> set (vs @ [v]). TAILQ_FIRST a q' = Inr (Some f, q')"
    by (auto simp: TAILQ_FIRST_def get_runs run_defs)
  with run cyc show ?thesis by (intro exI [of _ ?m]) simp
qed

section \<open>Properties\<close>

text \<open>An applier that writes down the calls it gets.\<close>

definition note_call ::
  "64 word \<Rightarrow> ptr \<Rightarrow> ((64 word \<times> ptr) list \<times> xmem, bool) op" where
  "note_call i v = (\<lambda>(l, m). Inr (True, (l @ [(i, v)], m)))"

lemma apply_list_note:
  "apply_list note_call (word_of_nat k) vs (l, m) =
     Inr (True, (l @ map (\<lambda>i. (word_of_nat (k + i), Some (vs ! i))) [0..<length vs], m))"
proof (induction vs arbitrary: k l)
  case Nil
  then show ?case by (simp add: return_m_def)
next
  case (Cons v vs)
  have "word_of_nat k + (1::64 word) = word_of_nat (Suc k)" by simp
  moreover have "map (\<lambda>i. (word_of_nat (k + i) :: 64 word, Some ((v # vs) ! i))) [0..<length (v # vs)] =
      (word_of_nat k, Some v) # map (\<lambda>i. (word_of_nat (Suc k + i), Some (vs ! i))) [0..<length vs]"
    by (simp add: upt_conv_Cons map_Suc_upt [symmetric] del: upt_Suc)
  ultimately show ?case
    using Cons.IH [of "Suc k" "l @ [(word_of_nat k, Some v)]"]
    by (simp add: note_call_def bind_m_def del: upt_Suc of_nat_Suc of_nat_add)
qed

text \<open>A memory with two numbers, at addresses 2 and 3, to evaluate the properties on.\<close>

definition demo_mem :: xmem where
  "demo_mem = new_object XPC_TYPE_INT64 (U_bits 9) 1 0
     (new_object XPC_TYPE_INT64 (U_bits 7) 1 0 (init_mem (\<lambda>_. None) 2 (\<lambda>_. True) 0))"

lemma demo_mem_ok [simp]: "mem_ok demo_mem"
  by (simp add: demo_mem_def mem_ok_new_object init_mem_ok scalar_type_def)

lemma demo_mem_simps [simp]:
  "next_addr demo_mem = 4" "malloc_ok demo_mem a" "live demo_mem 2" "live demo_mem 3"
  by (simp_all add: demo_mem_def new_object_def init_mem_def Let_def live_def)

text \<open>C17: An array created from distinct live objects holds exactly these, in order: applying a
  function to it calls the function once for each object, with the indices 0, 1, 2 and so on, and
  returns true.\<close>

theorem array_create_apply:
  assumes "mem_ok m" and "malloc_ok m (next_addr m)" and "\<forall>v \<in> set vs. live m v" and "distinct vs"
    and "length vs \<le> fuel"
  shows "\<exists>m'. xpc_array_create (map Some vs) m = Inr (Some (next_addr m), m') \<and>
    xpc_array_apply_fun fuel (Some (next_addr m)) note_call ([], m') =
      Inr (True, (map (\<lambda>i. (word_of_nat i, Some (vs ! i))) [0..<length vs], m'))"
proof -
  from array_create_spec [OF assms(1-4)] obtain m' where
    m': "xpc_array_create (map Some vs) m = Inr (Some (next_addr m), m')"
      "arr_rep m' (next_addr m) vs" by (auto simp: arr_sized_def)
  have "xpc_array_apply_fun fuel (Some (next_addr m)) note_call ([], m') =
      apply_list note_call 0 vs ([], m')"
    by (rule array_apply_spec [OF m'(2) assms(5)]) (auto simp: note_call_def)
  with m'(1) apply_list_note [of 0 vs "[]" m'] show ?thesis by simp
qed

theorem array_create_apply_witness:
  "\<exists>m'. xpc_array_create [Some 3, Some 2] demo_mem = Inr (Some 4, m') \<and>
    xpc_array_apply_fun 2 (Some 4) note_call ([], m') =
      Inr (True, ([(0, Some 3), (1, Some 2)], m'))"
  using array_create_apply [of demo_mem "[3, 2]" 2] by (simp add: upt_rec)



text \<open>An array with a size, as it would be if appending counted.\<close>

definition demo_array :: xmem where
  "demo_array = (case xpc_array_append_value (Some 4) (Some 3)
     (new_object XPC_TYPE_ARRAY (U_bits 0) 1 0 demo_mem) of Inr (_, m) \<Rightarrow> m | Inl _ \<Rightarrow> demo_mem)"

lemma demo_array_rep: "arr_rep demo_array 4 [3]" "objs demo_array 2 \<noteq> None"
  "\<exists>xo. objs demo_array 4 = Some xo \<and> xo_size xo = 1"
proof -
  let ?m = "new_object XPC_TYPE_ARRAY (U_bits 0) 1 0 demo_mem"
  have sized: "arr_sized 1 ?m 4 []"
    using new_array_rep [of demo_mem] by (simp add: arr_sized_def new_object_def Let_def)
  have "live ?m 3" "live ?m 2" by (simp_all add: new_object_live)
  with array.put_law [OF sized, of 3] obtain m' where
    "xpc_array_append_value (Some 4) (Some 3) ?m = Inr ((), m')" "arr_sized 1 m' 4 [3]"
    "live m' 2" using \<open>live ?m 2\<close> by auto
  then show "arr_rep demo_array 4 [3]" "objs demo_array 2 \<noteq> None"
    "\<exists>xo. objs demo_array 4 = Some xo \<and> xo_size xo = 1"
    by (auto simp: demo_array_def arr_sized_def live_def)
qed

text \<open>C37: Appending the object that is already the last element of an array links it to itself:
  applying a function that does not stop to the array never returns, whatever the fuel.\<close>

theorem array_append_twice_diverges:
  assumes "arr_rep m a (vs @ [v])"
    and "\<And>i w um. \<exists>um'. f i w um = Inr (True, um') \<and> arrq (snd um') = arrq (snd um)"
  shows "\<exists>m'. xpc_array_append_value (Some a) (Some v) m = Inr ((), m') \<and>
    xpc_array_apply_fun fuel (Some a) f (u, m') = Inl Diverges"
proof -
  from append_twice [OF assms(1)] obtain m' p where
    m': "xpc_array_append_value (Some a) (Some v) m = Inr ((), m')"
    and cyc: "\<forall>x \<in> set (vs @ [v]). \<exists>y \<in> set (vs @ [v]). nexts (arrq m') x = Some (Some y)"
    and p: "p \<in> set (vs @ [v])" "TAILQ_FIRST a (arrq m') = Inr (Some p, arrq m')" by blast
  have "TAILQ_FOREACH fuel (\<lambda>s. arrq (snd (snd s))) (apply_array_body f) (Some p) (0, u, m') = Inl Diverges"
  proof (rule foreach_cycle_diverges [where C = "set (vs @ [v])" and I = "\<lambda>s. arrq (snd (snd s)) = arrq m'"])
    fix x and s :: "64 word \<times> 'a \<times> xmem"
    assume I: "arrq (snd (snd s)) = arrq m'"
    obtain i um where s: "s = (i, um)" by (cases s)
    from assms(2) [of i "Some x" um] obtain um' where "f i (Some x) um = Inr (True, um')"
      "arrq (snd um') = arrq (snd um)" by blast
    with I s show "\<exists>s'. apply_array_body f x s = Inr (True, s') \<and> arrq (snd (snd s')) = arrq m'"
      by (simp add: apply_array_body_def)
  qed (use p(1) cyc in auto)
  with m' p(2) show ?thesis
    by (simp add: xpc_array_apply_fun_def bind_m_def on_mem_def zoom_m_Inr)
qed

theorem array_append_twice_diverges_witness:
  "\<exists>m'. xpc_array_append_value (Some 4) (Some 3) demo_array = Inr ((), m') \<and>
    xpc_array_apply_fun 1000 (Some 4) note_call ([], m') = Inl Diverges"
  using array_append_twice_diverges [of demo_array 4 "[]" 3 note_call 1000 "[]"] demo_array_rep(1)
  by (simp add: note_call_def split_beta)

end
