(* ===== verification/XpcDictSpec.thy ===== *)
theory XpcDictSpec
  imports XpcArraySpec "HOL-Library.AList"
begin

text \<open>
  What the operations on dictionaries do, in terms of the list of key strings and values a
  dictionary holds, in the order of first insertion (\<open>dict_rep n m d kvs\<close>), and the dictionary
  as an instance of the contract of a map with string keys.
\<close>

section \<open>Dictionaries as association lists\<close>

definition pair_holds :: "xmem \<Rightarrow> addr \<Rightarrow> byte list \<times> ptr \<Rightarrow> bool" where
  "pair_holds m p kv \<longleftrightarrow> (\<exists>k. pairs m p = Some \<lparr>dp_key = Some k, dp_value = snd kv\<rparr> \<and>
     strs m k = Some (fst kv))"

definition dict_rep :: "64 word \<Rightarrow> xmem \<Rightarrow> addr \<Rightarrow> (byte list \<times> ptr) list \<Rightarrow> bool" where
  "dict_rep n m d kvs \<longleftrightarrow> mem_ok m \<and> (\<forall>a. malloc_ok m a) \<and> distinct (map fst kvs) \<and>
     (\<exists>ps. tq_rep (dictq m) d ps \<and> list_all2 (pair_holds m) ps kvs) \<and>
     (\<exists>xo. objs m d = Some xo \<and> xo_size xo = n + word_of_nat (length kvs))"

lemma pair_holds_cong:
  "pairs m' p = pairs m p \<Longrightarrow> strs m' = strs m \<Longrightarrow> pair_holds m' p = pair_holds m p"
  by (simp add: pair_holds_def fun_eq_iff)

lemma pairs_hold_cong:
  "list_all2 (pair_holds m) ps kvs \<Longrightarrow> (\<And>p. p \<in> set ps \<Longrightarrow> pairs m' p = pairs m p) \<Longrightarrow>
   strs m' = strs m \<Longrightarrow> list_all2 (pair_holds m') ps kvs"
proof (induction rule: list_all2_induct)
  case (Cons p ps kv kvs)
  then show ?case using pair_holds_cong [of m' p m] by simp
qed simp

lemma dict_pairs_below:
  assumes "mem_ok m" and "tq_rep (dictq m) d ps" and "p \<in> set ps"
  shows "pairs m p \<noteq> None \<and> p < next_addr m"
proof -
  from tq_rep_ents [OF assms(2,3)] have "ents (dictq m) p \<noteq> None" by simp
  with assms(1) have "pairs m p \<noteq> None" by (simp add: mem_ok_def)
  with assms(1) show ?thesis by (auto simp: mem_ok_def not_less [symmetric] simp del: not_None_eq)
qed

lemma dict_fuel:
  assumes "mem_ok m" and "tq_rep (dictq m) d ps"
  shows "length ps \<le> walk_fuel m"
  using distinct_length_le [of ps "next_addr m"] dict_pairs_below [OF assms] tq_rep_distinct [OF assms(2)]
  by (fastforce simp: walk_fuel_def)

lemma dict_fchain:
  assumes "tq_rep (dictq m) d ps"
  shows "\<exists>f. TAILQ_FIRST d (dictq m) = Inr (f, dictq m) \<and> fchain (nexts (dictq m)) f ps"
proof -
  from rep_fchain [OF assms] obtain hh where "heads (dictq m) d = Some hh"
    "fchain (nexts (dictq m)) (tqh_first hh) ps" .
  then show ?thesis by (auto simp: TAILQ_FIRST_def get_runs run_defs)
qed

section \<open>Looking up\<close>

lemma dict_get_loop:
  assumes "strs m k = Some s"
  shows "list_all2 (pair_holds m) ps kvs \<Longrightarrow>
   for_each (dict_get_body (Some k)) ps (r, m) =
     (case map_of kvs s of None \<Rightarrow> Inr (True, (r, m)) | Some v \<Rightarrow> Inr (False, (v, m)))"
proof (induction rule: list_all2_induct)
  case Nil
  then show ?case by (simp add: return_m_def)
next
  case (Cons p ps kv kvs)
  then obtain k' where p: "pairs m p = Some \<lparr>dp_key = Some k', dp_value = snd kv\<rparr>"
    "strs m k' = Some (fst kv)" by (auto simp: pair_holds_def)
  then have "dict_get_body (Some k) p (r, m) =
      (if fst kv = s then Inr (False, (snd kv, m)) else Inr (True, (r, m)))"
    using assms by (simp add: dict_get_body_def on_mem_def on_local_def get_pair_runs str_eq_runs run_defs)
  with Cons.IH show ?case by (cases kv) (auto simp: bind_m_def return_m_def)
qed

lemma dict_get_body_keeps:
  "dict_get_body k x s = Inr (b, s') \<Longrightarrow> snd s' = snd s"
  by (cases s) (auto simp: dict_get_body_def on_mem_def on_local_def str_eq_def get_str_def
      get_pair_def deref_m_def fail_m_def run_defs split: if_splits option.splits)

lemma dict_get_spec:
  assumes rep: "dict_rep n m d kvs" and k: "strs m k = Some s"
  shows "xpc_dictionary_get_value (Some d) (Some k) m =
    Inr (case map_of kvs s of None \<Rightarrow> None | Some v \<Rightarrow> v, m)"
proof -
  from rep obtain ps where ps: "mem_ok m" "tq_rep (dictq m) d ps" "list_all2 (pair_holds m) ps kvs"
    by (auto simp: dict_rep_def)
  from dict_fchain [OF ps(2)] obtain f where
    f: "TAILQ_FIRST d (dictq m) = Inr (f, dictq m)" "fchain (nexts (dictq m)) f ps" by blast
  have "TAILQ_FOREACH (walk_fuel m) (\<lambda>s. dictq (snd s)) (dict_get_body (Some k)) f (None, m) =
      for_each (dict_get_body (Some k)) ps (None, m)"
    by (rule foreach_chain) (use f(2) dict_fuel [OF ps(1,2)] dict_get_body_keeps in auto)
  with f(1) dict_get_loop [OF k ps(3), of None] show ?thesis
    by (simp add: xpc_dictionary_get_value_def bind_m_def zoom_m_Inr with_local_def return_m_def
        split: option.splits)
qed

section \<open>Setting\<close>

lemma alist_update_new: "k \<notin> fst ` set kvs \<Longrightarrow> AList.update k v kvs = kvs @ [(k, v)]"
  by (induction kvs) auto

lemma alist_update_length:
  "length (AList.update k v kvs) = (if k \<in> fst ` set kvs then length kvs else Suc (length kvs))"
  by (induction kvs) auto

lemma dict_set_loop_missing:
  assumes "strs m k = Some s"
  shows "list_all2 (pair_holds m) ps kvs \<Longrightarrow> s \<notin> fst ` set kvs \<Longrightarrow>
    for_each (dict_set_body (Some k) v) ps m = Inr (True, m)"
proof (induction rule: list_all2_induct)
  case Nil
  then show ?case by (simp add: return_m_def)
next
  case (Cons p ps kv kvs)
  then obtain k' where p: "pairs m p = Some \<lparr>dp_key = Some k', dp_value = snd kv\<rparr>"
    "strs m k' = Some (fst kv)" by (auto simp: pair_holds_def)
  then have "dict_set_body (Some k) v p m = Inr (True, m)"
    using assms Cons.prems by (auto simp: dict_set_body_def get_pair_runs str_eq_runs run_defs)
  with Cons show ?case by (simp add: bind_m_def)
qed

lemma dict_set_loop_found:
  assumes "strs m k = Some s"
  shows "list_all2 (pair_holds m) ps kvs \<Longrightarrow> distinct ps \<Longrightarrow> distinct (map fst kvs) \<Longrightarrow>
    s \<in> fst ` set kvs \<Longrightarrow>
    \<exists>p \<in> set ps. \<exists>dp. for_each (dict_set_body (Some k) v) ps m =
       Inr (False, m\<lparr>pairs := (pairs m)(p \<mapsto> dp)\<rparr>) \<and>
      list_all2 (pair_holds (m\<lparr>pairs := (pairs m)(p \<mapsto> dp)\<rparr>)) ps (AList.update s v kvs)"
proof (induction rule: list_all2_induct)
  case Nil
  then show ?case by simp
next
  case (Cons p ps kv kvs)
  then obtain k' where p: "pairs m p = Some \<lparr>dp_key = Some k', dp_value = snd kv\<rparr>"
    "strs m k' = Some (fst kv)" by (auto simp: pair_holds_def)
  show ?case
  proof (cases "fst kv = s")
    case True
    let ?dp = "\<lparr>dp_key = Some k', dp_value = v\<rparr>"
    let ?m = "m\<lparr>pairs := (pairs m)(p \<mapsto> ?dp)\<rparr>"
    have "for_each (dict_set_body (Some k) v) (p # ps) m = Inr (False, ?m)"
      using p True assms by (simp add: dict_set_body_def get_pair_runs str_eq_runs upd_pair_runs run_defs)
    moreover have "list_all2 (pair_holds ?m) ps kvs"
      using Cons.hyps(2) Cons.prems(1) by (auto intro: pairs_hold_cong)
    moreover have "pair_holds ?m p (s, v)" using p(2) True by (auto simp: pair_holds_def)
    ultimately show ?thesis using True
      by (intro bexI [of _ p] exI [of _ ?dp] conjI) (simp_all only: AList.update.simps
        list_all2_Cons if_True simp_thms list.set_intros)
  next
    case False
    then have skip: "dict_set_body (Some k) v p m = Inr (True, m)"
      using p assms by (auto simp: dict_set_body_def get_pair_runs str_eq_runs run_defs)
    have "s \<in> fst ` set kvs" using Cons.prems(3) False by auto
    moreover have "distinct ps" "distinct (map fst kvs)" using Cons.prems(1,2) by simp_all
    ultimately obtain p' dp where p': "p' \<in> set ps"
      "for_each (dict_set_body (Some k) v) ps m = Inr (False, m\<lparr>pairs := (pairs m)(p' \<mapsto> dp)\<rparr>)"
      "list_all2 (pair_holds (m\<lparr>pairs := (pairs m)(p' \<mapsto> dp)\<rparr>)) ps (AList.update s v kvs)"
      using Cons.IH by blast
    moreover have "pair_holds (m\<lparr>pairs := (pairs m)(p' \<mapsto> dp)\<rparr>) p kv"
      using Cons.hyps(1) p'(1) Cons.prems(1) by (auto simp: pair_holds_def)
    ultimately show ?thesis using False skip
      by (intro bexI [of _ p'] exI [of _ dp] conjI) (simp_all add: bind_m_def del: fun_upd_apply)
  qed
qed

text \<open>Setting the value of a key that is there: only the pair changes, nothing is retained.\<close>

lemma dict_set_run:
  assumes ps: "mem_ok m" "tq_rep (dictq m) d ps"
    and loop: "for_each (dict_set_body k v) ps m = Inr (b, m')"
    and keep: "\<And>p m b m'. p \<in> set ps \<Longrightarrow> dict_set_body k v p m = Inr (b, m') \<Longrightarrow> dictq m' = dictq m"
  shows "xpc_dictionary_set_value (Some d) k v m = (if b then dict_add_pair (Some d) k v m' else Inr ((), m'))"
proof -
  from dict_fchain [OF ps(2)] obtain f where
    f: "TAILQ_FIRST d (dictq m) = Inr (f, dictq m)" "fchain (nexts (dictq m)) f ps" by blast
  have "TAILQ_FOREACH (walk_fuel m) dictq (dict_set_body k v) f m = for_each (dict_set_body k v) ps m"
    by (rule foreach_chain) (use f(2) dict_fuel [OF ps] keep in auto)
  with f(1) loop show ?thesis
    by (simp add: xpc_dictionary_set_value_def bind_m_def zoom_m_Inr return_m_def)
qed

lemma dict_set_body_keeps: "dict_set_body k v p m = Inr (b, m') \<Longrightarrow> dictq m' = dictq m"
  by (auto simp: dict_set_body_def str_eq_def get_str_def get_pair_def upd_pair_def
      deref_m_def fail_m_def run_defs split: if_splits option.splits)

lemma dict_set_keeps_ok:
  assumes "mem_ok m" and "\<forall>a. malloc_ok m a" and "xpc_dictionary_set_value d k v m = Inr (x, m')"
  shows "mem_ok m' \<and> (\<forall>a. malloc_ok m' a)"
  using keepsD [OF keeps_dict_set assms(3)] assms(1,2) by (simp add: mem_step_def same_env_def)

definition other_dicts :: "64 word \<Rightarrow> addr \<Rightarrow> xmem \<Rightarrow> xmem \<Rightarrow> bool" where
  "other_dicts n d m m' \<longleftrightarrow> (\<forall>d' kvs'. d' \<noteq> d \<longrightarrow> dict_rep n m d' kvs' \<longrightarrow> dict_rep n m' d' kvs')"

lemma dict_set_found:
  assumes rep: "dict_rep n m d kvs" and k: "strs m k = Some s" and "s \<in> fst ` set kvs"
  shows "\<exists>m'. xpc_dictionary_set_value (Some d) (Some k) v m = Inr ((), m') \<and>
    dict_rep n m' d (AList.update s v kvs) \<and> objs m' = objs m \<and> strs m' = strs m \<and>
    (\<forall>n'. other_dicts n' d m m')"
proof -
  from rep obtain ps xo where ok: "mem_ok m" "\<forall>a. malloc_ok m a" and
    ps: "tq_rep (dictq m) d ps" "list_all2 (pair_holds m) ps kvs" and d: "distinct (map fst kvs)"
    and xo: "objs m d = Some xo" "xo_size xo = n + word_of_nat (length kvs)"
    by (auto simp: dict_rep_def)
  from dict_set_loop_found [OF k ps(2) tq_rep_distinct [OF ps(1)] d assms(3)] obtain p dp where
    p: "p \<in> set ps" and loop: "for_each (dict_set_body (Some k) v) ps m =
      Inr (False, m\<lparr>pairs := (pairs m)(p \<mapsto> dp)\<rparr>)"
    and holds: "list_all2 (pair_holds (m\<lparr>pairs := (pairs m)(p \<mapsto> dp)\<rparr>)) ps (AList.update s v kvs)"
    by blast
  let ?m = "m\<lparr>pairs := (pairs m)(p \<mapsto> dp)\<rparr>"
  have run: "xpc_dictionary_set_value (Some d) (Some k) v m = Inr ((), ?m)"
    using dict_set_run [OF ok(1) ps(1) loop dict_set_body_keeps] by simp
  from dict_set_keeps_ok [OF ok run] have ok': "mem_ok ?m" "\<forall>a. malloc_ok ?m a" by auto
  have "dict_rep n ?m d (AList.update s v kvs)"
    unfolding dict_rep_def using ok' ps(1) holds xo assms(3) distinct_update [OF d, of s v]
    by (simp add: alist_update_length) blast
  moreover have "other_dicts n' d m ?m" for n'
    unfolding other_dicts_def
  proof (intro allI impI)
    fix d' kvs' assume "d' \<noteq> d" and "dict_rep n' m d' kvs'"
    then obtain ps' where ps': "tq_rep (dictq m) d' ps'" "list_all2 (pair_holds m) ps' kvs'"
      and rest: "distinct (map fst kvs')"
        "\<exists>xo. objs m d' = Some xo \<and> xo_size xo = n' + word_of_nat (length kvs')"
      by (auto simp: dict_rep_def)
    have "p \<notin> set ps'" using tq_rep_disjoint [OF ps(1) ps'(1)] \<open>d' \<noteq> d\<close> p by blast
    then have "list_all2 (pair_holds ?m) ps' kvs'" using ps'(2) by (auto intro: pairs_hold_cong)
    with ok' ps'(1) rest show "dict_rep n' ?m d' kvs'" unfolding dict_rep_def by auto
  qed
  ultimately show ?thesis using run by (intro exI [of _ ?m]) simp
qed

text \<open>
  Setting a new key: the pair is put in at the end, the count goes up and the value is retained.
\<close>

definition dict_grows :: "addr \<Rightarrow> addr \<Rightarrow> addr list \<Rightarrow> xmem \<Rightarrow> xmem \<Rightarrow> bool" where
  "dict_grows d u ps m m' \<longleftrightarrow> next_addr m' = Suc (next_addr m) \<and>
     tq_rep (dictq m') d (ps @ [next_addr m]) \<and>
     (\<forall>a. a \<noteq> d \<longrightarrow> a \<noteq> u \<longrightarrow> objs m' a = objs m a) \<and>
     (\<forall>a. a \<noteq> next_addr m \<longrightarrow> pairs m' a = pairs m a) \<and>
     (\<forall>a. a \<noteq> d \<longrightarrow> heads (dictq m') a = heads (dictq m) a) \<and>
     (\<forall>a. a \<noteq> next_addr m \<longrightarrow> a \<notin> set ps \<longrightarrow> ents (dictq m') a = ents (dictq m) a)"

lemma new_pair_rep:
  assumes "tq_rep q d ps" and "p \<notin> set ps"
  shows "tq_rep (q\<lparr>ents := (ents q)(p \<mapsto> en)\<rparr>) d ps"
proof -
  have "dseg ((ents q)(p \<mapsto> en)) b f ps l e = dseg (ents q) b f ps l e" for b f l e
    by (rule dseg_cong) (use assms(2) in auto)
  with assms(1) show ?thesis by (simp add: tq_rep_def)
qed

text \<open>A new key with the value NULL: the pair is put in before \<open>xpc_retain\<close> faults.\<close>

lemma dict_add_null:
  assumes rep: "dict_rep n m d kvs" and k: "strs m k = Some s" and new: "s \<notin> fst ` set kvs"
  shows "xpc_dictionary_set_value (Some d) (Some k) None m = Inl NullDeref"
proof -
  from rep obtain ps xo where ok: "mem_ok m" "\<forall>a. malloc_ok m a" and
    ps: "tq_rep (dictq m) d ps" "list_all2 (pair_holds m) ps kvs" and xo: "objs m d = Some xo"
    by (auto simp: dict_rep_def)
  let ?p = "next_addr m"
  have p: "?p \<notin> set ps" using dict_pairs_below [OF ok(1) ps(1)] by auto
  from insert_tail_rep [OF new_pair_rep [OF ps(1) p] p, of "junk_link m"] obtain q where
    "TAILQ_INSERT_TAIL d ?p ((dictq m)\<lparr>ents := (ents (dictq m))(?p \<mapsto> junk_link m)\<rparr>) = Inr ((), q)"
    by auto
  then have "dict_add_pair (Some d) (Some k) None m = Inl NullDeref"
    using xo ok(2) by (simp add: dict_add_pair_def upd_obj_runs malloc_def bind_m_def seq_m_def
        modify_m_def zoom_m_def xpc_retain_runs del: fun_upd_apply)
  with dict_set_run [OF ok(1) ps(1) dict_set_loop_missing [OF k ps(2) new] dict_set_body_keeps]
  show ?thesis by simp
qed

lemma dict_add_spec:
  assumes rep: "dict_rep n m d kvs" and k: "strs m k = Some s" and new: "s \<notin> fst ` set kvs"
    and u: "live m u"
  shows "\<exists>m'. xpc_dictionary_set_value (Some d) (Some k) (Some u) m = Inr ((), m') \<and>
    dict_rep n m' d (kvs @ [(s, Some u)]) \<and> live m' = live m \<and> strs m' = strs m \<and>
    (\<forall>a uo. objs m a = Some uo \<longrightarrow> (\<exists>uo'. objs m' a = Some uo' \<and>
       xo_refcnt uo' = xo_refcnt uo + (if a = u then 1 else 0) \<and>
       xo_xpc_type uo' = xo_xpc_type uo \<and> xo_u uo' = xo_u uo \<and>
       (a \<noteq> d \<longrightarrow> xo_size uo' = xo_size uo))) \<and>
    (\<forall>n'. other_dicts n' d m m') \<and> blobs m' = blobs m \<and> arrq m' = arrq m \<and>
    (\<forall>ps. tq_rep (dictq m) d ps \<longrightarrow> dict_grows d u ps m m')"
proof -
  from rep obtain ps xo where ok: "mem_ok m" "\<forall>a. malloc_ok m a" and
    ps: "tq_rep (dictq m) d ps" "list_all2 (pair_holds m) ps kvs" and dist: "distinct (map fst kvs)"
    and xo: "objs m d = Some xo" "xo_size xo = n + word_of_nat (length kvs)"
    by (auto simp: dict_rep_def)
  let ?p = "next_addr m"
  have p: "pairs m ?p = None" "?p \<notin> set ps"
    using ok(1) dict_pairs_below [OF ok(1) ps(1)] by (auto simp: mem_ok_def)
  from insert_tail_rep [OF new_pair_rep [OF ps(1) p(2)] p(2), of "junk_link m"] obtain q where
    q: "TAILQ_INSERT_TAIL d ?p ((dictq m)\<lparr>ents := (ents (dictq m))(?p \<mapsto> junk_link m)\<rparr>) = Inr ((), q)"
      "tq_rep q d (ps @ [?p])"
      "tq_same ((dictq m)\<lparr>ents := (ents (dictq m))(?p \<mapsto> junk_link m)\<rparr>) q {d} (insert ?p (set ps))"
    by auto
  let ?o = "(objs m)(d \<mapsto> xo\<lparr>xo_size := xo_size xo + 1\<rparr>)"
  from u have "?o u \<noteq> None" by (auto simp: live_def)
  then obtain uo where uo: "?o u = Some uo" by blast
  let ?o2 = "?o(u \<mapsto> uo\<lparr>xo_refcnt := xo_refcnt uo + 1\<rparr>)"
  let ?m = "m\<lparr>objs := ?o2, next_addr := Suc ?p,
     pairs := (pairs m)(?p \<mapsto> \<lparr>dp_key = Some k, dp_value = Some u\<rparr>), dictq := q\<rparr>"
  have "dict_add_pair (Some d) (Some k) (Some u) m = Inr ((), ?m)"
    using xo(1) ok(2) q(1) uo
    by (simp add: dict_add_pair_def upd_obj_runs malloc_def bind_m_def seq_m_def modify_m_def
        zoom_m_def xpc_retain_runs return_m_def del: fun_upd_apply)
  with dict_set_run [OF ok(1) ps(1) dict_set_loop_missing [OF k ps(2) new] dict_set_body_keeps]
  have run: "xpc_dictionary_set_value (Some d) (Some k) (Some u) m = Inr ((), ?m)"
    by (simp del: fun_upd_apply)
  from dict_set_keeps_ok [OF ok run] have ok': "mem_ok ?m" "\<forall>a. malloc_ok ?m a" by auto
  have holds: "list_all2 (pair_holds ?m) ps' kvs'"
    if "list_all2 (pair_holds m) ps' kvs'" "tq_rep (dictq m) d' ps'" for d' ps' kvs'
    by (rule pairs_hold_cong [OF that(1)])
      (use dict_pairs_below [OF ok(1) that(2)] in auto)
  have size_d: "\<exists>xo. objs ?m d = Some xo \<and> xo_size xo = n + word_of_nat (length (kvs @ [(s, Some u)]))"
    using xo uo by auto
  have "pair_holds ?m ?p (s, Some u)" using k by (simp add: pair_holds_def)
  then have "list_all2 (pair_holds ?m) (ps @ [?p]) (kvs @ [(s, Some u)])"
    using holds [OF ps(2,1)] by (simp add: list_all2_appendI)
  then have "dict_rep n ?m d (kvs @ [(s, Some u)])"
    unfolding dict_rep_def using ok' q(2) dist new size_d by (intro conjI exI [of _ "ps @ [?p]"]) auto
  moreover have "other_dicts n' d m ?m" for n'
    unfolding other_dicts_def
  proof (intro allI impI)
    fix d' kvs' assume ne: "d' \<noteq> d" and "dict_rep n' m d' kvs'"
    then obtain ps' xo' where ps': "tq_rep (dictq m) d' ps'" "list_all2 (pair_holds m) ps' kvs'"
      and rest: "distinct (map fst kvs')" "objs m d' = Some xo'"
        "xo_size xo' = n' + word_of_nat (length kvs')"
      by (auto simp: dict_rep_def)
    have np: "?p \<notin> set ps'" using dict_pairs_below [OF ok(1) ps'(1)] by blast
    have "tq_rep q d' ps'"
      using tq_rep_frame [OF new_pair_rep [OF ps'(1) np] q(3)] ne np tq_rep_disjoint [OF ps(1) ps'(1)] by blast
    moreover have "\<exists>xo. objs ?m d' = Some xo \<and> xo_size xo = n' + word_of_nat (length kvs')"
      using rest uo ne by auto
    ultimately show "dict_rep n' ?m d' kvs'"
      unfolding dict_rep_def using ok' holds [OF ps'(2,1)] rest(1) by (intro conjI exI [of _ ps']) auto
  qed
  moreover have "live ?m = live m" using u xo(1) by (auto simp: live_def fun_eq_iff)
  moreover have "\<exists>uo'. objs ?m a = Some uo' \<and>
      xo_refcnt uo' = xo_refcnt ao + (if a = u then 1 else 0) \<and>
      xo_xpc_type uo' = xo_xpc_type ao \<and> xo_u uo' = xo_u ao \<and>
      (a \<noteq> d \<longrightarrow> xo_size uo' = xo_size ao)" if "objs m a = Some ao" for a ao
    using that uo xo(1) by auto
  moreover have "dict_grows d u ps' m ?m" if "tq_rep (dictq m) d ps'" for ps'
    using q(2,3) tq_rep_unique [OF that ps(1)] by (auto simp: dict_grows_def tq_same_def)
  ultimately show ?thesis using run by (intro exI [of _ ?m] conjI allI impI) simp_all
qed

section \<open>The contract of a map with string keys\<close>

text \<open>
  \<open>key\<close> reads the string a key pointer leads to.  Putting updates the association, keeps what the
  keys and values are and leaves the other maps alone; looking up reads the association.
\<close>

locale string_map =
  fixes rep :: "'s \<Rightarrow> 'd \<Rightarrow> ('n \<times> 'v) list \<Rightarrow> bool"
    and key :: "'s \<Rightarrow> 'k \<Rightarrow> 'n option"
    and okv :: "'s \<Rightarrow> 'v \<Rightarrow> bool"
    and put :: "'d \<Rightarrow> 'k \<Rightarrow> 'v \<Rightarrow> ('s, unit) op"
    and look :: "'d \<Rightarrow> 'k \<Rightarrow> ('s, 'v option) op"
  assumes put_law: "rep s d kvs \<Longrightarrow> key s k = Some n \<Longrightarrow> okv s v \<Longrightarrow>
      \<exists>s'. put d k v s = Inr ((), s') \<and> rep s' d (AList.update n v kvs) \<and> key s' = key s \<and>
        okv s' = okv s \<and> (\<forall>d' kvs'. d' \<noteq> d \<longrightarrow> rep s d' kvs' \<longrightarrow> rep s' d' kvs')"
    and look_law: "rep s d kvs \<Longrightarrow> key s k = Some n \<Longrightarrow> look d k s = Inr (map_of kvs n, s)"
begin

definition put_pairs :: "'d \<Rightarrow> ('k \<times> 'v) list \<Rightarrow> ('s, unit) op" where
  "put_pairs d = each_m (\<lambda>(k, v). put d k v)"

lemma put_pairs_rep:
  "rep s d kvs \<Longrightarrow> (\<forall>(k, v) \<in> set new. key s k = Some (nm k) \<and> okv s v) \<Longrightarrow>
   \<exists>s'. put_pairs d new s = Inr ((), s') \<and>
     rep s' d (AList.updates (map (\<lambda>p. nm (fst p)) new) (map snd new) kvs) \<and> key s' = key s \<and>
     okv s' = okv s \<and> (\<forall>d' kvs'. d' \<noteq> d \<longrightarrow> rep s d' kvs' \<longrightarrow> rep s' d' kvs')"
proof (induction new arbitrary: s kvs)
  case Nil
  then show ?case by (simp add: put_pairs_def return_m_def)
next
  case (Cons p new)
  obtain k v where p: "p = (k, v)" by (cases p)
  from put_law [OF Cons.prems(1), of k "nm k" v] Cons.prems(2) p obtain t where
    t: "put d k v s = Inr ((), t)" "rep t d (AList.update (nm k) v kvs)" "key t = key s"
      "okv t = okv s" and other: "\<And>d' kvs'. d' \<noteq> d \<Longrightarrow> rep s d' kvs' \<Longrightarrow> rep t d' kvs'" by auto
  from Cons.IH [OF t(2)] Cons.prems(2) t(3,4) obtain s' where
    s': "put_pairs d new t = Inr ((), s')"
      "rep s' d (AList.updates (map (\<lambda>p. nm (fst p)) new) (map snd new) (AList.update (nm k) v kvs))"
      "key s' = key t" "okv s' = okv t" and other': "\<And>d' kvs'. d' \<noteq> d \<Longrightarrow> rep t d' kvs' \<Longrightarrow> rep s' d' kvs'" by auto
  have "put_pairs d (p # new) s = Inr ((), s')"
    using t(1) s'(1) p by (simp add: put_pairs_def seq_m_def)
  with s'(2-4) t(3,4) p other other' show ?case by auto
qed

text \<open>Afterwards each key leads to the last value put in for it.\<close>

lemma put_pairs_look:
  assumes "rep s d kvs" and "\<forall>(k, v) \<in> set new. key s k = Some (nm k) \<and> okv s v"
  shows "\<exists>s'. put_pairs d new s = Inr ((), s') \<and>
    (\<forall>k n. key s k = Some n \<longrightarrow> look d k s' =
       Inr (((map_of kvs)(map (\<lambda>p. nm (fst p)) new [\<mapsto>] map snd new)) n, s'))"
proof -
  from put_pairs_rep [OF assms] obtain s' where s': "put_pairs d new s = Inr ((), s')"
    "rep s' d (AList.updates (map (\<lambda>p. nm (fst p)) new) (map snd new) kvs)" "key s' = key s" by blast
  with look_law [OF s'(2)] show ?thesis by (auto simp: updates_conv')
qed

end

section \<open>Dictionaries keep the contract\<close>

definition dict_map :: "64 word \<Rightarrow> xmem \<Rightarrow> addr \<Rightarrow> (byte list \<times> addr) list \<Rightarrow> bool" where
  "dict_map n m d kvs \<longleftrightarrow> dict_rep n m d (map (\<lambda>(k, v). (k, Some v)) kvs)"

lemma update_map_Some:
  "AList.update k (Some v) (map (\<lambda>(k, v). (k, Some v)) kvs) =
   map (\<lambda>(k, v). (k, Some v)) (AList.update k v kvs)"
  by (induction kvs) auto

lemma fst_map_Some: "fst ` set (map (\<lambda>(k, v). (k, Some v)) kvs) = fst ` set kvs"
  by force

lemma dict_map_get:
  assumes "dict_map n m d kvs" and "strs m k = Some s"
  shows "xpc_dictionary_get_value (Some d) (Some k) m = Inr (map_of kvs s, m)"
proof -
  have "map_of (map (\<lambda>(k, v). (k, Some v)) kvs) s = map_option Some (map_of kvs s)"
    by (induction kvs) auto
  with dict_get_spec [of n m d _ k s] assms show ?thesis
    by (cases "map_of kvs s") (auto simp: dict_map_def)
qed

lemma dict_map_set:
  assumes rep: "dict_map n m d kvs" and k: "strs m k = Some s" and u: "live m u"
  shows "\<exists>m'. xpc_dictionary_set_value (Some d) (Some k) (Some u) m = Inr ((), m') \<and>
    dict_map n m' d (AList.update s u kvs) \<and> strs m' = strs m \<and> live m' = live m \<and>
    (\<forall>a uo. objs m a = Some uo \<longrightarrow> (\<exists>uo'. objs m' a = Some uo' \<and>
       xo_refcnt uo' = xo_refcnt uo + (if a = u \<and> s \<notin> fst ` set kvs then 1 else 0) \<and>
       xo_xpc_type uo' = xo_xpc_type uo \<and> xo_u uo' = xo_u uo)) \<and>
    (\<forall>n'. other_dicts n' d m m')"
proof (cases "s \<in> fst ` set kvs")
  case True
  then have "s \<in> fst ` set (map (\<lambda>(k, v). (k, Some v)) kvs)" by (simp only: fst_map_Some)
  from dict_set_found [OF rep [unfolded dict_map_def] k this, of "Some u"] obtain m' where
    "xpc_dictionary_set_value (Some d) (Some k) (Some u) m = Inr ((), m')"
    "dict_map n m' d (AList.update s u kvs)" and o: "objs m' = objs m"
    and "strs m' = strs m" "\<forall>n'. other_dicts n' d m m'"
    unfolding update_map_Some dict_map_def by blast
  moreover have "live m' = live m" using o by (simp add: live_def fun_eq_iff)
  ultimately show ?thesis using True o by (intro exI [of _ m']) simp
next
  case False
  then have "AList.update s u kvs = kvs @ [(s, u)]" by (rule alist_update_new)
  moreover have "s \<notin> fst ` set (map (\<lambda>(k, v). (k, Some v)) kvs)"
    using False by (simp only: fst_map_Some not_False_eq_True)
  from dict_add_spec [OF rep [unfolded dict_map_def] k this u] obtain m' where
    "xpc_dictionary_set_value (Some d) (Some k) (Some u) m = Inr ((), m')"
    "dict_rep n m' d (map (\<lambda>(k, v). (k, Some v)) kvs @ [(s, Some u)])" "live m' = live m"
    "strs m' = strs m" "\<forall>a uo. objs m a = Some uo \<longrightarrow> (\<exists>uo'. objs m' a = Some uo' \<and>
       xo_refcnt uo' = xo_refcnt uo + (if a = u then 1 else 0) \<and>
       xo_xpc_type uo' = xo_xpc_type uo \<and> xo_u uo' = xo_u uo)" "\<forall>n'. other_dicts n' d m m'"
    by blast
  ultimately show ?thesis using False by (intro exI [of _ m']) (simp add: dict_map_def)
qed

interpretation dict: string_map "dict_map n" strs live
  "\<lambda>d k v. xpc_dictionary_set_value (Some d) (Some k) (Some v)"
  "\<lambda>d k. xpc_dictionary_get_value (Some d) (Some k)" for n
proof unfold_locales
  fix m d kvs k s u
  assume "dict_map n m d kvs" and "strs m k = Some s" and "live m u"
  from dict_map_set [OF this] obtain m' where
    m': "xpc_dictionary_set_value (Some d) (Some k) (Some u) m = Inr ((), m')"
      "dict_map n m' d (AList.update s u kvs)" "strs m' = strs m" "live m' = live m"
      "\<forall>n'. other_dicts n' d m m'" by blast
  then show "\<exists>s'. xpc_dictionary_set_value (Some d) (Some k) (Some u) m = Inr ((), s') \<and>
      dict_map n s' d (AList.update s u kvs) \<and> strs s' = strs m \<and> live s' = live m \<and>
      (\<forall>d' kvs'. d' \<noteq> d \<longrightarrow> dict_map n m d' kvs' \<longrightarrow> dict_map n s' d' kvs')"
    by (intro exI [of _ m']) (simp add: other_dicts_def dict_map_def)
next
  fix m d kvs k s
  assume "dict_map n m d kvs" and "strs m k = Some s"
  then show "xpc_dictionary_get_value (Some d) (Some k) m = Inr (map_of kvs s, m)"
    by (rule dict_map_get)
qed

section \<open>New dictionaries and new objects\<close>

lemma new_dict_map:
  assumes "mem_ok m" and "\<forall>a. malloc_ok m a"
  shows "dict_map n (new_object XPC_TYPE_DICTIONARY u n fl m) (next_addr m) []"
proof -
  let ?m = "new_object XPC_TYPE_DICTIONARY u n fl m"
  have "mem_ok ?m \<and> same_env m ?m"
    using mem_ok_new_object [OF assms(1)] by simp
  moreover have "tq_rep (dictq ?m) (next_addr m) []"
    by (simp add: tq_rep_def new_object_def Let_def)
  moreover have "\<exists>xo. objs ?m (next_addr m) = Some xo \<and> xo_size xo = n"
    by (simp add: new_object_def Let_def)
  ultimately show ?thesis
    using assms(2) by (simp add: dict_map_def dict_rep_def same_env_def)
qed

lemma dict_map_new_object:
  assumes rep: "dict_map n m d kvs" and "type \<noteq> XPC_TYPE_DICTIONARY" and new: "creatable type u"
  shows "dict_map n (new_object type u sz fl m) d kvs"
proof -
  let ?m = "new_object type u sz fl m"
  let ?kvs = "map (\<lambda>(k, v). (k, Some v)) kvs"
  from rep obtain ps xo where ok: "mem_ok m" "\<forall>a. malloc_ok m a" and
    ps: "tq_rep (dictq m) d ps" "list_all2 (pair_holds m) ps ?kvs" and dist: "distinct (map fst ?kvs)"
    and xo: "objs m d = Some xo" "xo_size xo = n + word_of_nat (length ?kvs)"
    by (auto simp: dict_rep_def dict_map_def)
  have m: "mem_ok ?m \<and> same_env m ?m"
    by (rule mem_ok_new_object [OF ok(1) new])
  have same: "pairs ?m = pairs m" "strs ?m = strs m" "dictq ?m = dictq m"
    using assms(2) by (simp_all add: new_object_def Let_def)
  then have "list_all2 (pair_holds ?m) ps ?kvs" using ps(2) by (auto intro: pairs_hold_cong)
  moreover have "d \<noteq> next_addr m" using xo(1) ok(1) by (auto simp: mem_ok_def)
  then have "objs ?m d = Some xo" using xo(1) by (simp add: new_object_def Let_def)
  ultimately show ?thesis
    unfolding dict_map_def dict_rep_def using m ok(2) ps(1) same dist xo(2)
    by (auto simp: same_env_def)
qed

end
