(* ===== verification/XpcDictClaims.thy ===== *)
theory XpcDictClaims
  imports XpcDictSpec
begin

text \<open>
  Applying a function to a dictionary, and the properties of dictionaries.
\<close>

section \<open>Applying a function\<close>

primrec apply_pairs ::
  "(ptr \<Rightarrow> ptr \<Rightarrow> ('u \<times> xmem, bool) op) \<Rightarrow> (ptr \<times> ptr) list \<Rightarrow> ('u \<times> xmem, bool) op" where
  "apply_pairs f [] = return_m True"
| "apply_pairs f (kv # kvs) = bind_m (f (fst kv) (snd kv)) (\<lambda>continue.
     if continue then apply_pairs f kvs else return_m False)"

lemma for_each_apply_pair:
  assumes keep: "\<And>k v um b um'. f k v um = Inr (b, um') \<Longrightarrow> pairs (snd um') = pairs (snd um)"
  shows "list_all2 (\<lambda>p kv. pairs (snd um) p = Some \<lparr>dp_key = fst kv, dp_value = snd kv\<rparr>) ps kvs \<Longrightarrow>
    for_each (apply_dict_body f) ps um = apply_pairs f kvs um"
proof (induction ps arbitrary: kvs um)
  case Nil
  then show ?case by simp
next
  case (Cons p ps)
  then obtain kv kvs' where kvs: "kvs = kv # kvs'"
    and p: "pairs (snd um) p = Some \<lparr>dp_key = fst kv, dp_value = snd kv\<rparr>"
    and rest: "list_all2 (\<lambda>p kv. pairs (snd um) p = Some \<lparr>dp_key = fst kv, dp_value = snd kv\<rparr>) ps kvs'"
    by (cases kvs) auto
  obtain u m where um: "um = (u, m)" by (cases um)
  with p have body: "apply_dict_body f p um = f (fst kv) (snd kv) um"
    by (simp add: apply_dict_body_def on_mem_def bind_m_def zoom_m_def get_pair_runs)
  have "for_each (apply_dict_body f) ps t = apply_pairs f kvs' t"
    if "f (fst kv) (snd kv) um = Inr (True, t)" for t
    by (rule Cons.IH) (use rest keep [OF that] in simp)
  with body kvs show ?case by (auto simp: bind_m_def split: sum.splits)
qed

text \<open>An applier that leaves the pairs and their links alone is called once for each pair, in order.\<close>

lemma dict_apply_spec:
  assumes rep: "dict_rep n m d kvs" and fuel: "length kvs \<le> fuel"
    and keep: "\<And>k v um b um'. f k v um = Inr (b, um') \<Longrightarrow>
      pairs (snd um') = pairs (snd um) \<and> dictq (snd um') = dictq (snd um)"
  shows "\<exists>ks. list_all2 (\<lambda>k kv. strs m k = Some (fst kv)) ks kvs \<and>
    xpc_dictionary_apply_fun fuel (Some d) f (u, m) =
      apply_pairs f (zip (map Some ks) (map snd kvs)) (u, m)"
proof -
  from rep obtain ps where ps: "tq_rep (dictq m) d ps" "list_all2 (pair_holds m) ps kvs"
    by (auto simp: dict_rep_def)
  from ps(2) have "\<exists>ks. list_all2 (\<lambda>k kv. strs m k = Some (fst kv)) ks kvs \<and>
      list_all2 (\<lambda>p kv. pairs m p = Some \<lparr>dp_key = fst kv, dp_value = snd kv\<rparr>) ps
        (zip (map Some ks) (map snd kvs))"
  proof (induction rule: list_all2_induct)
    case Nil
    then show ?case by auto
  next
    case (Cons p ps kv kvs)
    then obtain ks where "list_all2 (\<lambda>k kv. strs m k = Some (fst kv)) ks kvs"
      "list_all2 (\<lambda>p kv. pairs m p = Some \<lparr>dp_key = fst kv, dp_value = snd kv\<rparr>) ps
        (zip (map Some ks) (map snd kvs))" by blast
    moreover from Cons.hyps(1) obtain k where "pairs m p = Some \<lparr>dp_key = Some k, dp_value = snd kv\<rparr>"
      "strs m k = Some (fst kv)" by (auto simp: pair_holds_def)
    ultimately show ?case by (intro exI [of _ "k # ks"]) simp
  qed
  then obtain ks where ks: "list_all2 (\<lambda>k kv. strs m k = Some (fst kv)) ks kvs"
    "list_all2 (\<lambda>p kv. pairs m p = Some \<lparr>dp_key = fst kv, dp_value = snd kv\<rparr>) ps
        (zip (map Some ks) (map snd kvs))" by blast
  from dict_fchain [OF ps(1)] obtain g where
    g: "TAILQ_FIRST d (dictq m) = Inr (g, dictq m)" "fchain (nexts (dictq m)) g ps" by blast
  have "TAILQ_FOREACH fuel (\<lambda>s. dictq (snd s)) (apply_dict_body f) g (u, m) =
      for_each (apply_dict_body f) ps (u, m)"
  proof (rule foreach_chain)
    show "length ps \<le> fuel" using fuel list_all2_lengthD [OF ps(2)] by simp
  next
    fix x y and s s' :: "'a \<times> xmem"
    assume "apply_dict_body f x s = Inr (True, s')"
    then show "nexts (dictq (snd s')) y = nexts (dictq (snd s)) y"
      by (cases s) (auto simp: apply_dict_body_def on_mem_def get_pair_def run_defs
          split: sum.splits option.splits dest: keep)
  qed (use g(2) in simp)
  also have "\<dots> = apply_pairs f (zip (map Some ks) (map snd kvs)) (u, m)"
    by (rule for_each_apply_pair) (use ks(2) keep in simp_all)
  finally show ?thesis using g(1) ks(1)
    by (auto simp: xpc_dictionary_apply_fun_def bind_m_def on_mem_def zoom_m_Inr)
qed

section \<open>A new dictionary\<close>

lemma dict_set_all_pairs:
  "dict_set_all (Some d) (map (\<lambda>(k, v). (Some k, Some v)) kvs) =
   dict.put_pairs d kvs"
  by (induction kvs) (auto simp: dict.put_pairs_def)

lemma new_object_live_strs:
  "live m v \<Longrightarrow> live (new_object t u sz fl m) v" "strs (new_object t u sz fl m) = strs m"
  by (simp_all add: live_def new_object_def Let_def)

lemma dict_create_run:
  assumes ok: "mem_ok m" "\<forall>a. malloc_ok m a"
    and kvs: "\<forall>(k, v) \<in> set kvs. strs m k = Some (nm k) \<and> live m v"
  shows "\<exists>m'. xpc_dictionary_create (map (\<lambda>(k, v). (Some k, Some v)) kvs) m =
      Inr (Some (next_addr m), m') \<and> strs m' = strs m \<and> (\<forall>v. live m v \<longrightarrow> live m' v) \<and>
    dict_map (word_of_nat (length kvs)) m' (next_addr m)
      (AList.updates (map (\<lambda>p. nm (fst p)) kvs) (map snd kvs) [])"
proof -
  let ?n = "word_of_nat (length kvs) :: 64 word"
  let ?m = "new_object XPC_TYPE_DICTIONARY (U_bits 0) ?n 0 m"
  have "\<forall>(k, v) \<in> set kvs. strs ?m k = Some (nm k) \<and> live ?m v"
    using kvs by (auto simp: new_object_live_strs)
  from dict.put_pairs_rep [OF new_dict_map [OF ok] this] obtain m' where
    "dict_set_all (Some (next_addr m)) (map (\<lambda>(k, v). (Some k, Some v)) kvs) ?m = Inr ((), m')"
    "dict_map ?n m' (next_addr m) (AList.updates (map (\<lambda>p. nm (fst p)) kvs) (map snd kvs) [])"
    "strs m' = strs ?m" "live m' = live ?m"
    by (auto simp: dict_set_all_pairs)
  then show ?thesis
    using ok(2) by (auto simp: xpc_dictionary_create_def xpc_prim_create_def bind_m_def
        prim_create_runs seq_m_def return_m_def new_object_live_strs)
qed

lemma length_updates_card:
  assumes "length ks = length vs"
  shows "length (AList.updates ks vs []) = card (set ks)"
proof -
  have d: "distinct (map fst (AList.updates ks vs []))" by (rule distinct_updates) simp
  have "fst ` set (AList.updates ks vs []) = dom (map_of (AList.updates ks vs []))"
    by (simp add: dom_map_of_conv_image_fst)
  also have "\<dots> = set ks" using assms by (simp add: updates_conv')
  finally show ?thesis using distinct_card [OF d] by simp
qed

section \<open>Properties\<close>

text \<open>
  A memory with the key strings ``a'' at 2 and at 4 and ``b'' at 3, and the numbers 7 and 9 at 5
  and 6, to evaluate the properties on; \<open>demo_dict\<close> also has a dictionary of the two.
\<close>

definition demo_keys :: "addr \<Rightarrow> byte list" where
  "demo_keys a = (if a = 3 then [98] else [97])"

definition demo_mem2 :: xmem where
  "demo_mem2 = new_object XPC_TYPE_INT64 (U_bits 9) 1 0
     (new_object XPC_TYPE_INT64 (U_bits 7) 1 0
       (init_mem (\<lambda>a. if 2 \<le> a then Some (demo_keys a) else None) 5 (\<lambda>_. True) 0))"

lemma demo_mem2_ok [simp]: "mem_ok demo_mem2"
  by (simp add: demo_mem2_def mem_ok_new_object init_mem_ok scalar_type_def)

lemma demo_mem2_simps [simp]:
  "next_addr demo_mem2 = 7" "malloc_ok demo_mem2 a" "live demo_mem2 5" "live demo_mem2 6"
  "strs demo_mem2 2 = Some (demo_keys 2)" "strs demo_mem2 3 = Some (demo_keys 3)"
  "strs demo_mem2 4 = Some (demo_keys 4)"
  by (simp_all add: demo_mem2_def new_object_def init_mem_def Let_def live_def)

definition demo_dict :: xmem where
  "demo_dict = (case xpc_dictionary_create [(Some 2, Some 5), (Some 3, Some 6)] demo_mem2 of
     Inr (_, m) \<Rightarrow> m | Inl _ \<Rightarrow> demo_mem2)"

lemma demo_dict_rep: "dict_map 2 demo_dict 7 [([97], 5), ([98], 6)]" "live demo_dict 6"
  "strs demo_dict 2 = Some [97]" "strs demo_dict 3 = Some [98]" "strs demo_dict 4 = Some [97]"
proof -
  have "\<forall>(k, v) \<in> set [(2, 5), (3, 6)]. strs demo_mem2 k = Some (demo_keys k) \<and> live demo_mem2 v"
    by simp
  from dict_create_run [OF demo_mem2_ok _ this] obtain m' where
    m': "xpc_dictionary_create [(Some 2, Some 5), (Some 3, Some 6)] demo_mem2 = Inr (Some 7, m')"
      "strs m' = strs demo_mem2" "live m' 6" "dict_map 2 m' 7 (AList.updates [[97], [98]] [5, 6] [])"
    by (auto simp: demo_keys_def)
  then have "demo_dict = m'" by (simp add: demo_dict_def)
  with m' show "dict_map 2 demo_dict 7 [([97], 5), ([98], 6)]" "live demo_dict 6"
    "strs demo_dict 2 = Some [97]" "strs demo_dict 3 = Some [98]" "strs demo_dict 4 = Some [97]"
    by (simp_all add: demo_keys_def)
qed

text \<open>C2: A dictionary created from keys and values maps each key string to the last value given
  for it, whichever pointer the string is looked up through, and any other string to NULL.\<close>

theorem dict_create_lookup:
  assumes "mem_ok m" and "\<forall>a. malloc_ok m a"
    and "\<forall>(k, v) \<in> set kvs. strs m k = Some (nm k) \<and> live m v"
  shows "\<exists>m'. xpc_dictionary_create (map (\<lambda>(k, v). (Some k, Some v)) kvs) m =
      Inr (Some (next_addr m), m') \<and>
    (\<forall>k s. strs m k = Some s \<longrightarrow> xpc_dictionary_get_value (Some (next_addr m)) (Some k) m' =
      Inr (map_of (rev (map (\<lambda>(k, v). (nm k, v)) kvs)) s, m'))"
proof -
  from dict_create_run [OF assms] obtain m' where
    m': "xpc_dictionary_create (map (\<lambda>(k, v). (Some k, Some v)) kvs) m = Inr (Some (next_addr m), m')"
    "strs m' = strs m" "dict_map (word_of_nat (length kvs)) m' (next_addr m)
      (AList.updates (map (\<lambda>p. nm (fst p)) kvs) (map snd kvs) [])" by blast
  have "zip (map (\<lambda>p. nm (fst p)) kvs) (map snd kvs) = map (\<lambda>(k, v). (nm k, v)) kvs"
    by (induction kvs) auto
  then have "map_of (AList.updates (map (\<lambda>p. nm (fst p)) kvs) (map snd kvs) []) =
      map_of (rev (map (\<lambda>(k, v). (nm k, v)) kvs))"
    by (simp add: updates_conv' map_upds_def)
  with dict_map_get [OF m'(3)] m'(1,2) show ?thesis by auto
qed

theorem dict_create_lookup_witness:
  "\<exists>m'. xpc_dictionary_create [(Some 2, Some 5), (Some 3, Some 6), (Some 4, Some 6)] demo_mem2 =
      Inr (Some 7, m') \<and>
    xpc_dictionary_get_value (Some 7) (Some 2) m' = Inr (Some 6, m')"
  using dict_create_lookup [of demo_mem2 "[(2, 5), (3, 6), (4, 6)]" demo_keys]
  by (auto simp: demo_keys_def)

text \<open>The count of a dictionary created from \<open>n\<close> keys is \<open>n\<close> more than the number of its
  distinct keys: the count starts at \<open>n\<close> and each new key is counted again.\<close>

theorem dict_create_counts_twice:
  assumes "mem_ok m" and "\<forall>a. malloc_ok m a"
    and "\<forall>(k, v) \<in> set kvs. strs m k = Some (nm k) \<and> live m v"
  shows "\<exists>m'. xpc_dictionary_create (map (\<lambda>(k, v). (Some k, Some v)) kvs) m =
      Inr (Some (next_addr m), m') \<and>
    xpc_dictionary_get_count (Some (next_addr m)) m' =
      Inr (word_of_nat (length kvs + card (nm ` fst ` set kvs)), m')"
proof -
  from dict_create_run [OF assms] obtain m' where
    m': "xpc_dictionary_create (map (\<lambda>(k, v). (Some k, Some v)) kvs) m = Inr (Some (next_addr m), m')"
    "dict_map (word_of_nat (length kvs)) m' (next_addr m)
      (AList.updates (map (\<lambda>p. nm (fst p)) kvs) (map snd kvs) [])" by blast
  from m'(2) obtain xo where xo: "objs m' (next_addr m) = Some xo" "xo_size xo = word_of_nat (length kvs) +
      word_of_nat (length (AList.updates (map (\<lambda>p. nm (fst p)) kvs) (map snd kvs) []))"
    by (auto simp: dict_map_def dict_rep_def)
  have "set (map (\<lambda>p. nm (fst p)) kvs) = nm ` fst ` set kvs" by force
  then have "xo_size xo = word_of_nat (length kvs + card (nm ` fst ` set kvs))"
    using xo(2) by (simp add: length_updates_card)
  with m'(1) xo(1) show ?thesis
    by (simp add: xpc_dictionary_get_count_def get_obj_runs bind_m_def return_m_def)
qed

theorem dict_create_counts_twice_witness:
  "\<exists>m'. xpc_dictionary_create [(Some 2, Some 5), (Some 3, Some 6)] demo_mem2 = Inr (Some 7, m') \<and>
    xpc_dictionary_get_count (Some 7) m' = Inr (4, m')"
  using dict_create_counts_twice [of demo_mem2 "[(2, 5), (3, 6)]" demo_keys]
  by (auto simp: demo_keys_def card_insert_if)

text \<open>C3: After \<open>xpc_dictionary_set_value\<close> the dictionary returns the new value for every pointer
  to the same string and the old values for all other strings, its count has gone up exactly if
  the key is new, and every other dictionary returns what it did before.\<close>

theorem dict_set_then_get:
  assumes "dict_map n m d kvs" and "strs m k = Some s" and "live m v"
  shows "\<exists>m'. xpc_dictionary_set_value (Some d) (Some k) (Some v) m = Inr ((), m') \<and>
    (\<forall>k' s'. strs m k' = Some s' \<longrightarrow> xpc_dictionary_get_value (Some d) (Some k') m' =
      Inr (if s' = s then Some v else map_of kvs s', m')) \<and>
    xpc_dictionary_get_count (Some d) m' = Inr (n + word_of_nat
      (if s \<in> fst ` set kvs then length kvs else length kvs + 1), m') \<and>
    (\<forall>n' d' kvs' k' s'. d' \<noteq> d \<longrightarrow> dict_map n' m d' kvs' \<longrightarrow> strs m k' = Some s' \<longrightarrow>
      xpc_dictionary_get_value (Some d') (Some k') m' = Inr (map_of kvs' s', m'))"
proof -
  from dict_map_set [OF assms] obtain m' where
    m': "xpc_dictionary_set_value (Some d) (Some k) (Some v) m = Inr ((), m')"
      "dict_map n m' d (AList.update s v kvs)" "strs m' = strs m" "\<forall>n'. other_dicts n' d m m'" by blast
  have get: "xpc_dictionary_get_value (Some d) (Some k') m' =
      Inr (if s' = s then Some v else map_of kvs s', m')" if "strs m k' = Some s'" for k' s'
    using dict_map_get [OF m'(2), of k' s'] that m'(3) by (simp add: update_conv')
  have others: "xpc_dictionary_get_value (Some d') (Some k') m' = Inr (map_of kvs' s', m')"
    if "d' \<noteq> d" "dict_map n' m d' kvs'" "strs m k' = Some s'" for n' d' kvs' k' s'
    using that m'(3,4) by (intro dict_map_get [of n']) (auto simp: other_dicts_def dict_map_def)
  from m'(2) obtain xo where "objs m' d = Some xo"
    "xo_size xo = n + word_of_nat (length (AList.update s v kvs))"
    by (auto simp: dict_map_def dict_rep_def)
  then have "xpc_dictionary_get_count (Some d) m' = Inr (n + word_of_nat
      (if s \<in> fst ` set kvs then length kvs else length kvs + 1), m')"
    by (simp add: xpc_dictionary_get_count_def get_obj_runs bind_m_def return_m_def alist_update_length)
  with m'(1) get others show ?thesis by blast
qed

theorem dict_set_then_get_witness:
  "\<exists>m'. xpc_dictionary_set_value (Some 7) (Some 4) (Some 6) demo_dict = Inr ((), m') \<and>
    xpc_dictionary_get_value (Some 7) (Some 2) m' = Inr (Some 6, m') \<and>
    xpc_dictionary_get_count (Some 7) m' = Inr (4, m')"
  using dict_set_then_get [OF demo_dict_rep(1,5,2)] demo_dict_rep(3) by auto

text \<open>Giving an existing key a new value changes no reference count: the new value is stored
  without being retained and the old value is dropped without being released.\<close>

theorem dict_overwrite_counts:
  assumes "dict_map n m d kvs" and "strs m k = Some s" and "live m v" and "s \<in> fst ` set kvs"
  shows "\<exists>m'. xpc_dictionary_set_value (Some d) (Some k) (Some v) m = Inr ((), m') \<and>
    xpc_dictionary_get_value (Some d) (Some k) m' = Inr (Some v, m') \<and> objs m' = objs m"
proof -
  have "s \<in> fst ` set (map (\<lambda>(k, v). (k, Some v)) kvs)" using assms(4) by (simp only: fst_map_Some)
  from dict_set_found [OF assms(1) [unfolded dict_map_def] assms(2) this, of "Some v"] obtain m' where
    m': "xpc_dictionary_set_value (Some d) (Some k) (Some v) m = Inr ((), m')"
    "dict_map n m' d (AList.update s v kvs)" "objs m' = objs m" "strs m' = strs m"
    unfolding update_map_Some dict_map_def by blast
  with dict_map_get [OF m'(2), of k s] assms(2) show ?thesis by (simp add: update_conv')
qed

theorem dict_overwrite_counts_witness:
  "\<exists>m'. xpc_dictionary_set_value (Some 7) (Some 2) (Some 6) demo_dict = Inr ((), m') \<and>
    xpc_dictionary_get_value (Some 7) (Some 2) m' = Inr (Some 6, m') \<and> objs m' = objs demo_dict"
  using dict_overwrite_counts [OF demo_dict_rep(1,3,2)] by simp

text \<open>An applier that writes down the key strings and values it gets.\<close>

definition note_pair ::
  "ptr \<Rightarrow> ptr \<Rightarrow> ((byte list option \<times> ptr) list \<times> xmem, bool) op" where
  "note_pair k v = (\<lambda>(l, m). Inr (True, (l @ [(Option.bind k (strs m), v)], m)))"

lemma apply_pairs_note:
  "list_all2 (\<lambda>k kv. strs m k = Some (fst kv)) ks kvs \<Longrightarrow>
   apply_pairs note_pair (zip (map Some ks) (map snd kvs)) (l, m) =
     Inr (True, (l @ map (\<lambda>(s, v). (Some s, v)) kvs, m))"
proof (induction arbitrary: l rule: list_all2_induct)
  case Nil
  then show ?case by (simp add: return_m_def)
next
  case (Cons k ks kv kvs)
  then show ?case by (cases kv) (simp add: note_pair_def bind_m_def)
qed

text \<open>Traversing a dictionary reaches what it represents.\<close>

lemma dict_apply_notes:
  assumes "dict_map n m d kvs" and "length kvs \<le> fuel"
  shows "xpc_dictionary_apply_fun fuel (Some d) note_pair ([], m) =
    Inr (True, (map (\<lambda>(s, v). (Some s, Some v)) kvs, m))"
proof -
  let ?kvs = "map (\<lambda>(k, v). (k, Some v)) kvs"
  have "\<exists>ks. list_all2 (\<lambda>k kv. strs m k = Some (fst kv)) ks ?kvs \<and>
    xpc_dictionary_apply_fun fuel (Some d) note_pair ([], m) =
      apply_pairs note_pair (zip (map Some ks) (map snd ?kvs)) ([], m)"
    by (rule dict_apply_spec [OF assms(1) [unfolded dict_map_def]])
      (use assms(2) in \<open>auto simp: note_pair_def\<close>)
  moreover have "map (\<lambda>(s, v). (Some s, v)) ?kvs = map (\<lambda>(s, v). (Some s, Some v)) kvs"
    by (induction kvs) auto
  ultimately show ?thesis using apply_pairs_note [of m _ ?kvs "[]"] by (metis append_Nil)
qed

text \<open>The order of first settings: the names without their later repetitions.\<close>

definition first_set :: "'a list \<Rightarrow> 'a list" where
  "first_set ks = rev (remdups (rev ks))"

lemma first_set_snoc: "first_set (ks @ [k]) = (if k \<in> set ks then first_set ks else first_set ks @ [k])"
  by (simp add: first_set_def)

lemma keys_update: "map fst (AList.update k v al) = (if k \<in> fst ` set al then map fst al else map fst al @ [k])"
  by (induction al) auto

lemma keys_updates: "length ks = length vs \<Longrightarrow> map fst (AList.updates ks vs []) = first_set ks"
proof (induction ks arbitrary: vs rule: rev_induct)
  case Nil
  then show ?case by (simp add: first_set_def)
next
  case (snoc k ks)
  then obtain vs' v where vs: "vs = vs' @ [v]" "length ks = length vs'" by (cases vs rule: rev_cases) auto
  note IH = snoc.IH [OF vs(2)]
  then have "fst ` set (AList.updates ks vs' []) = set ks"
    by (metis first_set_def list.set_map set_remdups set_rev)
  with IH vs show ?case by (simp add: updates_append1 keys_update first_set_snoc)
qed

text \<open>C35: Applying a function to a dictionary that was created from keys and values calls it once for
  each key string, in the order in which the strings were first given, with the last value given for
  it, and returns true.\<close>

theorem dict_apply_in_order:
  assumes "mem_ok m" and "\<forall>a. malloc_ok m a"
    and "\<forall>(k, v) \<in> set kvs. strs m k = Some (nm k) \<and> live m v" and "length kvs \<le> fuel"
  shows "\<exists>m'. xpc_dictionary_create (map (\<lambda>(k, v). (Some k, Some v)) kvs) m =
      Inr (Some (next_addr m), m') \<and>
    xpc_dictionary_apply_fun fuel (Some (next_addr m)) note_pair ([], m') =
      Inr (True, (map (\<lambda>s. (Some s, map_of (rev (map (\<lambda>(k, v). (nm k, v)) kvs)) s))
        (first_set (map (\<lambda>p. nm (fst p)) kvs)), m'))"
proof -
  let ?ks = "map (\<lambda>p. nm (fst p)) kvs"
  let ?al = "AList.updates ?ks (map snd kvs) []"
  let ?look = "map_of (rev (map (\<lambda>(k, v). (nm k, v)) kvs))"
  from dict_create_run [OF assms(1-3)] obtain m' where
    m': "xpc_dictionary_create (map (\<lambda>(k, v). (Some k, Some v)) kvs) m = Inr (Some (next_addr m), m')"
    "dict_map (word_of_nat (length kvs)) m' (next_addr m) ?al" by blast
  have d: "distinct (map fst ?al)" by (rule distinct_updates) simp
  have "zip ?ks (map snd kvs) = map (\<lambda>(k, v). (nm k, v)) kvs" by (induction kvs) auto
  then have look: "map_of ?al = ?look" by (simp add: updates_conv' map_upds_def)
  have keys: "map fst ?al = first_set ?ks" by (rule keys_updates) simp
  have "length ?al \<le> length kvs" using length_updates_card [of ?ks "map snd kvs"] card_length [of ?ks] by simp
  then have "xpc_dictionary_apply_fun fuel (Some (next_addr m)) note_pair ([], m') =
      Inr (True, (map (\<lambda>(s, v). (Some s, Some v)) ?al, m'))"
    using assms(4) by (intro dict_apply_notes [OF m'(2)]) simp
  moreover have "map (\<lambda>(s, v). (Some s, Some v)) ?al = map (\<lambda>s. (Some s, map_of ?al s)) (map fst ?al)"
    using d by (auto simp: split_beta intro: map_of_is_SomeI [symmetric])
  ultimately show ?thesis using m'(1) by (simp only: look keys) blast
qed

theorem dict_apply_in_order_witness:
  "\<exists>m'. xpc_dictionary_create [(Some 3, Some 5), (Some 2, Some 5), (Some 3, Some 6)] demo_mem2 = Inr (Some 7, m') \<and>
    xpc_dictionary_apply_fun 3 (Some 7) note_pair ([], m') =
      Inr (True, ([(Some [98], Some 6), (Some [97], Some 5)], m'))"
  using dict_apply_in_order [of demo_mem2 "[(3, 5), (2, 5), (3, 6)]" demo_keys 3]
  by (simp add: demo_keys_def first_set_def)

text \<open>A scalar stored under a key is found there, with its type and bits.\<close>

lemma dict_set_scalar:
  assumes rep: "dict_map n m d kvs" and k: "strs m k = Some s"
    and scalar: "scalar_type t"
  shows "\<exists>m' v uo. bind_m (xpc_prim_create t (U_bits w) sz) (xpc_dictionary_set_value (Some d) (Some k)) m =
      Inr ((), m') \<and> xpc_dictionary_get_value (Some d) (Some k) m' = Inr (Some v, m') \<and>
    objs m' v = Some uo \<and> xo_xpc_type uo = t \<and> xo_u uo = U_bits w"
proof -
  from scalar have t: "t \<noteq> XPC_TYPE_DICTIONARY" "t \<noteq> XPC_TYPE_ARRAY" "creatable t (U_bits w)"
    by (auto simp: scalar_type_def)
  let ?m = "new_object t (U_bits w) sz 0 m" and ?v = "next_addr m"
  have mal: "malloc_ok m ?v" using rep by (simp add: dict_map_def dict_rep_def)
  have new: "\<exists>uo. objs ?m ?v = Some uo \<and> xo_xpc_type uo = t \<and> xo_u uo = U_bits w"
    using t by (simp add: new_object_def Let_def)
  then have live: "live ?m ?v" by (auto simp: live_def)
  have k': "strs ?m k = Some s" using k by (simp add: new_object_live_strs)
  from dict_map_set [OF dict_map_new_object [OF rep t(1,3)] k' live] new obtain m' uo where
    m': "xpc_dictionary_set_value (Some d) (Some k) (Some ?v) ?m = Inr ((), m')"
      "dict_map n m' d (AList.update s ?v kvs)" "strs m' = strs ?m"
      "objs m' ?v = Some uo" "xo_xpc_type uo = t" "xo_u uo = U_bits w" by fastforce
  have "xpc_dictionary_get_value (Some d) (Some k) m' = Inr (Some ?v, m')"
    using dict_map_get [OF m'(2), of k s] m'(3) k' by (simp add: update_conv')
  with m' mal show ?thesis
    by (simp add: xpc_prim_create_def bind_m_def prim_create_runs)
qed

lemma with_b_bit: "(with_b b w AND 0xFF \<noteq> 0) = b"
  by (simp add: with_b_def word_ao_dist word_bw_assocs)

text \<open>C36: The typed accessors round trip: what \<open>xpc_dictionary_set_int64\<close>, \<open>_uint64\<close> or \<open>_bool\<close> stored
  under a key is what the getter of the same type returns for it, at full width, and a getter of
  another type returns its default.\<close>

theorem dict_typed_round_trip:
  assumes "dict_map n m d kvs" and "strs m k = Some s"
  shows "(\<exists>m'. xpc_dictionary_set_int64 (Some d) (Some k) i m = Inr ((), m') \<and>
      xpc_dictionary_get_int64 (Some d) (Some k) m' = Inr (i, m') \<and>
      xpc_dictionary_get_uint64 (Some d) (Some k) m' = Inr (0, m')) \<and>
    (\<exists>m'. xpc_dictionary_set_uint64 (Some d) (Some k) i m = Inr ((), m') \<and>
      xpc_dictionary_get_uint64 (Some d) (Some k) m' = Inr (i, m') \<and>
      xpc_dictionary_get_int64 (Some d) (Some k) m' = Inr (0, m')) \<and>
    (\<exists>m'. xpc_dictionary_set_bool (Some d) (Some k) b m = Inr ((), m') \<and>
      xpc_dictionary_get_bool (Some d) (Some k) m' = Inr (b, m') \<and>
      xpc_dictionary_get_int64 (Some d) (Some k) m' = Inr (0, m'))"
proof -
  note set_scalar = dict_set_scalar [where sz = 1, OF assms]
  have scalars: "scalar_type XPC_TYPE_INT64" "scalar_type XPC_TYPE_UINT64" "scalar_type XPC_TYPE_BOOL"
    by (simp_all add: scalar_type_def)
  note getters = xpc_dictionary_get_int64_def xpc_dictionary_get_uint64_def xpc_dictionary_get_bool_def
    xpc_int64_get_value_def xpc_uint64_get_value_def xpc_bool_get_value_def typed_get_def
    get_obj_runs u_runs bind_m_def return_m_def
  from set_scalar [OF scalars(1), where w = i] have "\<exists>m'. xpc_dictionary_set_int64 (Some d) (Some k) i m =
        Inr ((), m') \<and> xpc_dictionary_get_int64 (Some d) (Some k) m' = Inr (i, m') \<and>
      xpc_dictionary_get_uint64 (Some d) (Some k) m' = Inr (0, m')"
    by (auto simp: xpc_dictionary_set_int64_def xpc_int64_create_def) (auto simp: getters)
  moreover from set_scalar [OF scalars(2), where w = i] have "\<exists>m'. xpc_dictionary_set_uint64 (Some d) (Some k) i m =
        Inr ((), m') \<and> xpc_dictionary_get_uint64 (Some d) (Some k) m' = Inr (i, m') \<and>
      xpc_dictionary_get_int64 (Some d) (Some k) m' = Inr (0, m')"
    by (auto simp: xpc_dictionary_set_uint64_def xpc_uint64_create_def) (auto simp: getters)
  moreover from set_scalar [OF scalars(3), where w = "with_b b (stack_junk m)"]
  have "\<exists>m'. xpc_dictionary_set_bool (Some d) (Some k) b m = Inr ((), m') \<and>
      xpc_dictionary_get_bool (Some d) (Some k) m' = Inr (b, m') \<and>
      xpc_dictionary_get_int64 (Some d) (Some k) m' = Inr (0, m')"
    by (auto simp: xpc_dictionary_set_bool_def xpc_bool_create_def bind_m_def gets_m_def)
      (auto simp: getters with_b_bit)
  ultimately show ?thesis by blast
qed

theorem dict_typed_round_trip_witness:
  "\<exists>m'. xpc_dictionary_set_int64 (Some 7) (Some 4) (-5) demo_dict = Inr ((), m') \<and>
    xpc_dictionary_get_int64 (Some 7) (Some 4) m' = Inr (-5, m')"
  using dict_typed_round_trip [OF demo_dict_rep(1,5), of "-5" True] by blast

end
