(* ===== verification/XpcValue.thy ===== *)
theory XpcValue
  imports XpcArrayClaims XpcDictClaims
begin

text \<open>
  The values that objects stand for.  \<open>val_at v m a\<close> says that the object at \<open>a\<close> represents the
  value \<open>v\<close>: a scalar with its bits, a string, a block, an array of values or a dictionary of
  values.  An object may occur in a value more than once.
\<close>

section \<open>Operations that only read\<close>

definition unchanged :: "'s \<Rightarrow> 's \<Rightarrow> bool" where
  "unchanged s s' \<longleftrightarrow> s' = s"

interpretation ro: kept unchanged "\<lambda>_ _. True"
  by unfold_locales (simp_all add: unchanged_def)

interpretation lro: kept "on_snd unchanged" "\<lambda>_ _. True"
  by unfold_locales (simp_all add: unchanged_def on_snd_def)

interpretation ulro: kept "on_snd (on_snd unchanged)" "\<lambda>_ _. True"
  by unfold_locales (simp_all add: unchanged_def on_snd_def)

lemma ro_zoom_read:
  "keeps unchanged f \<Longrightarrow> keeps unchanged (arr_op f)" "keeps unchanged f \<Longrightarrow> keeps unchanged (dict_op f)"
  by (auto simp: keeps_or_def unchanged_def elim!: zoom_m_InrE)

lemma ro_tailq: "keeps unchanged (TAILQ_FIRST h)"
  unfolding TAILQ_FIRST_def get_head_def by (intro ro.keeps_intros)

lemma ro_gets: "keeps unchanged (get_obj p)" "keeps unchanged (get_pair a)"
  "keeps unchanged (get_str p)" "keeps unchanged (get_bytes p n)" "keeps unchanged (strlen p)"
  unfolding get_obj_def get_pair_def get_str_def get_bytes_def strlen_def
  by (intro ro.keeps_intros)+

lemma ro_u: "keeps unchanged (u_ui u)" "keeps unchanged (u_str u)" "keeps unchanged (u_ptr u)"
  "keeps unchanged (u_b u)" "keeps unchanged (u_fd u)" "keeps unchanged (u_uuid u)"
  unfolding u_b_def u_fd_def u_ui_def u_str_def u_ptr_def u_uuid_def
  by (cases u; simp add: ro.keeps_intros)+

lemma ro_typed_get:
  "(\<And>xo. keeps unchanged (read xo)) \<Longrightarrow> keeps unchanged (typed_get type dflt read obj)"
  unfolding typed_get_def by (intro ro.keeps_intros ro_gets)

lemma ro_getters:
  "keeps unchanged (xpc_bool_get_value p)" "keeps unchanged (xpc_int64_get_value p)"
  "keeps unchanged (xpc_uint64_get_value p)" "keeps unchanged (xpc_date_get_value p)"
  "keeps unchanged (xpc_data_get_length p)" "keeps unchanged (xpc_data_get_bytes_ptr p)"
  "keeps unchanged (xpc_string_get_length p)" "keeps unchanged (xpc_string_get_string_ptr p)"
  "keeps unchanged (xpc_get_type_name p)" "keeps unchanged (xpc_uuid_get_bytes p)"
  unfolding xpc_bool_get_value_def xpc_int64_get_value_def xpc_uint64_get_value_def
    xpc_date_get_value_def xpc_data_get_length_def xpc_data_get_bytes_ptr_def
    xpc_string_get_length_def xpc_string_get_string_ptr_def xpc_get_type_name_def xpc_uuid_get_bytes_def
  by (intro ro_typed_get ro_u ro.keeps_intros ro_gets)+

lemma ro_on_mem: "keeps unchanged f \<Longrightarrow> keeps (on_snd unchanged) (on_mem f)"
  by (rule keepsI) (auto simp: on_mem_def on_snd_def unchanged_def elim!: zoom_m_InrE dest: keepsD)

lemma ro_on_local: "keeps (on_snd unchanged) (on_local f)"
  by (rule keepsI) (auto simp: on_local_def modify_m_def on_snd_def unchanged_def)

lemma ro_with_local: "keeps (on_snd unchanged) f \<Longrightarrow> keeps unchanged (with_local l f)"
  by (rule keepsI) (auto simp: with_local_def on_snd_def unchanged_def split: sum.splits dest!: keepsD)

lemmas ro_loop = lro.keeps_intros ro_on_mem ro_on_local ro_with_local

lemma ro_apply_array:
  assumes "\<And>i v. keeps (on_snd unchanged) (applier i v)"
  shows "keeps (on_snd unchanged) (xpc_array_apply_fun fuel p applier)"
proof (rule keepsI)
  fix um :: "'a \<times> xmem" and x um'
  assume run: "xpc_array_apply_fun fuel p applier um = Inr (x, um')"
  have body: "keeps (on_snd (on_snd unchanged)) (apply_array_body applier e)" for e
  proof (rule keepsI)
    fix s :: "64 word \<times> 'a \<times> xmem" and x s'
    assume "apply_array_body applier e s = Inr (x, s')"
    then show "on_snd (on_snd unchanged) s s'"
      by (cases s) (auto simp: apply_array_body_def on_snd_def unchanged_def split: sum.splits
          dest!: keepsD [OF assms])
  qed
  from run obtain f um1 i where
    f: "on_mem (deref_m p (\<lambda>a. arr_op (TAILQ_FIRST a))) um = Inr (f, um1)" and
    loop: "TAILQ_FOREACH fuel (\<lambda>s. arrq (snd (snd s))) (apply_array_body applier) f (0, um1) =
      Inr (x, (i, um'))"
    by (auto simp: xpc_array_apply_fun_def elim!: bind_m_InrE split: sum.splits)
  have "keeps (on_snd unchanged) (on_mem (deref_m p (\<lambda>a. arr_op (TAILQ_FIRST a))))"
    by (intro ro_loop ro.keeps_intros ro_zoom_read ro_tailq)
  then have "on_snd unchanged um um1" using f by (rule keepsD)
  moreover have "on_snd unchanged um1 um'"
    using keepsD [OF ulro.keeps_foreach [OF body] loop] by (simp add: on_snd_def [of "on_snd unchanged"])
  ultimately show "on_snd unchanged um um'" by (rule lro.R_trans)
qed

lemma ro_apply_dict:
  assumes "\<And>k v. keeps (on_snd unchanged) (applier k v)"
  shows "keeps (on_snd unchanged) (xpc_dictionary_apply_fun fuel p applier)"
  unfolding xpc_dictionary_apply_fun_def apply_dict_body_def
  by (intro ro_loop ro.keeps_intros ro_zoom_read ro_tailq ro_gets assms)

lemma ro_hash: "keeps unchanged (xpc_hash fuel p)"
proof (induction fuel arbitrary: p)
  case 0
  then show ?case by (simp add: ro.keeps_fail)
next
  case (Suc fuel)
  have leaf: "keeps unchanged (hash_str q n)" "keeps unchanged (hash_bytes q n)" for q n
    unfolding hash_str_def hash_bytes_def by (intro ro.keeps_intros ro_gets)+
  have "keeps (on_snd unchanged) (array_hash_cb (xpc_hash fuel) i v)"
    and "keeps (on_snd unchanged) (dict_hash_cb (xpc_hash fuel) k v)" for i k v
    unfolding array_hash_cb_def dict_hash_cb_def
    by (intro ro_loop ro.keeps_intros ro_gets leaf Suc.IH)+
  moreover have snd_result: "keeps unchanged (bind_m f (\<lambda>(_, h). return_m h))" if "keeps unchanged f"
    for f :: "(xmem, 'c \<times> 'd) op"
    by (rule ro.keeps_bind [OF that]) (auto intro: ro.keeps_return)
  ultimately show ?case
    unfolding xpc_hash.simps
    by (intro ro.keeps_bind ro.keeps_if ro.keeps_return ro_u ro_gets ro_getters leaf snd_result
        ro_with_local ro_apply_array ro_apply_dict)
qed

section \<open>Values\<close>

datatype xval =
    VScalar xpc_type "64 word"
  | VString "byte list"
  | VData "byte list"
  | VArray "xval list"
  | VDict "(byte list \<times> xval) list"

definition obj_is :: "xmem \<Rightarrow> addr \<Rightarrow> xpc_type \<Rightarrow> (xpc_object \<Rightarrow> bool) \<Rightarrow> bool" where
  "obj_is m a t P \<longleftrightarrow> (\<exists>xo. objs m a = Some xo \<and> xo_xpc_type xo = t \<and> P xo)"

primrec val_at :: "xval \<Rightarrow> xmem \<Rightarrow> addr \<Rightarrow> bool" where
  "val_at (VScalar t w) = (\<lambda>m a. scalar_type t \<and> obj_is m a t (\<lambda>xo. xo_u xo = U_bits w))"
| "val_at (VString s) = (\<lambda>m a. obj_is m a XPC_TYPE_STRING (\<lambda>xo. \<exists>p. xo_u xo = U_str (Some p) \<and>
     strs m p = Some s \<and> length s < 2 ^ 64 \<and> xo_size xo = word_of_nat (length s)))"
| "val_at (VData bs) = (\<lambda>m a. obj_is m a XPC_TYPE_DATA (\<lambda>xo. \<exists>p. xo_u xo = U_ptr (Some p) \<and>
     blobs m p = Some bs \<and> length bs < 2 ^ 64 \<and> xo_size xo = word_of_nat (length bs)))"
| "val_at (VArray vs) = (\<lambda>m a. \<exists>as. arr_rep m a as \<and>
     list_all2 (\<lambda>holds b. holds m b) (map val_at vs) as)"
| "val_at (VDict kvs) = (\<lambda>m a. \<exists>n as. dict_map n m a (zip (map fst kvs) as) \<and>
     obj_is m a XPC_TYPE_DICTIONARY (\<lambda>_. True) \<and>
     list_all2 (\<lambda>kh b. snd kh m b) (map (map_prod id val_at) kvs) as)"

text \<open>How much fuel a recursive operation needs: more than the depth and every length.\<close>

primrec need :: "xval \<Rightarrow> nat" where
  "need (VScalar t w) = 1"
| "need (VString s) = 1"
| "need (VData bs) = 1"
| "need (VArray vs) = Suc (length vs + sum_list (map need vs))"
| "need (VDict kvs) = Suc (length kvs + sum_list (map snd (map (map_prod id need) kvs)))"

text \<open>
  The fuel covers the elements: each has a smaller need than the array or dictionary it is in.
\<close>

lemma need_array: "v \<in> set vs \<Longrightarrow> need (VArray vs) \<le> Suc fuel \<Longrightarrow> need v \<le> fuel \<and> length vs \<le> fuel"
  using member_le_sum_list [of "need v" "map need vs"] by simp

lemma need_dict: "(k, v) \<in> set kvs \<Longrightarrow> need (VDict kvs) \<le> Suc fuel \<Longrightarrow> need v \<le> fuel \<and> length kvs \<le> fuel"
  using member_le_sum_list [of "need v" "map snd (map (map_prod id need) kvs)"] by force

end
