(* ===== verification/XpcTraverse.thy ===== *)
theory XpcTraverse
  imports XpcValue
begin

text \<open>
  Traversals of the arrays and dictionaries that values are made of, by a function that leaves the
  memory alone: the function is called on the elements or pairs in order.
\<close>

lemma apply_blocks_fun: "xpc_array_apply = xpc_array_apply_fun"
  "xpc_dictionary_apply = xpc_dictionary_apply_fun"
  by (simp_all add: fun_eq_iff xpc_array_apply_def xpc_array_apply_fun_def xpc_dictionary_apply_def
      xpc_dictionary_apply_fun_def)

lemma val_at_array:
  assumes "val_at (VArray vs) m a"
  obtains as xo where "arr_rep m a as" and "list_all2 (\<lambda>v b. val_at v m b) vs as"
    and "objs m a = Some xo" and "xo_xpc_type xo = XPC_TYPE_ARRAY"
proof -
  from assms obtain as where rep: "arr_rep m a as"
    and all: "list_all2 (\<lambda>holds b. holds m b) (map val_at vs) as" by auto
  from all have "list_all2 (\<lambda>v b. val_at v m b) vs as" by (simp add: list_all2_map1)
  with rep arr_rep_obj [OF rep] show thesis by (auto intro: that)
qed

lemma traverse_array:
  assumes "arr_rep m a as" and "length as \<le> fuel"
    and "\<And>i v. keeps (on_snd unchanged) (f i v :: ('u \<times> xmem, bool) op)"
  shows "xpc_array_apply fuel (Some a) f (u, m) = apply_list f 0 as (u, m)"
  unfolding apply_blocks_fun
proof (rule array_apply_spec [OF assms(1,2)])
  fix i v b and um um' :: "'u \<times> xmem"
  assume "f i v um = Inr (b, um')"
  then show "arrq (snd um') = arrq (snd um)"
    by (auto dest!: keepsD [OF assms(3)] simp: on_snd_def unchanged_def)
qed

lemma val_at_dict:
  assumes "val_at (VDict kvs) m a"
  obtains n as xo where "dict_map n m a (zip (map fst kvs) as)"
    and "list_all2 (\<lambda>kv b. val_at (snd kv) m b) kvs as"
    and "objs m a = Some xo" and "xo_xpc_type xo = XPC_TYPE_DICTIONARY"
proof -
  from assms obtain n as where rep: "dict_map n m a (zip (map fst kvs) as)"
    and all: "list_all2 (\<lambda>kh b. snd kh m b) (map (map_prod id val_at) kvs) as"
    and o: "obj_is m a XPC_TYPE_DICTIONARY (\<lambda>_. True)" by auto
  from all have "list_all2 (\<lambda>kv b. val_at (snd kv) m b) kvs as" by (simp add: list_all2_map1)
  with rep o show thesis by (auto simp: obj_is_def intro: that)
qed

lemma traverse_dict:
  assumes rep: "dict_map n m a (zip (map fst kvs) as)" and len: "length as = length kvs" "length kvs \<le> fuel"
    and ro: "\<And>k v. keeps (on_snd unchanged) (f k v :: ('u \<times> xmem, bool) op)"
  shows "\<exists>ks. list_all2 (\<lambda>k kv. strs m k = Some (fst kv)) ks kvs \<and>
    xpc_dictionary_apply fuel (Some a) f (u, m) =
      apply_pairs f (zip (map Some ks) (map Some as)) (u, m)"
proof -
  let ?kas = "map (\<lambda>(k, v). (k, Some v)) (zip (map fst kvs) as)"
  have "map snd ?kas = map Some (map snd (zip (map fst kvs) as))" by (simp add: case_prod_unfold)
  then have vals: "map snd ?kas = map Some as" using len(1) by (simp del: map_map)
  have "\<exists>ks. list_all2 (\<lambda>k kv. strs m k = Some (fst kv)) ks ?kas \<and>
      xpc_dictionary_apply_fun fuel (Some a) f (u, m) =
        apply_pairs f (zip (map Some ks) (map snd ?kas)) (u, m)"
  proof (rule dict_apply_spec [OF rep [unfolded dict_map_def]])
    show "length ?kas \<le> fuel" using len by simp
    fix k v b and um um' :: "'u \<times> xmem"
    assume "f k v um = Inr (b, um')"
    then show "pairs (snd um') = pairs (snd um) \<and> dictq (snd um') = dictq (snd um)"
      by (auto dest!: keepsD [OF ro] simp: on_snd_def unchanged_def)
  qed
  then obtain ks where ks: "list_all2 (\<lambda>k kv. strs m k = Some (fst kv)) ks ?kas"
    and run: "xpc_dictionary_apply_fun fuel (Some a) f (u, m) =
      apply_pairs f (zip (map Some ks) (map Some as)) (u, m)" unfolding vals by blast
  have "list_all2 (\<lambda>k kv. strs m k = Some (fst kv)) ks kvs"
    using ks len by (simp add: list_all2_conv_all_nth)
  with run show ?thesis unfolding apply_blocks_fun by blast
qed

text \<open>Elements of a value are represented with less fuel than the value.\<close>

lemma array_elem_at:
  assumes "list_all2 (\<lambda>v b. val_at v m b) vs as" and "need (VArray vs) \<le> Suc f" and "i < length vs"
  shows "val_at (vs ! i) m (as ! i) \<and> need (vs ! i) \<le> f \<and> vs ! i \<in> set vs"
  using list_all2_nthD [OF assms(1,3)] need_array [of "vs ! i" vs f] assms(2,3) by simp

lemma dict_elem_at:
  assumes "list_all2 (\<lambda>kv b. val_at (snd kv) m b) kvs as" and "need (VDict kvs) \<le> Suc f"
    and "i < length kvs"
  shows "val_at (snd (kvs ! i)) m (as ! i) \<and> need (snd (kvs ! i)) \<le> f \<and> kvs ! i \<in> set kvs"
  using list_all2_nthD [OF assms(1,3)] need_dict [of "fst (kvs ! i)" "snd (kvs ! i)" kvs f] assms(2,3)
  by simp

end
