(* ===== verification/XpcHash.thy ===== *)
theory XpcHash
  imports XpcTraverse
begin

text \<open>
  \<open>xpc_hash\<close>: the hash of an object is a function of the value that it represents, and of nothing
  else in the memory.
\<close>

section \<open>Hash values\<close>

primrec hash_val :: "xval \<Rightarrow> 64 word" where
  "hash_val (VScalar t w) = (if t \<in> {XPC_TYPE_BOOL, XPC_TYPE_INT64, XPC_TYPE_UINT64, XPC_TYPE_DATE,
     XPC_TYPE_ENDPOINT} then w else 0)"
| "hash_val (VString s) = xpc_data_hash s (word_of_nat (length s))"
| "hash_val (VData bs) = xpc_data_hash bs (word_of_nat (length bs))"
| "hash_val (VArray vs) = foldr (XOR) (map hash_val vs) 0"
| "hash_val (VDict kvs) = foldr (XOR) (map (\<lambda>kh. xpc_data_hash (fst kh) (word_of_nat (length (fst kh)))
     XOR snd kh) (map (map_prod id hash_val) kvs)) 0"

lemma data_hash_loop_append:
  "n \<le> length s \<Longrightarrow> xpc_data_hash_loop n h (s @ t) = xpc_data_hash_loop n h s"
  by (induction n arbitrary: h) (simp_all add: nth_append)

lemma data_hash_append:
  "unat len \<le> length s \<Longrightarrow> xpc_data_hash (s @ t) len = xpc_data_hash s len"
  by (simp add: xpc_data_hash_def data_hash_loop_append)

lemma hash_str_spec:
  assumes "strs m p = Some s" and "length s < 2 ^ 64"
  shows "hash_str (Some p) (word_of_nat (length s)) m =
    Inr (xpc_data_hash s (word_of_nat (length s)), m)"
proof -
  have u: "unat (word_of_nat (length s) :: 64 word) = length s"
    using assms(2) by (simp add: unat_of_nat)
  show ?thesis
  proof (cases "s = []")
    case True
    then show ?thesis by (simp add: hash_str_def return_m_def)
  next
    case False
    then have "(word_of_nat (length s) :: 64 word) \<noteq> 0" using u by (metis length_0_conv unat_0)
    with assms(1) u show ?thesis
      by (simp add: hash_str_def get_str_runs bind_m_def return_m_def data_hash_append)
  qed
qed

lemma hash_bytes_spec:
  assumes "blobs m p = Some bs" and "length bs < 2 ^ 64"
  shows "hash_bytes (Some p) (word_of_nat (length bs)) m =
    Inr (xpc_data_hash bs (word_of_nat (length bs)), m)"
proof -
  have "unat (word_of_nat (length bs) :: 64 word) = length bs"
    using assms(2) by (simp add: unat_of_nat)
  with assms(1) show ?thesis
    by (cases "bs = []") (simp_all add: hash_bytes_def get_bytes_def run_defs)
qed

lemma apply_array_hash:
  "list_all2 (\<lambda>h b. H (Some b) m = Inr (h, m)) hs as \<Longrightarrow>
   apply_list (array_hash_cb H) i as (acc, m) = Inr (True, (acc XOR foldr (XOR) hs 0, m))"
proof (induction arbitrary: i acc rule: list_all2_induct)
  case Nil
  then show ?case by (simp add: return_m_def)
next
  case (Cons h hs b as)
  then show ?case
    by (simp add: array_hash_cb_def on_mem_def on_local_def run_defs word_bw_assocs)
qed

lemma apply_dict_hash:
  assumes "list_all2 (\<lambda>k kh. strs m k = Some (fst kh) \<and> length (fst kh) < 2 ^ 64) ks khs"
    and "list_all2 (\<lambda>kh b. H (Some b) m = Inr (snd kh, m)) khs as"
  shows "apply_pairs (dict_hash_cb H) (zip (map Some ks) (map Some as)) (acc, m) =
    Inr (True, (acc XOR foldr (XOR)
      (map (\<lambda>kh. xpc_data_hash (fst kh) (word_of_nat (length (fst kh))) XOR snd kh) khs) 0, m))"
  using assms
proof (induction arbitrary: as acc rule: list_all2_induct)
  case Nil
  then show ?case by (simp add: return_m_def)
next
  case (Cons k ks kh khs)
  then obtain b as' where as: "as = b # as'" "H (Some b) m = Inr (snd kh, m)"
    "list_all2 (\<lambda>kh b. H (Some b) m = Inr (snd kh, m)) khs as'" by (cases as) auto
  have key: "bind_m (strlen (Some k)) (hash_str (Some k)) m =
      Inr (xpc_data_hash (fst kh) (word_of_nat (length (fst kh))), m)"
    using Cons.hyps(1) hash_str_spec [of m k "fst kh"]
    by (simp add: strlen_def get_str_runs bind_m_def return_m_def)
  show ?case
    using Cons.IH [OF as(3)] as key
    by (simp add: dict_hash_cb_def on_mem_def on_local_def zoom_m_def bind_m_Inr seq_m_Inr
        modify_m_def return_m_def word_bw_assocs)
qed

text \<open>The keys of the dictionaries in a value are C strings, shorter than the address space.\<close>

primrec keys_ok :: "xval \<Rightarrow> bool" where
  "keys_ok (VScalar t w) = True"
| "keys_ok (VString s) = True"
| "keys_ok (VData bs) = True"
| "keys_ok (VArray vs) = list_all id (map keys_ok vs)"
| "keys_ok (VDict kvs) = list_all (\<lambda>kh. length (fst kh) < 2 ^ 64 \<and> snd kh) (map (map_prod id keys_ok) kvs)"

section \<open>The hash of a value\<close>

lemma hash_array:
  assumes val: "val_at (VArray vs) m a" and fuel: "need (VArray vs) \<le> Suc f"
    and elem: "\<And>v b. v \<in> set vs \<Longrightarrow> val_at v m b \<Longrightarrow> need v \<le> f \<Longrightarrow>
      xpc_hash f (Some b) m = Inr (hash_val v, m)"
  shows "xpc_hash (Suc f) (Some a) m = Inr (hash_val (VArray vs), m)"
proof -
  let ?cb = "array_hash_cb (xpc_hash f)"
  from val obtain as xo where rep: "arr_rep m a as" and all: "list_all2 (\<lambda>v b. val_at v m b) vs as"
    and xo: "objs m a = Some xo" "xo_xpc_type xo = XPC_TYPE_ARRAY" by (rule val_at_array)
  have len: "length as = length vs" "length as \<le> f" using list_all2_lengthD [OF all] fuel by simp_all
  have "list_all2 (\<lambda>h b. xpc_hash f (Some b) m = Inr (h, m)) (map hash_val vs) as"
    using array_elem_at [OF all fuel] elem len(1) by (simp add: list_all2_conv_all_nth)
  then have "apply_list ?cb 0 as (0, m) = Inr (True, (hash_val (VArray vs), m))"
    by (simp add: apply_array_hash)
  moreover have "keeps (on_snd unchanged) (?cb i v)" for i v
    unfolding array_hash_cb_def by (intro ro_loop ro_hash)
  from traverse_array [OF rep len(2) this]
  have "xpc_array_apply_fun f (Some a) ?cb (0, m) = apply_list ?cb 0 as (0, m)"
    by (simp add: apply_blocks_fun)
  ultimately show ?thesis using xo by (simp add: get_obj_runs bind_m_def with_local_def return_m_def)
qed

lemma hash_dict:
  assumes val: "val_at (VDict kvs) m a" and fuel: "need (VDict kvs) \<le> Suc f"
    and keys: "\<forall>kv \<in> set kvs. length (fst kv) < 2 ^ 64"
    and elem: "\<And>kv b. kv \<in> set kvs \<Longrightarrow> val_at (snd kv) m b \<Longrightarrow> need (snd kv) \<le> f \<Longrightarrow>
      xpc_hash f (Some b) m = Inr (hash_val (snd kv), m)"
  shows "xpc_hash (Suc f) (Some a) m = Inr (hash_val (VDict kvs), m)"
proof -
  let ?cb = "dict_hash_cb (xpc_hash f)" and ?khs = "map (map_prod id hash_val) kvs"
  from val obtain n as xo where rep: "dict_map n m a (zip (map fst kvs) as)"
    and all: "list_all2 (\<lambda>kv b. val_at (snd kv) m b) kvs as"
    and xo: "objs m a = Some xo" "xo_xpc_type xo = XPC_TYPE_DICTIONARY" by (rule val_at_dict)
  have len: "length as = length kvs" "length kvs \<le> f" using list_all2_lengthD [OF all] fuel by simp_all
  have each: "list_all2 (\<lambda>kh b. xpc_hash f (Some b) m = Inr (snd kh, m)) ?khs as"
    using dict_elem_at [OF all fuel] elem len(1) by (simp add: list_all2_conv_all_nth)
  have "keeps (on_snd unchanged) (?cb k v)" for k v
    unfolding dict_hash_cb_def hash_str_def by (intro ro_loop ro.keeps_intros ro_gets ro_hash)
  from traverse_dict [where f = ?cb and u = 0, OF rep len this] obtain ks where
    ks: "list_all2 (\<lambda>k kv. strs m k = Some (fst kv)) ks kvs"
    and app: "xpc_dictionary_apply_fun f (Some a) ?cb (0, m) =
      apply_pairs ?cb (zip (map Some ks) (map Some as)) (0, m)" unfolding apply_blocks_fun by blast
  have "list_all2 (\<lambda>k kh. strs m k = Some (fst kh) \<and> length (fst kh) < 2 ^ 64) ks ?khs"
    using ks keys by (simp add: list_all2_conv_all_nth)
  from apply_dict_hash [where H = "xpc_hash f" and acc = 0, OF this each] app xo show ?thesis
    by (simp add: get_obj_runs bind_m_def with_local_def return_m_def)
qed

lemma xpc_hash_spec:
  "val_at v m a \<Longrightarrow> keys_ok v \<Longrightarrow> need v \<le> fuel \<Longrightarrow> xpc_hash fuel (Some a) m = Inr (hash_val v, m)"
proof (induction v arbitrary: a fuel)
  case (VScalar t w)
  then obtain f where "fuel = Suc f" by (cases fuel) auto
  with VScalar show ?case
    by (auto simp: obj_is_def scalar_type_def get_obj_runs bind_m_def u_runs return_m_def)
next
  case (VString s)
  then obtain f xo p where "fuel = Suc f" "objs m a = Some xo" "xo_xpc_type xo = XPC_TYPE_STRING"
    "xo_u xo = U_str (Some p)" "strs m p = Some s" "length s < 2 ^ 64"
    "xo_size xo = word_of_nat (length s)" by (cases fuel) (auto simp: obj_is_def)
  then show ?case
    by (simp add: get_obj_runs bind_m_def u_runs return_m_def xpc_string_get_string_ptr_def
        xpc_string_get_length_def typed_get_def hash_str_spec)
next
  case (VData bs)
  then obtain f xo p where "fuel = Suc f" "objs m a = Some xo" "xo_xpc_type xo = XPC_TYPE_DATA"
    "xo_u xo = U_ptr (Some p)" "blobs m p = Some bs" "length bs < 2 ^ 64"
    "xo_size xo = word_of_nat (length bs)" by (cases fuel) (auto simp: obj_is_def)
  then show ?case
    by (simp add: get_obj_runs bind_m_def u_runs return_m_def xpc_data_get_bytes_ptr_def
        xpc_data_get_length_def typed_get_def hash_bytes_spec)
next
  case (VArray vs)
  from VArray.prems(3) obtain f where f: "fuel = Suc f" by (cases fuel) auto
  have "xpc_hash f (Some b) m = Inr (hash_val v, m)" if "v \<in> set vs" "val_at v m b" "need v \<le> f" for v b
    using VArray.IH [OF that(1,2) _ that(3)] VArray.prems(2) that(1) by (simp add: list_all_iff)
  then show ?case using hash_array [OF VArray.prems(1)] VArray.prems(3) unfolding f by blast
next
  case (VDict kvs)
  from VDict.prems(3) obtain f where f: "fuel = Suc f" by (cases fuel) auto
  have "xpc_hash f (Some b) m = Inr (hash_val (snd kv), m)"
    if "kv \<in> set kvs" "val_at (snd kv) m b" "need (snd kv) \<le> f" for kv b
    using VDict.IH [OF that(1) _ that(2) _ that(3)] VDict.prems(2) that(1)
    by (auto simp: list_all_iff snds.simps)
  moreover have "\<forall>kv \<in> set kvs. length (fst kv) < 2 ^ 64"
    using VDict.prems(2) by (auto simp: list_all_iff)
  ultimately show ?case using hash_dict [OF VDict.prems(1)] VDict.prems(3) unfolding f by blast
qed

end
