(* ===== verification/XpcRelease.thy ===== *)
theory XpcRelease
  imports XpcHash "HOL-Library.Multiset"
begin

text \<open>
  Arrays of scalars as values, and the properties of reference counting and of hashing.
\<close>

section \<open>Arrays of scalars\<close>

lemma append_all_vals:
  "arr_rep m a ws \<Longrightarrow> \<forall>v \<in> set vs. live m v \<Longrightarrow> distinct (ws @ vs) \<Longrightarrow>
   \<exists>m'. append_all (Some a) (map Some vs) m = Inr ((), m') \<and> arr_rep m' a (ws @ vs) \<and>
     (\<forall>t w b. val_at (VScalar t w) m b \<longrightarrow> val_at (VScalar t w) m' b)"
proof (induction vs arbitrary: m ws)
  case Nil
  then show ?case by (auto simp: return_m_def)
next
  case (Cons v vs)
  then obtain vo where v: "objs m v = Some vo" "v \<notin> set ws" by (auto simp: live_def)
  from array_append_spec [OF Cons.prems(1) v] obtain m1 where
    m1: "xpc_array_append_value (Some a) (Some v) m = Inr ((), m1)" "arr_rep m1 a (ws @ [v])"
      "objs m1 = (objs m)(v \<mapsto> vo\<lparr>xo_refcnt := xo_refcnt vo + 1\<rparr>)" by blast
  have kept: "val_at (VScalar t w) m b \<longrightarrow> val_at (VScalar t w) m1 b" for t w b
    using m1(3) v(1) by (auto simp: obj_is_def)
  have "\<forall>u \<in> set vs. live m1 u" using Cons.prems(2) m1(3) by (auto simp: live_def)
  from Cons.IH [OF m1(2) this] Cons.prems(3) obtain m' where
    "append_all (Some a) (map Some vs) m1 = Inr ((), m')" "arr_rep m' a (ws @ v # vs)"
    "\<forall>t w b. val_at (VScalar t w) m1 b \<longrightarrow> val_at (VScalar t w) m' b" by auto
  with m1(1) kept show ?case by (auto simp: seq_m_Inr simp del: val_at.simps)
qed

lemma array_create_val:
  assumes ok: "mem_ok m" "malloc_ok m (next_addr m)" and "distinct bs"
    and vals: "list_all2 (\<lambda>(t, w) b. val_at (VScalar t w) m b) tws bs"
  shows "\<exists>m'. xpc_array_create (map Some bs) m = Inr (Some (next_addr m), m') \<and>
    val_at (VArray (map (\<lambda>(t, w). VScalar t w) tws)) m' (next_addr m)"
proof -
  let ?m = "new_object XPC_TYPE_ARRAY (U_bits 0) 0 0 m" and ?a = "next_addr m"
  have l: "live m b" if "b \<in> set bs" for b
  proof -
    from that obtain i where "i < length bs" "b = bs ! i" by (auto simp: in_set_conv_nth)
    with list_all2_nthD2 [OF vals] show ?thesis by (auto simp: obj_is_def live_def split: prod.splits)
  qed
  then have "\<forall>b \<in> set bs. live ?m b" by (simp add: new_object_live)
  from append_all_vals [OF new_array_rep [OF ok(1)] this] assms(3) obtain m' where
    m': "append_all (Some ?a) (map Some bs) ?m = Inr ((), m')" "arr_rep m' ?a bs"
      "\<And>t w b. val_at (VScalar t w) ?m b \<Longrightarrow> val_at (VScalar t w) m' b"
    by (auto simp del: val_at.simps)
  have new: "val_at (VScalar t w) ?m b" if "val_at (VScalar t w) m b" for t w b
    using that live_below [OF ok(1), of b] by (auto simp: obj_is_def new_object_def Let_def live_def)
  have "list_all2 (\<lambda>holds b. holds m' b) (map val_at (map (\<lambda>(t, w). VScalar t w) tws)) bs"
    using vals
  proof (induction rule: list_all2_induct)
    case (Cons tw tws b bs)
    then show ?case using m'(3) [OF new] by (cases tw) (simp del: val_at.simps)
  qed simp
  with m'(1,2) ok(2) show ?thesis
    by (intro exI [of _ m']) (auto simp: xpc_array_create_def xpc_prim_create_def bind_m_Inr
        prim_create_runs seq_m_Inr return_m_def)
qed

section \<open>Properties\<close>

text \<open>Retaining an object and releasing it again leaves the whole memory as it was, whatever
  the count, also when the count wraps, provided the object is counted at all.\<close>

theorem retain_release_restores:
  assumes "objs m a = Some xo" and "xo_refcnt xo \<noteq> 0"
  shows "seq_m (xpc_retain (Some a)) (xpc_release fuel (Some a)) m = Inr ((), m)"
proof -
  have "(objs m)(a \<mapsto> xo) = objs m" using assms(1) by (rule map_upd_triv)
  moreover have "0 < xo_refcnt xo" using assms(2) by (simp add: word_neq_0_conv)
  ultimately show ?thesis using assms(1)
    by (simp add: xpc_release_def xpc_retain_runs upd_obj_runs get_obj_runs seq_m_def bind_m_def
        return_m_def del: xpc_object_destroy.simps)
qed

theorem retain_release_restores_witness:
  "seq_m (xpc_retain (Some 3)) (xpc_release 1 (Some 3)) demo_mem = Inr ((), demo_mem)"
proof -
  have "\<exists>xo. objs demo_mem 3 = Some xo \<and> xo_refcnt xo = 1"
    by (simp add: demo_mem_def new_object_def Let_def init_mem_def)
  then show ?thesis using retain_release_restores [of demo_mem 3 _ 1] by auto
qed

text \<open>The static booleans are not counted: \<open>XPC_BOOL_TRUE\<close> starts with the count 0, so that
  retaining and releasing it once destroys it, and \<open>free\<close> is called on static memory.\<close>

theorem static_bool_freed:
  "seq_m (xpc_retain (Some xpc_bool_true)) (xpc_release (Suc n) (Some xpc_bool_true))
     (init_mem literals k mal junk) = Inl BadFree"
proof -
  let ?m = "init_mem literals k mal junk"
  have o: "objs ?m xpc_bool_true = Some (static_bool True)"
    by (simp add: init_mem_def xpc_bool_true_def xpc_bool_false_def)
  then show ?thesis
    by (simp add: xpc_release_def xpc_retain_runs upd_obj_runs get_obj_runs seq_m_def bind_m_def
        return_m_def static_bool_def free_object_def)
qed

text \<open>C6: The hash of an object terminates, changes nothing and is a function of the value that the
  object represents: the bits of an integer, boolean or date, the hash of the bytes of a string or
  block, the exclusive or of the hashes of the elements of an array and of the keys and values of
  a dictionary.\<close>

theorem xpc_hash_of_value:
  assumes "val_at v m a" and "keys_ok v" and "need v \<le> fuel"
  shows "xpc_hash fuel (Some a) m = Inr (hash_val v, m)"
  using assms by (rule xpc_hash_spec)

lemma demo_mem_vals: "val_at (VScalar XPC_TYPE_INT64 7) demo_mem 2" "val_at (VScalar XPC_TYPE_INT64 9) demo_mem 3"
  by (simp_all add: obj_is_def scalar_type_def demo_mem_def new_object_def Let_def init_mem_def)

lemma demo_arrays:
  "\<exists>m. xpc_array_create [Some 2, Some 3] demo_mem = Inr (Some 4, m) \<and>
     val_at (VArray [VScalar XPC_TYPE_INT64 7, VScalar XPC_TYPE_INT64 9]) m 4"
  "\<exists>m. xpc_array_create [Some 3, Some 2] demo_mem = Inr (Some 4, m) \<and>
     val_at (VArray [VScalar XPC_TYPE_INT64 9, VScalar XPC_TYPE_INT64 7]) m 4"
  using array_create_val [of demo_mem "[2, 3]" "[(XPC_TYPE_INT64, 7), (XPC_TYPE_INT64, 9)]"]
    array_create_val [of demo_mem "[3, 2]" "[(XPC_TYPE_INT64, 9), (XPC_TYPE_INT64, 7)]"] demo_mem_vals
  by (simp_all del: val_at.simps)

theorem xpc_hash_of_value_witness:
  "\<exists>m. xpc_array_create [Some 2, Some 3] demo_mem = Inr (Some 4, m) \<and>
     xpc_hash 5 (Some 4) m = Inr (7 XOR 9, m)"
proof -
  from demo_arrays(1) obtain m where m: "xpc_array_create [Some 2, Some 3] demo_mem = Inr (Some 4, m)"
    "val_at (VArray [VScalar XPC_TYPE_INT64 7, VScalar XPC_TYPE_INT64 9]) m 4" by blast
  have "xpc_hash 5 (Some 4) m = Inr (hash_val (VArray [VScalar XPC_TYPE_INT64 7, VScalar XPC_TYPE_INT64 9]), m)"
    by (rule xpc_hash_of_value [OF m(2)]) simp_all
  with m(1) show ?thesis by (simp del: xpc_hash.simps)
qed

text \<open>The hash of an array does not depend on the order of its elements, and an element that
  occurs twice counts as if it were not there.\<close>

theorem xpc_hash_order_blind:
  assumes "val_at (VArray vs) m a" and "val_at (VArray ws) m' b" and "keys_ok (VArray vs)"
    and "keys_ok (VArray ws)" and "need (VArray vs) \<le> fuel" and "need (VArray ws) \<le> fuel"
    and "mset ws = mset vs \<or> mset ws = add_mset v (add_mset v (mset vs))"
  shows "\<exists>h. xpc_hash fuel (Some a) m = Inr (h, m) \<and> xpc_hash fuel (Some b) m' = Inr (h, m')"
proof -
  have swap: "(XOR) (hash_val x) \<circ> (XOR) (hash_val y) = (XOR) (hash_val y) \<circ> (XOR) (hash_val x)"
    for x y by (simp add: fun_eq_iff word_bw_lcs)
  have fold: "hash_val (VArray us) = fold (\<lambda>v. (XOR) (hash_val v)) us 0" for us
    by (simp add: foldr_map comp_def foldr_fold [OF swap])
  have same: "hash_val (VArray us) = hash_val (VArray us')" if "mset us = mset us'" for us us'
    unfolding fold using fold_multiset_equiv [where f = "\<lambda>v. (XOR) (hash_val v)" and xs = us and ys = us'] swap that by simp
  have "hash_val (VArray (v # v # vs)) = hash_val (VArray vs)"
    by (simp add: word_bw_assocs [symmetric])
  then have "hash_val (VArray ws) = hash_val (VArray vs)"
    using assms(7) same [of ws vs] same [of ws "v # v # vs"] by auto
  with xpc_hash_spec [OF assms(1,3,5)] xpc_hash_spec [OF assms(2,4,6)] show ?thesis by simp
qed

theorem xpc_hash_order_blind_witness:
  "\<exists>m m' h. xpc_array_create [Some 2, Some 3] demo_mem = Inr (Some 4, m) \<and>
     xpc_array_create [Some 3, Some 2] demo_mem = Inr (Some 4, m') \<and>
     xpc_hash 5 (Some 4) m = Inr (h, m) \<and> xpc_hash 5 (Some 4) m' = Inr (h, m')"
proof -
  from demo_arrays obtain m m' where m: "xpc_array_create [Some 2, Some 3] demo_mem = Inr (Some 4, m)"
    "val_at (VArray [VScalar XPC_TYPE_INT64 7, VScalar XPC_TYPE_INT64 9]) m 4" and
    m': "xpc_array_create [Some 3, Some 2] demo_mem = Inr (Some 4, m')"
    "val_at (VArray [VScalar XPC_TYPE_INT64 9, VScalar XPC_TYPE_INT64 7]) m' 4" by blast
  have "\<exists>h. xpc_hash 5 (Some 4) m = Inr (h, m) \<and> xpc_hash 5 (Some 4) m' = Inr (h, m')"
    by (rule xpc_hash_order_blind [OF m(2) m'(2)]) simp_all
  with m(1) m'(1) show ?thesis by blast
qed

lemma bool_create_hash:
  assumes "malloc_ok m (next_addr m)"
  shows "\<exists>m1. xpc_bool_create b m = Inr (Some (next_addr m), m1) \<and>
    xpc_bool_get_value (Some (next_addr m)) m1 = Inr (b, m1) \<and>
    xpc_hash 1 (Some (next_addr m)) m1 = Inr (with_b b (stack_junk m), m1)"
  using assms
  by (simp add: xpc_bool_create_def gets_m_def bind_m_def xpc_prim_create_def prim_create_runs
      xpc_bool_get_value_def typed_get_def get_obj_def new_object_def Let_def the_m_def u_runs with_b_bit)

lemma with_b_upper: "with_b b w AND NOT 0xFF = w AND NOT 0xFF"
  by (simp add: with_b_def word_ao_dist word_bw_assocs)

text \<open>\<open>xpc_bool_create\<close> writes one byte of the value, and \<open>xpc_hash\<close> reads eight: two objects made
  from the same boolean have the same value but hashes that differ in whatever bytes the stack
  held.\<close>

theorem bool_hash_depends_on_stack:
  assumes "malloc_ok m (next_addr m)" and "w AND NOT 0xFF \<noteq> stack_junk m AND NOT 0xFF"
  shows "\<exists>m1 m2 h1 h2. xpc_bool_create b m = Inr (Some (next_addr m), m1) \<and>
    xpc_bool_create b (m\<lparr>stack_junk := w\<rparr>) = Inr (Some (next_addr m), m2) \<and>
    xpc_bool_get_value (Some (next_addr m)) m1 = Inr (b, m1) \<and>
    xpc_bool_get_value (Some (next_addr m)) m2 = Inr (b, m2) \<and>
    xpc_hash 1 (Some (next_addr m)) m1 = Inr (h1, m1) \<and>
    xpc_hash 1 (Some (next_addr m)) m2 = Inr (h2, m2) \<and> h1 \<noteq> h2"
proof -
  have "with_b b (stack_junk m) \<noteq> with_b b w" using assms(2) with_b_upper by metis
  with bool_create_hash [OF assms(1), of b] bool_create_hash [of "m\<lparr>stack_junk := w\<rparr>" b] assms(1)
  show ?thesis by fastforce
qed

theorem bool_hash_depends_on_stack_witness:
  "\<exists>m1 m2 h1 h2. xpc_bool_create True demo_mem = Inr (Some 4, m1) \<and>
    xpc_bool_create True (demo_mem\<lparr>stack_junk := 0x100\<rparr>) = Inr (Some 4, m2) \<and>
    xpc_hash 1 (Some 4) m1 = Inr (h1, m1) \<and> xpc_hash 1 (Some 4) m2 = Inr (h2, m2) \<and> h1 \<noteq> h2"
proof -
  have "stack_junk demo_mem = 0" by (simp add: demo_mem_def new_object_def Let_def init_mem_def)
  then show ?thesis using bool_hash_depends_on_stack [where m = demo_mem and w = "0x100" and b = True]
    by (auto simp del: xpc_hash.simps)
qed

end
