(* ===== verification/XpcTree.thy ===== *)
theory XpcTree
  imports XpcTraverse "HOL-Library.Multiset"
begin

text \<open>
  The objects and pairs that are reached from an object: an \<open>obj_tree\<close> names them, \<open>tree_in\<close> says that
  the links of a memory reach exactly these.  What a tree depends on, and the tree of a value.
\<close>

section \<open>What an object owns\<close>

datatype obj_tree =
    TLeaf addr
  | TArray addr "obj_tree list"
  | TDict addr "(addr \<times> obj_tree) list"

primrec root :: "obj_tree \<Rightarrow> addr" where
  "root (TLeaf a) = a"
| "root (TArray a ts) = a"
| "root (TDict a pts) = a"

primrec inner_objs :: "obj_tree \<Rightarrow> addr list" where
  "inner_objs (TLeaf a) = []"
| "inner_objs (TArray a ts) = concat (map (\<lambda>(r, os). r # os) (map (\<lambda>t. (root t, inner_objs t)) ts))"
| "inner_objs (TDict a pts) =
     concat (map (\<lambda>(p, r, os). r # os) (map (map_prod id (\<lambda>t. (root t, inner_objs t))) pts))"

definition tree_objs :: "obj_tree \<Rightarrow> addr list" where
  "tree_objs t = root t # inner_objs t"

primrec tree_pairs :: "obj_tree \<Rightarrow> addr list" where
  "tree_pairs (TLeaf a) = []"
| "tree_pairs (TArray a ts) = concat (map tree_pairs ts)"
| "tree_pairs (TDict a pts) = concat (map (\<lambda>(p, ps). p # ps) (map (map_prod id tree_pairs) pts))"

primrec tree_need :: "obj_tree \<Rightarrow> nat" where
  "tree_need (TLeaf a) = 1"
| "tree_need (TArray a ts) = Suc (length ts + sum_list (map tree_need ts))"
| "tree_need (TDict a pts) = Suc (length pts + sum_list (map snd (map (map_prod id tree_need) pts)))"

text \<open>The tree is what the links of the memory say.\<close>

primrec tree_in :: "obj_tree \<Rightarrow> xmem \<Rightarrow> bool" where
  "tree_in (TLeaf a) = (\<lambda>m. \<exists>xo. objs m a = Some xo \<and>
     xo_xpc_type xo \<noteq> XPC_TYPE_ARRAY \<and> xo_xpc_type xo \<noteq> XPC_TYPE_DICTIONARY)"
| "tree_in (TArray a ts) = (\<lambda>m. obj_is m a XPC_TYPE_ARRAY (\<lambda>_. True) \<and>
     tq_rep (arrq m) a (map root ts) \<and> list_all (\<lambda>holds. holds m) (map tree_in ts))"
| "tree_in (TDict a pts) = (\<lambda>m. obj_is m a XPC_TYPE_DICTIONARY (\<lambda>_. True) \<and>
     tq_rep (dictq m) a (map fst pts) \<and>
     list_all (\<lambda>(p, r, holds). (\<exists>k. pairs m p = Some \<lparr>dp_key = k, dp_value = Some r\<rparr>) \<and> holds m)
       (map (map_prod id (\<lambda>t. (root t, tree_in t))) pts))"

lemma inner_objs_simps [simp]:
  "inner_objs (TArray a ts) = concat (map tree_objs ts)"
  "inner_objs (TDict a pts) = concat (map (\<lambda>(p, t). tree_objs t) pts)"
  by (simp_all add: tree_objs_def [abs_def] comp_def case_prod_unfold)

lemma tree_in_simps [simp]:
  "tree_in (TArray a ts) m \<longleftrightarrow> obj_is m a XPC_TYPE_ARRAY (\<lambda>_. True) \<and>
     tq_rep (arrq m) a (map root ts) \<and> (\<forall>t \<in> set ts. tree_in t m)"
  "tree_in (TDict a pts) m \<longleftrightarrow> obj_is m a XPC_TYPE_DICTIONARY (\<lambda>_. True) \<and>
     tq_rep (dictq m) a (map fst pts) \<and> (\<forall>(p, t) \<in> set pts.
       (\<exists>k. pairs m p = Some \<lparr>dp_key = k, dp_value = Some (root t)\<rparr>) \<and> tree_in t m)"
  by (auto simp: list_all_iff case_prod_unfold)

lemma tree_pairs_simps [simp]:
  "tree_pairs (TDict a pts) = concat (map (\<lambda>(p, t). p # tree_pairs t) pts)"
  by (simp add: comp_def case_prod_unfold)

declare inner_objs.simps(2,3) [simp del] tree_in.simps(2,3) [simp del] tree_pairs.simps(3) [simp del]

lemma tree_in_elem:
  "tree_in (TArray a ts) m \<Longrightarrow> t \<in> set ts \<Longrightarrow> tree_in t m"
  "tree_in (TDict a pts) m \<Longrightarrow> (p, t) \<in> set pts \<Longrightarrow>
     tree_in t m \<and> (\<exists>k. pairs m p = Some \<lparr>dp_key = k, dp_value = Some (root t)\<rparr>)"
  by (simp, simp, blast)

lemma root_in [simp]: "root t \<in> set (tree_objs t)"
  by (simp add: tree_objs_def)

section \<open>What a tree depends on\<close>

text \<open>What a tree depends on: its objects' types and their links, except how the root itself is linked.\<close>

definition same_at :: "obj_tree \<Rightarrow> xmem \<Rightarrow> xmem \<Rightarrow> bool" where
  "same_at t m m' \<longleftrightarrow> (\<forall>a \<in> set (tree_objs t).
       map_option xo_xpc_type (objs m' a) = map_option xo_xpc_type (objs m a) \<and>
       heads (arrq m') a = heads (arrq m) a \<and> heads (dictq m') a = heads (dictq m) a) \<and>
     (\<forall>a \<in> set (inner_objs t). ents (arrq m') a = ents (arrq m) a) \<and>
     (\<forall>p \<in> set (tree_pairs t). pairs m' p = pairs m p \<and> ents (dictq m') p = ents (dictq m) p)"

lemma tq_rep_cong:
  "tq_rep q h xs \<Longrightarrow> heads q' h = heads q h \<Longrightarrow> (\<And>x. x \<in> set xs \<Longrightarrow> ents q' x = ents q x) \<Longrightarrow> tq_rep q' h xs"
  using dseg_cong [of xs "ents q'" "ents q"] by (fastforce simp: tq_rep_def)

lemma same_at_elem:
  "same_at (TArray a ts) m m' \<Longrightarrow> t \<in> set ts \<Longrightarrow> same_at t m m'"
  "same_at (TDict a pts) m m' \<Longrightarrow> (p, t) \<in> set pts \<Longrightarrow> same_at t m m'"
  by (fastforce simp: same_at_def tree_objs_def)+

lemma same_type:
  assumes "same_at t m m'" and "obj_is m (root t) ty (\<lambda>_. True)"
  shows "obj_is m' (root t) ty (\<lambda>_. True)"
proof -
  from assms(1) have "map_option xo_xpc_type (objs m' (root t)) = map_option xo_xpc_type (objs m (root t))"
    by (simp add: same_at_def)
  with assms(2) show ?thesis by (auto simp: obj_is_def)
qed

lemma tree_frame: "tree_in t m \<Longrightarrow> same_at t m m' \<Longrightarrow> tree_in t m'"
proof (induction t)
  case (TLeaf a)
  then obtain ty where "ty \<noteq> XPC_TYPE_ARRAY" "ty \<noteq> XPC_TYPE_DICTIONARY" "obj_is m a ty (\<lambda>_. True)"
    by (auto simp: obj_is_def)
  with same_type [OF TLeaf.prems(2)] show ?case by (auto simp: obj_is_def)
next
  case (TArray a ts)
  have "tq_rep (arrq m') a (map root ts)"
    by (rule tq_rep_cong [of "arrq m"]) (use TArray.prems in \<open>auto simp: same_at_def tree_objs_def\<close>)
  moreover have "\<forall>t \<in> set ts. tree_in t m'"
    using TArray.IH TArray.prems same_at_elem(1) by auto
  ultimately show ?case using same_type [OF TArray.prems(2)] TArray.prems(1) by simp
next
  case (TDict a pts)
  have "tq_rep (dictq m') a (map fst pts)"
    by (rule tq_rep_cong [of "dictq m"]) (use TDict.prems in \<open>auto simp: same_at_def tree_objs_def\<close>)
  moreover have "(\<exists>k. pairs m' p = Some \<lparr>dp_key = k, dp_value = Some (root t)\<rparr>) \<and> tree_in t m'"
    if "(p, t) \<in> set pts" for p t
  proof -
    have "pairs m' p = pairs m p" using TDict.prems(2) that by (fastforce simp: same_at_def)
    then show ?thesis
      using TDict.prems TDict.IH [OF that, of t] that same_at_elem(2) [OF TDict.prems(2) that]
      by (fastforce simp: snds.simps)
  qed
  ultimately show ?case using same_type [OF TDict.prems(2)] TDict.prems(1) by auto
qed

lemma tail_not_head:
  "distinct (concat (map (\<lambda>x. g x # h x) xs)) \<Longrightarrow> x \<in> set xs \<Longrightarrow> b \<in> set (h x) \<Longrightarrow> b \<notin> g ` set xs"
proof (induction xs)
  case (Cons y ys)
  have sub: "g ` set ys \<subseteq> (\<Union>x \<in> set ys. set (g x # h x))" by auto
  show ?case
  proof (cases "x = y")
    case True
    with Cons.prems sub show ?thesis by auto
  next
    case False
    then have x: "x \<in> set ys" using Cons.prems(2) by simp
    then have "b \<in> (\<Union>x \<in> set ys. set (g x # h x))" using Cons.prems(3) by auto
    with Cons x show ?thesis by auto
  qed
qed simp

lemma tree_need_elem:
  "t \<in> set ts \<Longrightarrow> tree_need (TArray a ts) \<le> Suc fuel \<Longrightarrow> tree_need t \<le> fuel"
  "(p, t) \<in> set pts \<Longrightarrow> tree_need (TDict a pts) \<le> Suc fuel \<Longrightarrow> tree_need t \<le> fuel"
  using member_le_sum_list [of "tree_need t" "map tree_need ts"]
    member_le_sum_list [of "tree_need t" "map snd (map (map_prod id tree_need) pts)"] by force+

section \<open>Values are trees\<close>

text \<open>Every object that represents a value has such a tree, as deep and as wide as the value.\<close>

definition has_tree :: "xval \<Rightarrow> xmem \<Rightarrow> addr \<Rightarrow> bool" where
  "has_tree v m a \<longleftrightarrow> (\<exists>t. root t = a \<and> tree_in t m \<and> tree_need t = need v)"

lemma has_tree_array:
  assumes "val_at (VArray vs) m a" and elems: "\<And>v b. v \<in> set vs \<Longrightarrow> val_at v m b \<Longrightarrow> has_tree v m b"
  shows "has_tree (VArray vs) m a"
proof -
  obtain as xo where as: "arr_rep m a as" "list_all2 (\<lambda>v b. val_at v m b) vs as"
    "objs m a = Some xo" "xo_xpc_type xo = XPC_TYPE_ARRAY" using val_at_array [OF assms(1)] by blast
  have "list_all2 (\<lambda>v b. has_tree v m b) vs as"
    using as(2) by (rule list.rel_mono_strong) (use elems in blast)
  then have "\<exists>ts. map root ts = as \<and> (\<forall>t \<in> set ts. tree_in t m) \<and> map tree_need ts = map need vs"
  proof (induction rule: list_all2_induct)
    case (Cons v vs b bs)
    then obtain t ts where "root t = b" "tree_in t m" "tree_need t = need v" "map root ts = bs"
      "\<forall>t \<in> set ts. tree_in t m" "map tree_need ts = map need vs" by (auto simp: has_tree_def)
    then show ?case by (intro exI [of _ "t # ts"]) simp
  qed simp
  then obtain ts where ts: "map root ts = as" "\<forall>t \<in> set ts. tree_in t m" "map tree_need ts = map need vs"
    by blast
  have "length ts = length vs" using arg_cong [OF ts(3), of length] by simp
  moreover have "tree_in (TArray a ts) m" using as(1,3,4) ts(1,2) by (simp add: arr_rep_def obj_is_def)
  ultimately show ?thesis using ts(3) unfolding has_tree_def by (intro exI [of _ "TArray a ts"]) simp
qed

lemma has_tree_dict:
  assumes "val_at (VDict kvs) m a" and elems: "\<And>k v b. (k, v) \<in> set kvs \<Longrightarrow> val_at v m b \<Longrightarrow> has_tree v m b"
  shows "has_tree (VDict kvs) m a"
proof -
  obtain n as xo where rep: "dict_map n m a (zip (map fst kvs) as)"
    and vals: "list_all2 (\<lambda>kv b. val_at (snd kv) m b) kvs as"
    and xo: "objs m a = Some xo" "xo_xpc_type xo = XPC_TYPE_DICTIONARY"
    using val_at_dict [OF assms(1)] by blast
  note len = list_all2_lengthD [OF vals]
  from rep len obtain ps where ps: "tq_rep (dictq m) a ps"
    "list_all2 (pair_holds m) ps (map (\<lambda>(k, v). (k, Some v)) (zip (map fst kvs) as))"
    by (auto simp: dict_map_def dict_rep_def)
  have lps: "length ps = length kvs" using list_all2_lengthD [OF ps(2)] len by simp
  have pair: "\<exists>k. pairs m (ps ! i) = Some \<lparr>dp_key = k, dp_value = Some (as ! i)\<rparr>" if "i < length kvs" for i
    using list_all2_nthD [OF ps(2), of i] that len lps by (auto simp: pair_holds_def)
  have "has_tree (snd (kvs ! i)) m (as ! i)" if "i < length kvs" for i
    using elems [of "fst (kvs ! i)"] list_all2_nthD [OF vals that] that by simp
  then obtain tr where tr: "\<And>i. i < length kvs \<Longrightarrow> root (tr i) = as ! i \<and> tree_in (tr i) m \<and>
      tree_need (tr i) = need (snd (kvs ! i))" unfolding has_tree_def by metis
  let ?pts = "map (\<lambda>i. (ps ! i, tr i)) [0..<length kvs]"
  have "map fst ?pts = ps" using lps by (intro nth_equalityI) auto
  moreover have needs: "map snd (map (map_prod id tree_need) ?pts) = map snd (map (map_prod id need) kvs)"
    using tr by (intro nth_equalityI) auto
  moreover have "\<forall>(p, t) \<in> set ?pts. (\<exists>k. pairs m p = Some \<lparr>dp_key = k, dp_value = Some (root t)\<rparr>) \<and> tree_in t m"
    using tr pair by auto
  ultimately have "tree_in (TDict a ?pts) m" using ps(1) xo by (simp add: obj_is_def)
  moreover have "tree_need (TDict a ?pts) = need (VDict kvs)" using needs by (simp del: map_map)
  ultimately show ?thesis unfolding has_tree_def by (intro exI [of _ "TDict a ?pts"]) simp
qed

lemma value_has_tree: "val_at v m a \<Longrightarrow> has_tree v m a"
proof (induction v arbitrary: a)
  case (VArray vs)
  show ?case using VArray.prems by (rule has_tree_array) (rule VArray.IH)
next
  case (VDict kvs)
  show ?case using VDict.prems by (rule has_tree_dict) (rule VDict.IH, auto simp: snds.simps)
qed (auto simp: has_tree_def obj_is_def scalar_type_def intro!: exI [of _ "TLeaf a" for a])

lemma value_tree: "val_at v m a \<Longrightarrow> \<exists>t. root t = a \<and> tree_in t m \<and> tree_need t = need v"
  using value_has_tree by (simp add: has_tree_def)

section \<open>Trees of a memory\<close>

lemma tree_live: "tree_in t m \<Longrightarrow> a \<in> set (tree_objs t) \<Longrightarrow> objs m a \<noteq> None"
proof (induction t)
  case (TLeaf b)
  then show ?case by (auto simp: tree_objs_def)
next
  case (TArray b ts)
  then show ?case by (auto simp: tree_objs_def [of "TArray b ts"] obj_is_def)
next
  case (TDict b pts)
  show ?case
  proof (cases "a = b")
    case True
    then show ?thesis using TDict.prems(1) by (auto simp: obj_is_def)
  next
    case False
    then obtain p t where e: "(p, t) \<in> set pts" "a \<in> set (tree_objs t)"
      using TDict.prems(2) by (auto simp: tree_objs_def [of "TDict b pts"])
    then show ?thesis using TDict.IH [OF e(1), of t] tree_in_elem(2) [OF TDict.prems(1) e(1)] by (simp add: snds.simps)
  qed
qed

lemma tree_pairs_live: "tree_in t m \<Longrightarrow> p \<in> set (tree_pairs t) \<Longrightarrow> pairs m p \<noteq> None"
proof (induction t)
  case (TDict b pts)
  then obtain q t where e: "(q, t) \<in> set pts" "p = q \<or> p \<in> set (tree_pairs t)" by auto
  then show ?case using TDict.IH [OF e(1), of t] tree_in_elem(2) [OF TDict.prems(1) e(1)] by (auto simp: snds.simps)
qed auto

lemma tree_root_below: "tree_in t m \<Longrightarrow> mem_ok m \<Longrightarrow> a \<in> set (tree_objs t) \<Longrightarrow> a < next_addr m"
  using tree_live by (fastforce simp: mem_ok_def not_less [symmetric])

lemma tree_pair_below: "tree_in t m \<Longrightarrow> mem_ok m \<Longrightarrow> p \<in> set (tree_pairs t) \<Longrightarrow> p < next_addr m"
  using tree_pairs_live by (fastforce simp: mem_ok_def not_less [symmetric])

text \<open>The pairs need not be assumed distinct: a pair is linked into one dictionary only.\<close>

lemma pair_owner:
  "tree_in t m \<Longrightarrow> p \<in> set (tree_pairs t) \<Longrightarrow>
   \<exists>d ps. d \<in> set (tree_objs t) \<and> tq_rep (dictq m) d ps \<and> p \<in> set ps"
proof (induction t)
  case (TLeaf a)
  then show ?case by simp
next
  case (TArray a ts)
  then obtain t where t: "t \<in> set ts" "p \<in> set (tree_pairs t)" by auto
  then obtain d ps where "d \<in> set (tree_objs t)" "tq_rep (dictq m) d ps" "p \<in> set ps"
    using TArray.IH [OF t(1)] TArray.prems(1) by auto
  then show ?case using t(1) by (auto simp: tree_objs_def)
next
  case (TDict a pts)
  from TDict.prems(2) obtain p' t where e: "(p', t) \<in> set pts" "p = p' \<or> p \<in> set (tree_pairs t)" by auto
  show ?case
  proof (cases "p = p'")
    case True
    then have "p \<in> set (map fst pts)" using e(1) by force
    moreover have "tq_rep (dictq m) a (map fst pts)" using TDict.prems(1) by simp
    moreover have "a \<in> set (tree_objs (TDict a pts))" by (simp add: tree_objs_def)
    ultimately show ?thesis by blast
  next
    case False
    then obtain d ps where "d \<in> set (tree_objs t)" "tq_rep (dictq m) d ps" "p \<in> set ps"
      using TDict.IH [OF e(1), of t] tree_in_elem(2) [OF TDict.prems(1) e(1)] e by (auto simp: snds.simps)
    moreover have "set (tree_objs t) \<subseteq> set (tree_objs (TDict a pts))"
      using e(1) by (force simp: tree_objs_def [of "TDict a pts"])
    ultimately show ?thesis by blast
  qed
qed

lemma pairs_distinct_list:
  "distinct (concat (map tree_objs ts)) \<Longrightarrow> \<forall>t \<in> set ts. tree_in t m \<and> distinct (tree_pairs t) \<Longrightarrow>
   distinct (concat (map tree_pairs ts))"
proof (induction ts)
  case (Cons t ts)
  have "p \<notin> set (concat (map tree_pairs ts))" if p: "p \<in> set (tree_pairs t)" for p
  proof
    assume "p \<in> set (concat (map tree_pairs ts))"
    then obtain u where u: "u \<in> set ts" "p \<in> set (tree_pairs u)" by auto
    obtain d ps where d: "d \<in> set (tree_objs t)" "tq_rep (dictq m) d ps" "p \<in> set ps"
      using pair_owner [of t m p] Cons.prems(2) p by auto
    obtain e qs where e: "e \<in> set (tree_objs u)" "tq_rep (dictq m) e qs" "p \<in> set qs"
      using pair_owner [of u m p] Cons.prems(2) u by auto
    have "d \<noteq> e" using Cons.prems(1) d(1) e(1) u(1) by auto
    with tq_rep_disjoint [OF d(2) e(2)] d(3) e(3) show False by auto
  qed
  with Cons show ?case by auto
qed simp

lemma pairs_distinct: "tree_in t m \<Longrightarrow> distinct (tree_objs t) \<Longrightarrow> distinct (tree_pairs t)"
proof (induction t)
  case (TLeaf a)
  then show ?case by simp
next
  case (TArray a ts)
  from TArray.prems(2) have d: "distinct (concat (map tree_objs ts))" by (simp add: tree_objs_def)
  have "distinct (tree_pairs t)" if "t \<in> set ts" for t
    using TArray.IH [OF that] TArray.prems(1) d that by (auto dest: split_list)
  with pairs_distinct_list [OF d, of m] TArray.prems(1) show ?case by simp
next
  case (TDict a pts)
  let ?ts = "map snd pts"
  have os: "concat (map (\<lambda>(p, t). tree_objs t) pts) = concat (map tree_objs ?ts)"
    by (simp add: comp_def case_prod_unfold)
  from TDict.prems(2) have d: "distinct (concat (map tree_objs ?ts))" "a \<notin> set (concat (map tree_objs ?ts))"
    unfolding tree_objs_def inner_objs_simps os by simp_all
  have each: "tree_in t m \<and> distinct (tree_pairs t)" if t: "t \<in> set ?ts" for t
  proof -
    obtain p where p: "(p, t) \<in> set pts" using t by auto
    have "distinct (tree_objs t)" using d(1) t by (auto dest: split_list)
    then show ?thesis using TDict.IH [OF p, of t] tree_in_elem(2) [OF TDict.prems(1) p] p by (auto simp: snds.simps)
  qed
  have tq: "tq_rep (dictq m) a (map fst pts)" using TDict.prems(1) by simp
  have "p \<notin> set (map fst pts)" if p: "p \<in> set (concat (map tree_pairs ?ts))" for p
  proof
    assume in': "p \<in> set (map fst pts)"
    obtain t where t: "t \<in> set ?ts" "p \<in> set (tree_pairs t)" using p by auto
    obtain e qs where e: "e \<in> set (tree_objs t)" "tq_rep (dictq m) e qs" "p \<in> set qs"
      using pair_owner [of t m p] each [OF t(1)] t(2) by auto
    have "a \<noteq> e" using d(2) e(1) t(1) by auto
    with tq_rep_disjoint [OF tq e(2)] in' e(3) show False by blast
  qed
  moreover have "distinct (map fst pts)" using tq by (rule tq_rep_distinct)
  moreover have "distinct (concat (map tree_pairs ?ts))" using pairs_distinct_list [OF d(1)] each by blast
  ultimately have "distinct (map fst pts @ concat (map tree_pairs ?ts))" by auto
  moreover have "mset (tree_pairs (TDict a pts)) = mset (map fst pts @ concat (map tree_pairs ?ts))"
    unfolding tree_pairs_simps by (induction pts) auto
  ultimately show ?case by (metis mset_eq_imp_distinct_iff)
qed

text \<open>A memory has one tree at an address.\<close>

lemma tree_unique: "tree_in t m \<Longrightarrow> tree_in u m \<Longrightarrow> root t = root u \<Longrightarrow> t = u"
proof (induction t arbitrary: u)
  case (TLeaf a)
  then show ?case by (cases u) (auto simp: obj_is_def)
next
  case (TArray a ts)
  from TArray.prems obtain us where u: "u = TArray a us" by (cases u) (auto simp: obj_is_def)
  have r: "map root us = map root ts"
    using TArray.prems(1,2) by (auto simp: u intro: tq_rep_unique)
  then have len: "length us = length ts" by (metis length_map)
  have "us ! i = ts ! i" if "i < length ts" for i
    using TArray.IH [of "ts ! i" "us ! i"] TArray.prems(1,2) that len arg_cong [OF r, of "\<lambda>l. l ! i"] by (simp add: u)
  then show ?case using len by (auto simp: u intro: nth_equalityI)
next
  case (TDict a pts)
  from TDict.prems obtain qus where u: "u = TDict a qus" by (cases u) (auto simp: obj_is_def)
  have r: "map fst qus = map fst pts"
    using TDict.prems(1,2) by (auto simp: u intro: tq_rep_unique)
  then have len: "length qus = length pts" by (metis length_map)
  have "qus ! i = pts ! i" if i: "i < length pts" for i
  proof -
    obtain p t where pt: "pts ! i = (p, t)" by fastforce
    with arg_cong [OF r, of "\<lambda>l. l ! i"] i len obtain w where qu: "qus ! i = (p, w)" by (cases "qus ! i") auto
    have e: "(p, t) \<in> set pts" "(p, w) \<in> set qus" using pt qu i len by (metis nth_mem)+
    from tree_in_elem(2) [OF TDict.prems(1) e(1)] tree_in_elem(2) [OF TDict.prems(2) [unfolded u] e(2)]
    have "root t = root w" "tree_in t m" "tree_in w m" by auto
    then show ?thesis using TDict.IH [OF e(1), of t w] pt qu by (simp add: snds.simps)
  qed
  then show ?case using len by (auto simp: u intro: nth_equalityI)
qed

end
