(* ===== verification/XpcBuild.thy ===== *)
theory XpcBuild
  imports XpcTree
begin

text \<open>
  Values built out of new objects.  \<open>agree lo m m'\<close> says that two memories agree below the address
  \<open>lo\<close>; \<open>built lost n w m b m'\<close> that from \<open>m\<close> to \<open>m'\<close> an object at \<open>b\<close> that represents \<open>w\<close> was built, with
  new objects only.  New dictionaries are filled by \<open>xpc_dictionary_set_value\<close> and new arrays by
  \<open>xpc_array_append_value\<close>; both keep what was built before.
\<close>

section \<open>Memories that agree below an address\<close>

definition agree :: "addr \<Rightarrow> xmem \<Rightarrow> xmem \<Rightarrow> bool" where
  "agree lo m m' \<longleftrightarrow> next_addr m \<le> next_addr m' \<and> malloc_ok m' = malloc_ok m \<and>
     stack_junk m' = stack_junk m \<and> sys_dup m' = sys_dup m \<and>
     (\<forall>a < lo. objs m' a = objs m a \<and> pairs m' a = pairs m a \<and> strs m' a = strs m a \<and>
       blobs m' a = blobs m a \<and> heads (arrq m') a = heads (arrq m) a \<and>
       ents (arrq m') a = ents (arrq m) a \<and> heads (dictq m') a = heads (dictq m) a \<and>
       ents (dictq m') a = ents (dictq m) a)"

lemma agree_refl [simp]: "agree lo m m"
  by (simp add: agree_def)

lemma agree_trans: "agree lo m m1 \<Longrightarrow> agree lo m1 m2 \<Longrightarrow> agree lo m m2"
  by (simp add: agree_def)

lemma agree_mono: "agree lo m m' \<Longrightarrow> lo' \<le> lo \<Longrightarrow> agree lo' m m'"
  by (simp add: agree_def)

lemma arr_rep_agree:
  assumes rep: "arr_rep m a as" and ok: "mem_ok m'" and ag: "agree lo m m'" and lo: "next_addr m \<le> lo"
  shows "arr_rep m' a as"
proof -
  have "mem_ok m" using rep by (simp add: arr_rep_def)
  obtain xo where "objs m a = Some xo" by (rule arr_rep_obj [OF rep])
  then have "a < next_addr m" using live_below [OF \<open>mem_ok m\<close>, of a] by (simp add: live_def)
  moreover have "x < lo" if "x \<in> set as" for x
    using arr_rep_live [OF rep that] live_below [OF \<open>mem_ok m\<close>, of x] lo by simp
  ultimately show ?thesis
    using rep ok ag lo by (auto simp: arr_rep_def agree_def intro!: tq_rep_cong [of "arrq m" a as])
qed

lemma dict_map_agree:
  assumes rep: "dict_map n m d kvs" and ok: "mem_ok m'" and ag: "agree lo m m'" and lo: "next_addr m \<le> lo"
  shows "dict_map n m' d kvs"
proof -
  let ?kvs = "map (\<lambda>(k, v). (k, Some v)) kvs"
  from rep obtain ps xo where m: "mem_ok m" "\<forall>a. malloc_ok m a" and
    ps: "tq_rep (dictq m) d ps" "list_all2 (pair_holds m) ps ?kvs" and dist: "distinct (map fst ?kvs)"
    and xo: "objs m d = Some xo" "xo_size xo = n + word_of_nat (length ?kvs)"
    by (auto simp: dict_rep_def dict_map_def)
  have d: "d < next_addr m" using xo(1) live_below [OF m(1), of d] by (simp add: live_def)
  have below: "p < lo" if "p \<in> set ps" for p using dict_pairs_below [OF m(1) ps(1) that] lo by simp
  have str: "k < next_addr m" if "strs m k = Some s" for k s
    using m(1) that by (auto simp: mem_ok_def not_less [symmetric])
  have "tq_rep (dictq m') d ps"
    using ps(1) d below ag lo by (auto simp: agree_def intro!: tq_rep_cong [of "dictq m" d ps])
  moreover have "list_all2 (pair_holds m') ps ?kvs"
    using ps(2)
  proof (rule list.rel_mono_strong)
    fix p kv assume "p \<in> set ps" and "pair_holds m p kv"
    then show "pair_holds m' p kv"
      using below [of p] str ag lo by (fastforce simp: pair_holds_def agree_def)
  qed
  moreover have "objs m' d = Some xo" using xo(1) d ag lo by (simp add: agree_def)
  ultimately show ?thesis
    using ok m(2) dist xo(2) ag by (auto simp: dict_map_def dict_rep_def agree_def)
qed

section \<open>Trees of new objects\<close>

text \<open>
  \<open>grown lost t m m'\<close>: from \<open>m\<close> to \<open>m'\<close> the tree \<open>t\<close> was made of new and different objects, its root
  with one reference; \<open>lost\<close> tells whether objects or pairs were made that are not in it.
\<close>

definition new_objs :: "xmem \<Rightarrow> xmem \<Rightarrow> addr set" where
  "new_objs m m' = {a. next_addr m \<le> a \<and> objs m' a \<noteq> None}"

definition new_pairs :: "xmem \<Rightarrow> xmem \<Rightarrow> addr set" where
  "new_pairs m m' = {p. next_addr m \<le> p \<and> pairs m' p \<noteq> None}"

definition grown :: "bool \<Rightarrow> obj_tree \<Rightarrow> xmem \<Rightarrow> xmem \<Rightarrow> bool" where
  "grown lost t m m' \<longleftrightarrow> tree_in t m' \<and> distinct (tree_objs t) \<and>
     set (tree_objs t) \<subseteq> new_objs m m' \<and> set (tree_pairs t) \<subseteq> new_pairs m m' \<and>
     (\<exists>xo. objs m' (root t) = Some xo \<and> xo_refcnt xo = 1) \<and>
     (lost \<longleftrightarrow> new_objs m m' \<noteq> set (tree_objs t) \<or> new_pairs m m' \<noteq> set (tree_pairs t))"

lemma tree_agree:
  assumes "tree_in t m" and "mem_ok m" and "agree (next_addr m) m m'"
  shows "tree_in t m'"
proof -
  have "set (inner_objs t) \<subseteq> set (tree_objs t)" by (auto simp: tree_objs_def)
  then have "same_at t m m'"
    using tree_root_below [OF assms(1,2)] tree_pair_below [OF assms(1,2)] assms(3)
    by (auto simp: same_at_def agree_def)
  with assms(1) show ?thesis by (rule tree_frame)
qed

text \<open>What is new after two steps is what was new after the first and what the second made.\<close>

lemma new_split:
  assumes "mem_ok mk" and "agree (next_addr mk) mk mk'" and "next_addr m \<le> next_addr mk"
  shows "new_objs m mk' = new_objs m mk \<union> new_objs mk mk'" and "new_objs m mk \<inter> new_objs mk mk' = {}"
    and "new_pairs m mk' = new_pairs m mk \<union> new_pairs mk mk'" and "new_pairs m mk \<inter> new_pairs mk mk' = {}"
proof -
  have old: "objs mk' a = objs mk a \<and> pairs mk' a = pairs mk a" if "a < next_addr mk" for a
    using assms(2) that by (simp add: agree_def)
  have none: "objs mk a = None \<and> pairs mk a = None" if "\<not> a < next_addr mk" for a
    using assms(1) that by (simp add: mem_ok_def)
  show "new_objs m mk' = new_objs m mk \<union> new_objs mk mk'"
  proof (rule set_eqI)
    show "a \<in> new_objs m mk' \<longleftrightarrow> a \<in> new_objs m mk \<union> new_objs mk mk'" for a
      using old [of a] none [of a] assms(3) by (cases "a < next_addr mk") (auto simp: new_objs_def)
  qed
  show "new_pairs m mk' = new_pairs m mk \<union> new_pairs mk mk'"
  proof (rule set_eqI)
    show "a \<in> new_pairs m mk' \<longleftrightarrow> a \<in> new_pairs m mk \<union> new_pairs mk mk'" for a
      using old [of a] none [of a] assms(3) by (cases "a < next_addr mk") (auto simp: new_pairs_def)
  qed
  show "new_objs m mk \<inter> new_objs mk mk' = {}" "new_pairs m mk \<inter> new_pairs mk mk' = {}"
    using none by (force simp: new_objs_def new_pairs_def)+
qed

text \<open>
  The buffers made for strings and blocks.  They belong to no object of the tree: \<open>buffers n m m'\<close>
  counts them.
\<close>

definition new_bufs :: "xmem \<Rightarrow> xmem \<Rightarrow> addr set" where
  "new_bufs m m' = {a. next_addr m \<le> a \<and> (strs m' a \<noteq> None \<or> blobs m' a \<noteq> None)}"

definition buffers :: "nat \<Rightarrow> xmem \<Rightarrow> xmem \<Rightarrow> bool" where
  "buffers n m m' \<longleftrightarrow> finite (new_bufs m m') \<and> card (new_bufs m m') = n"

lemma buffers_same:
  "strs mk' = strs mk \<Longrightarrow> blobs mk' = blobs mk \<Longrightarrow> buffers n m mk' = buffers n m mk"
  by (simp add: buffers_def new_bufs_def)

lemma buffers_none: "mem_ok m \<Longrightarrow> strs m' = strs m \<Longrightarrow> blobs m' = blobs m \<Longrightarrow> buffers 0 m m'"
proof -
  assume "mem_ok m" and "strs m' = strs m" and "blobs m' = blobs m"
  then have "new_bufs m m' = {}" by (auto simp: new_bufs_def mem_ok_def)
  then show ?thesis by (simp add: buffers_def)
qed

lemma buffers_new_object: "mem_ok m \<Longrightarrow> buffers 0 m (new_object t u sz fl m)"
  by (rule buffers_none) (simp_all add: new_object_def Let_def)

lemma buffers_made:
  assumes "mem_ok m" and "\<forall>a. strs m' a \<noteq> None \<or> blobs m' a \<noteq> None \<longleftrightarrow> strs m a \<noteq> None \<or> blobs m a \<noteq> None \<or> a \<in> A"
    and "finite A" and "\<forall>a \<in> A. next_addr m \<le> a"
  shows "buffers (card A) m m'"
proof -
  have "new_bufs m m' = A" using assms by (auto simp: new_bufs_def mem_ok_def)
  then show ?thesis using assms(3) by (simp add: buffers_def)
qed

lemma buffers_trans:
  assumes "buffers j m mk" and "buffers k mk mk'" and "mem_ok mk" and "agree (next_addr mk) mk mk'"
    and "next_addr m \<le> next_addr mk"
  shows "buffers (j + k) m mk'"
proof -
  have old: "strs mk' a = strs mk a \<and> blobs mk' a = blobs mk a" if "a < next_addr mk" for a
    using assms(4) that by (simp add: agree_def)
  have none: "strs mk a = None \<and> blobs mk a = None" if "\<not> a < next_addr mk" for a
    using assms(3) that by (simp add: mem_ok_def)
  have "a \<in> new_bufs m mk' \<longleftrightarrow> a \<in> new_bufs m mk \<union> new_bufs mk mk'" for a
    using old [of a] none [of a] assms(5) by (cases "a < next_addr mk") (auto simp: new_bufs_def)
  then have "new_bufs m mk' = new_bufs m mk \<union> new_bufs mk mk'" by blast
  moreover have "new_bufs m mk \<inter> new_bufs mk mk' = {}" using none by (force simp: new_bufs_def)
  ultimately show ?thesis using assms(1,2) by (simp add: buffers_def card_Un_disjoint)
qed

lemma union_differs:
  "A0 \<subseteq> A \<Longrightarrow> B0 \<subseteq> B \<Longrightarrow> A \<inter> B = {} \<Longrightarrow> A \<union> B \<noteq> A0 \<union> B0 \<longleftrightarrow> A \<noteq> A0 \<or> B \<noteq> B0"
  by blast

lemma lost_either:
  assumes t: "grown l t m mk" and u: "grown l' u mk mk'"
    and "new_objs m mk \<inter> new_objs mk mk' = {}" and "new_pairs m mk \<inter> new_pairs mk mk' = {}"
  shows "(l \<or> l') \<longleftrightarrow> new_objs m mk \<union> new_objs mk mk' \<noteq> set (tree_objs t) \<union> set (tree_objs u) \<or>
    new_pairs m mk \<union> new_pairs mk mk' \<noteq> set (tree_pairs t) \<union> set (tree_pairs u)"
proof -
  note T = t [unfolded grown_def] u [unfolded grown_def]
  have "new_objs m mk \<union> new_objs mk mk' \<noteq> set (tree_objs t) \<union> set (tree_objs u) \<longleftrightarrow>
      new_objs m mk \<noteq> set (tree_objs t) \<or> new_objs mk mk' \<noteq> set (tree_objs u)"
    by (rule union_differs) (use T assms(3) in simp_all)
  moreover have "new_pairs m mk \<union> new_pairs mk mk' \<noteq> set (tree_pairs t) \<union> set (tree_pairs u) \<longleftrightarrow>
      new_pairs m mk \<noteq> set (tree_pairs t) \<or> new_pairs mk mk' \<noteq> set (tree_pairs u)"
    by (rule union_differs) (use T assms(4) in simp_all)
  ultimately show ?thesis using T by blast
qed

lemma grown_leaf:
  assumes "mem_ok m" and "objs m' = (objs m)(b \<mapsto> xo)" and "pairs m' = pairs m" and "next_addr m \<le> b"
    and "xo_refcnt xo = 1" and "xo_xpc_type xo \<noteq> XPC_TYPE_ARRAY" and "xo_xpc_type xo \<noteq> XPC_TYPE_DICTIONARY"
  shows "grown False (TLeaf b) m m'"
  using assms by (auto simp: grown_def new_objs_def new_pairs_def tree_objs_def mem_ok_def)

lemma grown_empty:
  assumes "mem_ok m"
  shows "grown False (TArray (next_addr m) []) m (new_object XPC_TYPE_ARRAY (U_bits 0) 0 0 m)"
    and "grown False (TDict (next_addr m) []) m (new_object XPC_TYPE_DICTIONARY (U_bits 0) 0 0 m)"
  using assms by (auto simp: grown_def new_objs_def new_pairs_def tree_objs_def mem_ok_def
      new_object_def Let_def tq_rep_def obj_is_def)

text \<open>An object made and not put into the tree is lost.\<close>

lemma grown_lost:
  assumes "grown l t m mk" and "grown l' u mk mk'" and "mem_ok mk" and "agree (next_addr mk) mk mk'"
    and "next_addr m \<le> next_addr mk"
  shows "grown True t m mk'"
proof -
  note split = new_split [OF assms(3-5)]
  from assms(1) obtain xo where t: "tree_in t mk" "distinct (tree_objs t)" "set (tree_objs t) \<subseteq> new_objs m mk"
    "set (tree_pairs t) \<subseteq> new_pairs m mk" "objs mk (root t) = Some xo" "xo_refcnt xo = 1"
    by (auto simp: grown_def)
  from assms(2) have "root u \<in> new_objs mk mk'" using root_in [of u] unfolding grown_def by blast
  moreover have "root t < next_addr mk" by (rule tree_root_below [OF t(1) assms(3)]) simp
  then have "objs mk' (root t) = Some xo" using assms(4) t(5) by (simp add: agree_def)
  moreover have "root u \<notin> set (tree_objs t)" "root u \<in> new_objs m mk'"
    using calculation(1) t(3) split(1,2) by auto
  then have "new_objs m mk' \<noteq> set (tree_objs t)" by blast
  moreover have "set (tree_objs t) \<subseteq> new_objs m mk'" "set (tree_pairs t) \<subseteq> new_pairs m mk'"
    using t(3,4) split(1,3) by auto
  ultimately show ?thesis using t tree_agree [OF t(1) assms(3,4)] by (simp add: grown_def)
qed

text \<open>The tree of an array to which a new tree is appended.\<close>

lemma grown_append:
  assumes t0: "grown l (TArray n ts) m mk" and t1: "grown l' t mk mk'"
    and ok: "mem_ok mk" and ag: "agree (next_addr mk) mk mk'" and le: "next_addr m \<le> next_addr mk"
    and vo: "objs mk' (root t) = Some vo" and objs: "objs mk'' = (objs mk')(root t \<mapsto> vo\<lparr>xo_refcnt := xo_refcnt vo + 1\<rparr>)"
    and rep: "tq_rep (arrq mk'') n (map root ts @ [root t])"
    and tq: "tq_same (arrq mk') (arrq mk'') {n} (insert (root t) (root ` set ts))"
    and same: "dictq mk'' = dictq mk'" "pairs mk'' = pairs mk'"
  shows "grown (l \<or> l') (TArray n (ts @ [t])) m mk''"
proof -
  let ?u = "TArray n (ts @ [t])"
  note split = new_split [OF ok ag le]
  note T0 = t0 [unfolded grown_def] note T1 = t1 [unfolded grown_def]
  have sets: "set (tree_objs ?u) = set (tree_objs (TArray n ts)) \<union> set (tree_objs t)"
    "set (tree_pairs ?u) = set (tree_pairs (TArray n ts)) \<union> set (tree_pairs t)"
    by (auto simp: tree_objs_def)
  have "set (tree_objs (TArray n ts)) \<subseteq> new_objs m mk" "set (tree_objs t) \<subseteq> new_objs mk mk'"
    using T0 T1 by simp_all
  then have disj: "set (tree_objs (TArray n ts)) \<inter> set (tree_objs t) = {}" using split(2) by blast
  have dist: "distinct (tree_objs ?u)" using T0 T1 disj by (auto simp: tree_objs_def)
  have new: "new_objs m mk'' = new_objs m mk'" "new_pairs m mk'' = new_pairs m mk'"
    using objs same vo by (auto simp: new_objs_def new_pairs_def)
  have n: "n \<notin> set (tree_objs u)" if "u \<in> set (ts @ [t])" for u using dist that by (auto simp: tree_objs_def [of ?u])
  have each: "distinct (concat (map (\<lambda>u. root u # inner_objs u) (ts @ [t])))"
    using dist unfolding tree_objs_def [abs_def] by (simp add: tree_objs_def [abs_def])
  have trees: "tree_in u mk'" if "u \<in> set (ts @ [t])" for u
    using that T1 tree_agree [OF tree_in_elem(1) ok ag, of n ts u] T0 by auto
  have "same_at u mk' mk''" if "u \<in> set (ts @ [t])" for u
  proof -
    have "b \<notin> insert (root t) (root ` set ts)" if "b \<in> set (inner_objs u)" for b
      using tail_not_head [of root inner_objs "ts @ [t]" u b] each \<open>u \<in> _\<close> that by auto
    then have "ents (arrq mk'') b = ents (arrq mk') b" if "b \<in> set (inner_objs u)" for b
      using tq_same_ents [OF tq] that by blast
    moreover have "heads (arrq mk'') b = heads (arrq mk') b" if "b \<in> set (tree_objs u)" for b
    proof -
      have "b \<noteq> n" using n [OF \<open>u \<in> _\<close>] that by blast
      then show ?thesis using tq by (simp add: tq_same_def)
    qed
    ultimately show ?thesis using same objs vo by (simp add: same_at_def)
  qed
  then have "\<forall>u \<in> set (ts @ [t]). tree_in u mk''" using tree_frame [OF trees] by blast
  moreover have "n < next_addr mk" using tree_root_below [of "TArray n ts" mk n] T0 ok by (simp add: tree_objs_def)
  moreover obtain xo where xo: "objs mk n = Some xo" "xo_refcnt xo = 1" using T0 by auto
  ultimately have "tree_in ?u mk''" and "\<exists>xo. objs mk'' n = Some xo \<and> xo_refcnt xo = 1"
    using rep T0 objs ag n [of t] by (auto simp: obj_is_def agree_def)
  moreover have "set (tree_objs ?u) \<subseteq> new_objs m mk''" "set (tree_pairs ?u) \<subseteq> new_pairs m mk''"
    unfolding sets new split(1,3) by (rule Un_mono; use T0 T1 in simp)+
  moreover have "(l \<or> l') = (new_objs m mk'' \<noteq> set (tree_objs ?u) \<or> new_pairs m mk'' \<noteq> set (tree_pairs ?u))"
    unfolding new sets split(1,3) by (rule lost_either [OF t0 t1 split(2,4)])
  ultimately show ?thesis using dist by (simp add: grown_def)
qed

text \<open>The tree of a dictionary into which a new tree is put.\<close>

lemma insert_differs: "p \<notin> A \<Longrightarrow> p \<notin> B \<Longrightarrow> insert p A \<noteq> insert p B \<longleftrightarrow> A \<noteq> B"
  by (auto simp: insert_ident)

text \<open>What \<open>xpc_dictionary_set_value\<close> of a new key does to the trees.\<close>

definition pair_put :: "addr \<Rightarrow> addr \<Rightarrow> addr list \<Rightarrow> xmem \<Rightarrow> xmem \<Rightarrow> bool" where
  "pair_put n u ps m m' \<longleftrightarrow> dict_grows n u ps m m' \<and> arrq m' = arrq m \<and> mem_ok m \<and>
     (\<forall>a uo. objs m a = Some uo \<longrightarrow> (\<exists>uo'. objs m' a = Some uo' \<and>
        xo_refcnt uo' = xo_refcnt uo + (if a = u then 1 else 0) \<and> xo_xpc_type uo' = xo_xpc_type uo)) \<and>
     (\<exists>k. pairs m' (next_addr m) = Some \<lparr>dp_key = k, dp_value = Some u\<rparr>)"

lemma pair_putD:
  assumes "pair_put n u ps m m'" and "objs m n \<noteq> None" and "objs m u \<noteq> None"
  shows "map_option xo_xpc_type (objs m' a) = map_option xo_xpc_type (objs m a)"
    and "p \<noteq> next_addr m \<Longrightarrow> pairs m' p = pairs m p"
    and "b \<noteq> n \<Longrightarrow> heads (dictq m') b = heads (dictq m) b"
    and "p \<noteq> next_addr m \<Longrightarrow> p \<notin> set ps \<Longrightarrow> ents (dictq m') p = ents (dictq m) p"
    and "\<exists>k. pairs m' (next_addr m) = Some \<lparr>dp_key = k, dp_value = Some u\<rparr>"
proof -
  show "map_option xo_xpc_type (objs m' a) = map_option xo_xpc_type (objs m a)"
  proof (cases "objs m a")
    case None
    then have "a \<noteq> n" "a \<noteq> u" using assms(2,3) by auto
    with assms(1) show ?thesis by (simp add: pair_put_def dict_grows_def)
  next
    case (Some xo)
    with assms(1) show ?thesis unfolding pair_put_def by fastforce
  qed
qed (use assms(1) in \<open>simp_all add: pair_put_def dict_grows_def\<close>)

lemma tree_put:
  assumes old: "tree_in (TDict n pts) m" and new: "tree_in t m"
    and put: "pair_put n (root t) (map fst pts) m m'"
    and dist: "distinct (tree_objs (TDict n (pts @ [(next_addr m, t)])))"
    and disj: "set (tree_pairs (TDict n pts)) \<inter> set (tree_pairs t) = {}"
  shows "tree_in (TDict n (pts @ [(next_addr m, t)])) m'"
proof -
  have ok: "mem_ok m" using put by (simp add: pair_put_def)
  have "objs m n \<noteq> None" "objs m (root t) \<noteq> None"
    using tree_live [OF old, of n] tree_live [OF new, of "root t"] by (simp_all add: tree_objs_def)
  note putD = pair_putD [OF put this]
  have d1: "distinct (tree_pairs (TDict n pts))"
    by (rule pairs_distinct [OF old]) (use dist in \<open>simp add: tree_objs_def\<close>)
  have kept: "tree_in u m'" if u: "u \<in> insert t (snd ` set pts)" for u
  proof (rule tree_frame)
    show "tree_in u m" using u new tree_in_elem(2) [OF old] by auto
    then have below: "q \<noteq> next_addr m" if "q \<in> set (tree_pairs u)" for q
      using tree_pair_below [OF _ ok that] by blast
    have "q \<notin> fst ` set pts" if q: "q \<in> set (tree_pairs u)" for q
    proof (cases "u = t")
      case True
      then show ?thesis using q disj by fastforce
    next
      case False
      then obtain r where "(r, u) \<in> set pts" using u by auto
      then show ?thesis
        using tail_not_head [of fst "\<lambda>x. tree_pairs (snd x)" pts "(r, u)" q] d1 q by (simp add: case_prod_unfold)
    qed
    moreover have "a \<noteq> n" if "a \<in> set (tree_objs u)" for a
      using dist u that by (auto simp: tree_objs_def [of "TDict n (pts @ [(next_addr m, t)])"])
    moreover have "arrq m' = arrq m" using put by (simp add: pair_put_def)
    ultimately show "same_at u m m'"
      using putD(1-4) below by (simp add: same_at_def)
  qed
  have "tq_rep (dictq m') n (map fst (pts @ [(next_addr m, t)]))"
    using put by (simp add: pair_put_def dict_grows_def)
  moreover have "obj_is m' n XPC_TYPE_DICTIONARY (\<lambda>_. True)" using old putD(1) [of n] by (auto simp: obj_is_def)
  moreover have "\<exists>k. pairs m' q = Some \<lparr>dp_key = k, dp_value = Some (root u)\<rparr>"
    if "(q, u) \<in> set pts" for q u
  proof -
    have "q \<noteq> next_addr m" using tree_pair_below [OF old ok, of q] that by auto
    then show ?thesis using putD(2) [of q] tree_in_elem(2) [OF old that] by auto
  qed
  ultimately show ?thesis using kept putD(5) by (auto simp: rev_image_eqI)
qed

lemma grown_put:
  assumes t0: "grown l (TDict n pts) m mk" and t1: "grown l' t mk mk'"
    and ok: "mem_ok mk" and ag: "agree (next_addr mk) mk mk'" and le: "next_addr m \<le> next_addr mk"
    and put: "pair_put n (root t) (map fst pts) mk' mk''"
  shows "grown (l \<or> l') (TDict n (pts @ [(next_addr mk', t)])) m mk''"
proof -
  let ?p = "next_addr mk'" let ?d = "TDict n pts"
  let ?u = "TDict n (pts @ [(?p, t)])"
  note split = new_split [OF ok ag le]
  have sets: "set (tree_objs ?u) = set (tree_objs ?d) \<union> set (tree_objs t)"
    "set (tree_pairs ?u) = insert ?p (set (tree_pairs ?d) \<union> set (tree_pairs t))"
    by (auto simp: tree_objs_def)
  have sub: "set (tree_objs ?d) \<subseteq> new_objs m mk" "set (tree_objs t) \<subseteq> new_objs mk mk'"
    "set (tree_pairs ?d) \<subseteq> new_pairs m mk" "set (tree_pairs t) \<subseteq> new_pairs mk mk'"
    and trees: "tree_in ?d mk" "tree_in t mk'" and "distinct (tree_objs ?d)" "distinct (tree_objs t)"
    using t0 t1 by (simp_all add: grown_def)
  moreover have disj: "set (tree_objs ?d) \<inter> set (tree_objs t) = {}" "set (tree_pairs ?d) \<inter> set (tree_pairs t) = {}"
    using sub split(2,4) by blast+
  ultimately have dist: "distinct (tree_objs ?u)" by (auto simp: tree_objs_def)
  have old: "tree_in ?d mk'" by (rule tree_agree [OF trees(1) ok ag])
  have n: "n \<in> set (tree_objs ?d)" by (simp add: tree_objs_def)
  have live: "objs mk' n \<noteq> None" "objs mk' (root t) \<noteq> None"
    using tree_live [OF old n] tree_live [OF trees(2), of "root t"] by simp_all
  note putD = pair_putD [OF put live]
  have "objs mk'' a = None \<longleftrightarrow> objs mk' a = None" for a using putD(1) [of a] by (metis map_option_is_None)
  then have newo: "new_objs m mk'' = new_objs m mk'" by (simp add: new_objs_def)
  have "next_addr m \<le> ?p" using le ag by (simp add: agree_def)
  then have "a \<in> new_pairs m mk'' \<longleftrightarrow> a \<in> insert ?p (new_pairs m mk')" for a
    using putD(2) [of a] putD(5) by (cases "a = ?p") (auto simp: new_pairs_def)
  then have newp: "new_pairs m mk'' = insert ?p (new_pairs m mk')" by blast
  have p: "?p \<notin> new_pairs m mk'" using put by (simp add: pair_put_def mem_ok_def new_pairs_def)
  obtain xo where "objs mk n = Some xo" "xo_refcnt xo = 1" using t0 by (auto simp: grown_def)
  moreover have "n < next_addr mk" by (rule tree_root_below [OF trees(1) ok n])
  moreover have "n \<noteq> root t" using disj(1) n root_in [of t] by blast
  ultimately have "\<exists>xo. objs mk'' n = Some xo \<and> xo_refcnt xo = 1"
    using put ag by (fastforce simp: pair_put_def agree_def)
  moreover have "set (tree_objs ?u) \<subseteq> new_objs m mk''" "set (tree_pairs ?u) \<subseteq> new_pairs m mk''"
    unfolding sets newo newp split(1,3) using sub by (auto simp del: tree_pairs_simps)
  moreover have "(l \<or> l') = (new_objs m mk'' \<noteq> set (tree_objs ?u) \<or> new_pairs m mk'' \<noteq> set (tree_pairs ?u))"
  proof -
    have "?p \<notin> set (tree_pairs ?d) \<union> set (tree_pairs t)" using p sub(3,4) split(3) by auto
    with p have "new_pairs m mk'' \<noteq> set (tree_pairs ?u) \<longleftrightarrow>
        new_pairs m mk' \<noteq> set (tree_pairs ?d) \<union> set (tree_pairs t)"
      unfolding sets newp by (rule insert_differs)
    then show ?thesis unfolding newo sets(1) split(1,3) using lost_either [OF t0 t1 split(2,4)] by simp
  qed
  ultimately show ?thesis using dist tree_put [OF old trees(2) put dist disj(2)] by (simp add: grown_def)
qed

section \<open>Values and where their parts are\<close>

text \<open>\<open>val_with v P m a\<close>: the object at \<open>a\<close> represents \<open>v\<close>, and \<open>P\<close> holds for the addresses of all
  objects below it.\<close>

primrec val_with :: "xval \<Rightarrow> (addr \<Rightarrow> bool) \<Rightarrow> xmem \<Rightarrow> addr \<Rightarrow> bool" where
  "val_with (VScalar t w) = (\<lambda>P m a. val_at (VScalar t w) m a)"
| "val_with (VString s) = (\<lambda>P m a. val_at (VString s) m a)"
| "val_with (VData bs) = (\<lambda>P m a. val_at (VData bs) m a)"
| "val_with (VArray vs) = (\<lambda>P m a. \<exists>as. arr_rep m a as \<and> list_all P as \<and>
     list_all2 (\<lambda>holds b. holds P m b) (map val_with vs) as)"
| "val_with (VDict kvs) = (\<lambda>P m a. \<exists>n as. dict_map n m a (zip (map fst kvs) as) \<and> list_all P as \<and>
     obj_is m a XPC_TYPE_DICTIONARY (\<lambda>_. True) \<and>
     list_all2 (\<lambda>kh b. snd kh P m b) (map (map_prod id val_with) kvs) as)"

lemma list_all_True [simp]: "list_all (\<lambda>_. True) xs"
  by (simp add: list_all_iff)

lemma val_with_True: "val_with v (\<lambda>_. True) m a = val_at v m a"
proof (induction v arbitrary: a)
  case (VArray vs)
  have "list_all2 (\<lambda>holds b. holds (\<lambda>_. True) m b) (map val_with vs) as =
      list_all2 (\<lambda>holds b. holds m b) (map val_at vs) as" for as
    using VArray by (auto simp: list_all2_conv_all_nth)
  then show ?case by simp
next
  case (VDict kvs)
  have "list_all2 (\<lambda>kh b. snd kh (\<lambda>_. True) m b) (map (map_prod id val_with) kvs) as =
      list_all2 (\<lambda>kh b. snd kh m b) (map (map_prod id val_at) kvs) as" for as
    using VDict by (auto simp: list_all2_conv_all_nth snds.simps)
  then show ?case by simp
qed simp_all

lemma val_with_live: "val_with v P m a \<Longrightarrow> live m a"
  by (cases v) (auto simp: obj_is_def live_def elim: arr_rep_obj)

text \<open>
  A change of the memory that keeps scalars, arrays and dictionaries with addresses in \<open>Q\<close> keeps
  the values made of them.
\<close>

lemma val_with_transfer:
  assumes objects: "\<And>a xo. objs m a = Some xo \<Longrightarrow> Q a \<Longrightarrow> \<exists>xo'. objs m' a = Some xo' \<and>
      xo_xpc_type xo' = xo_xpc_type xo \<and> xo_u xo' = xo_u xo \<and> xo_size xo' = xo_size xo"
    and strings: "\<And>p x. strs m p = Some x \<Longrightarrow> strs m' p = Some x" "\<And>p x. blobs m p = Some x \<Longrightarrow> blobs m' p = Some x"
    and arrays: "\<And>a as. arr_rep m a as \<Longrightarrow> Q a \<Longrightarrow> list_all P as \<Longrightarrow> arr_rep m' a as"
    and dicts: "\<And>n a kvs. dict_map n m a kvs \<Longrightarrow> Q a \<Longrightarrow> dict_map n m' a kvs"
    and imp: "\<And>x. P x \<Longrightarrow> live m x \<Longrightarrow> P' x \<and> Q x"
  shows "val_with v P m a \<Longrightarrow> Q a \<Longrightarrow> val_with v P' m' a"
proof (induction v arbitrary: a)
  case (VScalar t w)
  then show ?case by (auto simp: obj_is_def dest!: objects)
next
  case (VString s)
  then show ?case using strings(1) by (fastforce simp: obj_is_def dest!: objects)
next
  case (VData bs)
  then show ?case using strings(2) by (fastforce simp: obj_is_def dest!: objects)
next
  case (VArray vs)
  then obtain as where as: "arr_rep m a as" "list_all P as"
    "list_all2 (\<lambda>holds b. holds P m b) (map val_with vs) as" by auto
  have P': "P' (as ! i) \<and> Q (as ! i) \<and> val_with (vs ! i) P m (as ! i)" if "i < length as" for i
    using list_all2_nthD2 [OF as(3) that] list_all2_lengthD [OF as(3)] as(2) that
      imp [of "as ! i"] val_with_live by (auto simp: list_all_length)
  have "list_all2 (\<lambda>holds b. holds P' m' b) (map val_with vs) as"
    using list_all2_lengthD [OF as(3)] P' VArray.IH by (auto simp: list_all2_conv_all_nth)
  with arrays [OF as(1) VArray.prems(2) as(2)] P' show ?case by (auto simp: list_all_length)
next
  case (VDict kvs)
  then obtain n as where as: "dict_map n m a (zip (map fst kvs) as)" "list_all P as"
    "obj_is m a XPC_TYPE_DICTIONARY (\<lambda>_. True)"
    "list_all2 (\<lambda>kh b. snd kh P m b) (map (map_prod id val_with) kvs) as" by auto
  have P': "P' (as ! i) \<and> Q (as ! i) \<and> val_with (snd (kvs ! i)) P m (as ! i)" if "i < length as" for i
    using list_all2_nthD2 [OF as(4) that] list_all2_lengthD [OF as(4)] as(2) that
      imp [of "as ! i"] val_with_live by (auto simp: list_all_length)
  have "list_all2 (\<lambda>kh b. snd kh P' m' b) (map (map_prod id val_with) kvs) as"
    using list_all2_lengthD [OF as(4)] P' VDict.IH by (auto simp: list_all2_conv_all_nth snds.simps)
  moreover have "obj_is m' a XPC_TYPE_DICTIONARY (\<lambda>_. True)"
    using as(3) VDict.prems(2) by (auto simp: obj_is_def dest!: objects)
  ultimately show ?case using dicts [OF as(1) VDict.prems(2)] P' by (auto simp: list_all_length)
qed

lemma val_with_mono:
  "val_with v P m a \<Longrightarrow> (\<And>x. P x \<Longrightarrow> live m x \<Longrightarrow> P' x) \<Longrightarrow> val_with v P' m a"
  by (rule val_with_transfer [where Q = "\<lambda>_. True" and m = m and P = P]) auto

lemma val_with_at: "val_with v P m a \<Longrightarrow> val_at v m a"
  using val_with_mono [of v P m a "\<lambda>_. True"] by (simp add: val_with_True)

lemma val_with_agree:
  assumes "val_with v P m a" and ok: "mem_ok m" "mem_ok m'" and ag: "agree (next_addr m) m m'"
  shows "val_with v P m' a"
proof (rule val_with_transfer [where Q = "\<lambda>_. True", OF _ _ _ _ _ _ assms(1)])
  have below: "a < next_addr m" if "objs m a \<noteq> None \<or> strs m a \<noteq> None \<or> blobs m a \<noteq> None" for a
    using ok(1) that by (auto simp: mem_ok_def not_less [symmetric])
  fix a xo
  assume "objs m a = Some xo"
  with below [of a] ag show "\<exists>xo'. objs m' a = Some xo' \<and> xo_xpc_type xo' = xo_xpc_type xo \<and>
      xo_u xo' = xo_u xo \<and> xo_size xo' = xo_size xo" by (auto simp: agree_def)
next
  have below: "a < next_addr m" if "strs m a \<noteq> None \<or> blobs m a \<noteq> None" for a
    using ok(1) that by (auto simp: mem_ok_def not_less [symmetric])
  fix p x
  show "strs m p = Some x \<Longrightarrow> strs m' p = Some x" "blobs m p = Some y \<Longrightarrow> blobs m' p = Some y" for y
    using below [of p] ag by (auto simp: agree_def)
next
  fix a as assume "arr_rep m a as"
  then show "arr_rep m' a as" using ok(2) ag by (rule arr_rep_agree) simp
next
  fix n a kvs assume "dict_map n m a kvs"
  then show "dict_map n m' a kvs" using ok(2) ag by (rule dict_map_agree) simp
qed simp_all

lemma val_at_agree:
  "val_at v m a \<Longrightarrow> mem_ok m \<Longrightarrow> mem_ok m' \<Longrightarrow> agree (next_addr m) m m' \<Longrightarrow> val_at v m' a"
  using val_with_agree [of v "\<lambda>_. True"] by (simp add: val_with_True)

text \<open>A value was built: the object at \<open>b\<close> is new and so is all that is below it; \<open>lost\<close> tells whether
  other objects or pairs were made, too, and \<open>n\<close> how many buffers.\<close>

definition built :: "bool \<Rightarrow> nat \<Rightarrow> xval \<Rightarrow> xmem \<Rightarrow> addr \<Rightarrow> xmem \<Rightarrow> bool" where
  "built lost n w m b m' \<longleftrightarrow> next_addr m \<le> b \<and> val_with w (\<lambda>x. b < x) m' b \<and> agree (next_addr m) m m' \<and>
     mem_ok m' \<and> buffers n m m' \<and> (\<exists>t. root t = b \<and> grown lost t m m')"

lemma builtD:
  assumes "built lost n w m b m'"
  shows "next_addr m \<le> b" and "live m' b" and "val_at w m' b" and "agree (next_addr m) m m'" and "mem_ok m'"
    and "lo \<le> next_addr m \<Longrightarrow> agree lo m m'"
  using assms val_with_at [of w] val_with_live [of w] agree_mono by (auto simp: built_def)

section \<open>Steps that only add\<close>

lemma new_object_agree: "lo \<le> next_addr m \<Longrightarrow> agree lo m (new_object t u sz fl m)"
  by (auto simp: agree_def new_object_def Let_def)

text \<open>A pair added to a dictionary that lies above \<open>lo\<close> leaves everything below as it is, and every
  value that the dictionary is not part of.\<close>

lemma dict_grows_agree:
  assumes "dict_grows d u ps m m'" and "mem_step m m'" and "mem_ok m" and "strs m' = strs m"
    and "blobs m' = blobs m" and "arrq m' = arrq m"
    and "lo \<le> d" and "lo \<le> u" and "\<forall>p \<in> set ps. lo \<le> p" and "lo \<le> next_addr m"
  shows "agree lo m m'"
proof -
  have "a \<noteq> d \<and> a \<noteq> u \<and> a \<noteq> next_addr m \<and> a \<notin> set ps" if "a < lo" for a
    using assms(7-10) that by (auto dest: leD)
  then show ?thesis
    using assms(1-6) by (simp add: agree_def dict_grows_def mem_step_def same_env_def)
qed

lemma dict_rep_last_pair:
  assumes "dict_rep n m d (kvs @ [(s, v)])" and "tq_rep (dictq m) d (ps @ [p])"
  shows "\<exists>k. pairs m p = Some \<lparr>dp_key = k, dp_value = v\<rparr>"
proof -
  from assms(1) obtain qs where "tq_rep (dictq m) d qs" "list_all2 (pair_holds m) qs (kvs @ [(s, v)])"
    by (auto simp: dict_rep_def)
  then have "list_all2 (pair_holds m) (ps @ [p]) (kvs @ [(s, v)])" using tq_rep_unique [OF assms(2)] by blast
  then have "pair_holds m p (s, v)" by (auto simp: list_all2_append2 list_all2_Cons2)
  then show ?thesis by (auto simp: pair_holds_def)
qed

lemma copy_pair:
  assumes rep: "dict_map 0 m d kvs" and k: "strs m k = Some s" and new: "s \<notin> fst ` set kvs"
    and u: "live m u" and ps: "tq_rep (dictq m) d ps" and lo: "\<forall>p \<in> set ps. d \<le> p" "d < u"
  shows "\<exists>m'. xpc_dictionary_set_value (Some d) (Some k) (Some u) m = Inr ((), m') \<and>
    dict_map 0 m' d (kvs @ [(s, u)]) \<and> mem_ok m' \<and> agree d m m' \<and>
    tq_rep (dictq m') d (ps @ [next_addr m]) \<and> d \<le> next_addr m \<and> pair_put d u ps m m' \<and>
    strs m' = strs m \<and> blobs m' = blobs m \<and> (\<forall>v b. d < b \<longrightarrow> val_with v (\<lambda>x. d < x) m b \<longrightarrow> val_with v (\<lambda>x. d < x) m' b)"
proof -
  let ?kvs = "map (\<lambda>(k, v). (k, Some v)) kvs"
  have ok: "mem_ok m" using rep by (simp add: dict_map_def dict_rep_def)
  have "s \<notin> fst ` set ?kvs" using new by force
  from dict_add_spec [OF rep [unfolded dict_map_def] k this u] ps obtain m' where
    run: "xpc_dictionary_set_value (Some d) (Some k) (Some u) m = Inr ((), m')"
    and rep': "dict_rep 0 m' d (?kvs @ [(s, Some u)])" and same: "strs m' = strs m" "blobs m' = blobs m"
      "arrq m' = arrq m" and g: "dict_grows d u ps m m'" and others: "\<forall>n'. other_dicts n' d m m'"
    and objects: "\<forall>a uo. objs m a = Some uo \<longrightarrow> (\<exists>uo'. objs m' a = Some uo' \<and>
       xo_refcnt uo' = xo_refcnt uo + (if a = u then 1 else 0) \<and>
       xo_xpc_type uo' = xo_xpc_type uo \<and> xo_u uo' = xo_u uo \<and>
       (a \<noteq> d \<longrightarrow> xo_size uo' = xo_size uo))"
    by (elim exE conjE) (rule that; blast)
  have ok': "mem_ok m'" using rep' by (simp add: dict_rep_def)
  have step: "mem_step m m'" using keepsD [OF keeps_dict_set run] .
  have "u < next_addr m" using u ok by (simp add: live_below)
  then have "d \<le> next_addr m" using lo(2) by simp
  then have "agree d m m'"
    using dict_grows_agree [OF g step ok same] lo by simp
  moreover have "val_with v (\<lambda>x. d < x) m' b" if "d < b" "val_with v (\<lambda>x. d < x) m b" for v b
  proof (rule val_with_transfer [where Q = "\<lambda>x. d < x", OF _ _ _ _ _ _ that(2,1)])
    fix a xo assume "objs m a = Some xo" and "d < a"
    with objects show "\<exists>xo'. objs m' a = Some xo' \<and> xo_xpc_type xo' = xo_xpc_type xo \<and>
        xo_u xo' = xo_u xo \<and> xo_size xo' = xo_size xo" by (metis less_irrefl)
  next
    fix a as assume "arr_rep m a as"
    then show "arr_rep m' a as" using ok' same(3) by (simp add: arr_rep_def)
  next
    fix n a kvs' assume "dict_map n m a kvs'" and "d < a"
    then show "dict_map n m' a kvs'" using others by (auto simp: dict_map_def other_dicts_def)
  qed (use same in simp_all)
  moreover have "dict_map 0 m' d (kvs @ [(s, u)])" using rep' by (simp add: dict_map_def)
  moreover have "tq_rep (dictq m') d (ps @ [next_addr m])" using g by (simp add: dict_grows_def)
  moreover have "\<exists>k. pairs m' (next_addr m) = Some \<lparr>dp_key = k, dp_value = Some u\<rparr>"
    using g dict_rep_last_pair [OF rep'] unfolding dict_grows_def by blast
  then have "pair_put d u ps m m'"
    using g same(3) ok objects unfolding pair_put_def by blast
  ultimately show ?thesis using run ok' \<open>d \<le> next_addr m\<close> same(1,2) by blast
qed

section \<open>Filling a dictionary\<close>

text \<open>The new dictionary when \<open>kvs\<close> have been put into it.\<close>

definition building_dict :: "bool \<Rightarrow> nat \<Rightarrow> (byte list \<times> xval) list \<Rightarrow> xmem \<Rightarrow> xmem \<Rightarrow> bool" where
  "building_dict lost n kvs m mk \<longleftrightarrow> agree (next_addr m) m mk \<and> buffers n m mk \<and>
     (\<exists>pts. grown lost (TDict (next_addr m) pts) m mk) \<and>
     (\<exists>bs ps. dict_map 0 mk (next_addr m) (zip (map fst kvs) bs) \<and>
        list_all2 (\<lambda>kv b. next_addr m < b \<and> val_with (snd kv) (\<lambda>x. next_addr m < x) mk b) kvs bs \<and>
        tq_rep (dictq mk) (next_addr m) ps \<and> (\<forall>p \<in> set ps. next_addr m \<le> p))"

lemma building_dict_start:
  assumes "mem_ok m" and "\<forall>a. malloc_ok m a"
  shows "building_dict False 0 [] m (new_object XPC_TYPE_DICTIONARY (U_bits 0) 0 0 m)"
proof -
  have "tq_rep (dictq (new_object XPC_TYPE_DICTIONARY (U_bits 0) 0 0 m)) (next_addr m) []"
    by (simp add: tq_rep_def new_object_def Let_def)
  then show ?thesis
    using new_dict_map [OF assms, of 0 "U_bits 0" 0] grown_empty(2) [OF assms(1)]
    by (auto simp: building_dict_def new_object_agree buffers_new_object [OF assms(1)]
        intro!: exI [of _ "[]"])
qed

lemma dict_map_ok: "dict_map n m d kvs \<Longrightarrow> mem_ok m \<and> live m d"
  by (auto simp: dict_map_def dict_rep_def live_def)

lemma dict_map_obj:
  assumes "dict_map n m d kvs"
  shows "obj_is m d XPC_TYPE_DICTIONARY (\<lambda>_. True)"
proof -
  from assms obtain hh where "heads (dictq m) d = Some hh"
    by (auto simp: dict_map_def dict_rep_def elim!: tq_repE)
  moreover from dict_map_ok [OF assms]
  have "heads (dictq m) d = None \<longleftrightarrow> \<not> is_type m d XPC_TYPE_DICTIONARY" by (simp add: mem_ok_def)
  ultimately have "is_type m d XPC_TYPE_DICTIONARY" by simp
  then show ?thesis by (auto simp: is_type_def obj_is_def split: option.splits)
qed

lemma building_dict_step:
  assumes b0: "building_dict l n kvs m mk" and d: "built l' n' w mk b mk'"
    and k: "strs mk' k = Some s" and new: "s \<notin> fst ` set kvs"
  shows "\<exists>mk''. xpc_dictionary_set_value (Some (next_addr m)) (Some k) (Some b) mk' = Inr ((), mk'') \<and>
    building_dict (l \<or> l') (n + n') (kvs @ [(s, w)]) m mk''"
proof -
  let ?n = "next_addr m"
  from b0 obtain bs ps where rep: "dict_map 0 mk ?n (zip (map fst kvs) bs)"
    and vals: "list_all2 (\<lambda>kv b. ?n < b \<and> val_with (snd kv) (\<lambda>x. ?n < x) mk b) kvs bs"
    and ps: "tq_rep (dictq mk) ?n ps" "\<forall>p \<in> set ps. ?n \<le> p" and ag0: "agree ?n m mk"
    by (auto simp: building_dict_def)
  from b0 obtain pts where pts: "grown l (TDict ?n pts) m mk" by (auto simp: building_dict_def)
  then have "tq_rep (dictq mk) ?n (map fst pts)" by (simp add: grown_def)
  then have pts_eq: "map fst pts = ps" using ps(1) by (rule tq_rep_unique)
  from d obtain t where t: "root t = b" "grown l' t mk mk'" by (auto simp: built_def)
  from d have ag: "agree (next_addr mk) mk mk'" and ok: "mem_ok mk'" and "live mk' b" and nb: "next_addr mk \<le> b"
    and b: "val_with w (\<lambda>x. b < x) mk' b" by (auto simp: built_def dest: val_with_live)
  have okm: "mem_ok mk" and low: "?n < next_addr mk"
    using dict_map_ok [OF rep] live_below [of mk ?n] by auto
  have len: "length bs = length kvs" using list_all2_lengthD [OF vals] by simp
  have rep': "dict_map 0 mk' ?n (zip (map fst kvs) bs)" by (rule dict_map_agree [OF rep ok ag order_refl])
  have ps': "tq_rep (dictq mk') ?n ps"
    using ps(1) low dict_pairs_below [OF okm ps(1)] ag
    by (auto simp: agree_def intro!: tq_rep_cong [of "dictq mk" ?n ps])
  have lb: "?n < b" using nb low by simp
  have "s \<notin> fst ` set (zip (map fst kvs) bs)" using new len by (auto dest: set_zip_leftD)
  from copy_pair [OF rep' k this \<open>live mk' b\<close> ps' ps(2) lb] obtain mk'' where
    run: "xpc_dictionary_set_value (Some ?n) (Some k) (Some b) mk' = Inr ((), mk'')"
    and rep'': "dict_map 0 mk'' ?n (zip (map fst kvs) bs @ [(s, b)])" and ag'': "agree ?n mk' mk''"
    and ps'': "tq_rep (dictq mk'') ?n (ps @ [next_addr mk'])" and "?n \<le> next_addr mk'"
    and put: "pair_put ?n b ps mk' mk''" and bufs: "strs mk'' = strs mk'" "blobs mk'' = blobs mk'"
    and kept: "\<forall>v b. ?n < b \<longrightarrow> val_with v (\<lambda>x. ?n < x) mk' b \<longrightarrow> val_with v (\<lambda>x. ?n < x) mk'' b"
    by (elim exE conjE) (rule that; assumption)
  have "list_all2 (\<lambda>kv b. ?n < b \<and> val_with (snd kv) (\<lambda>x. ?n < x) mk'' b) kvs bs"
    using vals by (rule list_all2_mono) (use kept val_with_agree [OF _ okm ok ag] in blast)
  moreover have "val_with w (\<lambda>x. ?n < x) mk'' b"
    using kept lb val_with_mono [OF b, of "\<lambda>x. ?n < x"] by simp
  ultimately have "list_all2 (\<lambda>kv b. ?n < b \<and> val_with (snd kv) (\<lambda>x. ?n < x) mk'' b) (kvs @ [(s, w)]) (bs @ [b])"
    using lb by (intro list_all2_appendI) simp_all
  moreover have "zip (map fst kvs) bs @ [(s, b)] = zip (map fst (kvs @ [(s, w)])) (bs @ [b])"
    using len by simp
  moreover have "agree ?n m mk''"
    using agree_trans [OF ag0 agree_trans [OF agree_mono [OF ag] ag'']] low by simp
  moreover have "grown (l \<or> l') (TDict ?n (pts @ [(next_addr mk', t)])) m mk''"
    by (rule grown_put [OF pts t(2) okm ag]) (use low put t(1) pts_eq in simp_all)
  moreover have "buffers (n + n') m mk''"
    unfolding buffers_same [OF bufs] by (rule buffers_trans [OF _ _ okm ag]) (use b0 d low in \<open>simp_all add: building_dict_def built_def\<close>)
  ultimately show ?thesis
    using run rep'' ps'' ps(2) \<open>?n \<le> next_addr mk'\<close>
    unfolding building_dict_def
    by (intro exI [of _ mk''] conjI exI [of _ "bs @ [b]"] exI [of _ "ps @ [next_addr mk']"]) auto
qed

lemma building_dict_done:
  assumes "building_dict lost n kvs m mk"
  shows "built lost n (VDict kvs) m (next_addr m) mk"
proof -
  from assms obtain bs where rep: "dict_map 0 mk (next_addr m) (zip (map fst kvs) bs)"
    and vals: "list_all2 (\<lambda>kv b. next_addr m < b \<and> val_with (snd kv) (\<lambda>x. next_addr m < x) mk b) kvs bs"
    and ag: "agree (next_addr m) m mk" and bufs: "buffers n m mk" by (auto simp: building_dict_def)
  have "\<exists>t. root t = next_addr m \<and> grown lost t m mk" using assms by (force simp: building_dict_def)
  moreover have "list_all2 (\<lambda>kh b. snd kh (\<lambda>x. next_addr m < x) mk b) (map (map_prod id val_with) kvs) bs"
    and "list_all (\<lambda>x. next_addr m < x) bs"
    using vals by (auto simp: list_all2_conv_all_nth list_all_length)
  ultimately show ?thesis
    using rep ag bufs dict_map_ok [OF rep] dict_map_obj [OF rep] by (auto simp: built_def)
qed

section \<open>Filling an array\<close>

text \<open>
  Appending writes the links of the elements of the array, so these must not be elements of the
  arrays below as well.
\<close>

definition building_array :: "bool \<Rightarrow> nat \<Rightarrow> xval list \<Rightarrow> xmem \<Rightarrow> xmem \<Rightarrow> bool" where
  "building_array lost n vs m mk \<longleftrightarrow> agree (next_addr m) m mk \<and> buffers n m mk \<and>
     (\<exists>ts. grown lost (TArray (next_addr m) ts) m mk) \<and>
     (\<exists>bs. arr_rep mk (next_addr m) bs \<and>
        list_all2 (\<lambda>v b. next_addr m < b \<and> val_with v (\<lambda>x. next_addr m < x \<and> x \<notin> set bs) mk b) vs bs)"

lemma building_array_start:
  assumes "mem_ok m"
  shows "building_array False 0 [] m (new_object XPC_TYPE_ARRAY (U_bits 0) 0 0 m)"
  using new_array_rep [OF assms, of "U_bits 0" 0 0] grown_empty(1) [OF assms]
  by (auto simp: building_array_def new_object_agree buffers_new_object [OF assms])

text \<open>An element appended to an array leaves everything below the array as it is, and the values whose
  parts are not elements of the array.\<close>

lemma copy_elem:
  assumes rep: "arr_rep m a bs" and vo: "objs m b = Some vo" and fresh: "b \<notin> set bs" and lo: "a < b" "\<forall>x \<in> set bs. a < x"
  defines "P \<equiv> \<lambda>x. a < x \<and> x \<notin> set (bs @ [b])"
  shows "\<exists>m'. xpc_array_append_value (Some a) (Some b) m = Inr ((), m') \<and> arr_rep m' a (bs @ [b]) \<and>
    objs m' = (objs m)(b \<mapsto> vo\<lparr>xo_refcnt := xo_refcnt vo + 1\<rparr>) \<and> tq_same (arrq m) (arrq m') {a} (insert b (set bs)) \<and>
    dictq m' = dictq m \<and> pairs m' = pairs m \<and> strs m' = strs m \<and> blobs m' = blobs m \<and> agree a m m' \<and>
    (\<forall>v c. a < c \<longrightarrow> val_with v P m c \<longrightarrow> val_with v P m' c)"
proof -
  from array_append_spec [OF rep vo fresh] obtain m' where
    run: "xpc_array_append_value (Some a) (Some b) m = Inr ((), m')" and rep': "arr_rep m' a (bs @ [b])"
    and objs: "objs m' = (objs m)(b \<mapsto> vo\<lparr>xo_refcnt := xo_refcnt vo + 1\<rparr>)"
    and tq: "tq_same (arrq m) (arrq m') {a} (insert b (set bs))"
    and same: "dictq m' = dictq m" "pairs m' = pairs m" "strs m' = strs m" "blobs m' = blobs m"
      "next_addr m' = next_addr m" "same_env m m'" by (elim exE conjE) (rule that; assumption)
  have ok': "mem_ok m'" using rep' by (simp add: arr_rep_def)
  have "x \<noteq> b \<and> x \<noteq> a \<and> x \<notin> set bs" if "x < a" for x using lo that by auto
  then have ag: "agree a m m'" using objs tq same by (simp add: agree_def tq_same_def same_env_def)
  have "val_with v P m' c" if "a < c" "val_with v P m c" for v c
  proof (rule val_with_transfer [where Q = "\<lambda>x. a < x", OF _ _ _ _ _ _ that(2,1)])
    fix x xo assume "objs m x = Some xo"
    then show "\<exists>xo'. objs m' x = Some xo' \<and> xo_xpc_type xo' = xo_xpc_type xo \<and> xo_u xo' = xo_u xo \<and>
        xo_size xo' = xo_size xo" using objs vo by auto
  next
    fix x as assume "arr_rep m x as" "a < x" "list_all P as"
    then show "arr_rep m' x as"
      using ok' tq_rep_frame [OF _ tq, of x as] by (auto simp: arr_rep_def list_all_iff P_def)
  next
    fix n x kvs assume dm: "dict_map n m x kvs"
    have "pair_holds m' = pair_holds m" using same by (simp add: pair_holds_def fun_eq_iff)
    with dm show "dict_map n m' x kvs"
      using ok' same objs vo by (auto simp: dict_map_def dict_rep_def same_env_def)
  qed (use same in \<open>simp_all add: P_def\<close>)
  with run rep' objs tq same ag show ?thesis by blast
qed

lemma building_array_step:
  assumes b0: "building_array l n vs m mk" and d: "built l' n' w mk b mk'"
  shows "\<exists>mk''. xpc_array_append_value (Some (next_addr m)) (Some b) mk' = Inr ((), mk'') \<and>
    building_array (l \<or> l') (n + n') (vs @ [w]) m mk''"
proof -
  let ?n = "next_addr m"
  from b0 obtain bs ts where rep: "arr_rep mk ?n bs" and ag0: "agree ?n m mk" and ts: "grown l (TArray ?n ts) m mk"
    and vals: "list_all2 (\<lambda>v b. ?n < b \<and> val_with v (\<lambda>x. ?n < x \<and> x \<notin> set bs) mk b) vs bs"
    by (auto simp: building_array_def)
  from ts have "tq_rep (arrq mk) ?n (map root ts)" by (simp add: grown_def)
  then have bs: "bs = map root ts" using rep tq_rep_unique by (auto simp: arr_rep_def)
  let ?P = "\<lambda>x. ?n < x \<and> x \<notin> set (bs @ [b])"
  from d obtain t where ag: "agree (next_addr mk) mk mk'" and ok: "mem_ok mk'" and nb: "next_addr mk \<le> b"
    and b: "val_with w (\<lambda>x. b < x) mk' b" and t: "root t = b" "grown l' t mk mk'" by (auto simp: built_def)
  obtain vo where vo: "objs mk' b = Some vo" using val_with_live [OF b] by (auto simp: live_def)
  have okm: "mem_ok mk" using rep by (simp add: arr_rep_def)
  have low: "?n < next_addr mk"
    using live_below [OF okm, of ?n] arr_rep_obj [OF rep] by (auto simp: live_def)
  have lb: "?n < b" using nb low by simp
  have below: "x < next_addr mk" if "x \<in> set bs" for x using arr_rep_live [OF rep that] live_below [OF okm] by simp
  have above: "\<forall>x \<in> set bs. ?n < x" using vals by (auto simp: list_all2_conv_all_nth in_set_conv_nth)
  have fresh: "b \<notin> set bs" using below [of b] nb by auto
  from copy_elem [OF arr_rep_agree [OF rep ok ag order_refl] vo fresh lb above] obtain mk'' where
    run: "xpc_array_append_value (Some ?n) (Some b) mk' = Inr ((), mk'')" and rep'': "arr_rep mk'' ?n (bs @ [b])"
    and step: "objs mk'' = (objs mk')(b \<mapsto> vo\<lparr>xo_refcnt := xo_refcnt vo + 1\<rparr>)"
      "tq_same (arrq mk') (arrq mk'') {?n} (insert b (set bs))" "dictq mk'' = dictq mk'" "pairs mk'' = pairs mk'"
    and bufs: "strs mk'' = strs mk'" "blobs mk'' = blobs mk'" and ag'': "agree ?n mk' mk''"
    and kept: "\<forall>v c. ?n < c \<longrightarrow> val_with v ?P mk' c \<longrightarrow> val_with v ?P mk'' c"
    by (elim exE conjE) (rule that; assumption)
  have "val_with v ?P mk'' c" if "?n < c \<and> val_with v (\<lambda>x. ?n < x \<and> x \<notin> set bs) mk c" for v c
  proof -
    have "val_with v ?P mk c"
      by (rule val_with_mono [OF conjunct2 [OF that]]) (use nb live_below [OF okm] in fastforce)
    with that show ?thesis using kept val_with_agree [OF _ okm ok ag] by blast
  qed
  with vals have "list_all2 (\<lambda>v b'. ?n < b' \<and> val_with v ?P mk'' b') vs bs"
    by (auto intro: list_all2_mono)
  moreover have "val_with w ?P mk' b"
    by (rule val_with_mono [OF b]) (use lb nb below in fastforce)
  ultimately have "list_all2 (\<lambda>v b'. ?n < b' \<and> val_with v ?P mk'' b') (vs @ [w]) (bs @ [b])"
    using kept lb by (intro list_all2_appendI) simp_all
  moreover have "agree ?n m mk''"
    using agree_trans [OF ag0 agree_trans [OF agree_mono [OF ag] ag'']] low by simp
  moreover have "grown (l \<or> l') (TArray ?n (ts @ [t])) m mk''"
    by (rule grown_append [OF ts t(2) okm ag]) (use low vo step rep'' in \<open>simp_all add: t(1) bs arr_rep_def\<close>)
  moreover have "buffers (n + n') m mk''"
    unfolding buffers_same [OF bufs] by (rule buffers_trans [OF _ _ okm ag]) (use b0 d low in \<open>simp_all add: building_array_def built_def\<close>)
  ultimately show ?thesis using run rep'' by (auto simp: building_array_def)
qed

lemma building_array_done:
  assumes "building_array lost n vs m mk"
  shows "built lost n (VArray vs) m (next_addr m) mk"
proof -
  have tree: "\<exists>t. root t = next_addr m \<and> grown lost t m mk" using assms by (force simp: building_array_def)
  from assms obtain bs where rep: "arr_rep mk (next_addr m) bs" and ag: "agree (next_addr m) m mk"
    and vals: "list_all2 (\<lambda>v b. next_addr m < b \<and> val_with v (\<lambda>x. next_addr m < x \<and> x \<notin> set bs) mk b) vs bs"
    by (auto simp: building_array_def)
  have "val_with v (\<lambda>x. next_addr m < x) mk b"
    if "next_addr m < b \<and> val_with v (\<lambda>x. next_addr m < x \<and> x \<notin> set bs) mk b" for v b
    using that val_with_mono by fastforce
  with vals have "list_all2 (\<lambda>holds b. holds (\<lambda>x. next_addr m < x) mk b) (map val_with vs) bs \<and>
      list_all (\<lambda>x. next_addr m < x) bs"
    by (auto simp: list_all2_conv_all_nth list_all_length)
  moreover have "buffers n m mk" using assms by (simp add: building_array_def)
  ultimately show ?thesis using tree rep ag by (auto simp: built_def arr_rep_def)
qed

end
