(* ===== verification/XpcCopy.thy ===== *)
theory XpcCopy
  imports XpcBuild XpcRelease
begin

text \<open>
  \<open>xpc_copy\<close>: the copy of a value is built from new objects only, and what was in the memory before
  stays as it is.
\<close>

section \<open>What is copied\<close>

text \<open>
  \<open>xpc_copy\<close> returns NULL for a null, a double and a descriptor (\<open>no_copy\<close>).  Set into the new
  dictionary that NULL is dereferenced (\<open>crashes\<close>); the array ignores it, as it ignores every
  other copy: the copy of an array is empty.
\<close>

primrec no_copy :: "xval \<Rightarrow> bool" where
  "no_copy (VScalar t w) = (t \<notin> {XPC_TYPE_BOOL, XPC_TYPE_INT64, XPC_TYPE_UINT64, XPC_TYPE_DATE,
     XPC_TYPE_ENDPOINT})"
| "no_copy (VString s) = False"
| "no_copy (VData bs) = False"
| "no_copy (VArray vs) = False"
| "no_copy (VDict kvs) = False"

primrec crashes :: "xval \<Rightarrow> bool" where
  "crashes (VScalar t w) = False"
| "crashes (VString s) = False"
| "crashes (VData bs) = False"
| "crashes (VArray vs) = list_ex id (map crashes vs)"
| "crashes (VDict kvs) = (list_ex (\<lambda>kv. no_copy (snd kv)) kvs \<or> list_ex snd (map (map_prod id crashes) kvs))"

primrec copied :: "xval \<Rightarrow> xval" where
  "copied (VScalar t w) = VScalar t w"
| "copied (VString s) = VString s"
| "copied (VData bs) = VData bs"
| "copied (VArray vs) = VArray []"
| "copied (VDict kvs) = VDict (map (map_prod id copied) kvs)"

text \<open>What makes \<open>xpc_copy\<close> lose objects: a copy of an element that does not get into the new array.  Strings
  and blocks are counted apart, by \<open>bufs\<close>.\<close>

primrec loses :: "xval \<Rightarrow> bool" where
  "loses (VScalar t w) = False"
| "loses (VString s) = False"
| "loses (VData bs) = False"
| "loses (VArray vs) = list_ex (\<lambda>v. \<not> no_copy v) vs"
| "loses (VDict kvs) = list_ex snd (map (map_prod id loses) kvs)"

text \<open>
  How many buffers are made for a value if \<open>k\<close> are made for each string and one for each block of
  data.  \<open>xpc_copy\<close> makes two for a string, with \<open>strdup\<close> in \<open>xpc_copy\<close> itself and in
  \<open>xpc_string_create\<close>; keys are not duplicated.
\<close>

primrec bufs :: "nat \<Rightarrow> xval \<Rightarrow> nat" where
  "bufs k (VScalar t w) = 0"
| "bufs k (VString s) = k"
| "bufs k (VData bs) = 1"
| "bufs k (VArray vs) = sum_list (map (bufs k) vs)"
| "bufs k (VDict kvs) = sum_list (map snd (map (map_prod id (bufs k)) kvs))"

text \<open>
  An array is indexed with 64 bits and the last index stands for appending, so that only arrays
  that are shorter are traversed without it.
\<close>

primrec short_arrays :: "xval \<Rightarrow> bool" where
  "short_arrays (VScalar t w) = True"
| "short_arrays (VString s) = True"
| "short_arrays (VData bs) = True"
| "short_arrays (VArray vs) = (length vs < 2 ^ 64 - 1 \<and> list_all id (map short_arrays vs))"
| "short_arrays (VDict kvs) = list_all snd (map (map_prod id short_arrays) kvs)"

definition copy_result :: "xval \<Rightarrow> xmem \<Rightarrow> fault + ptr \<times> xmem \<Rightarrow> bool" where
  "copy_result v m r \<longleftrightarrow>
     (if crashes v then r = Inl NullDeref
      else if no_copy v then r = Inr (None, m)
      else \<exists>b m'. r = Inr (Some b, m') \<and> built (loses v) (bufs 2 v) (copied v) m b m')"

text \<open>The memories in which elements are copied.\<close>

definition usable :: "xmem \<Rightarrow> bool" where
  "usable m \<longleftrightarrow> mem_ok m \<and> (\<forall>a. malloc_ok m a)"

definition copies_as :: "nat \<Rightarrow> xval \<Rightarrow> bool" where
  "copies_as f v \<longleftrightarrow> (\<forall>m a. usable m \<longrightarrow> val_at v m a \<longrightarrow> copy_result v m (xpc_copy f (Some a) m))"

lemma copy_scalar: "copies_as (Suc f) (VScalar t w)"
  unfolding copies_as_def
proof (intro allI impI)
  fix m a assume ok: "usable m" and "val_at (VScalar t w) m a"
  then obtain xo where xo: "objs m a = Some xo" "xo_xpc_type xo = t" "xo_u xo = U_bits w"
    and t: "scalar_type t" by (auto simp: obj_is_def)
  let ?m = "new_object t (U_bits w) 1 0 m"
  show "copy_result (VScalar t w) m (xpc_copy (Suc f) (Some a) m)"
  proof (cases "no_copy (VScalar t w)")
    case True
    with t xo show ?thesis
      by (auto simp: copy_result_def scalar_type_def get_obj_runs bind_m_def return_m_def)
  next
    case False
    then have "xpc_copy (Suc f) (Some a) m = Inr (Some (next_addr m), ?m)"
      using xo ok by (auto simp: usable_def get_obj_runs bind_m_def xpc_prim_create_def prim_create_runs)
    moreover have "val_at (VScalar t w) ?m (next_addr m)"
      using t False by (auto simp: obj_is_def new_object_def Let_def)
    moreover have "mem_ok ?m" using mem_ok_new_object [of m t "U_bits w"] ok t by (simp add: usable_def)
    moreover have "grown False (TLeaf (next_addr m)) m ?m"
      using grown_leaf [of m ?m "next_addr m"] ok t False by (auto simp: usable_def new_object_def Let_def)
    then have "\<exists>t. root t = next_addr m \<and> grown False t m ?m" by force
    moreover have "buffers 0 m ?m" by (rule buffers_new_object) (use ok in \<open>simp add: usable_def\<close>)
    ultimately show ?thesis
      using False new_object_agree [of "next_addr m" m] by (auto simp: copy_result_def built_def)
  qed
qed

lemma new_str_runs:
  "malloc_ok m (next_addr m) \<Longrightarrow> new_str s m = Inr (Some (next_addr m),
     m\<lparr>next_addr := Suc (next_addr m), strs := (strs m)(next_addr m \<mapsto> s)\<rparr>)"
  by (simp add: new_str_def malloc_def run_defs)

text \<open>The string is duplicated twice: the first duplicate is lost.\<close>

lemma copy_string: "copies_as (Suc f) (VString s)"
  unfolding copies_as_def usable_def
proof (intro allI impI, elim conjE)
  fix m a assume ok: "mem_ok m" "\<forall>a. malloc_ok m a" and "val_at (VString s) m a"
  then obtain xo p where xo: "objs m a = Some xo" "xo_xpc_type xo = XPC_TYPE_STRING"
    "xo_u xo = U_str (Some p)" "strs m p = Some s" "length s < 2 ^ 64"
    "xo_size xo = word_of_nat (length s)" by (auto simp: obj_is_def)
  let ?n = "next_addr m"
  let ?m1 = "m\<lparr>next_addr := Suc ?n, strs := (strs m)(?n \<mapsto> s)\<rparr>"
  let ?m2 = "?m1\<lparr>next_addr := Suc (Suc ?n), strs := (strs ?m1)(Suc ?n \<mapsto> s)\<rparr>"
  let ?m3 = "new_object XPC_TYPE_STRING (U_str (Some (Suc ?n))) (word_of_nat (length s)) 0 ?m2"
  have dup: "strdup (Some p) m = Inr (Some ?n, ?m1)"
    using xo ok(2) by (simp add: strdup_def get_str_runs bind_m_def new_str_runs)
  have create: "xpc_string_create (Some ?n) ?m1 = Inr (Some (Suc (Suc ?n)), ?m3)"
    using ok(2) by (simp add: xpc_string_create_def strdup_def strlen_def get_str_runs bind_m_def
        new_str_runs return_m_def xpc_prim_create_def prim_create_runs)
  have "xpc_copy (Suc f) (Some a) m = Inr (Some (Suc (Suc ?n)), ?m3)"
    using xo dup create by (simp add: get_obj_runs bind_m_def xpc_string_get_string_ptr_def
        typed_get_def u_runs)
  moreover have "mem_ok ?m3"
    using keepsD [OF keeps_strdup dup] keepsD [OF type_ops_keep(10) create] ok(1)
    by (simp add: mem_step_def)
  moreover have "val_at (VString s) ?m3 (Suc (Suc ?n))"
    using xo(5) by (simp add: obj_is_def new_object_def Let_def)
  moreover have "agree ?n m ?m3" by (simp add: agree_def new_object_def Let_def)
  moreover have "grown False (TLeaf (Suc (Suc ?n))) m ?m3"
    using grown_leaf [OF ok(1), of ?m3 "Suc (Suc ?n)"] by (simp add: new_object_def Let_def)
  then have "\<exists>t. root t = Suc (Suc ?n) \<and> grown False t m ?m3" by force
  moreover have "buffers (card {?n, Suc ?n}) m ?m3"
    by (rule buffers_made [OF ok(1)]) (auto simp: new_object_def Let_def)
  then have "buffers 2 m ?m3" by (simp add: numeral_2_eq_2)
  ultimately show "copy_result (VString s) m (xpc_copy (Suc f) (Some a) m)"
    by (auto simp: copy_result_def built_def)
qed

lemma copy_data: "copies_as (Suc f) (VData bs)"
  unfolding copies_as_def usable_def
proof (intro allI impI, elim conjE)
  fix m a assume ok: "mem_ok m" "\<forall>a. malloc_ok m a" and "val_at (VData bs) m a"
  then obtain xo p where xo: "objs m a = Some xo" "xo_xpc_type xo = XPC_TYPE_DATA"
    "xo_u xo = U_ptr (Some p)" "blobs m p = Some bs" "length bs < 2 ^ 64"
    "xo_size xo = word_of_nat (length bs)" by (auto simp: obj_is_def)
  let ?n = "next_addr m"
  let ?m1 = "m\<lparr>next_addr := Suc ?n, blobs := (blobs m)(?n \<mapsto> bs)\<rparr>"
  let ?m2 = "new_object XPC_TYPE_DATA (U_ptr (Some ?n)) (word_of_nat (length bs)) 0 ?m1"
  have len: "unat (word_of_nat (length bs) :: 64 word) = length bs" using xo(5) by (simp add: unat_of_nat)
  have create: "xpc_data_create (Some p) (word_of_nat (length bs)) m = Inr (Some (Suc ?n), ?m2)"
    using xo ok(2) len by (simp add: xpc_data_create_def malloc_def get_bytes_def run_defs
        xpc_prim_create_def prim_create_runs)
  have "xpc_copy (Suc f) (Some a) m = Inr (Some (Suc ?n), ?m2)"
    using xo create by (simp add: get_obj_runs bind_m_def xpc_data_get_bytes_ptr_def
        xpc_data_get_length_def typed_get_def u_runs return_m_def)
  moreover have "mem_ok ?m2"
    using keepsD [OF keeps_data_create create] ok(1) by (simp add: mem_step_def)
  moreover have "val_at (VData bs) ?m2 (Suc ?n)"
    using xo(5) by (simp add: obj_is_def new_object_def Let_def)
  moreover have "agree ?n m ?m2" by (simp add: agree_def new_object_def Let_def)
  moreover have "grown False (TLeaf (Suc ?n)) m ?m2"
    using grown_leaf [OF ok(1), of ?m2 "Suc ?n"] by (simp add: new_object_def Let_def)
  then have "\<exists>t. root t = Suc ?n \<and> grown False t m ?m2" by force
  moreover have "buffers (card {?n}) m ?m2"
    by (rule buffers_made [OF ok(1)]) (auto simp: new_object_def Let_def)
  ultimately show "copy_result (VData bs) m (xpc_copy (Suc f) (Some a) m)"
    by (auto simp: copy_result_def built_def)
qed

section \<open>Copying an array\<close>

text \<open>While the elements are copied the new array stays empty: a set by index does nothing to it.\<close>

definition copying_array :: "bool \<Rightarrow> nat \<Rightarrow> xmem \<Rightarrow> xmem \<Rightarrow> bool" where
  "copying_array lost n m mk \<longleftrightarrow> agree (next_addr m) m mk \<and> buffers n m mk \<and> arr_sized 0 mk (next_addr m) [] \<and>
     grown lost (TArray (next_addr m) []) m mk"

lemma copying_array_start:
  assumes "mem_ok m"
  shows "copying_array False 0 m (new_object XPC_TYPE_ARRAY (U_bits 0) 0 0 m)"
proof -
  have "objs (new_object XPC_TYPE_ARRAY (U_bits 0) 0 0 m) (next_addr m) =
      Some \<lparr>xo_xpc_type = XPC_TYPE_ARRAY, xo_flags = 0, xo_refcnt = 1, xo_size = 0, xo_u = U_array\<rparr>"
    by (simp add: new_object_def Let_def)
  then show ?thesis
    using new_array_rep [OF assms] grown_empty(1) [OF assms]
    by (simp add: copying_array_def arr_sized_def new_object_agree buffers_new_object [OF assms])
qed

lemma copying_array_grows:
  assumes "copying_array l n m mk" and "built l' n' v mk b mk'"
  shows "copying_array True (n + n') m mk'"
proof -
  from assms(1) obtain xo where rep: "arr_rep mk (next_addr m) []"
    and xo: "objs mk (next_addr m) = Some xo" "xo_size xo = 0"
    by (auto simp: copying_array_def arr_sized_def)
  have low: "next_addr m < next_addr mk"
    using xo(1) rep live_below [of mk "next_addr m"] by (simp add: live_def arr_rep_def)
  have ag: "agree (next_addr mk) mk mk'" and ok: "mem_ok mk'" using assms(2) by (simp_all add: built_def)
  have "arr_rep mk' (next_addr m) []" by (rule arr_rep_agree [OF rep ok ag order_refl])
  moreover have "objs mk' (next_addr m) = Some xo" using ag low xo(1) by (simp add: agree_def)
  moreover have "agree (next_addr m) m mk" using assms(1) by (simp add: copying_array_def)
  then have "agree (next_addr m) m mk'"
    by (rule agree_trans) (rule agree_mono [OF ag], use low in simp)
  moreover obtain t where t: "grown l' t mk mk'" using assms(2) by (auto simp: built_def)
  have "grown True (TArray (next_addr m) []) m mk'"
    by (rule grown_lost [where l = l, OF _ t _ ag]) (use assms(1) rep low in \<open>simp_all add: copying_array_def arr_rep_def\<close>)
  moreover have "buffers (n + n') m mk'"
    by (rule buffers_trans [OF _ _ _ ag]) (use assms rep low in \<open>simp_all add: copying_array_def built_def arr_rep_def\<close>)
  ultimately show ?thesis using xo(2) by (simp add: copying_array_def arr_sized_def)
qed

lemma copying_array_set:
  "copying_array l n m mk \<Longrightarrow> i \<noteq> - 1 \<Longrightarrow> xpc_array_set_value (Some (next_addr m)) i p mk = Inr ((), mk)"
  by (auto simp: copying_array_def arr_sized_def xpc_array_set_value_def XPC_ARRAY_APPEND_def
      get_obj_runs bind_m_def return_m_def)

lemma copying_array_usable: "copying_array l n m mk \<Longrightarrow> usable m \<Longrightarrow> usable mk \<and> agree (next_addr m) m mk"
  by (auto simp: copying_array_def arr_sized_def arr_rep_def usable_def agree_def)

lemma copying_array_done:
  assumes "copying_array l n m mk"
  shows "built l n (VArray []) m (next_addr m) mk"
proof -
  have "\<exists>t. root t = next_addr m \<and> grown l t m mk" using assms by (force simp: copying_array_def)
  with assms show ?thesis by (auto simp: copying_array_def arr_sized_def arr_rep_def built_def)
qed

text \<open>One element: its copy is made and lost, or the NULL in it is dereferenced.\<close>

lemma copy_array_elem:
  assumes J: "copying_array l n m mk" and ok: "usable m" and val: "val_at v m x" and elem: "copies_as f v"
    and i: "i \<noteq> - 1"
  shows "if crashes v
    then apply_array_body (array_copy_cb (xpc_copy f) (Some (next_addr m))) x (i, ((), mk)) = Inl NullDeref
    else \<exists>mk'. apply_array_body (array_copy_cb (xpc_copy f) (Some (next_addr m))) x (i, ((), mk)) =
      Inr (True, (i + 1, ((), mk'))) \<and> copying_array (l \<or> \<not> no_copy v) (n + bufs 2 v) m mk'"
proof -
  note ok' = copying_array_usable [OF J ok]
  then have "val_at v mk x" using val_at_agree [OF val] ok by (simp add: usable_def)
  with elem ok' have r: "copy_result v mk (xpc_copy f (Some x) mk)" by (simp add: copies_as_def)
  note run = apply_array_body_def array_copy_cb_def on_mem_def run_defs
  consider "crashes v" "xpc_copy f (Some x) mk = Inl NullDeref"
    | "\<not> crashes v" "xpc_copy f (Some x) mk = Inr (None, mk)" "no_copy v"
    | b mk' where "\<not> crashes v" "xpc_copy f (Some x) mk = Inr (Some b, mk')"
        "built (loses v) (bufs 2 v) (copied v) mk b mk'" "\<not> no_copy v"
    using r by (auto simp: copy_result_def split: if_splits)
  then show ?thesis
  proof cases
    case 1
    then show ?thesis by (simp add: run)
  next
    case 2
    from 2(3) have "bufs 2 v = 0" by (cases v) simp_all
    with 2 show ?thesis using copying_array_set [OF J i, of None] J by (simp add: run)
  next
    case 3
    note J' = copying_array_grows [OF J 3(3)]
    with 3 copying_array_set [OF J' i, of "Some b"] show ?thesis by (simp add: run)
  qed
qed

lemma index_not_append:
  assumes "i < n" and "n < 2 ^ 64 - 1"
  shows "word_of_nat i \<noteq> (- 1 :: 64 word)"
proof
  assume "word_of_nat i = (- 1 :: 64 word)"
  then have "(word_of_nat (Suc i) :: 64 word) = 0" by simp
  then have "2 ^ 64 dvd Suc i" by (simp add: word_of_nat_eq_0_iff del: of_nat_Suc)
  then have "2 ^ 64 \<le> Suc i" by (rule dvd_imp_le) simp
  then show False using assms by simp
qed

text \<open>The traversal: it ends when no element crashes, and faults at the first that does.\<close>

lemma copy_array_loop:
  assumes rep: "arr_rep m a as" and vals: "list_all2 (\<lambda>v b. val_at v m b) vs as"
    and ok: "usable m" and len: "length vs < 2 ^ 64 - 1" "length vs \<le> f"
    and elem: "\<And>v. v \<in> set vs \<Longrightarrow> copies_as f v"
  defines "run \<equiv> xpc_array_apply_fun f (Some a) (array_copy_cb (xpc_copy f) (Some (next_addr m)))
    ((), new_object XPC_TYPE_ARRAY (U_bits 0) 0 0 m)"
  shows "if \<exists>v \<in> set vs. crashes v then run = Inl NullDeref
    else \<exists>mk. run = Inr (True, ((), mk)) \<and> copying_array (loses (VArray vs)) (bufs 2 (VArray vs)) m mk"
proof -
  let ?m = "new_object XPC_TYPE_ARRAY (U_bits 0) 0 0 m"
  let ?body = "apply_array_body (array_copy_cb (xpc_copy f) (Some (next_addr m)))"
  have okm: "mem_ok m" and as: "length as = length vs"
    using ok list_all2_lengthD [OF vals] by (simp_all add: usable_def)
  have start: "copying_array False 0 m ?m" by (rule copying_array_start [OF okm])
  then have "arr_rep ?m a as"
    by (intro arr_rep_agree [OF rep]) (auto simp: copying_array_def arr_sized_def arr_rep_def)
  from arr_rep_fchain [OF this] obtain p where
    p: "TAILQ_FIRST a (arrq ?m) = Inr (p, arrq ?m)" "fchain (nexts (arrq ?m)) p as" by blast
  define J where "J vis s \<longleftrightarrow> fst s = (word_of_nat (length vis) :: 64 word) \<and>
      copying_array (list_ex (\<lambda>v. \<not> no_copy v) (take (length vis) vs))
        (sum_list (map (bufs 2) (take (length vis) vs))) m (snd (snd s))"
    for vis :: "addr list" and s :: "64 word \<times> unit \<times> xmem"
  have J0: "J [] (0, (), ?m)" using start by (simp add: J_def)
  have links: "nexts (arrq (snd (snd s))) y = nexts (arrq ?m) y" if "J vis s" "y \<in> set as" for vis s y
    using that live_below [OF okm arr_rep_live [OF rep that(2)]] start
    by (auto simp: J_def copying_array_def agree_def nexts_def)
  have one: "if crashes (vs ! length vis) then ?body x s = Inl NullDeref
      else \<exists>s'. ?body x s = Inr (True, s') \<and> J (vis @ [x]) s'"
    if split: "as = vis @ x # rest" and J: "J vis s" for vis x rest s
  proof -
    obtain mk where s: "s = (word_of_nat (length vis), ((), mk))"
      and c: "copying_array (list_ex (\<lambda>v. \<not> no_copy v) (take (length vis) vs))
        (sum_list (map (bufs 2) (take (length vis) vs))) m mk"
      using J by (cases s) (auto simp: J_def)
    have i: "length vis < length vs" "as ! length vis = x" using split as by (simp_all add: nth_append)
    have "val_at (vs ! length vis) m x" using list_all2_nthD [OF vals i(1)] i(2) by simp
    from copy_array_elem [OF c ok this elem index_not_append [OF i(1) len(1)]] i(1) s show ?thesis
      by (auto simp: J_def add.commute take_Suc_conv_app_nth split: if_splits)
  qed
  have run: "run = (case TAILQ_FOREACH f (\<lambda>s. arrq (snd (snd s))) ?body p (0, (), ?m) of
      Inl e \<Rightarrow> Inl e | Inr (r, (_, um')) \<Rightarrow> Inr (r, um'))"
    using p(1) by (simp add: run_def xpc_array_apply_fun_def bind_m_def on_mem_def zoom_m_Inr)
  have "if \<exists>i < length as. crashes (vs ! i)
      then TAILQ_FOREACH f (\<lambda>s. arrq (snd (snd s))) ?body p (0, (), ?m) = Inl NullDeref
      else \<exists>s'. TAILQ_FOREACH f (\<lambda>s. arrq (snd (snd s))) ?body p (0, (), ?m) = Inr (True, s') \<and> J as s'"
    by (rule foreach_or_fault [where J = J, OF p(2)]; (rule J0 | erule (1) links | erule (1) one | simp add: as len(2)))
  moreover have "(\<exists>i < length as. crashes (vs ! i)) = (\<exists>v \<in> set vs. crashes v)"
    by (metis as in_set_conv_nth)
  ultimately show ?thesis by (auto simp: run J_def as)
qed

section \<open>Copying a dictionary\<close>

lemma building_dict_usable:
  "building_dict l n done m mk \<Longrightarrow> usable m \<Longrightarrow> usable mk \<and> agree (next_addr m) m mk \<and> next_addr m < next_addr mk"
  using live_below by (auto simp: building_dict_def usable_def agree_def dest: dict_map_ok)

lemma building_dict_null:
  assumes "building_dict l n done m mk" and "strs mk k = Some s" and "s \<notin> fst ` set done"
  shows "xpc_dictionary_set_value (Some (next_addr m)) (Some k) None mk = Inl NullDeref"
proof -
  from assms(1) obtain bs where "dict_map 0 mk (next_addr m) (zip (map fst done) bs)"
    by (auto simp: building_dict_def)
  from dict_add_null [OF this [unfolded dict_map_def] assms(2)] assms(3) show ?thesis
    by (force dest: set_zip_leftD)
qed

text \<open>One pair: its value is copied and put in, unless there is no copy to put in.\<close>

lemma copy_dict_pair:
  assumes J: "building_dict l n done m mk" and ok: "usable m" and val: "val_at v m x" and elem: "copies_as f v"
    and pair: "pairs m p = Some \<lparr>dp_key = Some k, dp_value = Some x\<rparr>" "p < next_addr m"
    and k: "strs m k = Some s" and new: "s \<notin> fst ` set done"
  shows "if no_copy v \<or> crashes v
    then apply_dict_body (dict_copy_cb (xpc_copy f) (Some (next_addr m))) p ((), mk) = Inl NullDeref
    else \<exists>mk'. apply_dict_body (dict_copy_cb (xpc_copy f) (Some (next_addr m))) p ((), mk) =
      Inr (True, ((), mk')) \<and> building_dict (l \<or> loses v) (n + bufs 2 v) (done @ [(s, copied v)]) m mk'"
proof -
  note ok' = building_dict_usable [OF J ok]
  have kn: "k < next_addr m" using k ok by (auto simp: usable_def mem_ok_def not_less [symmetric])
  have "val_at v mk x" using val_at_agree [OF val] ok ok' by (simp add: usable_def)
  with elem ok' have r: "copy_result v mk (xpc_copy f (Some x) mk)" by (simp add: copies_as_def)
  have pair': "pairs mk p = Some \<lparr>dp_key = Some k, dp_value = Some x\<rparr>" and k': "strs mk k = Some s"
    using pair k kn ok' by (simp_all add: agree_def)
  note run = apply_dict_body_def dict_copy_cb_def on_mem_def get_pair_runs [OF pair'] run_defs
  consider "crashes v" "xpc_copy f (Some x) mk = Inl NullDeref"
    | "\<not> crashes v" "no_copy v" "xpc_copy f (Some x) mk = Inr (None, mk)"
    | b mk' where "\<not> crashes v" "\<not> no_copy v" "xpc_copy f (Some x) mk = Inr (Some b, mk')"
        "built (loses v) (bufs 2 v) (copied v) mk b mk'"
    using r by (auto simp: copy_result_def split: if_splits)
  then show ?thesis
  proof cases
    case 1
    then show ?thesis by (simp add: run)
  next
    case 2
    then show ?thesis using building_dict_null [OF J k' new] by (simp add: run)
  next
    case 3
    then have "strs mk' k = Some s" using k' kn ok' by (simp add: built_def agree_def)
    from building_dict_step [OF J 3(4) this new] 3(1-3) show ?thesis by (auto simp: run)
  qed
qed

lemma dict_pair_at:
  assumes "list_all2 (pair_holds m) ps (map (\<lambda>(k, v). (k, Some v)) (zip (map fst kvs) as))"
    and "length as = length kvs" and "i < length kvs"
  obtains k where "pairs m (ps ! i) = Some \<lparr>dp_key = Some k, dp_value = Some (as ! i)\<rparr>"
    and "strs m k = Some (fst (kvs ! i))"
proof -
  have "pair_holds m (ps ! i) (fst (kvs ! i), Some (as ! i))"
    using list_all2_nthD2 [OF assms(1), of i] assms(2,3) by simp
  then show thesis by (auto simp: pair_holds_def intro: that)
qed

lemma key_is_new:
  assumes "distinct (map fst kvs)" and "i < length kvs"
  shows "fst (kvs ! i) \<notin> fst ` set (map (map_prod id f) (take i kvs))"
proof -
  have "fst ` set (map (map_prod id f) (take i kvs)) = set (take i (map fst kvs))"
    by (simp add: image_image take_map)
  moreover have "map fst kvs ! i \<notin> set (take i (map fst kvs))"
    using distinct_take [OF assms(1), of "Suc i"] assms(2) by (simp add: take_snoc del: nth_map)
  ultimately show ?thesis using assms(2) by simp
qed

lemma copy_dict_loop:
  assumes map: "dict_map n m a (zip (map fst kvs) as)" and vals: "list_all2 (\<lambda>kv b. val_at (snd kv) m b) kvs as"
    and ok: "usable m" and len: "length kvs \<le> f"
    and elem: "\<And>kv. kv \<in> set kvs \<Longrightarrow> copies_as f (snd kv)"
  defines "run \<equiv> xpc_dictionary_apply_fun f (Some a) (dict_copy_cb (xpc_copy f) (Some (next_addr m)))
    ((), new_object XPC_TYPE_DICTIONARY (U_bits 0) 0 0 m)"
  shows "if \<exists>kv \<in> set kvs. no_copy (snd kv) \<or> crashes (snd kv) then run = Inl NullDeref
    else \<exists>mk. run = Inr (True, ((), mk)) \<and> building_dict (loses (VDict kvs)) (bufs 2 (VDict kvs)) (map (map_prod id copied) kvs) m mk"
proof -
  let ?m = "new_object XPC_TYPE_DICTIONARY (U_bits 0) 0 0 m"
  let ?body = "apply_dict_body (dict_copy_cb (xpc_copy f) (Some (next_addr m)))"
  let ?copied = "\<lambda>i. map (map_prod id copied) (take i kvs)"
  let ?lost = "\<lambda>i. list_ex loses (map snd (take i kvs))"
  let ?bufs = "\<lambda>i. sum_list (map (bufs 2) (map snd (take i kvs)))"
  let ?bad = "\<lambda>i. no_copy (snd (kvs ! i)) \<or> crashes (snd (kvs ! i))"
  have okm: "mem_ok m" "\<forall>a. malloc_ok m a" and as: "length as = length kvs"
    using ok list_all2_lengthD [OF vals] by (simp_all add: usable_def)
  from map obtain ps where ps: "tq_rep (dictq m) a ps"
    and holds: "list_all2 (pair_holds m) ps (map (\<lambda>(k, v). (k, Some v)) (zip (map fst kvs) as))"
    and dist: "distinct (map fst (map (\<lambda>(k, v). (k, Some v)) (zip (map fst kvs) as)))"
    by (auto simp: dict_map_def dict_rep_def)
  have lps: "length ps = length kvs" using list_all2_lengthD [OF holds] as by simp
  have keys: "distinct (map fst kvs)" using dist as by (simp add: comp_def case_prod_unfold)
  have start: "building_dict False 0 [] m ?m" by (rule building_dict_start [OF okm])
  have "a \<noteq> next_addr m" using dict_map_ok [OF map] live_below [OF okm(1), of a] by auto
  then have "tq_rep (dictq ?m) a ps"
    by (intro tq_rep_cong [OF ps]) (simp_all add: new_object_def Let_def)
  from dict_fchain [OF this] obtain p where
    p: "TAILQ_FIRST a (dictq ?m) = Inr (p, dictq ?m)" "fchain (nexts (dictq ?m)) p ps" by blast
  define J where "J vis s \<longleftrightarrow> building_dict (?lost (length vis)) (?bufs (length vis)) (?copied (length vis)) m (snd s)"
    for vis :: "addr list" and s :: "unit \<times> xmem"
  have J0: "J [] ((), ?m)" using start by (simp add: J_def)
  have links: "nexts (dictq (snd s)) y = nexts (dictq ?m) y" if "J vis s" "y \<in> set ps" for vis s y
    using that dict_pairs_below [OF okm(1) ps that(2)] start
    by (auto simp: J_def building_dict_def agree_def nexts_def)
  have one: "if ?bad (length vis) then ?body x s = Inl NullDeref
      else \<exists>s'. ?body x s = Inr (True, s') \<and> J (vis @ [x]) s'"
    if split: "ps = vis @ x # rest" and J: "J vis s" for vis x rest s
  proof -
    let ?i = "length vis"
    obtain mk where s: "s = ((), mk)" and b: "building_dict (?lost ?i) (?bufs ?i) (?copied ?i) m mk"
      using J by (cases s) (auto simp: J_def)
    have i: "?i < length kvs" "ps ! ?i = x" using split lps[symmetric] by (simp_all add: nth_append)
    have x: "x < next_addr m" using dict_pairs_below [OF okm(1) ps, of x] split by simp
    have val: "val_at (snd (kvs ! ?i)) m (as ! ?i)" using list_all2_nthD [OF vals i(1)] .
    obtain k where k: "pairs m x = Some \<lparr>dp_key = Some k, dp_value = Some (as ! ?i)\<rparr>"
      "strs m k = Some (fst (kvs ! ?i))" by (rule dict_pair_at [OF holds as i(1), unfolded i(2)])
    have "?copied ?i @ [(fst (kvs ! ?i), copied (snd (kvs ! ?i)))] = ?copied (Suc ?i)"
      using i(1) by (simp add: take_snoc map_prod_def case_prod_unfold)
    moreover have "?lost (Suc ?i) = (?lost ?i \<or> loses (snd (kvs ! ?i)))"
      and "?bufs (Suc ?i) = ?bufs ?i + bufs 2 (snd (kvs ! ?i))"
      using i(1) by (simp_all add: take_Suc_conv_app_nth)
    moreover note copy_dict_pair [OF b ok val elem [OF nth_mem [OF i(1)]] k(1) x k(2) key_is_new [OF keys i(1)]]
    ultimately show ?thesis by (auto simp: s J_def split: if_splits)
  qed
  have "if \<exists>i < length ps. ?bad i
      then TAILQ_FOREACH f (\<lambda>s. dictq (snd s)) ?body p ((), ?m) = Inl NullDeref
      else \<exists>s'. TAILQ_FOREACH f (\<lambda>s. dictq (snd s)) ?body p ((), ?m) = Inr (True, s') \<and> J ps s'"
    by (rule foreach_or_fault [where J = J, OF p(2)]; (rule J0 | erule (1) links | erule (1) one | simp add: lps len))
  moreover have "(\<exists>i < length ps. ?bad i) = (\<exists>kv \<in> set kvs. no_copy (snd kv) \<or> crashes (snd kv))"
    by (metis lps in_set_conv_nth)
  moreover have "run = TAILQ_FOREACH f (\<lambda>s. dictq (snd s)) ?body p ((), ?m)"
    using p(1) by (simp add: run_def xpc_dictionary_apply_fun_def bind_m_def on_mem_def zoom_m_Inr)
  moreover have "loses (VDict kvs) = ?lost (length kvs)" by (simp add: list_ex_iff image_image)
  moreover have "bufs 2 (VDict kvs) = ?bufs (length kvs)" by (simp add: comp_def)
  ultimately show ?thesis using lps by (auto simp: J_def simp del: loses.simps bufs.simps)
qed

section \<open>Copying a value\<close>

lemma copy_array:
  assumes len: "length vs < 2 ^ 64 - 1" "length vs \<le> f" and elem: "\<And>v. v \<in> set vs \<Longrightarrow> copies_as f v"
  shows "copies_as (Suc f) (VArray vs)"
  unfolding copies_as_def
proof (intro allI impI)
  fix m a assume ok: "usable m" and val: "val_at (VArray vs) m a"
  from val obtain as xo where rep: "arr_rep m a as" "list_all2 (\<lambda>v b. val_at v m b) vs as"
    and xo: "objs m a = Some xo" "xo_xpc_type xo = XPC_TYPE_ARRAY" by (rule val_at_array)
  have "crashes (VArray vs) = (\<exists>v \<in> set vs. crashes v)" by (simp add: list_ex_iff)
  moreover note copy_array_loop [OF rep ok len elem]
  ultimately show "copy_result (VArray vs) m (xpc_copy (Suc f) (Some a) m)"
    using xo ok by (auto simp: copy_result_def usable_def get_obj_runs xpc_array_create_def
        xpc_prim_create_def prim_create_runs with_local_def run_defs
        split: if_splits dest: copying_array_done simp del: val_with.simps crashes.simps loses.simps bufs.simps)
qed

lemma copy_dict:
  assumes len: "length kvs \<le> f" and elem: "\<And>kv. kv \<in> set kvs \<Longrightarrow> copies_as f (snd kv)"
  shows "copies_as (Suc f) (VDict kvs)"
  unfolding copies_as_def
proof (intro allI impI)
  fix m a assume ok: "usable m" and val: "val_at (VDict kvs) m a"
  from val obtain n as xo where rep: "dict_map n m a (zip (map fst kvs) as)"
    "list_all2 (\<lambda>kv b. val_at (snd kv) m b) kvs as"
    and xo: "objs m a = Some xo" "xo_xpc_type xo = XPC_TYPE_DICTIONARY" by (rule val_at_dict)
  have "crashes (VDict kvs) = (\<exists>kv \<in> set kvs. no_copy (snd kv) \<or> crashes (snd kv))"
    by (auto simp: list_ex_iff)
  moreover note copy_dict_loop [OF rep ok len elem]
  ultimately show "copy_result (VDict kvs) m (xpc_copy (Suc f) (Some a) m)"
    using xo ok by (auto simp: copy_result_def usable_def get_obj_runs xpc_dictionary_create_def
        xpc_prim_create_def prim_create_runs with_local_def run_defs split: if_splits
        dest: building_dict_done simp del: val_with.simps crashes.simps bufs.simps)
qed

lemma xpc_copy_spec: "need v \<le> fuel \<Longrightarrow> short_arrays v \<Longrightarrow> copies_as fuel v"
proof (induction v arbitrary: fuel)
  case (VScalar t w)
  then show ?case by (cases fuel) (auto intro: copy_scalar)
next
  case (VString s)
  then show ?case by (cases fuel) (auto intro: copy_string)
next
  case (VData bs)
  then show ?case by (cases fuel) (auto intro: copy_data)
next
  case (VArray vs)
  from VArray.prems(1) obtain f where f: "fuel = Suc f" "length vs \<le> f" by (cases fuel) auto
  have "copies_as f v" if "v \<in> set vs" for v
    using VArray.IH [OF that] VArray.prems f(1) need_array [OF that] that by (auto simp: list_all_iff)
  with VArray.prems(2) f show ?case by (auto intro: copy_array)
next
  case (VDict kvs)
  from VDict.prems(1) obtain f where f: "fuel = Suc f" "length kvs \<le> f" by (cases fuel) auto
  have "copies_as f (snd kv)" if "kv \<in> set kvs" for kv
  proof -
    have "short_arrays (snd kv)" using VDict.prems(2) that by (auto simp: list_all_iff)
    moreover have "need (snd kv) \<le> f"
      using need_dict [of "fst kv" "snd kv" kvs f] that VDict.prems(1) f(1) by simp
    ultimately show ?thesis using VDict.IH [OF that, of "snd kv"] by (simp add: snds.simps)
  qed
  with f show ?case by (auto intro: copy_dict)
qed

section \<open>Properties\<close>

text \<open>C7: \<open>xpc_copy\<close> of a value terminates, in one of three ways.  A null, a double and a descriptor
  are not copied: the result is NULL.  A value with one of these directly in a dictionary anywhere
  in it makes \<open>xpc_copy\<close> dereference NULL.  Every other value is copied: the result is a new object
  that represents the same value, except that every array in it comes out empty; the copy is made
  of objects that were not there before, all the way down, and every object, string and block that
  was there stays as it is, so that every value of before is still represented.\<close>

theorem xpc_copy_copies:
  assumes "val_at v m a" and "short_arrays v" and "need v \<le> fuel" and "mem_ok m" and "\<forall>a. malloc_ok m a"
  shows "if crashes v then xpc_copy fuel (Some a) m = Inl NullDeref
    else if no_copy v then xpc_copy fuel (Some a) m = Inr (None, m)
    else \<exists>b m'. xpc_copy fuel (Some a) m = Inr (Some b, m') \<and>
      next_addr m \<le> b \<and> val_with (copied v) (\<lambda>x. next_addr m \<le> x) m' b \<and> val_at (copied v) m' b \<and>
      (\<forall>x < next_addr m. objs m' x = objs m x \<and> strs m' x = strs m x \<and> blobs m' x = blobs m x) \<and>
      (\<forall>w x. val_at w m x \<longrightarrow> val_at w m' x)"
proof -
  have r: "copy_result v m (xpc_copy fuel (Some a) m)"
    using xpc_copy_spec [OF assms(3,2)] assms(1,4,5) by (simp add: copies_as_def usable_def)
  show ?thesis
  proof (cases "crashes v \<or> no_copy v")
    case True
    with r show ?thesis by (auto simp: copy_result_def split: if_splits)
  next
    case False
    with r obtain b m' where run: "xpc_copy fuel (Some a) m = Inr (Some b, m')"
      and b: "built (loses v) (bufs 2 v) (copied v) m b m'"
      by (auto simp: copy_result_def)
    note new = builtD(1,4,5) [OF b]
    have "val_with (copied v) (\<lambda>x. next_addr m \<le> x) m' b"
      by (rule val_with_mono [where P = "\<lambda>x. b < x"]) (use b new(1) in \<open>auto simp: built_def\<close>)
    moreover have "val_at w m' x" if "val_at w m x" for w x
      by (rule val_at_agree [OF that assms(4) new(3,2)])
    ultimately show ?thesis using False run builtD(3) [OF b] new by (auto simp: agree_def)
  qed
qed

text \<open>A dictionary with one pair, at 7, in a memory with the number 7 at 5.\<close>

lemma demo_dict_val:
  "\<exists>m. xpc_dictionary_set_value (Some 7) (Some 2) (Some 5)
       (new_object XPC_TYPE_DICTIONARY (U_bits 0) 0 0 demo_mem2) = Inr ((), m) \<and>
     val_at (VDict [([97], VScalar XPC_TYPE_INT64 7)]) m 7 \<and> (\<forall>a. malloc_ok m a) \<and>
     strs m 2 = Some [97] \<and> strs m 3 = Some [98] \<and>
     (\<exists>xo. objs m 7 = Some xo \<and> xo_refcnt xo = 1) \<and> (\<exists>vo. objs m 5 = Some vo \<and> xo_refcnt vo = 2 \<and>
       xo_xpc_type vo = XPC_TYPE_INT64) \<and> dict_map 0 m 7 [([97], 5)]"
proof -
  let ?m = "new_object XPC_TYPE_DICTIONARY (U_bits 0) 0 0 demo_mem2"
  have rep: "dict_map 0 ?m 7 []" using new_dict_map [OF demo_mem2_ok, of 0 "U_bits 0" 0] by simp
  have k: "strs ?m 2 = Some [97]" by (simp add: new_object_def Let_def demo_keys_def)
  have u: "live ?m 5" by (simp add: new_object_live)
  have five: "\<exists>uo. objs ?m 5 = Some uo \<and> xo_xpc_type uo = XPC_TYPE_INT64 \<and> xo_u uo = U_bits 7 \<and> xo_refcnt uo = 1"
    by (simp add: new_object_def Let_def demo_mem2_def init_mem_def)
  from dict_map_set [OF rep k u] obtain m where
    m: "xpc_dictionary_set_value (Some 7) (Some 2) (Some 5) ?m = Inr ((), m)" "dict_map 0 m 7 [([97], 5)]"
    and strs: "strs m = strs ?m"
    and objs: "\<forall>a uo. objs ?m a = Some uo \<longrightarrow> (\<exists>uo'. objs m a = Some uo' \<and>
       xo_refcnt uo' = xo_refcnt uo + (if a = 5 \<and> [97] \<notin> fst ` set [] then 1 else 0) \<and>
       xo_xpc_type uo' = xo_xpc_type uo \<and> xo_u uo' = xo_u uo)" by auto
  from objs five have "val_at (VScalar XPC_TYPE_INT64 7) m 5" by (fastforce simp: obj_is_def scalar_type_def)
  with m dict_map_obj [OF m(2)] have "val_at (VDict [([97], VScalar XPC_TYPE_INT64 7)]) m 7"
    by (auto intro!: exI [of _ 0] exI [of _ "[5]"])
  moreover have "\<forall>a. malloc_ok m a" using m(2) by (simp add: dict_map_def dict_rep_def)
  moreover have "strs m 2 = Some [97] \<and> strs m 3 = Some [98]"
    by (simp add: strs new_object_def Let_def demo_keys_def)
  moreover have "\<exists>xo. objs ?m 7 = Some xo \<and> xo_refcnt xo = 1"
    by (simp add: new_object_def Let_def)
  then have "(\<exists>xo. objs m 7 = Some xo \<and> xo_refcnt xo = 1) \<and> (\<exists>vo. objs m 5 = Some vo \<and>
      xo_refcnt vo = 2 \<and> xo_xpc_type vo = XPC_TYPE_INT64)"
    using objs five by fastforce
  ultimately show ?thesis using m by blast
qed

theorem xpc_copy_copies_witness:
  "\<exists>m b m'. xpc_dictionary_set_value (Some 7) (Some 2) (Some 5)
       (new_object XPC_TYPE_DICTIONARY (U_bits 0) 0 0 demo_mem2) = Inr ((), m) \<and>
     xpc_copy 5 (Some 7) m = Inr (Some b, m') \<and>
     next_addr m \<le> b \<and> val_at (VDict [([97], VScalar XPC_TYPE_INT64 7)]) m' b"
proof -
  from demo_dict_val obtain m where m: "xpc_dictionary_set_value (Some 7) (Some 2) (Some 5)
       (new_object XPC_TYPE_DICTIONARY (U_bits 0) 0 0 demo_mem2) = Inr ((), m)"
    and v: "val_at (VDict [([97], VScalar XPC_TYPE_INT64 7)]) m 7" and mal: "\<forall>a. malloc_ok m a" by blast
  have ok: "mem_ok m" using v dict_map_ok by auto
  from xpc_copy_copies [OF v _ _ ok mal, of 5] m show ?thesis
    by (auto simp del: val_with.simps val_at.simps xpc_copy.simps)
qed

primrec array_free :: "xval \<Rightarrow> bool" where
  "array_free (VScalar t w) = True"
| "array_free (VString s) = True"
| "array_free (VData bs) = True"
| "array_free (VArray vs) = False"
| "array_free (VDict kvs) = list_all snd (map (map_prod id array_free) kvs)"

lemma copied_array_free: "array_free v \<Longrightarrow> copied v = v"
proof (induction v)
  case (VDict kvs)
  have "map_prod id copied kv = kv" if "kv \<in> set kvs" for kv
    using VDict.IH [OF that, of "snd kv"] VDict.prems that by (cases kv) (auto simp: list_all_iff snds.simps)
  then show ?case by (simp add: map_idI)
qed simp_all

text \<open>The copy of a value without arrays hashes to the same number as the value.\<close>

theorem xpc_copy_same_hash:
  assumes "val_at v m a" and "short_arrays v" and "\<not> crashes v" and "\<not> no_copy v" and "array_free v" and "keys_ok v" and "need v \<le> fuel"
    and "mem_ok m" and "\<forall>a. malloc_ok m a"
  shows "\<exists>b m' h. xpc_copy fuel (Some a) m = Inr (Some b, m') \<and> b \<noteq> a \<and>
    xpc_hash fuel (Some a) m' = Inr (h, m') \<and> xpc_hash fuel (Some b) m' = Inr (h, m')"
proof -
  have "copy_result v m (xpc_copy fuel (Some a) m)"
    using xpc_copy_spec [OF assms(7,2)] assms(1,8,9) by (simp add: copies_as_def usable_def)
  then obtain b m' where run: "xpc_copy fuel (Some a) m = Inr (Some b, m')"
    and b: "built (loses v) (bufs 2 v) v m b m'" using assms(3,4) by (auto simp: copied_array_free [OF assms(5)] copy_result_def)
  have "val_at v m' a" by (rule val_at_agree [OF assms(1,8) builtD(5,4) [OF b]])
  moreover have "a < next_addr m"
    using val_with_live [of v "\<lambda>_. True" m a] assms(1) live_below [OF assms(8)] by (simp add: val_with_True)
  moreover note builtD(1,3) [OF b]
  ultimately show ?thesis using run xpc_hash_spec [OF _ assms(6,7)] by force
qed

theorem xpc_copy_same_hash_witness:
  "\<exists>m b m' h. xpc_dictionary_set_value (Some 7) (Some 2) (Some 5)
       (new_object XPC_TYPE_DICTIONARY (U_bits 0) 0 0 demo_mem2) = Inr ((), m) \<and>
     xpc_copy 5 (Some 7) m = Inr (Some b, m') \<and> b \<noteq> 7 \<and>
     xpc_hash 5 (Some 7) m' = Inr (h, m') \<and> xpc_hash 5 (Some b) m' = Inr (h, m')"
proof -
  from demo_dict_val obtain m where m: "xpc_dictionary_set_value (Some 7) (Some 2) (Some 5)
       (new_object XPC_TYPE_DICTIONARY (U_bits 0) 0 0 demo_mem2) = Inr ((), m)"
    and v: "val_at (VDict [([97], VScalar XPC_TYPE_INT64 7)]) m 7" and mal: "\<forall>a. malloc_ok m a" by blast
  have ok: "mem_ok m" using v dict_map_ok by auto
  from xpc_copy_same_hash [OF v _ _ _ _ _ _ ok mal, of 5] m show ?thesis
    by (auto simp del: val_with.simps val_at.simps xpc_copy.simps xpc_hash.simps)
qed

end
