(* ===== verification/XpcDestroy.thy ===== *)
theory XpcDestroy
  imports XpcCopy
begin

text \<open>
  Destruction of whole values.  \<open>xpc_release\<close> of the last reference runs \<open>xpc_object_destroy\<close>,
  which calls itself on the elements of an array and the values of a dictionary.  An \<open>obj_tree\<close>
  names the objects and pairs that it reaches; when no object is reached twice, exactly these are
  freed.
\<close>

section \<open>Memory with objects and pairs taken out\<close>

definition wiped :: "addr set \<Rightarrow> addr set \<Rightarrow> xmem \<Rightarrow> xmem" where
  "wiped A P m = m\<lparr>objs := objs m |` (- A), pairs := pairs m |` (- P),
     arrq := (arrq m)\<lparr>heads := heads (arrq m) |` (- A), ents := ents (arrq m) |` (- A)\<rparr>,
     dictq := (dictq m)\<lparr>heads := heads (dictq m) |` (- A), ents := ents (dictq m) |` (- P)\<rparr>\<rparr>"

lemma restrict_all [simp]: "f |` UNIV = f"
  by (simp add: restrict_map_def)

lemma restrict_one: "f |` (- {a}) = f(a := None)"
  by (auto simp: restrict_map_def)

lemma wiped_wiped [simp]: "wiped A P (wiped B Q m) = wiped (A \<union> B) (P \<union> Q) m"
  by (simp add: wiped_def Int_commute)

lemma wiped_sel [simp]:
  "objs (wiped A P m) a = (if a \<in> A then None else objs m a)"
  "pairs (wiped A P m) p = (if p \<in> P then None else pairs m p)"
  "strs (wiped A P m) = strs m" "blobs (wiped A P m) = blobs m"
  by (simp_all add: wiped_def restrict_map_def)

lemma free_object_wipes:
  assumes "objs m a \<noteq> None" and "a \<noteq> xpc_bool_true" and "a \<noteq> xpc_bool_false"
  shows "free_object a m = Inr ((), wiped {a} {} m)"
  using assms by (simp add: free_object_def wiped_def restrict_one)

lemma free_pair_wipes: "pairs m p \<noteq> None \<Longrightarrow> free_pair p m = Inr ((), wiped {} {p} m)"
  by (simp add: free_pair_def wiped_def restrict_one)

text \<open>Two memories that differ in the links of what is taken out anyway are then equal.\<close>

lemma restrict_agree: "\<forall>a. a \<notin> Y \<longrightarrow> f a = g a \<Longrightarrow> Y \<subseteq> X \<Longrightarrow> f |` (- X) = g |` (- X)"
  by (auto simp: restrict_map_def fun_eq_iff)

lemma tq_same_wiped:
  assumes "tq_same q q' H E" and "H \<subseteq> A" and "E \<subseteq> B"
  shows "heads q' |` (- A) = heads q |` (- A)" "ents q' |` (- B) = ents q |` (- B)"
  using assms by (auto simp: tq_same_def intro: restrict_agree)

lemma wiped_relinked:
  "tq_same (arrq m) q H E \<Longrightarrow> H \<subseteq> A \<Longrightarrow> E \<subseteq> A \<Longrightarrow> wiped A P (m\<lparr>arrq := q\<rparr>) = wiped A P m"
  "tq_same (dictq m) q H E \<Longrightarrow> H \<subseteq> A \<Longrightarrow> E \<subseteq> P \<Longrightarrow> wiped A P (m\<lparr>dictq := q\<rparr>) = wiped A P m"
  by (simp_all add: wiped_def tq_same_wiped)

lemma same_at_relinked:
  "tq_same (arrq m) q {a} E \<Longrightarrow> a \<notin> set (tree_objs t) \<Longrightarrow> set (inner_objs t) \<inter> E = {} \<Longrightarrow>
     same_at t m (m\<lparr>arrq := q\<rparr>)"
  "tq_same (dictq m) q {a} E \<Longrightarrow> a \<notin> set (tree_objs t) \<Longrightarrow> set (tree_pairs t) \<inter> E = {} \<Longrightarrow>
     same_at t m (m\<lparr>dictq := q\<rparr>)"
  by (simp_all add: same_at_def tq_same_def disjoint_iff) metis+

lemma same_at_wiped:
  assumes "set (tree_objs t) \<inter> A = {}" and "set (tree_pairs t) \<inter> P = {}"
  shows "same_at t m (wiped A P m)"
proof -
  have "a \<notin> A" if "a \<in> set (tree_objs t)" for a using assms(1) that by blast
  moreover have "set (inner_objs t) \<subseteq> set (tree_objs t)" by (auto simp: tree_objs_def)
  moreover have "p \<notin> P" if "p \<in> set (tree_pairs t)" for p using assms(2) that by blast
  ultimately show ?thesis by (auto simp: same_at_def wiped_def)
qed

section \<open>The recursive destruction\<close>

text \<open>
  What \<open>destroy\<close> has to do with a tree: free it.  The loops of \<open>xpc_array_destroy\<close> and
  \<open>xpc_dictionary_destroy\<close> are correct for every \<open>destroy\<close> that frees their elements.
\<close>

definition frees :: "(ptr \<Rightarrow> (xmem, unit) op) \<Rightarrow> obj_tree \<Rightarrow> bool" where
  "frees destroy t \<longleftrightarrow> (\<forall>m. tree_in t m \<longrightarrow>
     destroy (Some (root t)) m = Inr ((), wiped (set (tree_objs t)) (set (tree_pairs t)) m))"

text \<open>One round of the loop: the element is unlinked and destroyed, the others are as they were.\<close>

lemma array_round:
  assumes "frees destroy t" and "tq_rep (arrq m) a (root t # map root ts)"
    and "\<forall>u \<in> set (t # ts). tree_in u m" and "distinct (a # concat (map tree_objs (t # ts)))"
    and "distinct (concat (map tree_pairs (t # ts)))"
  defines "O1 \<equiv> set (tree_objs t)" and "P1 \<equiv> set (tree_pairs t)"
  obtains q where "TAILQ_REMOVE a (root t) (arrq m) = Inr ((), q)"
    and "tq_same (arrq m) q {a} (root ` set ts)"
    and "destroy (Some (root t)) (m\<lparr>arrq := q\<rparr>) = Inr ((), wiped O1 P1 (m\<lparr>arrq := q\<rparr>))"
    and "tq_rep (arrq (wiped O1 P1 (m\<lparr>arrq := q\<rparr>))) a (map root ts)"
    and "\<forall>u \<in> set ts. tree_in u (wiped O1 P1 (m\<lparr>arrq := q\<rparr>))"
proof -
  from remove_rep [of "arrq m" a "[]" "root t" "map root ts"] assms(2) obtain q where
    q: "TAILQ_REMOVE a (root t) (arrq m) = Inr ((), q)" "tq_rep q a (map root ts)"
    "tq_same (arrq m) q {a} (root ` set ts)" by auto
  let ?m1 = "m\<lparr>arrq := q\<rparr>" let ?m2 = "wiped O1 P1 ?m1"
  have d: "distinct (concat (map tree_objs (t # ts)))" "a \<notin> O1" "a \<notin> set (concat (map tree_objs ts))"
    "O1 \<inter> set (concat (map tree_objs ts)) = {}" "P1 \<inter> set (concat (map tree_pairs ts)) = {}"
    using assms(4,5) by (auto simp: O1_def P1_def)
  have same1: "same_at u m ?m1" if "u \<in> set (t # ts)" for u
  proof (rule same_at_relinked(1) [OF q(3)])
    show "a \<notin> set (tree_objs u)" using that d(2,3) by (auto simp: O1_def)
    show "set (inner_objs u) \<inter> root ` set ts = {}"
      using tail_not_head [of root inner_objs "t # ts" u] d(1) that
      by (auto simp: tree_objs_def [abs_def])
  qed
  have tree1: "tree_in u ?m1" if "u \<in> set (t # ts)" for u
    using tree_frame [OF _ same1 [OF that]] assms(3) that by blast
  have des: "destroy (Some (root t)) ?m1 = Inr ((), ?m2)"
    using assms(1) tree1 by (simp add: frees_def O1_def P1_def)
  have same2: "same_at u ?m1 ?m2" if "u \<in> set ts" for u
    by (rule same_at_wiped) (use that d(4,5) in auto)
  have tree2: "\<forall>u \<in> set ts. tree_in u ?m2" using tree_frame [OF tree1 same2] by simp
  have "tq_rep (arrq ?m2) a (map root ts)"
  proof (rule tq_rep_cong [OF q(2)])
    show "heads (arrq ?m2) a = heads q a" using d(2) by (simp add: wiped_def)
    fix b assume "b \<in> set (map root ts)"
    then obtain u where u: "u \<in> set ts" "b = root u" by auto
    then have "b \<in> set (tree_objs u)" by simp
    then have "b \<notin> O1" using d(4) u(1) by auto
    then show "ents (arrq ?m2) b = ents q b" by (simp add: wiped_def)
  qed
  with that q(1,3) des tree2 show thesis by blast
qed

lemma array_loop_frees:
  assumes "\<forall>t \<in> set ts. frees destroy t" and "tq_rep (arrq m) a (map root ts)"
    and "\<forall>t \<in> set ts. tree_in t m" and "distinct (a # concat (map tree_objs ts))"
    and "distinct (concat (map tree_pairs ts))" and "length ts \<le> fuel"
    and "TAILQ_FIRST a (arrq m) = Inr (f, arrq m)"
  shows "\<exists>m'. TAILQ_FOREACH_SAFE fuel arrq (\<lambda>p. seq_m (arr_op (TAILQ_REMOVE a p))
       (seq_m (destroy (Some p)) (return_m True))) f m = Inr (True, m') \<and> objs m' a = objs m a \<and>
     wiped {a} {} m' = wiped (insert a (set (concat (map tree_objs ts)))) (set (concat (map tree_pairs ts))) m"
  using assms
proof (induction ts arbitrary: m f fuel)
  case Nil
  then have "f = None" using first_rep [of "arrq m" a "[]"] by simp
  then show ?case by (simp add: return_m_def)
next
  case (Cons t ts)
  let ?O = "set (tree_objs t)" and ?P = "set (tree_pairs t)"
  from Cons.prems(6) obtain k where k: "fuel = Suc k" "length ts \<le> k" by (cases fuel) auto
  have tq: "tq_rep (arrq m) a (root t # map root ts)" using Cons.prems(2) by simp
  have f: "f = Some (root t)" using first_rep [OF tq] Cons.prems(7) by simp
  obtain nx where nx: "TAILQ_NEXT (root t) (arrq m) = Inr (nx, arrq m)"
    "nx = (case map root ts of [] \<Rightarrow> None | b # _ \<Rightarrow> Some b)"
    using next_rep [of "arrq m" a "[]" "root t" "map root ts"] tq by auto
  obtain q where
    q: "TAILQ_REMOVE a (root t) (arrq m) = Inr ((), q)" "tq_same (arrq m) q {a} (root ` set ts)"
    and des: "destroy (Some (root t)) (m\<lparr>arrq := q\<rparr>) = Inr ((), wiped ?O ?P (m\<lparr>arrq := q\<rparr>))"
    and rest: "tq_rep (arrq (wiped ?O ?P (m\<lparr>arrq := q\<rparr>))) a (map root ts)"
      "\<forall>u \<in> set ts. tree_in u (wiped ?O ?P (m\<lparr>arrq := q\<rparr>))"
    using array_round [OF _ tq Cons.prems(3,4,5)] Cons.prems(1) by auto
  let ?m1 = "m\<lparr>arrq := q\<rparr>" let ?m2 = "wiped ?O ?P ?m1"
  have rm: "arr_op (TAILQ_REMOVE a (root t)) m = Inr ((), ?m1)" using q(1) by (simp add: zoom_m_Inr)
  have d: "a \<notin> ?O" using Cons.prems(4) by auto
  from Cons.IH [OF _ rest _ _ k(2)] first_rep [OF rest(1)] nx(2) Cons.prems(1,4,5) obtain m' where
    m': "TAILQ_FOREACH_SAFE k arrq (\<lambda>p. seq_m (arr_op (TAILQ_REMOVE a p))
       (seq_m (destroy (Some p)) (return_m True))) nx ?m2 = Inr (True, m')" "objs m' a = objs ?m2 a"
    "wiped {a} {} m' = wiped (insert a (set (concat (map tree_objs ts)))) (set (concat (map tree_pairs ts))) ?m2"
    by auto
  have "zoom_m arrq (\<lambda>_ s. s) (TAILQ_NEXT (root t)) m = Inr (nx, m)"
    using nx(1) by (simp add: zoom_m_Inr)
  then have "TAILQ_FOREACH_SAFE fuel arrq (\<lambda>p. seq_m (arr_op (TAILQ_REMOVE a p))
       (seq_m (destroy (Some p)) (return_m True))) f m = Inr (True, m')"
    using m'(1) f k(1) rm des by (simp add: bind_m_Inr seq_m_Inr return_m_def)
  moreover have "root ` set ts \<subseteq> insert a (set (concat (map tree_objs (t # ts))))" by auto
  then have "wiped {a} {} m' =
      wiped (insert a (set (concat (map tree_objs (t # ts))))) (set (concat (map tree_pairs (t # ts)))) m"
    using m'(3) wiped_relinked(1) [OF q(2), of "insert a (set (concat (map tree_objs (t # ts))))"]
    by (simp add: Un_commute Un_left_commute)
  ultimately show ?case using m'(2) d by auto
qed

lemma dict_round:
  assumes "frees destroy t" and "tq_rep (dictq m) d (p # map fst pts)"
    and "\<forall>(p, t) \<in> set ((p, t) # pts). (\<exists>k. pairs m p = Some \<lparr>dp_key = k, dp_value = Some (root t)\<rparr>) \<and> tree_in t m"
    and "distinct (d # concat (map (\<lambda>(p, t). tree_objs t) ((p, t) # pts)))"
    and "distinct (concat (map (\<lambda>(p, t). p # tree_pairs t) ((p, t) # pts)))"
  defines "O1 \<equiv> set (tree_objs t)" and "P1 \<equiv> set (tree_pairs t)"
    and "Os \<equiv> set (concat (map (\<lambda>(p, t). tree_objs t) pts))"
    and "Ps \<equiv> set (concat (map (\<lambda>(p, t). p # tree_pairs t) pts))"
  obtains q key where "TAILQ_REMOVE d p (dictq m) = Inr ((), q)"
    and "tq_same (dictq m) q {d} (fst ` set pts)"
    and "pairs m p = Some \<lparr>dp_key = key, dp_value = Some (root t)\<rparr>"
    and "destroy (Some (root t)) (m\<lparr>dictq := q\<rparr>) = Inr ((), wiped O1 P1 (m\<lparr>dictq := q\<rparr>))"
    and "free_pair p (wiped O1 P1 (m\<lparr>dictq := q\<rparr>)) = Inr ((), wiped {} {p} (wiped O1 P1 (m\<lparr>dictq := q\<rparr>)))"
    and "tq_rep (dictq (wiped {} {p} (wiped O1 P1 (m\<lparr>dictq := q\<rparr>)))) d (map fst pts)"
    and "\<forall>(p', u) \<in> set pts. (\<exists>k. pairs (wiped {} {p} (wiped O1 P1 (m\<lparr>dictq := q\<rparr>))) p' =
        Some \<lparr>dp_key = k, dp_value = Some (root u)\<rparr>) \<and> tree_in u (wiped {} {p} (wiped O1 P1 (m\<lparr>dictq := q\<rparr>)))"
proof -
  from remove_rep [of "dictq m" d "[]" p "map fst pts"] assms(2) obtain q where
    q: "TAILQ_REMOVE d p (dictq m) = Inr ((), q)" "tq_rep q d (map fst pts)"
    "tq_same (dictq m) q {d} (fst ` set pts)" by auto
  let ?m1 = "m\<lparr>dictq := q\<rparr>" let ?m2 = "wiped O1 P1 ?m1" let ?m3 = "wiped {} {p} ?m2"
  have dist: "distinct (concat (map (\<lambda>(p, t). p # tree_pairs t) ((p, t) # pts)))" "d \<notin> O1" "d \<notin> Os"
    "O1 \<inter> Os = {}" "insert p P1 \<inter> Ps = {}" "p \<notin> P1"
    using assms(4,5) by (auto simp: case_prod_unfold O1_def P1_def Os_def Ps_def)
  have same1: "same_at u m ?m1" if "(p', u) \<in> set ((p, t) # pts)" for p' u
  proof -
    have "fst ` set pts \<inter> set (tree_pairs u) = {}"
      using tail_not_head [of fst "\<lambda>x. tree_pairs (snd x)" "(p, t) # pts" "(p', u)"] dist(1) that
      by (auto simp: case_prod_unfold)
    moreover have "d \<notin> set (tree_objs u)" using that dist(2,3) by (fastforce simp: O1_def Os_def)
    ultimately show ?thesis using same_at_relinked(2) [OF q(3)] by (simp add: Int_commute)
  qed
  have tree1: "tree_in u ?m1" if "(p', u) \<in> set ((p, t) # pts)" for p' u
    using tree_frame [OF _ same1 [OF that]] assms(3) that by blast
  have pair: "\<exists>k. pairs ?m1 p' = Some \<lparr>dp_key = k, dp_value = Some (root u)\<rparr>"
    if "(p', u) \<in> set ((p, t) # pts)" for p' u
    using assms(3) that by fastforce
  obtain key where key: "pairs ?m1 p = Some \<lparr>dp_key = key, dp_value = Some (root t)\<rparr>"
    using pair [of p t] by auto
  have des: "destroy (Some (root t)) ?m1 = Inr ((), ?m2)"
    using assms(1) tree1 [of p t] by (simp add: frees_def O1_def P1_def)
  have fr: "free_pair p ?m2 = Inr ((), ?m3)"
    using key dist(6) by (intro free_pair_wipes) simp
  have low: "set (tree_objs u) \<subseteq> Os" "insert p' (set (tree_pairs u)) \<subseteq> Ps" if "(p', u) \<in> set pts" for p' u
    using that by (force simp: Os_def Ps_def)+
  have same2: "same_at u ?m1 ?m3" if "(p', u) \<in> set pts" for p' u
    unfolding wiped_wiped by (rule same_at_wiped) (use low [OF that] dist(4,5) in blast)+
  have tree2: "\<forall>(p', u) \<in> set pts. (\<exists>k. pairs ?m3 p' = Some \<lparr>dp_key = k, dp_value = Some (root u)\<rparr>) \<and> tree_in u ?m3"
  proof (clarify, intro conjI)
    fix p' u assume e: "(p', u) \<in> set pts"
    have "p' \<notin> insert p P1" using low(2) [OF e] dist(5) by blast
    then show "\<exists>k. pairs ?m3 p' = Some \<lparr>dp_key = k, dp_value = Some (root u)\<rparr>" using pair [of p' u] e by simp
    show "tree_in u ?m3" using tree_frame [OF tree1 [of p' u] same2 [OF e]] e by simp
  qed
  have "tq_rep (dictq ?m3) d (map fst pts)"
  proof (rule tq_rep_cong [OF q(2)])
    show "heads (dictq ?m3) d = heads q d" using dist(2) by (simp add: wiped_def)
    fix b assume "b \<in> set (map fst pts)"
    then have "b \<in> Ps" by (force simp: Ps_def)
    then have "b \<notin> insert p P1" using dist(5) by blast
    then show "ents (dictq ?m3) b = ents q b" by (simp add: wiped_def)
  qed
  from that [OF q(1,3) _ des fr this tree2] key show thesis by simp
qed

lemma dict_loop_frees:
  assumes "\<forall>(p, t) \<in> set pts. frees destroy t" and "tq_rep (dictq m) d (map fst pts)"
    and "\<forall>(p, t) \<in> set pts. (\<exists>k. pairs m p = Some \<lparr>dp_key = k, dp_value = Some (root t)\<rparr>) \<and> tree_in t m"
    and "distinct (d # concat (map (\<lambda>(p, t). tree_objs t) pts))"
    and "distinct (concat (map (\<lambda>(p, t). p # tree_pairs t) pts))" and "length pts \<le> fuel"
    and "TAILQ_FIRST d (dictq m) = Inr (f, dictq m)"
  shows "\<exists>m'. TAILQ_FOREACH_SAFE fuel dictq (\<lambda>p. seq_m (dict_op (TAILQ_REMOVE d p))
       (bind_m (get_pair p) (\<lambda>dp. seq_m (destroy (dp_value dp))
       (seq_m (free_pair p) (return_m True))))) f m = Inr (True, m') \<and> objs m' d = objs m d \<and>
     wiped {d} {} m' = wiped (insert d (set (concat (map (\<lambda>(p, t). tree_objs t) pts))))
       (set (concat (map (\<lambda>(p, t). p # tree_pairs t) pts))) m"
  using assms
proof (induction pts arbitrary: m f fuel)
  case Nil
  then have "f = None" using first_rep [of "dictq m" d "[]"] by simp
  then show ?case by (simp add: return_m_def)
next
  case (Cons pt pts)
  obtain p t where pt: "pt = (p, t)" by (cases pt)
  let ?O = "set (tree_objs t)" and ?P = "set (tree_pairs t)"
  let ?Os = "set (concat (map (\<lambda>(p, t). tree_objs t) pts))"
  let ?Ps = "set (concat (map (\<lambda>(p, t). p # tree_pairs t) pts))"
  from Cons.prems(6) obtain k where k: "fuel = Suc k" "length pts \<le> k" by (cases fuel) auto
  have tq: "tq_rep (dictq m) d (p # map fst pts)" using Cons.prems(2) pt by simp
  have f: "f = Some p" using first_rep [OF tq] Cons.prems(7) by simp
  obtain nx where nx: "TAILQ_NEXT p (dictq m) = Inr (nx, dictq m)"
    "nx = (case map fst pts of [] \<Rightarrow> None | b # _ \<Rightarrow> Some b)"
    using next_rep [of "dictq m" d "[]" p "map fst pts"] tq by auto
  note prems = Cons.prems(3,4,5) [unfolded pt]
  have hd: "frees destroy t" using Cons.prems(1) pt by simp
  obtain q key where
    q: "TAILQ_REMOVE d p (dictq m) = Inr ((), q)" "tq_same (dictq m) q {d} (fst ` set pts)"
    and key: "pairs m p = Some \<lparr>dp_key = key, dp_value = Some (root t)\<rparr>"
    and des: "destroy (Some (root t)) (m\<lparr>dictq := q\<rparr>) = Inr ((), wiped ?O ?P (m\<lparr>dictq := q\<rparr>))"
    and fr: "free_pair p (wiped ?O ?P (m\<lparr>dictq := q\<rparr>)) = Inr ((), wiped {} {p} (wiped ?O ?P (m\<lparr>dictq := q\<rparr>)))"
    and rest: "tq_rep (dictq (wiped {} {p} (wiped ?O ?P (m\<lparr>dictq := q\<rparr>)))) d (map fst pts)"
      "\<forall>(p', u) \<in> set pts. (\<exists>k. pairs (wiped {} {p} (wiped ?O ?P (m\<lparr>dictq := q\<rparr>))) p' =
        Some \<lparr>dp_key = k, dp_value = Some (root u)\<rparr>) \<and> tree_in u (wiped {} {p} (wiped ?O ?P (m\<lparr>dictq := q\<rparr>)))"
    by (rule dict_round [OF hd tq prems])
  let ?m1 = "m\<lparr>dictq := q\<rparr>" let ?m2 = "wiped ?O ?P ?m1" let ?m3 = "wiped {} {p} ?m2"
  have d: "d \<notin> ?O" using Cons.prems(4) pt by simp
  have rm: "dict_op (TAILQ_REMOVE d p) m = Inr ((), ?m1)" using q(1) by (simp add: zoom_m_Inr)
  from Cons.IH [OF _ rest _ _ k(2)] first_rep [OF rest(1)] nx(2) Cons.prems(1,4,5) obtain m' where
    m': "TAILQ_FOREACH_SAFE k dictq (\<lambda>p. seq_m (dict_op (TAILQ_REMOVE d p))
       (bind_m (get_pair p) (\<lambda>dp. seq_m (destroy (dp_value dp))
       (seq_m (free_pair p) (return_m True))))) nx ?m3 = Inr (True, m')" "objs m' d = objs ?m3 d"
    "wiped {d} {} m' = wiped (insert d ?Os) ?Ps ?m3"
    by auto
  have "zoom_m dictq (\<lambda>_ s. s) (TAILQ_NEXT p) m = Inr (nx, m)"
    using nx(1) by (simp add: zoom_m_Inr)
  then have "TAILQ_FOREACH_SAFE fuel dictq (\<lambda>p. seq_m (dict_op (TAILQ_REMOVE d p))
       (bind_m (get_pair p) (\<lambda>dp. seq_m (destroy (dp_value dp))
       (seq_m (free_pair p) (return_m True))))) f m = Inr (True, m')"
    using m'(1) f k(1) rm des fr key
    by (simp add: bind_m_Inr seq_m_Inr return_m_def get_pair_runs del: wiped_wiped)
  moreover have "fst ` set pts \<subseteq> insert p (?P \<union> ?Ps)" by force
  then have "wiped {d} {} m' = wiped (insert d (?O \<union> ?Os)) (insert p (?P \<union> ?Ps)) m"
    using m'(3) wiped_relinked(2) [OF q(2), of "insert d (?O \<union> ?Os)" "insert p (?P \<union> ?Ps)"]
    by (simp add: Un_commute Un_left_commute)
  ultimately show ?case using m'(2) d pt by auto
qed

lemma tree_counted:
  "tree_in t m \<Longrightarrow> objs m a = Some xo \<Longrightarrow> tree_in t (m\<lparr>objs := (objs m)(a \<mapsto> xo\<lparr>xo_refcnt := n\<rparr>)\<rparr>)"
  by (erule tree_frame) (simp add: same_at_def)

text \<open>The static booleans are not on the heap; everything else that a tree names can be freed.\<close>

definition owned :: "obj_tree \<Rightarrow> bool" where
  "owned t \<longleftrightarrow> distinct (tree_objs t) \<and> xpc_bool_true \<notin> set (tree_objs t) \<and> xpc_bool_false \<notin> set (tree_objs t)"

lemma owned_elem:
  "owned (TArray a ts) \<Longrightarrow> t \<in> set ts \<Longrightarrow> owned t"
  "owned (TDict a pts) \<Longrightarrow> (p, t) \<in> set pts \<Longrightarrow> owned t"
  by (fastforce simp: owned_def tree_objs_def dest!: split_list)+

lemma destroy_step:
  assumes "obj_is m a ty (\<lambda>_. True)" and "a \<noteq> xpc_bool_true" and "a \<noteq> xpc_bool_false"
    and "ty = XPC_TYPE_DICTIONARY \<Longrightarrow> xpc_dictionary_destroy f (xpc_object_destroy f) a m = Inr ((), m')"
    and "ty = XPC_TYPE_ARRAY \<Longrightarrow> xpc_array_destroy f (xpc_object_destroy f) a m = Inr ((), m')"
    and "ty \<noteq> XPC_TYPE_ARRAY \<Longrightarrow> ty \<noteq> XPC_TYPE_DICTIONARY \<Longrightarrow> m' = m"
    and "objs m' a = objs m a"
  shows "xpc_object_destroy (Suc f) (Some a) m = Inr ((), wiped {a} {} m')"
proof -
  from assms(1) obtain xo where xo: "objs m a = Some xo" "xo_xpc_type xo = ty" by (auto simp: obj_is_def)
  then have o2: "objs m' a = Some xo" using assms(7) by simp
  have fr: "free_object a m' = Inr ((), wiped {a} {} m')"
    by (rule free_object_wipes) (use o2 assms(2,3) in simp_all)
  consider "ty = XPC_TYPE_ARRAY" | "ty = XPC_TYPE_DICTIONARY"
    | "ty \<noteq> XPC_TYPE_ARRAY" "ty \<noteq> XPC_TYPE_DICTIONARY" by blast
  then show ?thesis
    by cases (use xo o2 fr assms(4-6) in \<open>simp_all add: get_obj_runs bind_m_Inr seq_m_Inr return_m_def\<close>)
qed

lemma destroy_frees_array:
  assumes "owned (TArray a ts)" and elems: "\<forall>t \<in> set ts. frees (xpc_object_destroy f) t" and len: "length ts \<le> f"
  shows "frees (xpc_object_destroy (Suc f)) (TArray a ts)"
proof -
  have d: "distinct (a # concat (map tree_objs ts))" "a \<noteq> xpc_bool_true" "a \<noteq> xpc_bool_false"
    using assms(1) by (auto simp: owned_def tree_objs_def)
  show ?thesis unfolding frees_def
  proof (intro allI impI)
    fix m assume t: "tree_in (TArray a ts) m"
    then have dp: "distinct (concat (map tree_pairs ts))"
      using pairs_distinct [OF t] assms(1) by (simp add: owned_def)
    have tq: "tq_rep (arrq m) a (map root ts)" using t by simp
    from rep_fchain [OF tq] obtain fp where fp: "TAILQ_FIRST a (arrq m) = Inr (fp, arrq m)"
      by (metis get_runs(2) option.distinct(1))
    from array_loop_frees [OF elems tq _ d(1) dp len fp] t obtain m' where
      m': "TAILQ_FOREACH_SAFE f arrq (\<lambda>p. seq_m (arr_op (TAILQ_REMOVE a p))
         (seq_m (xpc_object_destroy f (Some p)) (return_m True))) fp m = Inr (True, m')" "objs m' a = objs m a"
      "wiped {a} {} m' = wiped (insert a (set (concat (map tree_objs ts)))) (set (concat (map tree_pairs ts))) m"
      by auto
    have "arr_op (TAILQ_FIRST a) m = Inr (fp, m)" using fp by (simp add: zoom_m_Inr)
    with m'(1) have "xpc_array_destroy f (xpc_object_destroy f) a m = Inr ((), m')"
      by (simp add: xpc_array_destroy_def bind_m_Inr seq_m_Inr return_m_def)
    from destroy_step [of m a XPC_TYPE_ARRAY f m'] this t d(2,3) m'(2,3)
    show "xpc_object_destroy (Suc f) (Some (root (TArray a ts))) m =
        Inr ((), wiped (set (tree_objs (TArray a ts))) (set (tree_pairs (TArray a ts))) m)"
      by (simp add: tree_objs_def [of "TArray a ts"] del: xpc_object_destroy.simps)
  qed
qed

lemma destroy_frees_dict:
  assumes "owned (TDict a pts)" and elems: "\<forall>(p, t) \<in> set pts. frees (xpc_object_destroy f) t"
    and len: "length pts \<le> f"
  shows "frees (xpc_object_destroy (Suc f)) (TDict a pts)"
proof -
  have d: "distinct (a # concat (map (\<lambda>(p, t). tree_objs t) pts))" "a \<noteq> xpc_bool_true" "a \<noteq> xpc_bool_false"
    using assms(1) by (auto simp: owned_def tree_objs_def [of "TDict a pts"])
  show ?thesis unfolding frees_def
  proof (intro allI impI)
    fix m assume t: "tree_in (TDict a pts) m"
    then have dp: "distinct (concat (map (\<lambda>(p, t). p # tree_pairs t) pts))"
      using pairs_distinct [OF t] assms(1) by (simp add: owned_def)
    have tq: "tq_rep (dictq m) a (map fst pts)" using t by simp
    from dict_fchain [OF tq] obtain fp where fp: "TAILQ_FIRST a (dictq m) = Inr (fp, dictq m)" by blast
    from dict_loop_frees [OF elems tq _ d(1) dp len fp] t obtain m' where
      m': "TAILQ_FOREACH_SAFE f dictq (\<lambda>p. seq_m (dict_op (TAILQ_REMOVE a p))
         (bind_m (get_pair p) (\<lambda>dp. seq_m (xpc_object_destroy f (dp_value dp))
         (seq_m (free_pair p) (return_m True))))) fp m = Inr (True, m')" "objs m' a = objs m a"
      "wiped {a} {} m' = wiped (insert a (set (concat (map (\<lambda>(p, t). tree_objs t) pts))))
         (set (concat (map (\<lambda>(p, t). p # tree_pairs t) pts))) m"
      by auto
    have "dict_op (TAILQ_FIRST a) m = Inr (fp, m)" using fp by (simp add: zoom_m_Inr)
    with m'(1) have "xpc_dictionary_destroy f (xpc_object_destroy f) a m = Inr ((), m')"
      by (simp add: xpc_dictionary_destroy_def bind_m_Inr seq_m_Inr return_m_def)
    from destroy_step [of m a XPC_TYPE_DICTIONARY f m'] this t d(2,3) m'(2,3)
    show "xpc_object_destroy (Suc f) (Some (root (TDict a pts))) m =
        Inr ((), wiped (set (tree_objs (TDict a pts))) (set (tree_pairs (TDict a pts))) m)"
      by (simp add: tree_objs_def [of "TDict a pts"] del: xpc_object_destroy.simps)
  qed
qed

lemma destroy_frees:
  "owned t \<Longrightarrow> tree_need t \<le> fuel \<Longrightarrow> frees (xpc_object_destroy fuel) t"
proof (induction t arbitrary: fuel)
  case (TLeaf a)
  then obtain f where f: "fuel = Suc f" by (cases fuel) auto
  show ?case unfolding frees_def f
  proof (intro allI impI)
    fix m assume "tree_in (TLeaf a) m"
    then obtain ty where "obj_is m a ty (\<lambda>_. True)" "ty \<noteq> XPC_TYPE_ARRAY" "ty \<noteq> XPC_TYPE_DICTIONARY"
      by (auto simp: obj_is_def)
    from destroy_step [OF this(1), of f m] this TLeaf.prems(1)
    show "xpc_object_destroy (Suc f) (Some (root (TLeaf a))) m =
        Inr ((), wiped (set (tree_objs (TLeaf a))) (set (tree_pairs (TLeaf a))) m)"
      by (simp add: owned_def tree_objs_def del: xpc_object_destroy.simps)
  qed
next
  case (TArray a ts)
  then obtain f where f: "fuel = Suc f" by (cases fuel) auto
  have len: "length ts \<le> f" using TArray.prems(2) f by simp
  have elems: "\<forall>t \<in> set ts. frees (xpc_object_destroy f) t"
    using TArray.IH owned_elem(1) [OF TArray.prems(1)] tree_need_elem(1) TArray.prems(2) f by blast
  from destroy_frees_array [OF TArray.prems(1) elems len] show ?case unfolding f .
next
  case (TDict a pts)
  then obtain f where f: "fuel = Suc f" by (cases fuel) auto
  have len: "length pts \<le> f" using TDict.prems(2) f by simp
  have elems: "\<forall>(p, t) \<in> set pts. frees (xpc_object_destroy f) t"
  proof clarify
    fix p t assume e: "(p, t) \<in> set pts"
    have "owned t" by (rule owned_elem(2) [OF TDict.prems(1) e])
    moreover have "tree_need t \<le> f" using tree_need_elem(2) [OF e] TDict.prems(2) f by blast
    ultimately show "frees (xpc_object_destroy f) t" using TDict.IH [OF e, of t f] by (simp add: snds.simps)
  qed
  from destroy_frees_dict [OF TDict.prems(1) elems len] show ?case unfolding f .
qed

lemma release_wipes:
  assumes "tree_in t m" and "owned t" and "tree_need t \<le> fuel" and "mem_ok m"
    and "objs m (root t) = Some xo" and "xo_refcnt xo = 1"
  shows "\<exists>m'. xpc_release fuel (Some (root t)) m = Inr ((), m') \<and> mem_ok m' \<and>
    m' = wiped (set (tree_objs t)) (set (tree_pairs t))
      (m\<lparr>objs := (objs m)(root t \<mapsto> xo\<lparr>xo_refcnt := 0\<rparr>)\<rparr>)"
proof -
  let ?m = "m\<lparr>objs := (objs m)(root t \<mapsto> xo\<lparr>xo_refcnt := 0\<rparr>)\<rparr>"
  let ?w = "wiped (set (tree_objs t)) (set (tree_pairs t)) ?m"
  have dec: "upd_obj (Some (root t)) (\<lambda>xo. xo\<lparr>xo_refcnt := xo_refcnt xo - 1\<rparr>) m = Inr ((), ?m)"
    using assms(5,6) by (simp add: upd_obj_runs)
  have "tree_in t ?m" using assms(1,5) by (rule tree_counted)
  then have "xpc_object_destroy fuel (Some (root t)) ?m = Inr ((), ?w)"
    using destroy_frees [OF assms(2,3)] by (simp add: frees_def)
  with dec have run: "xpc_release fuel (Some (root t)) m = Inr ((), ?w)"
    by (simp add: xpc_release_def seq_m_Inr bind_m_Inr get_obj_runs)
  from keepsD [OF keeps_release run] assms(4) run show ?thesis by (auto simp: mem_step_def)
qed

section \<open>Releasing what was built\<close>

text \<open>
  What is built and released again is gone without a trace, apart from strings and blocks and from
  what was lost while it was built.
\<close>

lemma wiped_agree:
  assumes "agree lo m m'" and "\<forall>a \<in> A. lo \<le> a" and "\<forall>p \<in> P. lo \<le> p"
  shows "agree lo m (wiped A P m')"
proof -
  have "a \<notin> A" "a \<notin> P" if "a < lo" for a using assms(2,3) that by (auto dest: leD)
  then show ?thesis using assms(1) by (simp add: agree_def wiped_def)
qed

lemma built_tree:
  assumes "built lost n w m b m'" and "mem_ok m"
  obtains t where "root t = b" and "grown lost t m m'" and "owned t" and "tree_need t = need w"
proof -
  from assms(1) obtain t where t: "root t = b" "grown lost t m m'" by (auto simp: built_def)
  from value_tree [OF builtD(3) [OF assms(1)]] obtain u where u: "root u = b" "tree_in u m'" "tree_need u = need w"
    by blast
  have "t = u" by (rule tree_unique [of _ m']) (use t u in \<open>simp_all add: grown_def\<close>)
  have "set (tree_objs t) \<subseteq> new_objs m m'" "distinct (tree_objs t)" using t(2) by (simp_all add: grown_def)
  moreover have "xpc_bool_true < next_addr m" "xpc_bool_false < next_addr m"
    using assms(2) by (auto simp: mem_ok_def not_less [symmetric])
  ultimately have "owned t" by (auto simp: owned_def new_objs_def dest: leD)
  with that t u(3) \<open>t = u\<close> show thesis by blast
qed

lemma release_built:
  assumes b: "built lost n w m b m'" and ok: "mem_ok m" and fuel: "need w \<le> fuel"
  shows "\<exists>m''. xpc_release fuel (Some b) m' = Inr ((), m'') \<and> mem_ok m'' \<and> agree (next_addr m) m m'' \<and>
    (objs m'' = objs m \<and> pairs m'' = pairs m \<longleftrightarrow> \<not> lost) \<and>
    strs m'' = strs m' \<and> blobs m'' = blobs m' \<and> buffers n m m''"
proof -
  obtain t where t: "root t = b" "grown lost t m m'" "owned t" "tree_need t = need w"
    using built_tree [OF b ok] .
  from t(1,2) obtain xo where tree: "tree_in t m'" and xo: "objs m' (root t) = Some xo" "xo_refcnt xo = 1"
    and sub: "set (tree_objs t) \<subseteq> new_objs m m'" "set (tree_pairs t) \<subseteq> new_pairs m m'"
    and lost: "lost = (new_objs m m' \<noteq> set (tree_objs t) \<or> new_pairs m m' \<noteq> set (tree_pairs t))"
    by (auto simp: grown_def)
  have "tree_need t \<le> fuel" using t(4) fuel by simp
  from release_wipes [OF tree t(3) this builtD(5) [OF b] xo] obtain m'' where
    m'': "xpc_release fuel (Some b) m' = Inr ((), m'')" "mem_ok m''"
      "m'' = wiped (set (tree_objs t)) (set (tree_pairs t)) (m'\<lparr>objs := (objs m')(root t \<mapsto> xo\<lparr>xo_refcnt := 0\<rparr>)\<rparr>)"
    using t(1) by blast
  have high: "\<forall>a \<in> set (tree_objs t). next_addr m \<le> a" "\<forall>p \<in> set (tree_pairs t). next_addr m \<le> p"
    using sub by (auto simp: new_objs_def new_pairs_def)
  then have "next_addr m \<le> root t" by simp
  then have "agree (next_addr m) m (m'\<lparr>objs := (objs m')(root t \<mapsto> xo\<lparr>xo_refcnt := 0\<rparr>)\<rparr>)"
    using builtD(4) [OF b] by (auto simp: agree_def)
  then have ag: "agree (next_addr m) m m''" unfolding m''(3) by (rule wiped_agree [OF _ high])
  have old: "objs m a = None \<and> pairs m a = None" if "next_addr m \<le> a" for a using ok that by (simp add: mem_ok_def)
  have objs: "objs m'' a = (if a < next_addr m then objs m a else if a \<in> set (tree_objs t) then None else objs m' a)"
    and pairs: "pairs m'' a = (if a < next_addr m then pairs m a else if a \<in> set (tree_pairs t) then None else pairs m' a)" for a
    using ag by (auto simp: agree_def m''(3))
  have "objs m'' = objs m \<longleftrightarrow> new_objs m m' \<subseteq> set (tree_objs t)"
    using old by (auto simp: fun_eq_iff objs new_objs_def subset_iff not_less)
  moreover have "pairs m'' = pairs m \<longleftrightarrow> new_pairs m m' \<subseteq> set (tree_pairs t)"
    using old by (auto simp: fun_eq_iff pairs new_pairs_def subset_iff not_less)
  ultimately have "objs m'' = objs m \<and> pairs m'' = pairs m \<longleftrightarrow> \<not> lost" using sub lost by blast
  moreover have bufs: "strs m'' = strs m'" "blobs m'' = blobs m'" by (simp_all add: m''(3))
  moreover have "buffers n m m''" unfolding buffers_same [OF bufs] using b by (simp add: built_def)
  ultimately show ?thesis using m''(1,2) ag by blast
qed

lemma need_copied: "need (copied v) \<le> need v"
proof (induction v)
  case (VDict kvs)
  have "sum_list (map (\<lambda>kv. need (copied (snd kv))) kvs) \<le> sum_list (map (\<lambda>kv. need (snd kv)) kvs)"
    by (rule sum_list_mono) (use VDict in \<open>auto simp: snds.simps\<close>)
  then show ?case by (simp add: comp_def)
qed simp_all

section \<open>Properties\<close>

text \<open>C19: Releasing the last reference to an object frees the object and, all the way down, every
  element of an array and every pair and value of a dictionary, whatever the reference counts of
  these are, and nothing else; keys, strings and blocks are never freed.  An element that the
  program still holds a counted reference to is gone as well.\<close>

theorem release_frees_tree:
  assumes "tree_in t m" and "owned t" and "tree_need t \<le> fuel" and "mem_ok m"
    and "objs m (root t) = Some xo" and "xo_refcnt xo = 1"
  shows "\<exists>m'. xpc_release fuel (Some (root t)) m = Inr ((), m') \<and> mem_ok m' \<and>
    (\<forall>b. objs m' b = (if b \<in> set (tree_objs t) then None else objs m b)) \<and>
    (\<forall>p. pairs m' p = (if p \<in> set (tree_pairs t) then None else pairs m p)) \<and>
    strs m' = strs m \<and> blobs m' = blobs m"
  using release_wipes [OF assms] by auto

text \<open>The number at 5 has two references, its creator's and the dictionary's; both are void.\<close>

theorem release_frees_tree_witness:
  "\<exists>m m'. xpc_dictionary_set_value (Some 7) (Some 2) (Some 5)
       (new_object XPC_TYPE_DICTIONARY (U_bits 0) 0 0 demo_mem2) = Inr ((), m) \<and>
     (\<exists>vo. objs m 5 = Some vo \<and> xo_refcnt vo = 2) \<and> strs m 2 = Some [97] \<and>
     xpc_release 5 (Some 7) m = Inr ((), m') \<and> objs m' 7 = None \<and> objs m' 5 = None \<and>
     strs m' 2 = Some [97] \<and> mem_ok m'"
proof -
  from demo_dict_val obtain m xo vo where m: "xpc_dictionary_set_value (Some 7) (Some 2) (Some 5)
       (new_object XPC_TYPE_DICTIONARY (U_bits 0) 0 0 demo_mem2) = Inr ((), m)"
    and v: "val_at (VDict [([97], VScalar XPC_TYPE_INT64 7)]) m 7" and str: "strs m 2 = Some [97]"
    and xo: "objs m 7 = Some xo" "xo_refcnt xo = 1" and vo: "objs m 5 = Some vo" "xo_refcnt vo = 2" "xo_xpc_type vo = XPC_TYPE_INT64"
    and rep: "dict_map 0 m 7 [([97], 5)]" by blast
  have ok: "mem_ok m" using rep dict_map_ok by auto
  from rep obtain p k where ps: "tq_rep (dictq m) 7 [p]" "pairs m p = Some \<lparr>dp_key = Some k, dp_value = Some 5\<rparr>"
    by (auto simp: dict_map_def dict_rep_def pair_holds_def list_all2_Cons2)
  have dict: "obj_is m 7 XPC_TYPE_DICTIONARY (\<lambda>_. True)" using dict_map_obj [OF rep] by (auto simp: obj_is_def)
  let ?t = "TDict 7 [(p, TLeaf 5)]"
  have "tree_in ?t m" using ps dict vo by simp
  from release_frees_tree [OF this _ _ ok, of 5 xo] xo show ?thesis
    using m vo str by (auto simp: owned_def tree_objs_def xpc_bool_true_def xpc_bool_false_def)
qed

text \<open>In particular an array is freed with all its elements.\<close>

definition leaf :: "xmem \<Rightarrow> addr \<Rightarrow> bool" where
  "leaf m v \<longleftrightarrow> v \<noteq> xpc_bool_true \<and> v \<noteq> xpc_bool_false \<and>
     obj_is m v XPC_TYPE_ARRAY (\<lambda>_. True) = False \<and>
     obj_is m v XPC_TYPE_DICTIONARY (\<lambda>_. True) = False \<and> objs m v \<noteq> None"

theorem array_release_frees_elements:
  assumes "arr_rep m a vs" and "objs m a = Some xo" and "xo_refcnt xo = 1"
    and "length vs + length vs < fuel" and "a \<notin> set vs" and "\<forall>v \<in> set vs. leaf m v"
    and "a \<noteq> xpc_bool_true" and "a \<noteq> xpc_bool_false"
  shows "\<exists>m'. xpc_release fuel (Some a) m = Inr ((), m') \<and> mem_ok m' \<and>
    (\<forall>b. objs m' b = (if b = a \<or> b \<in> set vs then None else objs m b))"
proof -
  let ?t = "TArray a (map TLeaf vs)"
  have objs: "tree_objs ?t = a # vs" by (induction vs) (auto simp: tree_objs_def)
  have need: "tree_need ?t = Suc (length vs + length vs)" by (induction vs) auto
  obtain xo' where "objs m a = Some xo'" "xo_xpc_type xo' = XPC_TYPE_ARRAY" by (rule arr_rep_obj [OF assms(1)])
  then have "tree_in ?t m"
    using assms(1,6) by (auto simp: arr_rep_def obj_is_def leaf_def comp_def)
  moreover have "owned ?t" unfolding owned_def objs
    using arr_rep_distinct [OF assms(1)] assms(5-8) by (auto simp: leaf_def)
  moreover have "mem_ok m" using assms(1) by (simp add: arr_rep_def)
  ultimately show ?thesis
    using release_wipes [of ?t m fuel xo] assms(2-4) unfolding need objs by auto
qed

text \<open>C20: A copy that is made by \<open>xpc_copy\<close> and then released has no other reference, and all its
  objects and pairs are freed; what was there before is as it was.  Objects remain behind exactly
  when the value copied has an array in it with an element that can be copied: these copies are made
  and never put into the new array.  Of the strings and blocks nothing is freed: the two duplicates
  made for each string and the one made for each block of data, at any depth, remain.\<close>

theorem copy_then_release:
  assumes "val_at v m a" and "short_arrays v" and "\<not> crashes v" and "\<not> no_copy v" and "need v \<le> fuel"
    and "mem_ok m" and "\<forall>a. malloc_ok m a"
  shows "\<exists>b m' m''. xpc_copy fuel (Some a) m = Inr (Some b, m') \<and>
    xpc_release fuel (Some b) m' = Inr ((), m'') \<and> mem_ok m'' \<and>
    (objs m'' = objs m \<and> pairs m'' = pairs m \<longleftrightarrow> \<not> loses v) \<and>
    (\<forall>x < next_addr m. strs m'' x = strs m x \<and> blobs m'' x = blobs m x) \<and>
    finite (new_bufs m m'') \<and> card (new_bufs m m'') = bufs 2 v \<and> (\<forall>w x. val_at w m x \<longrightarrow> val_at w m'' x)"
proof -
  have "copy_result v m (xpc_copy fuel (Some a) m)"
    using xpc_copy_spec [OF assms(5,2)] assms(1,6,7) by (simp add: copies_as_def usable_def)
  then obtain b m' where run: "xpc_copy fuel (Some a) m = Inr (Some b, m')"
    and b: "built (loses v) (bufs 2 v) (copied v) m b m'" using assms(3,4) by (auto simp: copy_result_def)
  have "need (copied v) \<le> fuel" using need_copied [of v] assms(5) by simp
  from release_built [OF b assms(6) this] obtain m'' where
    m'': "xpc_release fuel (Some b) m' = Inr ((), m'')" "mem_ok m''" "agree (next_addr m) m m''"
      "objs m'' = objs m \<and> pairs m'' = pairs m \<longleftrightarrow> \<not> loses v" "buffers (bufs 2 v) m m''" by blast
  then have "\<forall>x < next_addr m. strs m'' x = strs m x \<and> blobs m'' x = blobs m x" by (simp add: agree_def)
  with run m'' val_at_agree [OF _ assms(6) m''(2,3)] show ?thesis by (auto simp: buffers_def)
qed

theorem copy_then_release_witness:
  "\<exists>m b m' m''. val_at (VDict [([97], VScalar XPC_TYPE_INT64 7)]) m 7 \<and>
     xpc_copy 5 (Some 7) m = Inr (Some b, m') \<and> xpc_release 5 (Some b) m' = Inr ((), m'') \<and>
     objs m'' = objs m \<and> pairs m'' = pairs m \<and> card (new_bufs m m'') = 0"
proof -
  from demo_dict_val obtain m where v: "val_at (VDict [([97], VScalar XPC_TYPE_INT64 7)]) m 7"
    and mal: "\<forall>a. malloc_ok m a" by blast
  have ok: "mem_ok m" using v dict_map_ok by auto
  from copy_then_release [OF v _ _ _ _ ok mal, of 5] v show ?thesis
    by (auto simp del: val_at.simps xpc_copy.simps)
qed

end
