(* ===== verification/RefCount.thy ===== *)
theory RefCount
  imports XpcDestroy "HOL-Library.Multiset"
begin

text \<open>
  Reference counts under concurrency.  \<open>xpc_retain\<close> and \<open>xpc_release\<close> change the count by one atomic
  instruction each; everything else that \<open>xpc_release\<close> does follows that instruction.  Threads that
  share an object interleave at these points, which is a step relation here.  Each thread keeps to
  the rule of the interface: it retains and releases only what it holds a reference to, and may
  hand a reference to another thread.
\<close>

section \<open>The atomic instruction\<close>

text \<open>\<open>__atomic_add_fetch(&xo->xo_refcnt, v, __ATOMIC_SEQ_CST)\<close>, on an unsigned 32-bit word.\<close>

definition atomic_fetchadd_int :: "ptr \<Rightarrow> 32 word \<Rightarrow> (xmem, 32 word) op" where
  "atomic_fetchadd_int obj v =
     seq_m (upd_obj obj (\<lambda>xo. xo\<lparr>xo_refcnt := xo_refcnt xo + v\<rparr>))
     (bind_m (get_obj obj) (\<lambda>xo. return_m (xo_refcnt xo)))"

lemma xpc_retain_atomic: "xpc_retain p = seq_m (atomic_fetchadd_int p 1) (return_m p)"
  by (cases p) (auto simp: xpc_retain_def atomic_fetchadd_int_def upd_obj_def get_obj_def run_defs fun_eq_iff
    split: option.splits)

lemma xpc_release_atomic:
  "xpc_release fuel p = bind_m (atomic_fetchadd_int p (- 1)) (\<lambda>n.
     if n > 0 then return_m () else xpc_object_destroy fuel p)"
  by (cases p) (auto simp: xpc_release_def atomic_fetchadd_int_def upd_obj_def get_obj_def run_defs fun_eq_iff
    split: option.splits)

section \<open>Threads that share an object\<close>

text \<open>
  \<open>holders\<close> has a thread as often as it holds a reference; \<open>destroyers\<close> are the threads whose
  \<open>xpc_release\<close> has seen the count become 0 and that have not yet run \<open>xpc_object_destroy\<close>;
  \<open>destroyed\<close> counts the calls of \<open>xpc_object_destroy\<close> that have returned.
\<close>

record 't refs =
  memory :: xmem
  holders :: "'t multiset"
  destroyers :: "'t multiset"
  destroyed :: nat

inductive ref_step :: "nat \<Rightarrow> addr \<Rightarrow> 't refs \<Rightarrow> 't refs \<Rightarrow> bool" for fuel a where
  retain: "t \<in># holders s \<Longrightarrow> size (holders s) < 2 ^ 32 - 1 \<Longrightarrow>
    xpc_retain (Some a) (memory s) = Inr (r, m) \<Longrightarrow>
    ref_step fuel a s (s\<lparr>memory := m, holders := add_mset t (holders s)\<rparr>)"
| hand_over: "t \<in># holders s \<Longrightarrow>
    ref_step fuel a s (s\<lparr>holders := add_mset u (holders s - {#t#})\<rparr>)"
| count_down: "t \<in># holders s \<Longrightarrow>
    atomic_fetchadd_int (Some a) (- 1) (memory s) = Inr (n, m) \<Longrightarrow>
    ref_step fuel a s (s\<lparr>memory := m, holders := holders s - {#t#},
      destroyers := (if n > 0 then destroyers s else add_mset t (destroyers s))\<rparr>)"
| destroy: "t \<in># destroyers s \<Longrightarrow>
    xpc_object_destroy fuel (Some a) (memory s) = Inr ((), m) \<Longrightarrow>
    ref_step fuel a s (s\<lparr>memory := m, destroyers := destroyers s - {#t#},
      destroyed := Suc (destroyed s)\<rparr>)"

section \<open>The invariant\<close>

text \<open>The memory \<open>m\<close> but for the count of the object at \<open>a\<close>.\<close>

definition counted :: "addr \<Rightarrow> 32 word \<Rightarrow> xmem \<Rightarrow> xmem" where
  "counted a n m = m\<lparr>objs := (objs m)(a := map_option (\<lambda>xo. xo\<lparr>xo_refcnt := n\<rparr>) (objs m a))\<rparr>"

lemma counted_counted [simp]: "counted a n (counted a k m) = counted a n m"
  by (simp add: counted_def option.map_comp comp_def)

lemma counted_objs [simp]:
  "objs (counted a n m) b = (if b = a then map_option (\<lambda>xo. xo\<lparr>xo_refcnt := n\<rparr>) (objs m a) else objs m b)"
  "pairs (counted a n m) = pairs m" "strs (counted a n m) = strs m" "blobs (counted a n m) = blobs m"
  by (simp_all add: counted_def)

lemma counted_same: "objs m a = Some xo \<Longrightarrow> counted a (xo_refcnt xo) m = m"
  by (simp add: counted_def fun_upd_idem)

lemma add_counted:
  "objs m a \<noteq> None \<Longrightarrow>
     atomic_fetchadd_int (Some a) v (counted a k m) = Inr (k + v, counted a (k + v) m)"
  by (auto simp: atomic_fetchadd_int_def upd_obj_def get_obj_def run_defs counted_def)

lemma retain_counted:
  "objs m a \<noteq> None \<Longrightarrow> xpc_retain (Some a) (counted a k m) = Inr (Some a, counted a (k + 1) m)"
  by (simp add: xpc_retain_atomic add_counted run_defs)

definition gone :: "obj_tree \<Rightarrow> xmem \<Rightarrow> xmem" where
  "gone t m = wiped (set (tree_objs t)) (set (tree_pairs t)) (counted (root t) 0 m)"

lemma destroy_counted:
  assumes "tree_in t m" and "owned t" and "tree_need t \<le> fuel"
  shows "xpc_object_destroy fuel (Some (root t)) (counted (root t) 0 m) = Inr ((), gone t m)"
proof -
  have "tree_in t (counted (root t) 0 m)"
  proof (cases "objs m (root t)")
    case None
    then show ?thesis using assms(1) by (simp add: counted_def fun_upd_idem)
  next
    case (Some xo)
    from tree_counted [OF assms(1) this, of 0] Some show ?thesis by (simp add: counted_def)
  qed
  with destroy_frees [OF assms(2,3)] show ?thesis by (simp add: frees_def gone_def)
qed

definition refs_ok :: "obj_tree \<Rightarrow> xmem \<Rightarrow> 't refs \<Rightarrow> bool" where
  "refs_ok t m s \<longleftrightarrow>
     (if holders s \<noteq> {#} then size (holders s) < 2 ^ 32 \<and> destroyers s = {#} \<and> destroyed s = 0 \<and>
        memory s = counted (root t) (of_nat (size (holders s))) m
      else if destroyers s \<noteq> {#} then size (destroyers s) = 1 \<and> destroyed s = 0 \<and>
        memory s = counted (root t) 0 m
      else destroyed s = 1 \<and> memory s = gone t m)"

lemma count_positive: "(of_nat n :: 32 word) > 0 \<longleftrightarrow> n > 0" if "n < 2 ^ 32"
  using that nat_dvd_not_less [of n "2 ^ 32"] by (cases "n = 0") (simp_all add: word_gt_0 word_of_nat_eq_0_iff)

lemma same_result: "f = Inr (x, s) \<Longrightarrow> f = Inr (y, t) \<Longrightarrow> y = x" "f = Inr (x, s) \<Longrightarrow> f = Inr (y, t) \<Longrightarrow> t = s"
  by simp_all

lemma count_pred: "Suc k = n \<Longrightarrow> of_nat n + (- 1 :: 32 word) = of_nat k"
  by auto

lemma refs_ok_step:
  assumes "tree_in t m" and "owned t" and "tree_need t \<le> fuel" and "objs m (root t) \<noteq> None"
    and "ref_step fuel (root t) s s'" and "refs_ok t m s"
  shows "refs_ok t m s'"
  using assms(5)
proof (cases rule: ref_step.cases)
  case (retain u r m')
  then have "holders s \<noteq> {#}" by auto
  with retain assms(4,6) show ?thesis by (auto simp: refs_ok_def retain_counted add.commute)
next
  case (hand_over u v)
  then have "holders s \<noteq> {#}" and "Suc (size (holders s - {#u#})) = size (holders s)"
    by (auto simp: size_Suc_Diff1)
  with hand_over assms(6) show ?thesis by (auto simp: refs_ok_def)
next
  case (count_down u n m')
  then have ne: "holders s \<noteq> {#}" and less: "Suc (size (holders s - {#u#})) = size (holders s)"
    by (auto simp: size_Suc_Diff1)
  let ?k = "size (holders s - {#u#})"
  have old: "size (holders s) < 2 ^ 32" "destroyers s = {#}" "destroyed s = 0"
    "memory s = counted (root t) (of_nat (size (holders s))) m"
    using assms(6) ne by (auto simp: refs_ok_def)
  have "atomic_fetchadd_int (Some (root t)) (- 1) (memory s) = Inr (of_nat ?k, counted (root t) (of_nat ?k) m)"
    unfolding old(4) add_counted [OF assms(4)] count_pred [OF less] ..
  note n = same_result [OF this count_down(3)]
  have "n > 0 \<longleftrightarrow> holders s - {#u#} \<noteq> {#}"
    unfolding n(1) nonempty_has_size by (rule count_positive) (use old(1) less in simp)
  with n(2) old less show ?thesis unfolding count_down(1) by (auto simp: refs_ok_def)
next
  case (destroy u m')
  then have "destroyers s \<noteq> {#}" by auto
  then have old: "holders s = {#}" "size (destroyers s) = 1" "destroyed s = 0"
    "memory s = counted (root t) 0 m" using assms(6) by (auto simp: refs_ok_def split: if_splits)
  then have "destroyers s - {#u#} = {#}"
    using destroy(2) size_Diff_singleton [of u "destroyers s"] by simp
  moreover have "m' = gone t m"
    using destroy(3) destroy_counted [OF assms(1-3)] old(4) by simp
  ultimately show ?thesis using old unfolding destroy(1) by (simp add: refs_ok_def)
qed

lemma refs_ok_steps:
  assumes "(ref_step fuel (root t))\<^sup>*\<^sup>* s s'" and "refs_ok t m s"
    and "tree_in t m" and "owned t" and "tree_need t \<le> fuel" and "objs m (root t) \<noteq> None"
  shows "refs_ok t m s'"
  using assms(1,2)
  by (induction rule: rtranclp_induct) (blast intro: refs_ok_step [OF assms(3-6)])+

section \<open>Properties\<close>

text \<open>C18: However threads that keep to the rule interleave their retains and releases of one object, no
  operation faults.  While any of them holds a reference the object and everything below it is there, unchanged but
  for its count, which is the number of references held; \<open>xpc_object_destroy\<close> is called by at most
  one thread, at most once, and only when nobody holds a reference; and when nobody does and no
  release is under way, it has been called and the object is freed with all that it owns, and
  nothing else, so that a further retain is an access to freed memory.\<close>

theorem refcount_interleavings:
  assumes "tree_in t m" and "owned t" and "tree_need t \<le> fuel" and "objs m (root t) = Some xo"
    and "unat (xo_refcnt xo) = size H" and "H \<noteq> {#}"
    and "(ref_step fuel (root t))\<^sup>*\<^sup>* \<lparr>memory = m, holders = H, destroyers = {#}, destroyed = 0\<rparr> s"
  shows "(\<forall>u \<in># holders s. (\<exists>m'. xpc_retain (Some (root t)) (memory s) = Inr (Some (root t), m')) \<and>
        (\<exists>n m'. atomic_fetchadd_int (Some (root t)) (- 1) (memory s) = Inr (n, m'))) \<and>
    (\<forall>u \<in># destroyers s. \<exists>m'. xpc_object_destroy fuel (Some (root t)) (memory s) = Inr ((), m')) \<and>
    (holders s \<noteq> {#} \<longrightarrow> destroyers s = {#} \<and> destroyed s = 0 \<and>
      (\<exists>xo'. memory s = m\<lparr>objs := (objs m)(root t \<mapsto> xo')\<rparr> \<and> xo' = xo\<lparr>xo_refcnt := xo_refcnt xo'\<rparr> \<and>
        unat (xo_refcnt xo') = size (holders s))) \<and>
    size (destroyers s) + destroyed s \<le> 1 \<and>
    (holders s = {#} \<and> destroyers s = {#} \<longrightarrow> destroyed s = 1 \<and>
      (\<forall>b. objs (memory s) b = (if b \<in> set (tree_objs t) then None else objs m b)) \<and>
      (\<forall>p. pairs (memory s) p = (if p \<in> set (tree_pairs t) then None else pairs m p)) \<and>
      strs (memory s) = strs m \<and> blobs (memory s) = blobs m \<and>
      xpc_retain (Some (root t)) (memory s) = Inl BadPointer)"
proof -
  have obj: "objs m (root t) \<noteq> None" using assms(4) by simp
  have "unat (xo_refcnt xo) < 2 ^ 32" using unsigned_less [where 'a = nat, of "xo_refcnt xo"] by simp
  then have less: "size H < 2 ^ 32" using assms(5) by simp
  have "xo_refcnt xo = of_nat (size H)" unfolding assms(5) [symmetric] by simp
  then have "refs_ok t m \<lparr>memory = m, holders = H, destroyers = {#}, destroyed = 0\<rparr>"
    using counted_same [OF assms(4)] assms(6) less by (simp add: refs_ok_def)
  from refs_ok_steps [OF assms(7) this assms(1-3) obj] have ok: "refs_ok t m s" .
  consider (held) "holders s \<noteq> {#}" "size (holders s) < 2 ^ 32" "destroyers s = {#}" "destroyed s = 0"
      "memory s = counted (root t) (of_nat (size (holders s))) m"
    | (dying) "holders s = {#}" "destroyers s \<noteq> {#}" "size (destroyers s) = 1" "destroyed s = 0"
      "memory s = counted (root t) 0 m"
    | (over) "holders s = {#}" "destroyers s = {#}" "destroyed s = 1" "memory s = gone t m"
    using ok by (auto simp: refs_ok_def split: if_splits)
  then show ?thesis
  proof cases
    case held
    have ops: "\<exists>m'. xpc_retain (Some (root t)) (memory s) = Inr (Some (root t), m')"
      "\<exists>n m'. atomic_fetchadd_int (Some (root t)) (- 1) (memory s) = Inr (n, m')"
      unfolding held(5) retain_counted [OF obj] add_counted [OF obj] by simp_all
    have "memory s = m\<lparr>objs := (objs m)(root t \<mapsto> xo\<lparr>xo_refcnt := of_nat (size (holders s))\<rparr>)\<rparr>"
      using held(5) assms(4) by (simp add: counted_def)
    moreover have "unat (of_nat (size (holders s)) :: 32 word) = size (holders s)"
      using held(2) by (simp add: unsigned_of_nat take_bit_nat_eq_self)
    ultimately have "\<exists>xo'. memory s = m\<lparr>objs := (objs m)(root t \<mapsto> xo')\<rparr> \<and>
        xo' = xo\<lparr>xo_refcnt := xo_refcnt xo'\<rparr> \<and> unat (xo_refcnt xo') = size (holders s)"
      by (intro exI [of _ "xo\<lparr>xo_refcnt := of_nat (size (holders s))\<rparr>"]) simp
    with ops held(1,3,4) show ?thesis by simp
  next
    case dying
    with destroy_counted [OF assms(1-3)] show ?thesis by simp
  next
    case over
    have "objs (gone t m) (root t) = None" by (simp add: gone_def)
    then have "xpc_retain (Some (root t)) (gone t m) = Inl BadPointer"
      by (simp add: xpc_retain_def upd_obj_def get_obj_runs seq_m_Inl bind_m_Inl)
    with over show ?thesis by (auto simp: gone_def)
  qed
qed

text \<open>Thread 0 gives a second reference to thread 1 and releases its own; thread 1 releases the last.\<close>

theorem refcount_interleavings_witness:
  "\<exists>s. (ref_step 1 3)\<^sup>*\<^sup>* \<lparr>memory = demo_mem, holders = {#0::nat#}, destroyers = {#}, destroyed = 0\<rparr> s \<and>
     destroyed s = 1 \<and> objs (memory s) 3 = None \<and> objs (memory s) 2 = objs demo_mem 2"
proof -
  obtain xo where xo: "objs demo_mem 3 = Some xo" "xo_xpc_type xo = XPC_TYPE_INT64" "xo_refcnt xo = 1"
    by (simp add: demo_mem_def new_object_def init_mem_def Let_def)
  have obj: "objs demo_mem 3 \<noteq> None" and tree: "tree_in (TLeaf 3) demo_mem" "owned (TLeaf 3)"
    using xo by (simp_all add: owned_def tree_objs_def xpc_bool_true_def xpc_bool_false_def)
  let ?s = "\<lambda>n h d k. \<lparr>memory = counted 3 n demo_mem, holders = h, destroyers = d, destroyed = k\<rparr>"
  have start: "\<lparr>memory = demo_mem, holders = {#0::nat#}, destroyers = {#}, destroyed = 0\<rparr> = ?s 1 {#0#} {#} 0"
    using counted_same [OF xo(1)] xo(3) by simp
  have "ref_step 1 3 (?s 1 {#0::nat#} {#} 0) (?s 2 {#0, 0#} {#} 0)"
    using ref_step.retain [of 0 "?s 1 {#0::nat#} {#} 0" 3] retain_counted [OF obj, of 1] by simp
  moreover have "ref_step 1 3 (?s 2 {#0::nat, 0#} {#} 0) (?s 2 {#0, 1#} {#} 0)"
    using ref_step.hand_over [of 0 "?s 2 {#0::nat, 0#} {#} 0" 1 3 1] by (simp add: add_mset_commute)
  moreover have "ref_step 1 3 (?s 2 {#0::nat, 1#} {#} 0) (?s 1 {#1#} {#} 0)"
    using ref_step.count_down [of 0 "?s 2 {#0::nat, 1#} {#} 0" 3] add_counted [OF obj, of "- 1" 2] by simp
  moreover have "ref_step 1 3 (?s 1 {#1::nat#} {#} 0) (?s 0 {#} {#1#} 0)"
    using ref_step.count_down [of 1 "?s 1 {#1::nat#} {#} 0" 3] add_counted [OF obj, of "- 1" 1] by simp
  moreover have "ref_step 1 3 (?s 0 {#} {#1::nat#} 0)
      \<lparr>memory = gone (TLeaf 3) demo_mem, holders = {#}, destroyers = {#}, destroyed = 1\<rparr>"
    using ref_step.destroy [of 1 "?s 0 {#} {#1::nat#} 0" 1 3] destroy_counted [OF tree, of 1] by simp
  ultimately have run: "(ref_step 1 3)\<^sup>*\<^sup>* \<lparr>memory = demo_mem, holders = {#0::nat#}, destroyers = {#}, destroyed = 0\<rparr>
      \<lparr>memory = gone (TLeaf 3) demo_mem, holders = {#}, destroyers = {#}, destroyed = 1\<rparr>"
    unfolding start by (meson converse_rtranclp_into_rtranclp rtranclp.rtrancl_refl)
  let ?e = "\<lparr>memory = gone (TLeaf 3) demo_mem, holders = {#}, destroyers = {#} :: nat multiset, destroyed = 1\<rparr>"
  from refcount_interleavings [OF tree, of 1 xo "{#0::nat#}" ?e] xo run
  have "destroyed ?e = 1 \<and> (\<forall>b. objs (memory ?e) b = (if b \<in> set (tree_objs (TLeaf 3)) then None else objs demo_mem b))"
    by (simp del: xpc_object_destroy.simps)
  then have "objs (memory ?e) 3 = None" "objs (memory ?e) 2 = objs demo_mem 2" by (simp_all add: tree_objs_def)
  with run show ?thesis by (intro exI [of _ ?e]) simp
qed

end
