(* ===== verification/XpcDescribe.thy ===== *)
theory XpcDescribe
  imports XpcObject Sbuf
begin

text \<open>
  \<open>xpc_copy_description\<close> of \<open>libOpenXPC/xpc_misc.c\<close>: a value printed into a string buffer.  The
  operations run on the buffer and the memory together.  The \<open>printf\<close> conversions that the
  formats use are written out here: a format and its arguments become the bytes to print.
\<close>

section \<open>Conversions\<close>

text \<open>A character as the byte C stores for it, and a string literal without its NUL.\<close>

definition ascii :: "string \<Rightarrow> byte list" where
  "ascii s = map of_char s"

text \<open>A number to a base up to 16, with lower case digits and no leading zeros.\<close>

definition digit_char :: "nat \<Rightarrow> byte" where
  "digit_char d = of_nat (if d < 10 then 48 + d else 87 + d)"

fun digits :: "nat \<Rightarrow> nat \<Rightarrow> byte list" where
  "digits b n =
     (if n < b \<or> b < 2 then [digit_char n] else digits b (n div b) @ [digit_char (n mod b)])"

declare digits.simps [simp del]

text \<open>\<open>%u\<close>, \<open>%d\<close> and \<open>%x\<close> of arguments of any width, and \<open>%*s\<close> with a width that is not negative.\<close>

definition fmt_u :: "nat \<Rightarrow> byte list" where
  "fmt_u n = digits 10 n"

definition fmt_d :: "int \<Rightarrow> byte list" where
  "fmt_d i = (if i < 0 then [45] else []) @ digits 10 (nat \<bar>i\<bar>)"

definition fmt_x :: "nat \<Rightarrow> byte list" where
  "fmt_x n = digits 16 n"

definition fmt_padded :: "nat \<Rightarrow> byte list \<Rightarrow> byte list" where
  "fmt_padded w s = replicate (w - length s) 32 @ s"

section \<open>Printing a value\<close>

type_synonym 'a describe_op = "(unit sbuf \<times> xmem, 'a) op"

text \<open>
  \<open>sbuf_printf(sbuf, ...)\<close>.  The buffer has no drain, so that the formatting loop runs at most
  twice.
\<close>

definition on_sbuf :: "(unit sbuf, 'a) op \<Rightarrow> 'a describe_op" where
  "on_sbuf f = zoom_m fst (\<lambda>s (_, m). (s, m)) f"

definition sb_print :: "(nat \<Rightarrow> bool) \<Rightarrow> byte list \<Rightarrow> unit describe_op" where
  "sb_print mal t =
     seq_m (on_sbuf (sbuf_printf 2 mal (Some t))) (return_m ())"

definition describe_pair ::
  "(nat \<Rightarrow> bool) \<Rightarrow> nat \<Rightarrow> (ptr \<Rightarrow> unit describe_op) \<Rightarrow> ptr \<Rightarrow> ptr \<Rightarrow> bool describe_op" where
  "describe_pair mal level describe k v =
     bind_m (on_mem (get_str k)) (\<lambda>key.
     seq_m (sb_print mal (fmt_padded (level * 4) (ascii '' '') @ ascii [CHR 0x22] @ key @
       ascii [CHR 0x22] @ ascii '': ''))
     (seq_m (describe v) (return_m True)))"

definition describe_elem ::
  "(nat \<Rightarrow> bool) \<Rightarrow> nat \<Rightarrow> (ptr \<Rightarrow> unit describe_op) \<Rightarrow> 64 word \<Rightarrow> ptr \<Rightarrow> bool describe_op" where
  "describe_elem mal level describe idx v =
     seq_m (sb_print mal (fmt_padded (level * 4) (ascii '' '') @ fmt_d (sint idx) @ ascii '': ''))
     (seq_m (describe v) (return_m True))"

text \<open>
  The text after the type's name; \<open>describe\<close> is the recursive call, one level further in.  For a UUID
  (\<open>HAVE_uuid\<close>) the text of libuuid is printed from an array on the stack, which is then passed to
  \<open>free\<close>: whatever was printed is lost in the fault.
\<close>

definition describe_body ::
  "nat \<Rightarrow> (nat \<Rightarrow> bool) \<Rightarrow> nat \<Rightarrow> (ptr \<Rightarrow> unit describe_op) \<Rightarrow> ptr \<Rightarrow> xpc_object \<Rightarrow> unit describe_op" where
  "describe_body fuel mal level describe obj xo =
     (if xo_xpc_type xo = XPC_TYPE_DICTIONARY then
        seq_m (sb_print mal [10])
        (seq_m (xpc_dictionary_apply fuel obj (describe_pair mal level describe)) (return_m ()))
      else if xo_xpc_type xo = XPC_TYPE_ARRAY then
        seq_m (sb_print mal [10])
        (seq_m (xpc_array_apply fuel obj (describe_elem mal level describe)) (return_m ()))
      else if xo_xpc_type xo = XPC_TYPE_BOOL then
        bind_m (on_mem (xpc_bool_get_value obj)) (\<lambda>b.
        sb_print mal (ascii (if b then ''true'' else ''false'') @ [10]))
      else if xo_xpc_type xo = XPC_TYPE_STRING then
        bind_m (on_mem (bind_m (xpc_string_get_string_ptr obj) get_str)) (\<lambda>s.
        sb_print mal (ascii [CHR 0x22] @ s @ ascii [CHR 0x22] @ [10]))
      else if xo_xpc_type xo = XPC_TYPE_INT64 then
        bind_m (on_mem (xpc_int64_get_value obj)) (\<lambda>i.
        sb_print mal (ascii ''0x'' @ fmt_d (sint i) @ [10]))
      else if xo_xpc_type xo = XPC_TYPE_UINT64 then
        bind_m (on_mem (xpc_uint64_get_value obj)) (\<lambda>u.
        sb_print mal (ascii ''0x'' @ fmt_x (unat u) @ [10]))
      else if xo_xpc_type xo = XPC_TYPE_DATE then
        bind_m (on_mem (xpc_date_get_value obj)) (\<lambda>d.
        sb_print mal (fmt_u (unat d) @ [10]))
      else if xo_xpc_type xo = XPC_TYPE_UUID then
        bind_m (on_mem (xpc_uuid_get_bytes obj)) (\<lambda>id. fail_m BadFree)
      else if xo_xpc_type xo = XPC_TYPE_ENDPOINT then
        bind_m (on_mem (u_ui (xo_u xo))) (\<lambda>w.
        sb_print mal (ascii ''<'' @ fmt_x (unat w) @ ascii ''>'' @ [10]))
      else if xo_xpc_type xo = XPC_TYPE_NULL then
        sb_print mal (ascii ''<null>'' @ [10])
      else if xo_xpc_type xo = XPC_TYPE_FD then
        bind_m (on_mem (u_fd (xo_u xo))) (\<lambda>fd.
        sb_print mal (ascii ''<'' @ fmt_d (sint fd) @ ascii ''>'' @ [10]))
      else sb_print mal (ascii ''<ERROR-TYPE!>'' @ [10]))"

primrec xpc_copy_description_level ::
  "nat \<Rightarrow> (nat \<Rightarrow> bool) \<Rightarrow> nat \<Rightarrow> ptr \<Rightarrow> unit describe_op" where
  "xpc_copy_description_level 0 mal level obj = fail_m Diverges"
| "xpc_copy_description_level (Suc fuel) mal level obj =
     (if obj = None then sb_print mal (ascii ''<null value>'' @ [10])
      else
        bind_m (on_mem (xpc_get_type_name obj)) (\<lambda>name.
        seq_m (sb_print mal (ascii ''('' @ ascii name @ ascii '') ''))
        (bind_m (on_mem (get_obj obj))
          (describe_body fuel mal level (xpc_copy_description_level fuel mal (level + 1)) obj))))"

text \<open>
  The buffer's data up to the NUL is duplicated; then the buffer is deleted.  \<open>sbuf_new_auto\<close>
  may return NULL, which the first \<open>sbuf_printf\<close> dereferences.
\<close>

definition strdup_data :: "byte list option \<Rightarrow> (xmem, ptr) op" where
  "strdup_data data =
     (case data of
        None \<Rightarrow> fail_m NullDeref
      | Some b \<Rightarrow> if 0 \<in> set b then new_str (takeWhile (\<lambda>c. c \<noteq> 0) b) else fail_m OutOfBounds)"

definition xpc_copy_description :: "nat \<Rightarrow> (nat \<Rightarrow> bool) \<Rightarrow> ptr \<Rightarrow> (xmem, ptr) op" where
  "xpc_copy_description fuel mal obj =
     (case sbuf_new_auto mal of
        None \<Rightarrow> fail_m NullDeref
      | Some sbuf \<Rightarrow>
          bind_m (with_local sbuf
            (seq_m (xpc_copy_description_level fuel mal 0 obj)
            (seq_m (on_sbuf (sbuf_finish 0))
            (bind_m (on_sbuf (gets_m sbuf_data)) (\<lambda>data.
            bind_m (on_mem (strdup_data data)) (\<lambda>result.
            seq_m (on_sbuf sbuf_delete) (return_m result)))))))
          (\<lambda>(result, _). return_m result))"

end
