(* ===== verification/XpcDescribeSpec.thy ===== *)
theory XpcDescribeSpec
  imports XpcDescribe XpcTraverse SbufClaims
begin

text \<open>
  The description of a value as a text, and the proof that \<open>xpc_copy_description\<close> prints it.  An
  operation on the buffer and the memory \<open>prints\<close> a text if it appends the text to any buffer
  with room for it and leaves the memory alone; sequences of such operations print the
  concatenation.
\<close>

section \<open>The text of a value\<close>

definition heading :: "xpc_type \<Rightarrow> byte list" where
  "heading t = ascii ''('' @ ascii (type_description t) @ ascii '') ''"

definition scalar_text :: "xpc_type \<Rightarrow> 64 word \<Rightarrow> byte list" where
  "scalar_text t w =
     (case t of
        XPC_TYPE_BOOL \<Rightarrow> ascii (if w AND 0xFF \<noteq> 0 then ''true'' else ''false'')
      | XPC_TYPE_INT64 \<Rightarrow> ascii ''0x'' @ fmt_d (sint w)
      | XPC_TYPE_UINT64 \<Rightarrow> ascii ''0x'' @ fmt_x (unat w)
      | XPC_TYPE_DATE \<Rightarrow> fmt_u (unat w)
      | XPC_TYPE_ENDPOINT \<Rightarrow> ascii ''<'' @ fmt_x (unat w) @ ascii ''>''
      | XPC_TYPE_NULL \<Rightarrow> ascii ''<null>''
      | XPC_TYPE_FD \<Rightarrow> ascii ''<'' @ fmt_d (sint (ucast w :: 32 word)) @ ascii ''>''
      | _ \<Rightarrow> ascii ''<ERROR-TYPE!>'')"

text \<open>The lines of the elements: indented by four blanks for each level, one blank at level 0.\<close>

definition indent :: "nat \<Rightarrow> byte list" where
  "indent l = fmt_padded (l * 4) (ascii '' '')"

primrec elems_text :: "nat \<Rightarrow> nat \<Rightarrow> (nat \<Rightarrow> byte list) list \<Rightarrow> byte list" where
  "elems_text l i [] = []"
| "elems_text l i (d # ds) =
     indent l @ fmt_u i @ ascii '': '' @ d (Suc l) @ elems_text l (Suc i) ds"

primrec pairs_text :: "nat \<Rightarrow> (byte list \<times> (nat \<Rightarrow> byte list)) list \<Rightarrow> byte list" where
  "pairs_text l [] = []"
| "pairs_text l (kd # kds) =
     indent l @ ascii [CHR 0x22] @ fst kd @ ascii [CHR 0x22] @ ascii '': '' @ snd kd (Suc l) @
     pairs_text l kds"

primrec describe_val :: "xval \<Rightarrow> nat \<Rightarrow> byte list" where
  "describe_val (VScalar t w) = (\<lambda>l. heading t @ scalar_text t w @ [10])"
| "describe_val (VString s) =
     (\<lambda>l. heading XPC_TYPE_STRING @ ascii [CHR 0x22] @ s @ ascii [CHR 0x22] @ [10])"
| "describe_val (VData bs) = (\<lambda>l. heading XPC_TYPE_DATA @ ascii ''<ERROR-TYPE!>'' @ [10])"
| "describe_val (VArray vs) =
     (\<lambda>l. heading XPC_TYPE_ARRAY @ [10] @ elems_text l 0 (map describe_val vs))"
| "describe_val (VDict kvs) =
     (\<lambda>l. heading XPC_TYPE_DICTIONARY @ [10] @ pairs_text l (map (map_prod id describe_val) kvs))"

lemma length_elems_text: "length ds \<le> length (elems_text l i ds)"
proof (induction ds arbitrary: i)
  case (Cons d ds)
  from Cons.IH [of "Suc i"] show ?case by (simp add: indent_def fmt_padded_def ascii_def)
qed simp

section \<open>Operations that print\<close>

definition prints :: "xmem \<Rightarrow> 'a describe_op \<Rightarrow> byte list \<Rightarrow> 'a \<Rightarrow> bool" where
  "prints m f t x \<longleftrightarrow> (\<forall>s. auto_ok s \<longrightarrow> s_error s = 0 \<longrightarrow> s_len s + int (length t) < SB_LIMIT \<longrightarrow>
     (\<exists>s'. f (s, m) = Inr (x, (s', m)) \<and> auto_ok s' \<and> s_error s' = 0 \<and>
       sb_text s' = sb_text s @ t))"

lemma prints_too_long: "SB_LIMIT \<le> int (length t) \<Longrightarrow> prints m f t x"
  by (auto simp: prints_def auto_ok_def sb_ok_def)

lemma prints_return: "prints m (return_m x) [] x"
  by (simp add: prints_def return_m_def)

lemma prints_mem: "f m = Inr (x, m) \<Longrightarrow> prints m (on_mem f) [] x"
  by (simp add: prints_def on_mem_def zoom_m_Inr)

lemma prints_bind:
  assumes f: "prints m f t x" and g: "prints m (g x) u y"
  shows "prints m (bind_m f g) (t @ u) y"
  unfolding prints_def
proof (intro allI impI)
  fix s :: "unit sbuf"
  assume s: "auto_ok s" "s_error s = 0" "s_len s + int (length (t @ u)) < SB_LIMIT"
  with f obtain s1 where s1: "f (s, m) = Inr (x, (s1, m))" "auto_ok s1" "s_error s1 = 0"
    "sb_text s1 = sb_text s @ t" unfolding prints_def by fastforce
  have "s_len s1 = s_len s + int (length t)"
    using s(1) s1(2,4) length_sb_text [of s] length_sb_text [of s1] by (simp add: auto_ok_def)
  with s(3) g s1 obtain s2 where "g x (s1, m) = Inr (y, (s2, m))" "auto_ok s2" "s_error s2 = 0"
    "sb_text s2 = sb_text s1 @ u" unfolding prints_def by fastforce
  with s1 show "\<exists>s'. bind_m f g (s, m) = Inr (y, (s', m)) \<and> auto_ok s' \<and> s_error s' = 0 \<and>
      sb_text s' = sb_text s @ t @ u" by (simp add: bind_m_Inr)
qed

lemma seq_m_bind: "seq_m f g = bind_m f (\<lambda>_. g)"
  by (simp add: fun_eq_iff seq_m_def bind_m_def)

lemma prints_seq: "prints m f t x \<Longrightarrow> prints m g u y \<Longrightarrow> prints m (seq_m f g) (t @ u) y"
  unfolding seq_m_bind by (rule prints_bind)

lemma prints_read: "f m = Inr (x, m) \<Longrightarrow> prints m (g x) u y \<Longrightarrow> prints m (bind_m (on_mem f) g) u y"
  using prints_bind [of m "on_mem f" "[]" x g u y] prints_mem [of f m x] by simp

lemma prints_print: "prints m (sb_print (\<lambda>_. True) t) t ()"
  unfolding prints_def
proof (intro allI impI)
  fix s :: "unit sbuf"
  assume s: "auto_ok s" "s_error s = 0" "s_len s + int (length t) < SB_LIMIT"
  then have ok: "sb_ok s" "s_drain_func s = None" "SBUF_CANEXTEND s" by (simp_all add: auto_ok_def)
  have "vprintf_pre (\<lambda>_. []) t s" "vprintf_fuel t s \<le> 2"
    using s ok by (simp_all add: vprintf_pre_def sb_drain_ok_def vprintf_fuel_def)
  moreover have "can_grow (\<lambda>_. True) (int (length t) - SBUF_FREESPACE s) s"
    using ok(3) s(3) by (simp add: can_grow_def SBUF_FREESPACE_def)
  ultimately obtain s' where "sbuf_vprintf 2 (\<lambda>_. True) (Some t) s = Inr (0, s')" "sb_ok s'" "sb_same s s'"
    "sb_text s' = sb_text s @ t" "s_error s' = 0"
    using sbuf_vprintf_spec [of "\<lambda>_. []" t s 2 "\<lambda>_. True"] ok by (fastforce simp: sb_out_nil)
  with ok show "\<exists>s'. sb_print (\<lambda>_. True) t (s, m) = Inr ((), (s', m)) \<and> auto_ok s' \<and>
      s_error s' = 0 \<and> sb_text s' = sb_text s @ t"
    by (auto simp: sb_print_def on_sbuf_def sbuf_printf_def seq_m_Inr zoom_m_Inr return_m_def
        auto_ok_def sb_same_def)
qed

lemma prints_eq: "(\<And>s. f (s, m) = g (s, m)) \<Longrightarrow> prints m g t x \<Longrightarrow> prints m f t x"
  by (simp add: prints_def)

section \<open>The loops\<close>

lemma sint_word_of_nat: "n < 2 ^ 63 \<Longrightarrow> sint (word_of_nat n :: 64 word) = int n"
  using sint_sbintrunc' [of "int n", where 'a = 64] by (simp add: signed_take_bit_int_eq_self)

lemma fmt_d_nat: "fmt_d (int n) = fmt_u n"
  by (simp add: fmt_d_def fmt_u_def)

lemma prints_elems:
  assumes "list_all2 (\<lambda>d b. prints m (D (Some b)) (d (Suc l)) ()) ds as" and "i + length as < 2 ^ 63"
  shows "prints m (apply_list (describe_elem (\<lambda>_. True) l D) (word_of_nat i) as) (elems_text l i ds) True"
  using assms
proof (induction arbitrary: i rule: list_all2_induct)
  case Nil
  then show ?case by (simp add: prints_return)
next
  case (Cons d ds b as)
  have idx: "fmt_d (sint (word_of_nat i :: 64 word)) = fmt_u i"
    using Cons.prems by (simp add: sint_word_of_nat fmt_d_nat)
  have elem: "prints m (describe_elem (\<lambda>_. True) l D (word_of_nat i) (Some b))
      ((indent l @ fmt_u i @ ascii '': '') @ d (Suc l) @ []) True"
    unfolding describe_elem_def idx indent_def
    by (rule prints_seq prints_print prints_return Cons.hyps)+
  have "prints m (apply_list (describe_elem (\<lambda>_. True) l D) (word_of_nat i + 1) as)
      (elems_text l (Suc i) ds) True"
    using Cons.IH [of "Suc i"] Cons.prems by (simp add: add.commute)
  then have "prints m (bind_m (describe_elem (\<lambda>_. True) l D (word_of_nat i) (Some b))
      (\<lambda>continue. if continue then apply_list (describe_elem (\<lambda>_. True) l D) (word_of_nat i + 1) as
        else return_m False)) (((indent l @ fmt_u i @ ascii '': '') @ d (Suc l) @ []) @
        elems_text l (Suc i) ds) True"
    by (intro prints_bind [OF elem]) simp
  then show ?case by simp
qed

lemma prints_pairs:
  assumes "list_all2 (\<lambda>k kd. strs m k = Some (fst kd)) ks kds"
    and "list_all2 (\<lambda>kd b. prints m (D (Some b)) (snd kd (Suc l)) ()) kds as"
  shows "prints m (apply_pairs (describe_pair (\<lambda>_. True) l D) (zip (map Some ks) (map Some as)))
    (pairs_text l kds) True"
  using assms
proof (induction arbitrary: as rule: list_all2_induct)
  case Nil
  then show ?case by (simp add: prints_return)
next
  case (Cons k ks kd kds)
  then obtain b as' where as: "as = b # as'" "prints m (D (Some b)) (snd kd (Suc l)) ()"
    "list_all2 (\<lambda>kd b. prints m (D (Some b)) (snd kd (Suc l)) ()) kds as'" by (cases as) auto
  let ?line = "indent l @ ascii [CHR 0x22] @ fst kd @ ascii [CHR 0x22] @ ascii '': ''"
  have "get_str (Some k) m = Inr (fst kd, m)" using Cons.hyps(1) by (rule get_str_runs)
  then have "prints m (describe_pair (\<lambda>_. True) l D (Some k) (Some b)) (?line @ snd kd (Suc l) @ []) True"
    unfolding describe_pair_def indent_def
    by (rule prints_read) (rule prints_seq prints_print prints_return as(2))+
  then have "prints m (bind_m (describe_pair (\<lambda>_. True) l D (Some k) (Some b))
      (\<lambda>continue. if continue then apply_pairs (describe_pair (\<lambda>_. True) l D)
         (zip (map Some ks) (map Some as')) else return_m False))
      ((?line @ snd kd (Suc l) @ []) @ pairs_text l kds) True"
    by (rule prints_bind) (simp add: Cons.IH [OF as(3)])
  then show ?case using as(1) by simp
qed

text \<open>Describing a value does not change the memory, so the traversals see the links they started with.\<close>

lemma ro_print: "keeps (on_snd unchanged) (sb_print mal t)"
  by (rule keepsI) (auto simp: sb_print_def on_sbuf_def on_snd_def unchanged_def return_m_def
      elim!: seq_m_InrE zoom_m_InrE)

lemma ro_describe: "keeps (on_snd unchanged) (xpc_copy_description_level fuel mal l p)"
proof (induction fuel arbitrary: l p)
  case 0
  then show ?case by (simp add: lro.keeps_fail)
next
  case (Suc fuel)
  have "keeps (on_snd unchanged) (describe_pair mal l (xpc_copy_description_level fuel mal l') k v)"
    and "keeps (on_snd unchanged) (describe_elem mal l (xpc_copy_description_level fuel mal l') i v)"
    for k v i l'
    unfolding describe_pair_def describe_elem_def by (intro ro_loop ro_gets ro_print Suc.IH)+
  then show ?case
    unfolding xpc_copy_description_level.simps describe_body_def apply_blocks_fun
    by (intro lro.keeps_if ro_loop ro.keeps_intros ro_gets ro_getters ro_u ro_print ro_apply_array
        ro_apply_dict)
qed

section \<open>Describing a value\<close>

lemma prints_level:
  assumes xo: "objs m a = Some xo"
    and body: "prints m (describe_body fuel (\<lambda>_. True) l
      (xpc_copy_description_level fuel (\<lambda>_. True) (Suc l)) (Some a) xo) u ()"
  shows "prints m (xpc_copy_description_level (Suc fuel) (\<lambda>_. True) l (Some a))
    (heading (xo_xpc_type xo) @ u) ()"
proof -
  let ?name = "type_description (xo_xpc_type xo)"
  have name: "xpc_get_type_name (Some a) m = Inr (?name, m)"
    using xo by (simp add: xpc_get_type_name_def bind_m_def get_obj_runs return_m_def)
  have "prints m (bind_m (on_mem (get_obj (Some a))) (describe_body fuel (\<lambda>_. True) l
        (xpc_copy_description_level fuel (\<lambda>_. True) (Suc l)) (Some a))) u ()"
    by (rule prints_read [where x = xo]) (use xo body in \<open>simp_all add: get_obj_runs\<close>)
  then have "prints m (seq_m (sb_print (\<lambda>_. True) (heading (xo_xpc_type xo)))
      (bind_m (on_mem (get_obj (Some a))) (describe_body fuel (\<lambda>_. True) l
        (xpc_copy_description_level fuel (\<lambda>_. True) (Suc l)) (Some a)))) (heading (xo_xpc_type xo) @ u) ()"
    by (rule prints_seq [OF prints_print])
  then show ?thesis
    using prints_read [where f = "xpc_get_type_name (Some a)" and x = ?name and m = m] name
    by (simp add: heading_def)
qed

lemma typed_get_runs:
  "objs m a = Some xo \<Longrightarrow> xo_xpc_type xo = t \<Longrightarrow> typed_get t d g (Some a) m = g xo m"
  by (simp add: typed_get_def bind_m_def get_obj_runs)

text \<open>The scalars: one line each.\<close>

lemma prints_scalar:
  assumes "scalar_type t" and "objs m a = Some xo" and "xo_xpc_type xo = t" and "xo_u xo = U_bits w"
  shows "prints m (describe_body fuel (\<lambda>_. True) l describe (Some a) xo) (scalar_text t w @ [10]) ()"
proof (rule prints_eq [OF _ prints_print])
  fix s :: "unit sbuf"
  note get = typed_get_runs [OF assms(2)] xpc_bool_get_value_def xpc_int64_get_value_def
    xpc_uint64_get_value_def xpc_date_get_value_def
  from assms(1) show "describe_body fuel (\<lambda>_. True) l describe (Some a) xo (s, m) =
      sb_print (\<lambda>_. True) (scalar_text t w @ [10]) (s, m)"
    by (cases t) (simp_all add: scalar_type_def scalar_text_def describe_body_def assms(3,4) get
        u_runs bind_m_def on_mem_def zoom_m_def)
qed

lemma prints_loop:
  assumes "prints m f u b"
  shows "prints m (seq_m (sb_print (\<lambda>_. True) [c]) (seq_m f (return_m ()))) (c # u) ()"
  using prints_seq [OF prints_print [of m "[c]"] prints_seq [OF assms prints_return]] by simp

text \<open>Arrays and dictionaries, given that their elements print their descriptions.\<close>

lemma describe_array:
  assumes val: "val_at (VArray vs) m a" and fuel: "need (VArray vs) \<le> Suc f"
    and elem: "\<And>v b. v \<in> set vs \<Longrightarrow> val_at v m b \<Longrightarrow> need v \<le> f \<Longrightarrow>
      prints m (xpc_copy_description_level f (\<lambda>_. True) (Suc l) (Some b)) (describe_val v (Suc l)) ()"
  shows "prints m (xpc_copy_description_level (Suc f) (\<lambda>_. True) l (Some a)) (describe_val (VArray vs) l) ()"
proof (cases "SB_LIMIT \<le> int (length (describe_val (VArray vs) l))")
  case True
  then show ?thesis by (rule prints_too_long)
next
  case False
  let ?D = "xpc_copy_description_level f (\<lambda>_. True) (Suc l)" and ?ds = "map describe_val vs"
  from val obtain as xo where rep: "arr_rep m a as" and all: "list_all2 (\<lambda>v b. val_at v m b) vs as"
    and xo: "objs m a = Some xo" "xo_xpc_type xo = XPC_TYPE_ARRAY" by (rule val_at_array)
  have len: "length as = length vs" "length as \<le> f" using list_all2_lengthD [OF all] fuel by simp_all
  have "list_all2 (\<lambda>d b. prints m (?D (Some b)) (d (Suc l)) ()) ?ds as"
    using array_elem_at [OF all fuel] elem len(1) by (simp add: list_all2_conv_all_nth)
  moreover have "length as < 2 ^ 63"
    using False length_elems_text [of ?ds l 0] len(1) by (simp add: heading_def ascii_def)
  ultimately have elems: "prints m (apply_list (describe_elem (\<lambda>_. True) l ?D) 0 as) (elems_text l 0 ?ds) True"
    using prints_elems [of m ?D l ?ds as 0] by simp
  have "keeps (on_snd unchanged) (describe_elem (\<lambda>_. True) l ?D i v)" for i v
    unfolding describe_elem_def by (intro ro_loop ro_print ro_describe)
  from prints_loop [OF prints_eq [OF traverse_array [OF rep len(2) this] elems]]
  have "prints m (describe_body f (\<lambda>_. True) l ?D (Some a) xo) ([10] @ elems_text l 0 ?ds) ()"
    by (simp add: describe_body_def xo(2))
  from prints_level [OF xo(1) this] show ?thesis by (simp add: xo(2))
qed

lemma describe_dict:
  assumes val: "val_at (VDict kvs) m a" and fuel: "need (VDict kvs) \<le> Suc f"
    and elem: "\<And>kv b. kv \<in> set kvs \<Longrightarrow> val_at (snd kv) m b \<Longrightarrow> need (snd kv) \<le> f \<Longrightarrow>
      prints m (xpc_copy_description_level f (\<lambda>_. True) (Suc l) (Some b)) (describe_val (snd kv) (Suc l)) ()"
  shows "prints m (xpc_copy_description_level (Suc f) (\<lambda>_. True) l (Some a)) (describe_val (VDict kvs) l) ()"
proof -
  let ?D = "xpc_copy_description_level f (\<lambda>_. True) (Suc l)" and ?kds = "map (map_prod id describe_val) kvs"
  from val obtain n as xo where rep: "dict_map n m a (zip (map fst kvs) as)"
    and all: "list_all2 (\<lambda>kv b. val_at (snd kv) m b) kvs as"
    and xo: "objs m a = Some xo" "xo_xpc_type xo = XPC_TYPE_DICTIONARY" by (rule val_at_dict)
  have len: "length as = length kvs" "length kvs \<le> f" using list_all2_lengthD [OF all] fuel by simp_all
  have each: "list_all2 (\<lambda>kd b. prints m (?D (Some b)) (snd kd (Suc l)) ()) ?kds as"
    using dict_elem_at [OF all fuel] elem len(1) by (simp add: list_all2_conv_all_nth)
  have ro: "keeps (on_snd unchanged) (describe_pair (\<lambda>_. True) l ?D k v)" for k v
    unfolding describe_pair_def by (intro ro_loop ro_gets ro_print ro_describe)
  have "prints m (xpc_dictionary_apply f (Some a) (describe_pair (\<lambda>_. True) l ?D)) (pairs_text l ?kds) True"
    unfolding prints_def
  proof (intro allI impI)
    fix s :: "unit sbuf"
    assume s: "auto_ok s" "s_error s = 0" "s_len s + int (length (pairs_text l ?kds)) < SB_LIMIT"
    from traverse_dict [where u = s and f = "describe_pair (\<lambda>_. True) l ?D", OF rep len ro] obtain ks where
      ks: "list_all2 (\<lambda>k kv. strs m k = Some (fst kv)) ks kvs"
      and run: "xpc_dictionary_apply f (Some a) (describe_pair (\<lambda>_. True) l ?D) (s, m) =
        apply_pairs (describe_pair (\<lambda>_. True) l ?D) (zip (map Some ks) (map Some as)) (s, m)" by blast
    have "list_all2 (\<lambda>k kd. strs m k = Some (fst kd)) ks ?kds"
      using ks by (simp add: list_all2_conv_all_nth)
    from prints_pairs [OF this each] s show "\<exists>s'. xpc_dictionary_apply f (Some a)
        (describe_pair (\<lambda>_. True) l ?D) (s, m) = Inr (True, (s', m)) \<and> auto_ok s' \<and> s_error s' = 0 \<and>
        sb_text s' = sb_text s @ pairs_text l ?kds"
      unfolding run prints_def by simp
  qed
  from prints_loop [OF this] have
    "prints m (describe_body f (\<lambda>_. True) l ?D (Some a) xo) ([10] @ pairs_text l ?kds) ()"
    by (simp add: describe_body_def xo(2))
  from prints_level [OF xo(1) this] show ?thesis by (simp add: xo(2))
qed

text \<open>A value's description: the fuel that hashing takes is enough.\<close>

lemma describe_spec:
  "val_at v m a \<Longrightarrow> need v \<le> fuel \<Longrightarrow>
   prints m (xpc_copy_description_level fuel (\<lambda>_. True) l (Some a)) (describe_val v l) ()"
proof (induction v arbitrary: a fuel l)
  case (VScalar t w)
  then obtain f xo where "fuel = Suc f" "scalar_type t" "objs m a = Some xo" "xo_xpc_type xo = t"
    "xo_u xo = U_bits w" by (cases fuel) (auto simp: obj_is_def)
  then show ?case using prints_level [OF _ prints_scalar] by fastforce
next
  case (VString s)
  then obtain f xo p where f: "fuel = Suc f" and xo: "objs m a = Some xo" "xo_xpc_type xo = XPC_TYPE_STRING"
    "xo_u xo = U_str (Some p)" "strs m p = Some s" by (cases fuel) (auto simp: obj_is_def)
  have "prints m (describe_body f (\<lambda>_. True) l (xpc_copy_description_level f (\<lambda>_. True) (Suc l)) (Some a) xo)
      (ascii [CHR 0x22] @ s @ ascii [CHR 0x22] @ [10]) ()"
    by (rule prints_eq [OF _ prints_print])
      (simp add: describe_body_def xo typed_get_runs [OF xo(1)] xpc_string_get_string_ptr_def u_runs
        get_str_runs bind_m_def on_mem_def zoom_m_def)
  from prints_level [OF xo(1) this] show ?case by (simp add: f xo(2))
next
  case (VData bs)
  then obtain f xo where f: "fuel = Suc f" and xo: "objs m a = Some xo" "xo_xpc_type xo = XPC_TYPE_DATA"
    by (cases fuel) (auto simp: obj_is_def)
  have "prints m (describe_body f (\<lambda>_. True) l (xpc_copy_description_level f (\<lambda>_. True) (Suc l)) (Some a) xo)
      (ascii ''<ERROR-TYPE!>'' @ [10]) ()"
    by (rule prints_eq [OF _ prints_print]) (simp add: describe_body_def xo(2))
  from prints_level [OF xo(1) this] show ?case by (simp add: f xo(2))
next
  case (VArray vs)
  from VArray.prems(2) obtain f where f: "fuel = Suc f" by (cases fuel) auto
  show ?case
    using describe_array [OF VArray.prems(1) VArray.prems(2) [unfolded f]] VArray.IH unfolding f by blast
next
  case (VDict kvs)
  from VDict.prems(2) obtain f where f: "fuel = Suc f" by (cases fuel) auto
  have "prints m (xpc_copy_description_level f (\<lambda>_. True) (Suc l) (Some b)) (describe_val (snd kv) (Suc l)) ()"
    if "kv \<in> set kvs" "val_at (snd kv) m b" "need (snd kv) \<le> f" for kv b
    using VDict.IH [OF that(1) _ that(2,3)] by (simp add: snds.simps)
  then show ?case using describe_dict [OF VDict.prems(1) VDict.prems(2) [unfolded f]] unfolding f by blast
qed

section \<open>The description as a C string\<close>

text \<open>C strings hold no NUL: then neither does the description.\<close>

primrec c_strings :: "xval \<Rightarrow> bool" where
  "c_strings (VScalar t w) = True"
| "c_strings (VString s) = (0 \<notin> set s)"
| "c_strings (VData bs) = True"
| "c_strings (VArray vs) = list_all id (map c_strings vs)"
| "c_strings (VDict kvs) = list_all (\<lambda>kc. 0 \<notin> set (fst kc) \<and> snd kc) (map (map_prod id c_strings) kvs)"

lemma digit_char_nonzero: "d < 16 \<Longrightarrow> digit_char d \<noteq> 0"
  by (auto simp: digit_char_def word_of_nat_eq_0_iff dest: dvd_imp_le)

lemma digits_no_nul: "2 \<le> b \<Longrightarrow> b \<le> 16 \<Longrightarrow> 0 \<notin> set (digits b n)"
proof (induction b n rule: digits.induct)
  case (1 b n)
  then show ?case
    by (subst digits.simps) (auto simp: digit_char_nonzero less_le_trans [OF mod_less_divisor])
qed

lemma fmt_no_nul: "0 \<notin> set (fmt_u n)" "0 \<notin> set (fmt_x n)" "0 \<notin> set (fmt_d i)"
  by (simp_all add: fmt_u_def fmt_x_def fmt_d_def digits_no_nul)

lemma indent_no_nul: "0 \<notin> set (indent l)"
  by (simp add: indent_def fmt_padded_def ascii_def)

lemma heading_no_nul: "0 \<notin> set (heading t)"
  by (cases t) (simp_all add: heading_def ascii_def)

lemma scalar_no_nul: "0 \<notin> set (scalar_text t w)"
  by (cases t) (simp_all add: scalar_text_def ascii_def fmt_no_nul)

lemma elems_no_nul: "(\<And>d. d \<in> set ds \<Longrightarrow> 0 \<notin> set (d (Suc l))) \<Longrightarrow> 0 \<notin> set (elems_text l i ds)"
  by (induction ds arbitrary: i) (auto simp: indent_no_nul fmt_no_nul ascii_def)

lemma pairs_no_nul:
  "(\<And>kd. kd \<in> set kds \<Longrightarrow> 0 \<notin> set (fst kd) \<and> 0 \<notin> set (snd kd (Suc l))) \<Longrightarrow>
   0 \<notin> set (pairs_text l kds)"
  by (induction kds) (auto simp: indent_no_nul ascii_def)

lemma describe_no_nul: "c_strings v \<Longrightarrow> 0 \<notin> set (describe_val v l)"
proof (induction v arbitrary: l)
  case (VArray vs)
  then show ?case
    by (auto simp: heading_no_nul list_all_iff intro!: elems_no_nul)
next
  case (VDict kvs)
  have "0 \<notin> set (pairs_text l (map (map_prod id describe_val) kvs))"
  proof (rule pairs_no_nul)
    fix kd assume "kd \<in> set (map (map_prod id describe_val) kvs)"
    then obtain kv where kv: "kv \<in> set kvs" "kd = (fst kv, describe_val (snd kv))" by force
    with VDict.prems have "0 \<notin> set (fst kv)" "c_strings (snd kv)" by (auto simp: list_all_iff)
    with VDict.IH [OF kv(1), of "snd kv"] kv(2)
    show "0 \<notin> set (fst kd) \<and> 0 \<notin> set (snd kd (Suc l))" by (simp add: snds.simps)
  qed
  then show ?case by (simp add: heading_no_nul)
qed (auto simp: heading_no_nul scalar_no_nul ascii_def)

lemma copy_description_spec:
  assumes "val_at v m a" and "c_strings v" and "need v \<le> fuel"
    and "int (length (describe_val v 0)) < SB_LIMIT" and "malloc_ok m (next_addr m)"
  shows "xpc_copy_description fuel (\<lambda>_. True) (Some a) m = Inr (Some (next_addr m),
    m\<lparr>next_addr := Suc (next_addr m), strs := (strs m)(next_addr m \<mapsto> describe_val v 0)\<rparr>)"
proof -
  let ?t = "describe_val v 0"
  obtain s :: "unit sbuf" where s: "sbuf_new_auto (\<lambda>_. True) = Some s" "auto_ok s" "s_error s = 0"
    "s_len s = 0" "sb_text s = []" using sbuf_new_auto_ok by blast
  from describe_spec [OF assms(1,3), of 0] s assms(4) obtain s1 where
    s1: "xpc_copy_description_level fuel (\<lambda>_. True) 0 (Some a) (s, m) = Inr ((), (s1, m))"
      "auto_ok s1" "s_error s1 = 0" "sb_text s1 = ?t" unfolding prints_def by auto
  then have l: "s_len s1 = int (length ?t)" using length_sb_text [of s1] by (simp add: auto_ok_def)
  from s1(2) obtain b where b: "s_buf s1 = Some b" "s_len s1 < int (length b)" "s_drain_func s1 = None"
    by (auto simp: auto_ok_def sb_ok_def)
  let ?b = "b[length ?t := 0]"
  have "take (length ?t) b = ?t" using s1(4) b(1) l by (simp add: sb_text_def)
  moreover have i: "length ?t < length b" using b(2) l by simp
  ultimately have cells: "?b = ?t @ 0 # drop (Suc (length ?t)) b"
    by (simp add: upd_conv_take_nth_drop)
  have "\<forall>c \<in> set ?t. c \<noteq> 0" using describe_no_nul [OF assms(2), of 0] by auto
  then have str: "takeWhile (\<lambda>c. c \<noteq> 0) ?b = ?t" "0 \<in> set ?b"
    unfolding cells by (simp_all add: takeWhile_append2)
  have fin: "sbuf_finish 0 s1 = Inr (0, SBUF_SETFLAG SBUF_FINISHED (s1\<lparr>s_buf := Some ?b\<rparr>))"
    using b l s1(3) by (simp add: sbuf_finish_def seq_m_Inr)
  show ?thesis
    using s(1) s1(1) fin str assms(5)
    by (simp add: xpc_copy_description_def with_local_def on_sbuf_def on_mem_def strdup_data_def
        new_str_def malloc_def sbuf_delete_def sbuf_data_def SBUF_SETFLAG_def run_defs)
qed

section \<open>Reading numbers back\<close>

definition digit_value :: "byte \<Rightarrow> nat" where
  "digit_value c = (if c < 58 then unat c - 48 else unat c - 87)"

definition read_number :: "nat \<Rightarrow> byte list \<Rightarrow> nat" where
  "read_number b = foldl (\<lambda>n c. n * b + digit_value c) 0"

lemma digit_value_char: "d < 16 \<Longrightarrow> digit_value (digit_char d) = d"
  by (auto simp: digit_value_def digit_char_def word_less_nat_alt unat_of_nat)

lemma read_number_snoc: "read_number b (ds @ [c]) = read_number b ds * b + digit_value c"
  by (simp add: read_number_def)

lemma read_number_digits: "2 \<le> b \<Longrightarrow> b \<le> 16 \<Longrightarrow> read_number b (digits b n) = n"
proof (induction b n rule: digits.induct)
  case (1 b n)
  then show ?case
    by (subst digits.simps)
      (auto simp: read_number_snoc digit_value_char read_number_def less_le_trans [OF mod_less_divisor])
qed

text \<open>Decimal digits read to the base 16 give a number that is too large, from 10 on.\<close>

lemma read_decimal_as_hex: "n \<le> read_number 16 (digits 10 n) \<and>
    (10 \<le> n \<longrightarrow> n < read_number 16 (digits 10 n))"
proof (induction "10::nat" n rule: digits.induct)
  case (1 n)
  show ?case
  proof (cases "n < 10")
    case True
    then show ?thesis by (subst (1 2) digits.simps) (simp add: read_number_def digit_value_char)
  next
    case False
    let ?r = "read_number 16 (digits 10 (n div 10))"
    have "read_number 16 (digits 10 n) = ?r * 16 + n mod 10"
      using False by (subst digits.simps) (simp add: read_number_snoc digit_value_char)
    moreover have "n div 10 \<le> ?r" using 1 False by simp
    moreover have "n = n div 10 * 10 + n mod 10" "0 < n div 10" using False by simp_all
    ultimately have "n < read_number 16 (digits 10 n)" by linarith
    then show ?thesis by simp
  qed
qed

lemma length_digits: "2 \<le> b \<Longrightarrow> n < 2 ^ k \<Longrightarrow> length (digits b n) \<le> Suc k"
proof (induction k arbitrary: n)
  case 0
  then show ?case by (simp add: digits.simps [of b 0])
next
  case (Suc k)
  show ?case
  proof (cases "n < b")
    case False
    have "n div b \<le> n div 2" using Suc.prems(1) by (intro div_le_mono2) auto
    also have "\<dots> < 2 ^ k" using Suc.prems(2) by simp
    finally show ?thesis
      using Suc.IH [of "n div b"] Suc.prems(1) False by (simp add: digits.simps [of b n])
  qed (simp add: digits.simps [of b n])
qed

lemma hd_digits: "2 \<le> b \<Longrightarrow> b \<le> 16 \<Longrightarrow> 0 < n \<Longrightarrow> hd (digits b n) \<noteq> digit_char 0"
proof (induction b n rule: digits.induct)
  case (1 b n)
  show ?case
  proof (cases "n < b")
    case True
    then have "digit_value (digit_char n) = n" using 1 by (intro digit_value_char) simp
    then show ?thesis using True 1 digit_value_char [of 0] by (auto simp: digits.simps [of b n])
  next
    case False
    then have "0 < n div b" using 1 by (simp add: div_greater_zero_iff)
    moreover have "digits b (n div b) \<noteq> []" by (subst digits.simps) simp
    ultimately show ?thesis using False 1 by (simp add: digits.simps [of b n])
  qed
qed

end
