(* ===== verification/XpcDescribeClaims.thy ===== *)
theory XpcDescribeClaims
  imports XpcDescribeSpec XpcRelease
begin

text \<open>
  The properties of descriptions: what is printed for a value, and which of the numbers printed can
  be read back.
\<close>

lemma copy_description_scalar:
  assumes "val_at (VScalar t w) m a" and "malloc_ok m (next_addr m)" and "1 \<le> fuel"
    and "length (scalar_text t w) < 1000"
  shows "\<exists>m'. xpc_copy_description fuel (\<lambda>_. True) (Some a) m = Inr (Some (next_addr m), m') \<and>
    strs m' (next_addr m) = Some (heading t @ scalar_text t w @ [10])"
proof -
  have "length (heading t) < 100" by (cases t) (simp_all add: heading_def ascii_def)
  with assms have "xpc_copy_description fuel (\<lambda>_. True) (Some a) m = Inr (Some (next_addr m),
    m\<lparr>next_addr := Suc (next_addr m), strs := (strs m)(next_addr m \<mapsto> describe_val (VScalar t w) 0)\<rparr>)"
    by (intro copy_description_spec) simp_all
  then show ?thesis by simp
qed

lemma length_digits_word: "2 \<le> b \<Longrightarrow> length (digits b (unat (w :: 64 word))) \<le> 65"
  using length_digits [of b "unat w" 64] unsigned_less [of w] by simp

section \<open>Properties\<close>

text \<open>C38: \<open>xpc_copy_description\<close> of an object returns a new string that is the description of the
  value the object represents, whatever its depth: the type of every value in parentheses, the
  scalars, the elements with their indices and the pairs with their keys in order, one line each,
  indented by level.  There is memory for the buffer, which grows as needed, and for the string;
  nothing but the new string is left behind.\<close>

theorem copy_description_prints:
  assumes "val_at v m a" and "c_strings v" and "need v \<le> fuel"
    and "int (length (describe_val v 0)) < SB_LIMIT" and "malloc_ok m (next_addr m)"
  shows "xpc_copy_description fuel (\<lambda>_. True) (Some a) m = Inr (Some (next_addr m),
    m\<lparr>next_addr := Suc (next_addr m), strs := (strs m)(next_addr m \<mapsto> describe_val v 0)\<rparr>)"
  using assms by (rule copy_description_spec)

text \<open>The array of the numbers 7 and 9.\<close>

theorem copy_description_prints_witness:
  "\<exists>m p m'. xpc_array_create [Some 2, Some 3] demo_mem = Inr (Some 4, m) \<and>
     xpc_copy_description 5 (\<lambda>_. True) (Some 4) m = Inr (Some p, m') \<and>
     strs m' p = Some (ascii ''(array) '' @ [10] @ ascii '' 0: (int64) 0x7'' @ [10] @
       ascii '' 1: (int64) 0x9'' @ [10])"
proof -
  from demo_arrays(1) obtain m where m: "xpc_array_create [Some 2, Some 3] demo_mem = Inr (Some 4, m)"
    "val_at (VArray [VScalar XPC_TYPE_INT64 7, VScalar XPC_TYPE_INT64 9]) m 4" by blast
  let ?v = "VArray [VScalar XPC_TYPE_INT64 7, VScalar XPC_TYPE_INT64 9]"
  have "sound (xpc_array_create [Some 2, Some 3])" by (rule keeps_array_create)
  from keepsD [OF this m(1)] have "malloc_ok m = malloc_ok demo_mem"
    by (simp add: mem_step_def same_env_def)
  then have ok: "malloc_ok m (next_addr m)" by simp
  have desc: "describe_val ?v 0 = ascii ''(array) '' @ [10] @ ascii '' 0: (int64) 0x7'' @ [10] @
      ascii '' 1: (int64) 0x9'' @ [10]"
    by (simp add: heading_def scalar_text_def indent_def fmt_padded_def fmt_d_def fmt_u_def digits.simps
        digit_char_def ascii_def)
  have "int (length (describe_val ?v 0)) < SB_LIMIT" unfolding desc by (simp add: ascii_def)
  from copy_description_prints [OF m(2) _ _ this ok, of 5]
  obtain m' where "xpc_copy_description 5 (\<lambda>_. True) (Some 4) m = Inr (Some (next_addr m), m')"
    "strs m' (next_addr m) = Some (describe_val ?v 0)" by (simp del: describe_val.simps)
  with m(1) show ?thesis unfolding desc by blast
qed

text \<open>The description of an unsigned number is its digits to the base 16 after ``0x'', without
  leading zeros: reading them back gives the number.\<close>

theorem description_uint64_reads_back:
  assumes "val_at (VScalar XPC_TYPE_UINT64 w) m a" and "malloc_ok m (next_addr m)" and "1 \<le> fuel"
  shows "\<exists>m' ds. xpc_copy_description fuel (\<lambda>_. True) (Some a) m = Inr (Some (next_addr m), m') \<and>
    strs m' (next_addr m) = Some (ascii ''(uint64) 0x'' @ ds @ [10]) \<and>
    read_number 16 ds = unat w \<and> (w \<noteq> 0 \<longrightarrow> hd ds \<noteq> digit_char 0)"
proof -
  have "length (scalar_text XPC_TYPE_UINT64 w) < 1000"
    using length_digits_word [of 16 w] by (simp add: scalar_text_def fmt_x_def ascii_def)
  from copy_description_scalar [OF assms(1-3) this] obtain m' where
    "xpc_copy_description fuel (\<lambda>_. True) (Some a) m = Inr (Some (next_addr m), m')"
    "strs m' (next_addr m) = Some (ascii ''(uint64) 0x'' @ digits 16 (unat w) @ [10])"
    by (auto simp: heading_def scalar_text_def fmt_x_def ascii_def)
  then show ?thesis using read_number_digits [of 16 "unat w"] hd_digits [of 16 "unat w"]
    by (auto simp: unat_gt_0)
qed

theorem description_uint64_reads_back_witness:
  "\<exists>m' ds. xpc_copy_description 1 (\<lambda>_. True) (Some 4)
     (new_object XPC_TYPE_UINT64 (U_bits 0xFF) 1 0 demo_mem) = Inr (Some 5, m') \<and>
   strs m' 5 = Some (ascii ''(uint64) 0x'' @ ds @ [10]) \<and> read_number 16 ds = 255"
proof -
  let ?m = "new_object XPC_TYPE_UINT64 (U_bits 0xFF) 1 0 demo_mem"
  have "val_at (VScalar XPC_TYPE_UINT64 0xFF) ?m 4"
    by (simp add: obj_is_def scalar_type_def new_object_def Let_def)
  from description_uint64_reads_back [OF this, of 1] show ?thesis
    by (auto simp: new_object_def Let_def simp del: val_at.simps)
qed

text \<open>The description of a signed number has ``0x'' in front of decimal digits: from 10 on, what
  is printed reads as a larger number than the one described.\<close>

theorem description_int64_misread:
  assumes "val_at (VScalar XPC_TYPE_INT64 w) m a" and "malloc_ok m (next_addr m)" and "1 \<le> fuel"
    and "10 \<le> sint w"
  shows "\<exists>m' ds. xpc_copy_description fuel (\<lambda>_. True) (Some a) m = Inr (Some (next_addr m), m') \<and>
    strs m' (next_addr m) = Some (ascii ''(int64) 0x'' @ ds @ [10]) \<and>
    read_number 10 ds = nat (sint w) \<and> read_number 16 ds > nat (sint w)"
proof -
  have "nat (sint w) < 2 ^ 64" using sint_lt [of w] by simp
  then have "length (digits 10 (nat (sint w))) \<le> 65" using length_digits [of 10 "nat (sint w)" 64] by simp
  then have "length (scalar_text XPC_TYPE_INT64 w) < 1000"
    using assms(4) by (simp add: scalar_text_def fmt_d_def ascii_def)
  from copy_description_scalar [OF assms(1-3) this] assms(4) obtain m' where
    "xpc_copy_description fuel (\<lambda>_. True) (Some a) m = Inr (Some (next_addr m), m')"
    "strs m' (next_addr m) = Some (ascii ''(int64) 0x'' @ digits 10 (nat (sint w)) @ [10])"
    by (auto simp: heading_def scalar_text_def fmt_d_def ascii_def)
  then show ?thesis
    using read_number_digits [of 10 "nat (sint w)"] read_decimal_as_hex [of "nat (sint w)"] assms(4)
    by auto
qed

theorem description_int64_misread_witness:
  "\<exists>m' ds. xpc_copy_description 1 (\<lambda>_. True) (Some 4)
     (new_object XPC_TYPE_INT64 (U_bits 16) 1 0 demo_mem) = Inr (Some 5, m') \<and>
   strs m' 5 = Some (ascii ''(int64) 0x'' @ ds @ [10]) \<and> read_number 10 ds = 16 \<and>
   read_number 16 ds > 16"
proof -
  let ?m = "new_object XPC_TYPE_INT64 (U_bits 16) 1 0 demo_mem"
  have "val_at (VScalar XPC_TYPE_INT64 16) ?m 4"
    by (simp add: obj_is_def scalar_type_def new_object_def Let_def)
  from description_int64_misread [OF this, of 1] show ?thesis
    by (auto simp: new_object_def Let_def simp del: val_at.simps)
qed

end
