(* ===== verification/XpcUuid.thy ===== *)
theory XpcUuid
  imports XpcBuild XpcDescribeClaims
begin

text \<open>
  UUIDs, which a build with \<open>HAVE_uuid\<close> has: they are stored and read at full length, by themselves
  and in arrays, but they are neither copied nor hashed, and describing one frees an array that is
  on the stack.
\<close>

section \<open>Creation\<close>

lemma uuid_create_runs:
  assumes "blobs m p = Some bs" and "16 \<le> length bs" and "malloc_ok m (next_addr m)"
  shows "xpc_uuid_create (Some p) m =
    Inr (Some (next_addr m), new_object XPC_TYPE_UUID (U_uuid (take 16 bs)) 1 0 m)"
  using assms by (simp add: xpc_uuid_create_def get_bytes_def xpc_prim_create_def prim_create_runs run_defs)

lemma uuid_get_runs:
  assumes "objs m a = Some xo" and "xo_xpc_type xo = XPC_TYPE_UUID" and "xo_u xo = U_uuid bs"
  shows "xpc_uuid_get_bytes (Some a) m = Inr (Some bs, m)"
  using assms by (simp add: xpc_uuid_get_bytes_def typed_get_def get_obj_runs u_runs bind_m_def return_m_def)

section \<open>Properties\<close>

text \<open>A new UUID object holds the sixteen bytes that it was made of; its copy is NULL and its hash 0.\<close>

theorem uuid_round_trip:
  assumes "blobs m p = Some bs" and "16 \<le> length bs" and "malloc_ok m (next_addr m)"
  shows "\<exists>v m'. xpc_uuid_create (Some p) m = Inr (Some v, m') \<and>
    xpc_uuid_get_bytes (Some v) m' = Inr (Some (take 16 bs), m') \<and>
    xpc_copy (Suc f) (Some v) m' = Inr (None, m') \<and> xpc_hash (Suc f) (Some v) m' = Inr (0, m')"
proof -
  let ?m = "new_object XPC_TYPE_UUID (U_uuid (take 16 bs)) 1 0 m"
  obtain xo where xo: "objs ?m (next_addr m) = Some xo" "xo_xpc_type xo = XPC_TYPE_UUID"
    "xo_u xo = U_uuid (take 16 bs)" by (simp add: new_object_def Let_def)
  from uuid_create_runs [OF assms] uuid_get_runs [OF xo] xo show ?thesis
    by (auto simp: get_obj_runs bind_m_def return_m_def)
qed

definition demo_uuid :: xmem where
  "demo_uuid = demo_mem\<lparr>blobs := [2 \<mapsto> replicate 16 5]\<rparr>"

theorem uuid_round_trip_witness:
  "\<exists>v m'. xpc_uuid_create (Some 2) demo_uuid = Inr (Some v, m') \<and>
    xpc_uuid_get_bytes (Some v) m' = Inr (Some (replicate 16 5), m')"
  using uuid_round_trip [of demo_uuid 2 "replicate 16 5"] by (force simp: demo_uuid_def)

text \<open>A UUID set into an array by index is read back from there.\<close>

theorem array_uuid_set_then_get:
  assumes "arr_rep m a vs" and "objs m a = Some xo" and "length vs < 2 ^ 64"
    and "unat i < unat (xo_size xo)" and "unat i < length vs" and "i \<noteq> XPC_ARRAY_APPEND"
    and "vs ! unat i \<notin> {a, xpc_bool_true, xpc_bool_false}"
    and "blobs m p = Some bs" and "16 \<le> length bs" and "malloc_ok m (next_addr m)"
  shows "\<exists>m'. xpc_array_set_uuid (Some a) i (Some p) m = Inr ((), m') \<and>
    xpc_array_get_uuid (Some a) i m' = Inr (Some (take 16 bs), m')"
proof -
  let ?v = "next_addr m" and ?m = "new_object XPC_TYPE_UUID (U_uuid (take 16 bs)) 1 0 m"
  have ok: "mem_ok m" using assms(1) by (simp add: arr_rep_def)
  then have "mem_ok ?m" using mem_ok_new_object [of m XPC_TYPE_UUID "U_uuid (take 16 bs)"] by simp
  then have rep: "arr_rep ?m a vs"
    by (rule arr_rep_agree [OF assms(1) _ new_object_agree [of "next_addr m"]]) simp_all
  have low: "x < ?v" if "objs m x \<noteq> None" for x using ok that by (auto simp: mem_ok_def not_less [symmetric])
  have "a < ?v" using low assms(2) by simp
  then have xo: "objs ?m a = Some xo" using assms(2) by (simp add: new_object_def Let_def)
  obtain vo where vo: "objs ?m ?v = Some vo" "xo_xpc_type vo = XPC_TYPE_UUID" "xo_u vo = U_uuid (take 16 bs)"
    by (simp add: new_object_def Let_def)
  have new: "?v \<notin> set vs" using arr_rep_live [OF assms(1)] low by (fastforce simp: live_def)
  have old: "vs ! unat i \<noteq> a" "vs ! unat i \<noteq> xpc_bool_true" "vs ! unat i \<noteq> xpc_bool_false"
    using assms(7) by auto
  from array_set_spec [OF rep xo assms(3-6) vo(1) new old] obtain m' where
    m': "xpc_array_set_value (Some a) i (Some ?v) ?m = Inr ((), m')" "arr_rep m' a (vs[unat i := ?v])"
      "objs m' = (objs ?m)(?v \<mapsto> vo\<lparr>xo_refcnt := xo_refcnt vo + 1\<rparr>, vs ! unat i := None)" by blast
  have "vs ! unat i \<noteq> ?v" using new assms(5) by (metis nth_mem)
  then have "objs m' ?v = Some (vo\<lparr>xo_refcnt := xo_refcnt vo + 1\<rparr>)" using m'(3) by simp
  from uuid_get_runs [OF this] vo have get: "xpc_uuid_get_bytes (Some ?v) m' = Inr (Some (take 16 bs), m')" by simp
  have "objs m' a = Some xo" using m'(3) xo \<open>a < ?v\<close> old(1) by simp
  from array_get_spec [OF m'(2) this, of i] assms(3-5)
  have "xpc_array_get_value (Some a) i m' = Inr (Some ?v, m')" by simp
  with get m'(1) uuid_create_runs [OF assms(8-10)] show ?thesis
    by (simp add: xpc_array_set_uuid_def xpc_array_get_uuid_def bind_m_def)
qed

text \<open>Describing a UUID always ends in a wrong \<open>free\<close>.\<close>

theorem describe_uuid_faults:
  assumes "objs m a = Some xo" and "xo_xpc_type xo = XPC_TYPE_UUID" and "xo_u xo = U_uuid bs"
  shows "xpc_copy_description (Suc fuel) (\<lambda>_. True) (Some a) m = Inl BadFree"
proof -
  obtain s :: "unit sbuf" where s: "sbuf_new_auto (\<lambda>_. True) = Some s" "auto_ok s" "s_error s = 0"
    "s_len s = 0" using sbuf_new_auto_ok by blast
  let ?h = "heading XPC_TYPE_UUID"
  have h: "?h = ascii ''('' @ ascii ''UUID'' @ ascii '') ''" by (simp add: heading_def)
  have "prints m (sb_print (\<lambda>_. True) ?h) ?h ()" by (rule prints_print)
  moreover have "s_len s + int (length ?h) < SB_LIMIT" using s(4) by (simp add: h ascii_def)
  ultimately obtain s' where "sb_print (\<lambda>_. True) ?h (s, m) = Inr ((), (s', m))"
    using s(2,3) unfolding prints_def by blast
  then have "xpc_copy_description_level (Suc fuel) (\<lambda>_. True) 0 (Some a) (s, m) = Inl BadFree"
    using assms uuid_get_runs [OF assms]
    by (simp add: xpc_get_type_name_def get_obj_runs on_mem_def describe_body_def h run_defs)
  then show ?thesis
    by (simp add: xpc_copy_description_def s(1) with_local_def run_defs del: xpc_copy_description_level.simps)
qed

theorem describe_uuid_faults_witness:
  "\<exists>v m'. xpc_uuid_create (Some 2) demo_uuid = Inr (Some v, m') \<and>
    xpc_copy_description 3 (\<lambda>_. True) (Some v) m' = Inl BadFree"
proof -
  let ?m = "new_object XPC_TYPE_UUID (U_uuid (replicate 16 5)) 1 0 demo_uuid"
  have run: "xpc_uuid_create (Some 2) demo_uuid = Inr (Some (next_addr demo_uuid), ?m)"
    using uuid_create_runs [of demo_uuid 2 "replicate 16 5"] by (simp add: demo_uuid_def)
  have "xpc_copy_description (Suc 2) (\<lambda>_. True) (Some (next_addr demo_uuid)) ?m = Inl BadFree"
    by (rule describe_uuid_faults [where bs = "replicate 16 5"]) (simp add: new_object_def Let_def, simp_all)
  with run show ?thesis by (simp add: numeral_3_eq_3)
qed

end
