(* ===== verification/XpcMach.thy ===== *)
theory XpcMach
  imports XpcInvariant XpcDictClaims
begin

text \<open>
  The functions of \<open>xpc_dictionary.c\<close> that are compiled with \<open>MACH\<close>.  A port is a number of 32 bits,
  \<open>mach_port_t\<close>.
\<close>

section \<open>Ports in dictionaries\<close>

text \<open>
  \<open>val.port = port\<close> writes the lowest four bytes of a union on the stack.  The new endpoint is not
  released after it was put into the dictionary, which retains it.
\<close>

definition xpc_dictionary_set_mach_recv :: "ptr \<Rightarrow> ptr \<Rightarrow> 32 word \<Rightarrow> (xmem, unit) op" where
  "xpc_dictionary_set_mach_recv xdict key port =
     bind_m (gets_m stack_junk) (\<lambda>val.
     bind_m (xpc_prim_create XPC_TYPE_ENDPOINT (U_bits (with_fd port val)) 0) (\<lambda>xotmp.
     xpc_dictionary_set_value xdict key xotmp))"

definition xpc_dictionary_set_mach_send :: "ptr \<Rightarrow> ptr \<Rightarrow> 32 word \<Rightarrow> (xmem, unit) op" where
  "xpc_dictionary_set_mach_send xdict key port =
     bind_m (gets_m stack_junk) (\<lambda>val.
     bind_m (xpc_prim_create XPC_TYPE_ENDPOINT (U_bits (with_fd port val)) 0) (\<lambda>xotmp.
     xpc_dictionary_set_value xdict key xotmp))"

text \<open>
  \<open>xo_audit_token\<close> is set to NULL when an object is created and nowhere else, so that nothing is
  copied: \<open>token\<close> is what the caller's buffer holds before and after.
\<close>

definition xpc_dictionary_get_audit_token :: "ptr \<Rightarrow> byte list \<Rightarrow> (xmem, byte list) op" where
  "xpc_dictionary_get_audit_token xdict token = bind_m (get_obj xdict) (\<lambda>xo. return_m token)"

section \<open>Properties\<close>

lemma mach_ops_keep:
  "sound (xpc_dictionary_set_mach_recv d k port)" "sound (xpc_dictionary_set_mach_send d k port)"
proof -
  have "sound (xpc_prim_create XPC_TYPE_ENDPOINT (U_bits w) 0)" for w
    by (rule keeps_prim_create) (simp add: scalar_type_def)
  then show "sound (xpc_dictionary_set_mach_recv d k port)" "sound (xpc_dictionary_set_mach_send d k port)"
    unfolding xpc_dictionary_set_mach_recv_def xpc_dictionary_set_mach_send_def
    by (intro mem.keeps_bind keeps_dict_set mem.keeps_gets; simp)+
qed

lemma with_fd_bits:
  "ucast (with_fd port w) = port" "with_fd port w AND NOT 0xFFFFFFFF = w AND NOT 0xFFFFFFFF"
proof -
  have m: "0xFFFFFFFF = (mask 32 :: 64 word)" by (simp add: mask_eq_exp_minus_1)
  show "ucast (with_fd port w) = port" unfolding with_fd_def m
    by (rule bit_word_eqI) (simp add: bit_simps)
  show "with_fd port w AND NOT 0xFFFFFFFF = w AND NOT 0xFFFFFFFF" unfolding with_fd_def m
    by (rule bit_word_eqI) (auto simp: bit_simps dest: bit_imp_le_length)
qed

text \<open>A port put into a dictionary is found under its key as an endpoint with the port in the lowest
  four bytes of its union; the other four are what the stack held.  Ports for receiving and for
  sending are stored alike.\<close>

theorem mach_port_stored:
  assumes "dict_map n m d kvs" and "strs m k = Some s"
  shows "\<exists>m' v uo w. xpc_dictionary_set_mach_send (Some d) (Some k) port m = Inr ((), m') \<and>
    xpc_dictionary_set_mach_recv (Some d) (Some k) port m = Inr ((), m') \<and>
    xpc_dictionary_get_value (Some d) (Some k) m' = Inr (Some v, m') \<and> objs m' v = Some uo \<and>
    xo_xpc_type uo = XPC_TYPE_ENDPOINT \<and> xo_u uo = U_bits w \<and> ucast w = port \<and>
    w AND NOT 0xFFFFFFFF = stack_junk m AND NOT 0xFFFFFFFF"
proof -
  have "scalar_type XPC_TYPE_ENDPOINT" by (simp add: scalar_type_def)
  from dict_set_scalar [OF assms this, of "with_fd port (stack_junk m)" 0] with_fd_bits [of port] show ?thesis
    by (fastforce simp: xpc_dictionary_set_mach_send_def xpc_dictionary_set_mach_recv_def gets_m_def bind_m_def)
qed

theorem mach_port_stored_witness:
  "\<exists>m' v uo w. xpc_dictionary_set_mach_send (Some 7) (Some 4) 9 demo_dict = Inr ((), m') \<and>
    xpc_dictionary_get_value (Some 7) (Some 4) m' = Inr (Some v, m') \<and> objs m' v = Some uo \<and>
    xo_u uo = U_bits w \<and> ucast w = (9 :: 32 word)"
  using mach_port_stored [OF demo_dict_rep(1,5), of 9] by blast

end
