(* ===== verification/XpcDbus.thy ===== *)
theory XpcDbus
  imports XpcObject
begin

text \<open>
  \<open>libOpenXPC/xpc_dbus.c\<close>: objects written to and read from D-Bus messages, and connections.
  libdbus is a parameter: a record of the functions of its interface that the code calls.  An
  iterator is a value that the calls take and return, as the \<open>DBusMessageIter\<close> structs on the
  stack of the caller; the log lines are not part of the state.
\<close>

section \<open>D-Bus values\<close>

text \<open>The data model of D-Bus, with the signatures of the elements of an array and of the contents
  of a variant; a \<open>dbus_bool_t\<close> is a 32-bit number.\<close>

datatype dval =
    DBoolean "32 word"
  | DInt64 "64 word"
  | DUint64 "64 word"
  | DString "byte list"
  | DUnixFd "32 word"
  | DByte byte
  | DArray string "dval list"
  | DVariant string dval
  | DEntry dval dval

text \<open>
  The functions that write: each says whether there was enough memory.  The block given to
  \<open>append_fixed_array\<close> is the pointer and the number the code passes.
\<close>

record 'i dbus_writer =
  append_basic :: "dval \<Rightarrow> 'i \<Rightarrow> bool \<times> 'i"
  append_fixed_array :: "char \<Rightarrow> ptr \<Rightarrow> 32 word \<Rightarrow> 'i \<Rightarrow> bool \<times> 'i"
  open_container :: "char \<Rightarrow> string option \<Rightarrow> 'i \<Rightarrow> bool \<times> 'i \<times> 'i"
  close_container :: "'i \<Rightarrow> 'i \<Rightarrow> bool \<times> 'i"

text \<open>What \<open>get_basic\<close> stores; a string is an address inside the message.\<close>

datatype dbus_basic =
    BBoolean "32 word"
  | BInt64 "64 word"
  | BUint64 "64 word"
  | BString addr
  | BUnixFd "32 word"

record 'r dbus_reader =
  get_arg_type :: "'r \<Rightarrow> char"
  get_element_type :: "'r \<Rightarrow> char"
  get_basic :: "'r \<Rightarrow> dbus_basic"
  recurse :: "'r \<Rightarrow> 'r"
  next_item :: "'r \<Rightarrow> 'r"

section \<open>Writing an object\<close>

definition xpc_dbus_type :: "ptr \<Rightarrow> (xmem, string) op" where
  "xpc_dbus_type xo = bind_m (get_obj xo) (\<lambda>o1. return_m (
     if xo_xpc_type o1 = XPC_TYPE_BOOL then ''b''
     else if xo_xpc_type o1 = XPC_TYPE_INT64 then ''x''
     else if xo_xpc_type o1 = XPC_TYPE_UINT64 then ''t''
     else if xo_xpc_type o1 = XPC_TYPE_DATE then ''x''
     else if xo_xpc_type o1 = XPC_TYPE_STRING then ''s''
     else if xo_xpc_type o1 = XPC_TYPE_DATA then ''ay''
     else if xo_xpc_type o1 = XPC_TYPE_DICTIONARY then ''a{sv}''
     else if xo_xpc_type o1 = XPC_TYPE_ARRAY then ''av''
     else if xo_xpc_type o1 = XPC_TYPE_FD then ''h''
     else ''b''))"

text \<open>A call on the current iterator; the calls of \<open>append_xpc\<close> do not look at the result.\<close>

definition on_iter :: "('i \<Rightarrow> bool \<times> 'i) \<Rightarrow> ('i \<times> xmem, int) op" where
  "on_iter f = (\<lambda>(i, m). Inr (0, (snd (f i), m)))"

text \<open>The block for a pair: \<open>sub\<close> is the captured iterator of the array.\<close>

definition append_pair ::
  "'i dbus_writer \<Rightarrow> (ptr \<Rightarrow> ('i \<times> xmem, int) op) \<Rightarrow> ptr \<Rightarrow> ptr \<Rightarrow> ('i \<times> xmem, bool) op" where
  "append_pair w app key v = (\<lambda>(sub, m).
     let (_, sub, sub2) = open_container w CHR ''e'' None sub in
     (case get_str key m of
        Inl e \<Rightarrow> Inl e
      | Inr (k, m) \<Rightarrow>
          let (_, sub2) = append_basic w (DString k) sub2 in
          (case xpc_dbus_type v m of
             Inl e \<Rightarrow> Inl e
           | Inr (sig, m) \<Rightarrow>
               let (_, sub2, sub3) = open_container w CHR ''v'' (Some sig) sub2 in
               (case app v (sub3, m) of
                  Inl e \<Rightarrow> Inl e
                | Inr (_, (sub3, m)) \<Rightarrow>
                    let (ok, sub2) = close_container w sub2 sub3 in
                    if \<not> ok then Inr (False, (sub, m))
                    else let (ok, sub) = close_container w sub sub2 in Inr (ok, (sub, m))))))"

definition append_elem ::
  "'i dbus_writer \<Rightarrow> (ptr \<Rightarrow> ('i \<times> xmem, int) op) \<Rightarrow> 64 word \<Rightarrow> ptr \<Rightarrow> ('i \<times> xmem, bool) op" where
  "append_elem w app idx v = (\<lambda>(sub, m).
     case xpc_dbus_type v m of
       Inl e \<Rightarrow> Inl e
     | Inr (sig, m) \<Rightarrow>
         let (_, sub, sub2) = open_container w CHR ''v'' (Some sig) sub in
         (case app v (sub2, m) of
            Inl e \<Rightarrow> Inl e
          | Inr (_, (sub2, m)) \<Rightarrow>
              let (ok, sub) = close_container w sub sub2 in Inr (ok, (sub, m))))"

text \<open>
  The frame that the branches of dictionaries and arrays share: an array is opened, filled by the
  traversal and closed; \<open>-12\<close> is the \<open>-ENOMEM\<close> of \<open>log_oom\<close>.
\<close>

definition in_array ::
  "'i dbus_writer \<Rightarrow> string \<Rightarrow> ('i \<times> xmem, bool) op \<Rightarrow> ('i \<times> xmem, int) op" where
  "in_array w sig fill = (\<lambda>(i, m).
     let (_, i, sub) = open_container w CHR ''a'' (Some sig) i in
     (case fill (sub, m) of
        Inl e \<Rightarrow> Inl e
      | Inr (succ, (sub, m)) \<Rightarrow>
          if \<not> succ then Inr (-12, (i, m))
          else let (ok, i) = close_container w i sub in Inr (if ok then 0 else -12, (i, m))))"

primrec append_xpc :: "'i dbus_writer \<Rightarrow> nat \<Rightarrow> ptr \<Rightarrow> ('i \<times> xmem, int) op" where
  "append_xpc w 0 xo = fail_m Diverges"
| "append_xpc w (Suc fuel) xo = bind_m (on_mem (get_obj xo)) (\<lambda>o1.
     if xo_xpc_type o1 = XPC_TYPE_BOOL then
       bind_m (on_mem (xpc_bool_get_value xo)) (\<lambda>b.
       on_iter (append_basic w (DBoolean (if b then 1 else 0))))
     else if xo_xpc_type o1 = XPC_TYPE_INT64 then
       bind_m (on_mem (xpc_int64_get_value xo)) (\<lambda>i. on_iter (append_basic w (DInt64 i)))
     else if xo_xpc_type o1 = XPC_TYPE_UINT64 then
       bind_m (on_mem (xpc_uint64_get_value xo)) (\<lambda>u. on_iter (append_basic w (DUint64 u)))
     else if xo_xpc_type o1 = XPC_TYPE_DATE then
       bind_m (on_mem (xpc_date_get_value xo)) (\<lambda>d. on_iter (append_basic w (DInt64 d)))
     else if xo_xpc_type o1 = XPC_TYPE_STRING then
       bind_m (on_mem (bind_m (xpc_string_get_string_ptr xo) get_str)) (\<lambda>s.
       on_iter (append_basic w (DString s)))
     else if xo_xpc_type o1 = XPC_TYPE_DATA then
       bind_m (on_mem (xpc_data_get_bytes_ptr xo)) (\<lambda>p.
       bind_m (on_mem (xpc_data_get_length xo)) (\<lambda>n.
       on_iter (append_fixed_array w CHR ''y'' p (ucast n))))
     else if xo_xpc_type o1 = XPC_TYPE_FD then
       bind_m (on_mem (xpc_ext_fd_get_fd xo)) (\<lambda>fd. on_iter (append_basic w (DUnixFd fd)))
     else if xo_xpc_type o1 = XPC_TYPE_DICTIONARY then
       in_array w ''{sv}'' (xpc_dictionary_apply fuel xo (append_pair w (append_xpc w fuel)))
     else if xo_xpc_type o1 = XPC_TYPE_ARRAY then
       in_array w ''v'' (xpc_array_apply fuel xo (append_elem w (append_xpc w fuel)))
     else on_iter (append_basic w (DBoolean 0)))"

section \<open>Reading an object\<close>

text \<open>
  The loops run to the end of the container, where the type is \<open>DBUS_TYPE_INVALID\<close>, 0; they take
  the function that reads one object.
\<close>

primrec arr_items ::
  "'r dbus_reader \<Rightarrow> ('r \<Rightarrow> (xmem, ptr) op) \<Rightarrow> nat \<Rightarrow> ptr \<Rightarrow> 'r \<Rightarrow> (xmem, unit) op" where
  "arr_items rd deser 0 arr iter = fail_m Diverges"
| "arr_items rd deser (Suc n) arr iter =
     (if get_arg_type rd iter = CHR 0x00 then return_m ()
      else if get_arg_type rd iter \<noteq> CHR ''v'' then fail_m AssertFails
      else bind_m (deser (recurse rd iter)) (\<lambda>obj.
        seq_m (xpc_array_append_value arr obj) (arr_items rd deser n arr (next_item rd iter))))"

definition deserialise_arr ::
  "'r dbus_reader \<Rightarrow> ('r \<Rightarrow> (xmem, ptr) op) \<Rightarrow> nat \<Rightarrow> 'r \<Rightarrow> (xmem, ptr) op" where
  "deserialise_arr rd deser n iter = bind_m (xpc_array_create []) (\<lambda>arr.
     seq_m (arr_items rd deser n arr iter) (return_m arr))"

definition get_string :: "'r dbus_reader \<Rightarrow> 'r \<Rightarrow> (xmem, addr) op" where
  "get_string rd iter = (case get_basic rd iter of BString p \<Rightarrow> return_m p | _ \<Rightarrow> fail_m BadUnion)"

primrec dict_items ::
  "'r dbus_reader \<Rightarrow> ('r \<Rightarrow> (xmem, ptr) op) \<Rightarrow> nat \<Rightarrow> ptr \<Rightarrow> 'r \<Rightarrow> (xmem, unit) op" where
  "dict_items rd deser 0 dict iter = fail_m Diverges"
| "dict_items rd deser (Suc n) dict iter =
     (if get_arg_type rd iter = CHR 0x00 then return_m ()
      else
        let sub = recurse rd iter in
        if get_arg_type rd sub \<noteq> CHR ''s'' then fail_m AssertFails
        else bind_m (get_string rd sub) (\<lambda>key.
          let sub' = next_item rd sub in
          if get_arg_type rd sub' \<noteq> CHR ''v'' then fail_m AssertFails
          else bind_m (deser (recurse rd sub')) (\<lambda>obj.
            seq_m (xpc_dictionary_set_value dict (Some key) obj)
              (dict_items rd deser n dict (next_item rd iter)))))"

definition deserialise_dict ::
  "'r dbus_reader \<Rightarrow> ('r \<Rightarrow> (xmem, ptr) op) \<Rightarrow> nat \<Rightarrow> 'r \<Rightarrow> (xmem, ptr) op" where
  "deserialise_dict rd deser n iter = bind_m (xpc_dictionary_create []) (\<lambda>dict.
     seq_m (dict_items rd deser n dict iter) (return_m dict))"

text \<open>
  In the branch of byte arrays the block's address is to be stored through \<open>val\<close>, a pointer that
  was never set.
\<close>

primrec deserialise_object :: "'r dbus_reader \<Rightarrow> nat \<Rightarrow> 'r \<Rightarrow> (xmem, ptr) op" where
  "deserialise_object rd 0 iter = fail_m Diverges"
| "deserialise_object rd (Suc fuel) iter =
     (let type = get_arg_type rd iter in
      if type = CHR ''b'' then
        (case get_basic rd iter of BBoolean b \<Rightarrow> xpc_bool_create (b \<noteq> 0) | _ \<Rightarrow> fail_m BadUnion)
      else if type = CHR ''x'' then
        (case get_basic rd iter of BInt64 i \<Rightarrow> xpc_int64_create i | _ \<Rightarrow> fail_m BadUnion)
      else if type = CHR ''t'' then
        (case get_basic rd iter of BUint64 u \<Rightarrow> xpc_uint64_create u | _ \<Rightarrow> fail_m BadUnion)
      else if type = CHR ''s'' then
        bind_m (get_string rd iter) (\<lambda>p. xpc_string_create (Some p))
      else if type = CHR ''a'' then
        (let arrtype = get_element_type rd iter in
         if arrtype = CHR ''e'' then
           deserialise_dict rd (deserialise_object rd fuel) fuel (recurse rd iter)
         else if arrtype = CHR ''v'' then
           deserialise_arr rd (deserialise_object rd fuel) fuel (recurse rd iter)
         else if arrtype = CHR ''y'' then fail_m BadPointer
         else return_m None)
      else if type = CHR ''h'' then
        (case get_basic rd iter of BUnixFd fd \<Rightarrow> xpc_fd_create fd | _ \<Rightarrow> fail_m BadUnion)
      else return_m None)"

text \<open>
  The iterator of a message is \<open>None\<close> if it has no arguments.  \<open>xpc_dbus.c:355\<close> passes the
  iterator itself where its address is expected; the address is meant.
\<close>

definition deserialise_message :: "'r dbus_reader \<Rightarrow> nat \<Rightarrow> 'r option \<Rightarrow> (xmem, ptr) op" where
  "deserialise_message rd fuel iter =
     (case iter of None \<Rightarrow> return_m None | Some it \<Rightarrow> deserialise_object rd fuel it)"

end
