(* ===== verification/XpcDbusSpec.thy ===== *)
theory XpcDbusSpec
  imports XpcDbus XpcTraverse
begin

text \<open>
  Which D-Bus value an object is written as.  The contract of the functions that write,
  \<open>writer_ok\<close>, states the documented behaviour of libdbus while there is enough memory: an iterator
  that may be used shows the stack of open containers, with what has been written to each; a
  lawful value can be appended to the innermost one if it has the type that container expects.
\<close>

section \<open>Types of D-Bus values\<close>

primrec sig_of :: "dval \<Rightarrow> string" where
  "sig_of (DBoolean b) = ''b''"
| "sig_of (DInt64 w) = ''x''"
| "sig_of (DUint64 w) = ''t''"
| "sig_of (DString s) = ''s''"
| "sig_of (DUnixFd fd) = ''h''"
| "sig_of (DByte b) = ''y''"
| "sig_of (DArray s ds) = CHR ''a'' # s"
| "sig_of (DVariant s d) = ''v''"
| "sig_of (DEntry k v) = ''{'' @ sig_of k @ sig_of v @ ''}''"

fun basic :: "dval \<Rightarrow> bool" where
  "basic (DArray s ds) = False"
| "basic (DVariant s d) = False"
| "basic (DEntry k v) = False"
| "basic d = True"

fun is_entry :: "dval \<Rightarrow> bool" where
  "is_entry (DEntry k v) = True"
| "is_entry d = False"

text \<open>
  A string of D-Bus is UTF-8 without the character 0: \<open>utf8_from n lo hi\<close> expects \<open>n\<close> more bytes of
  a character, the next one between \<open>lo\<close> and \<open>hi\<close>, as the table of RFC 3629 has it.
\<close>

primrec utf8_from :: "nat \<Rightarrow> byte \<Rightarrow> byte \<Rightarrow> byte list \<Rightarrow> bool" where
  "utf8_from n lo hi [] = (n = 0)"
| "utf8_from n lo hi (b # s) =
     (if n \<noteq> 0 then lo \<le> b \<and> b \<le> hi \<and> utf8_from (n - 1) 0x80 0xBF s
      else if 0x01 \<le> b \<and> b \<le> 0x7F then utf8_from 0 0 0 s
      else if 0xC2 \<le> b \<and> b \<le> 0xDF then utf8_from 1 0x80 0xBF s
      else if b = 0xE0 then utf8_from 2 0xA0 0xBF s
      else if b = 0xED then utf8_from 2 0x80 0x9F s
      else if 0xE1 \<le> b \<and> b \<le> 0xEF then utf8_from 2 0x80 0xBF s
      else if b = 0xF0 then utf8_from 3 0x90 0xBF s
      else if 0xF1 \<le> b \<and> b \<le> 0xF3 then utf8_from 3 0x80 0xBF s
      else b = 0xF4 \<and> utf8_from 3 0x80 0x8F s)"

definition utf8 :: "byte list \<Rightarrow> bool" where
  "utf8 s = utf8_from 0 0 0 s"

text \<open>The letter a, e with an acute accent, and the byte that no character begins with.\<close>

lemma utf8_examples: "utf8 [0x61, 0xC3, 0xA9]" "\<not> utf8 [0xFF]" "\<not> utf8 [0xC3]" "\<not> utf8 [0xC0, 0x80]"
  by (simp_all add: utf8_def)

text \<open>
  The values that libdbus takes, \<open>fds\<close> being the descriptors that are open: a boolean is 0 or 1, a
  string UTF-8, a descriptor open; a variant and an array hold what their signatures say.
\<close>

primrec well_typed :: "32 word set \<Rightarrow> dval \<Rightarrow> bool" where
  "well_typed fds (DBoolean b) = (b = 0 \<or> b = 1)"
| "well_typed fds (DInt64 w) = True"
| "well_typed fds (DUint64 w) = True"
| "well_typed fds (DString s) = utf8 s"
| "well_typed fds (DUnixFd fd) = (fd \<in> fds)"
| "well_typed fds (DByte b) = True"
| "well_typed fds (DArray s ds) = (list_all id (map (well_typed fds) ds) \<and> list_all (\<lambda>d. sig_of d = s) ds)"
| "well_typed fds (DVariant s d) = (well_typed fds d \<and> sig_of d = s \<and> \<not> is_entry d)"
| "well_typed fds (DEntry k v) = (well_typed fds k \<and> well_typed fds v \<and> basic k \<and> \<not> is_entry v)"

text \<open>How much of a message a value takes, in units of a value or a byte of a string, and how many
  containers are nested in it.\<close>

primrec dsize :: "dval \<Rightarrow> nat" where
  "dsize (DBoolean b) = 1"
| "dsize (DInt64 w) = 1"
| "dsize (DUint64 w) = 1"
| "dsize (DString s) = Suc (length s)"
| "dsize (DUnixFd fd) = 1"
| "dsize (DByte b) = 1"
| "dsize (DArray s ds) = Suc (sum_list (map dsize ds))"
| "dsize (DVariant s d) = Suc (dsize d)"
| "dsize (DEntry k v) = Suc (dsize k + dsize v)"

primrec nesting :: "dval \<Rightarrow> nat" where
  "nesting (DBoolean b) = 0"
| "nesting (DInt64 w) = 0"
| "nesting (DUint64 w) = 0"
| "nesting (DString s) = 0"
| "nesting (DUnixFd fd) = 0"
| "nesting (DByte b) = 0"
| "nesting (DArray s ds) = Suc (foldr max (map nesting ds) 0)"
| "nesting (DVariant s d) = Suc (nesting d)"
| "nesting (DEntry k v) = Suc (max (nesting k) (nesting v))"

lemma max_ge: "n \<in> set ns \<Longrightarrow> n \<le> foldr max ns (0 :: nat)"
  by (induction ns) auto

section \<open>The contract of the writing functions\<close>

datatype frame = In_message | In_array string | In_variant string | In_entry

fun room :: "frame \<Rightarrow> dval list \<Rightarrow> dval \<Rightarrow> bool" where
  "room In_message ds d = (\<not> is_entry d)"
| "room (In_array s) ds d = (sig_of d = s)"
| "room (In_variant s) ds d = (ds = [] \<and> sig_of d = s \<and> \<not> is_entry d)"
| "room In_entry ds d = (if ds = [] then basic d else length ds = 1 \<and> \<not> is_entry d)"

text \<open>
  The containers that the library opens, with the signatures it passes, and a value of the type of
  the container: that value must have room where the container is opened.  No success is asked for
  any other container.
\<close>

definition opened_frame :: "char \<Rightarrow> string option \<Rightarrow> frame option" where
  "opened_frame c s =
     (case s of
        None \<Rightarrow> if c = CHR ''e'' then Some In_entry else None
      | Some sig \<Rightarrow>
          if c = CHR ''a'' \<and> sig \<in> set [''v'', ''{sv}''] then Some (In_array sig)
          else if c = CHR ''v'' \<and> sig \<in> set [''b'', ''x'', ''t'', ''s'', ''h'', ''av'', ''a{sv}'']
          then Some (In_variant sig) else None)"

fun shell :: "frame \<Rightarrow> dval" where
  "shell (In_array s) = DArray s []"
| "shell (In_variant s) = DVariant s (DInt64 0)"
| "shell In_entry = DEntry (DString []) (DVariant ''x'' (DInt64 0))"
| "shell In_message = DInt64 0"

fun packed :: "frame \<Rightarrow> dval list \<Rightarrow> dval option" where
  "packed (In_array s) ds = Some (DArray s ds)"
| "packed (In_variant s) [d] = Some (DVariant s d)"
| "packed In_entry [k, v] = Some (DEntry k v)"
| "packed _ _ = None"

text \<open>What the open containers take together, and whether values fit in: \<open>lim\<close> is what libdbus has
  memory and message size for, and at most 64 containers may be nested.\<close>

definition weight :: "(frame \<times> dval list) list \<Rightarrow> nat" where
  "weight st = sum_list (map (\<lambda>(f, ds). Suc (sum_list (map dsize ds))) st)"

definition fits :: "nat \<Rightarrow> (frame \<times> dval list) list \<Rightarrow> dval list \<Rightarrow> bool" where
  "fits lim st ds \<longleftrightarrow> weight st + sum_list (map dsize ds) \<le> lim \<and> (\<forall>d \<in> set ds. length st + nesting d \<le> 65)"

lemma weight_simps [simp]:
  "weight [] = 0" "weight ((f, ds) # st) = Suc (sum_list (map dsize ds)) + weight st"
  by (simp_all add: weight_def)

lemma fits_Cons:
  "fits lim ((f, ds) # st) (e # es) \<Longrightarrow> fits lim ((f, ds) # st) [e] \<and> fits lim ((f, ds @ [e]) # st) es"
  by (auto simp: fits_def)

lemma fits_packed:
  assumes "fits lim ((g, ds) # st) [d]" and "packed f es = Some d"
  shows "fits lim ((f, []) # (g, ds) # st) es"
  using assms max_ge [of _ "map nesting es"]
  by (cases "(f, es)" rule: packed.cases) (fastforce simp: fits_def)+

text \<open>
  \<open>vw i\<close> is the stack that a usable iterator shows, innermost container first, with descriptors as
  they were given; \<open>par sub i\<close> says that \<open>sub\<close> is the iterator of a container opened from \<open>i\<close>.
  Nothing is assumed about a parent's view while its container is open, nor about calls that
  libdbus does not allow.
\<close>

definition writer_ok ::
  "32 word set \<Rightarrow> nat \<Rightarrow> 'i dbus_writer \<Rightarrow> ('i \<Rightarrow> (frame \<times> dval list) list) \<Rightarrow> ('i \<Rightarrow> 'i \<Rightarrow> bool) \<Rightarrow> bool" where
  "writer_ok fds lim w vw par \<longleftrightarrow>
     (\<forall>i f ds st d. vw i = (f, ds) # st \<and> basic d \<and> well_typed fds d \<and> room f ds d \<and> fits lim ((f, ds) # st) [d] \<longrightarrow>
        (\<exists>i'. append_basic w d i = (True, i') \<and> vw i' = (f, ds @ [d]) # st \<and>
          (\<forall>p. par i p \<longrightarrow> par i' p))) \<and>
     (\<forall>i g ds st c s f. vw i = (g, ds) # st \<and> opened_frame c s = Some f \<and> room g ds (shell f) \<and>
        length st < 64 \<and> weight ((g, ds) # st) < lim \<longrightarrow>
        (\<exists>i' sub. open_container w c s i = (True, i', sub) \<and> vw sub = (f, []) # (g, ds) # st \<and>
          par sub i' \<and> (\<forall>p. par i p \<longrightarrow> par i' p))) \<and>
     (\<forall>i sub f g ds ds' st d. vw sub = (f, ds') # (g, ds) # st \<and> par sub i \<and> packed f ds' = Some d \<and>
        room g ds d \<and> weight (vw sub) \<le> lim \<longrightarrow>
        (\<exists>i'. close_container w i sub = (True, i') \<and> vw i' = (g, ds @ [d]) # st \<and>
          (\<forall>p. par i p \<longrightarrow> par i' p)))"

lemma writer_ok_append:
  assumes "writer_ok fds lim w vw par" and "vw i = (f, ds) # st" and "basic d" and "well_typed fds d"
    and "room f ds d" and "fits lim ((f, ds) # st) [d]"
  shows "\<exists>i'. append_basic w d i = (True, i') \<and> vw i' = (f, ds @ [d]) # st \<and> (\<forall>p. par i p \<longrightarrow> par i' p)"
  by (rule conjunct1 [OF assms(1) [unfolded writer_ok_def], rule_format]) (use assms in simp)

text \<open>Opening a container for values that will fit, and closing it when they are in.\<close>

lemma room_shell: "packed f es = Some d \<Longrightarrow> room g ds d \<Longrightarrow> f = In_entry \<longrightarrow> sig_of d = ''{sv}'' \<Longrightarrow> room g ds (shell f)"
  by (cases "(f, es)" rule: packed.cases; cases g) (auto split: if_splits)

lemma writer_ok_open:
  assumes "writer_ok fds lim w vw par" and "vw i = (g, ds) # st" and "opened_frame c s = Some f"
    and "packed f es = Some d" and "room g ds d" and "fits lim ((g, ds) # st) [d]"
    and "f = In_entry \<longrightarrow> sig_of d = ''{sv}''"
  shows "\<exists>i' sub. open_container w c s i = (True, i', sub) \<and> vw sub = (f, []) # (g, ds) # st \<and>
    par sub i' \<and> (\<forall>p. par i p \<longrightarrow> par i' p) \<and> fits lim ((f, []) # (g, ds) # st) es"
proof -
  have "1 \<le> nesting d \<and> 1 \<le> dsize d" using assms(4) by (cases "(f, es)" rule: packed.cases) auto
  then have "length st < 64 \<and> weight ((g, ds) # st) < lim" using assms(6) by (auto simp: fits_def)
  with assms(2,3) room_shell [OF assms(4,5,7)] have
    "\<exists>i' sub. open_container w c s i = (True, i', sub) \<and> vw sub = (f, []) # (g, ds) # st \<and>
      par sub i' \<and> (\<forall>p. par i p \<longrightarrow> par i' p)"
    by (intro conjunct1 [OF conjunct2 [OF assms(1) [unfolded writer_ok_def]], rule_format]) blast
  with fits_packed [OF assms(6,4)] show ?thesis by blast
qed

lemma writer_ok_close:
  assumes "writer_ok fds lim w vw par" and "vw sub = (f, es) # (g, ds) # st" and "par sub i"
    and "packed f es = Some d" and "room g ds d" and "fits lim ((g, ds) # st) [d]"
  shows "\<exists>i'. close_container w i sub = (True, i') \<and> vw i' = (g, ds @ [d]) # st \<and> (\<forall>p. par i p \<longrightarrow> par i' p)"
proof -
  have "weight (vw sub) \<le> lim"
    using fits_packed [OF assms(6,4)] assms(2) by (simp add: fits_def)
  then show ?thesis
    using assms(2-5) by (intro conjunct2 [OF conjunct2 [OF assms(1) [unfolded writer_ok_def]], rule_format]) blast
qed

section \<open>What an object is written as\<close>

primrec to_dbus :: "xval \<Rightarrow> dval" where
  "to_dbus (VScalar t w) =
     (if t = XPC_TYPE_BOOL then DBoolean (if w AND 0xFF \<noteq> 0 then 1 else 0)
      else if t = XPC_TYPE_INT64 then DInt64 w
      else if t = XPC_TYPE_UINT64 then DUint64 w
      else if t = XPC_TYPE_DATE then DInt64 w
      else if t = XPC_TYPE_FD then DUnixFd (ucast w)
      else DBoolean 0)"
| "to_dbus (VString s) = DString s"
| "to_dbus (VData bs) = DArray ''y'' (map DByte bs)"
| "to_dbus (VArray vs) = DArray ''v'' (map (\<lambda>d. DVariant (sig_of d) d) (map to_dbus vs))"
| "to_dbus (VDict kvs) = DArray ''{sv}'' (map (\<lambda>kd. DEntry (DString (fst kd)) (DVariant (sig_of (snd kd)) (snd kd)))
     (map (map_prod id to_dbus) kvs))"

text \<open>
  The values that are written according to the rules: strings and keys in UTF-8, open descriptors,
  and no block of data at any depth.
\<close>

primrec sendable :: "32 word set \<Rightarrow> xval \<Rightarrow> bool" where
  "sendable fds (VScalar t w) = (t = XPC_TYPE_FD \<longrightarrow> ucast w \<in> fds)"
| "sendable fds (VString s) = utf8 s"
| "sendable fds (VData bs) = False"
| "sendable fds (VArray vs) = list_all id (map (sendable fds) vs)"
| "sendable fds (VDict kvs) = list_all (\<lambda>kv. utf8 (fst kv) \<and> snd kv) (map (map_prod id (sendable fds)) kvs)"

lemma not_entry_to_dbus [simp]: "\<not> is_entry (to_dbus v)"
  by (cases v) simp_all

lemma well_typed_to_dbus: "sendable fds v \<Longrightarrow> well_typed fds (to_dbus v)"
  by (induction v) (auto simp: list_all_iff snds.simps)

lemma opened_frame_sig:
  "sendable fds v \<Longrightarrow> opened_frame CHR ''v'' (Some (sig_of (to_dbus v))) = Some (In_variant (sig_of (to_dbus v)))"
  by (cases v) (auto simp: opened_frame_def)

lemma xpc_dbus_type_val: "val_at v m a \<Longrightarrow> xpc_dbus_type (Some a) m = Inr (sig_of (to_dbus v), m)"
proof (cases v)
  case (VArray vs)
  assume "val_at v m a"
  with VArray show ?thesis
    by (auto elim!: val_at_array simp del: val_at.simps simp: xpc_dbus_type_def get_obj_runs run_defs)
next
  case (VDict kvs)
  assume "val_at v m a"
  with VDict show ?thesis
    by (auto elim!: val_at_dict simp del: val_at.simps simp: xpc_dbus_type_def get_obj_runs run_defs)
qed (auto simp: obj_is_def scalar_type_def xpc_dbus_type_def get_obj_runs run_defs)

section \<open>Writing only reads the memory\<close>

lemma ro_xpc_dbus_type: "keeps unchanged (xpc_dbus_type p)"
  unfolding xpc_dbus_type_def by (intro ro.keeps_intros ro_gets)

lemma ro_on_iter: "keeps (on_snd unchanged) (on_iter f)"
  by (rule keepsI) (auto simp: on_iter_def on_snd_def unchanged_def)

lemma unchangedD: "keeps unchanged f \<Longrightarrow> f m = Inr (x, m') \<Longrightarrow> m' = m"
  by (drule keepsD) (auto simp: unchanged_def)

lemma lunchangedD: "keeps (on_snd unchanged) f \<Longrightarrow> f (u, m) = Inr (x, (u', m')) \<Longrightarrow> m' = m"
  by (drule keepsD) (auto simp: unchanged_def on_snd_def)

lemma ro_append_pair:
  assumes "\<And>v. keeps (on_snd unchanged) (app v)"
  shows "keeps (on_snd unchanged) (append_pair w app k v)"
  by (rule keepsI) (auto simp: append_pair_def on_snd_def unchanged_def Let_def split: prod.splits sum.splits if_splits
      dest!: lunchangedD [OF assms] unchangedD [OF ro_xpc_dbus_type] unchangedD [OF ro_gets(3)])

lemma ro_append_elem:
  assumes "\<And>v. keeps (on_snd unchanged) (app v)"
  shows "keeps (on_snd unchanged) (append_elem w app idx v)"
  by (rule keepsI) (auto simp: append_elem_def on_snd_def unchanged_def Let_def split: prod.splits sum.splits
      dest!: lunchangedD [OF assms] unchangedD [OF ro_xpc_dbus_type])

lemma ro_in_array:
  assumes "keeps (on_snd unchanged) fill"
  shows "keeps (on_snd unchanged) (in_array w sig fill)"
  by (rule keepsI) (auto simp: in_array_def on_snd_def unchanged_def Let_def split: prod.splits sum.splits if_splits
      dest!: lunchangedD [OF assms])

lemma ro_append_xpc: "keeps (on_snd unchanged) (append_xpc w fuel p)"
proof (induction fuel arbitrary: p)
  case 0
  then show ?case by (simp add: lro.keeps_fail)
next
  case (Suc fuel)
  have fd: "keeps unchanged (xpc_ext_fd_get_fd q)" for q
    unfolding xpc_ext_fd_get_fd_def by (intro ro_typed_get ro_u)
  show ?case
    unfolding append_xpc.simps apply_blocks_fun
    by (intro lro.keeps_intros ro_on_mem ro_on_iter ro_getters ro_gets fd ro.keeps_intros ro_in_array
        ro_apply_dict ro_apply_array ro_append_pair ro_append_elem Suc.IH)
qed

section \<open>Operations that write a value\<close>

text \<open>
  \<open>f\<close> writes \<open>d\<close>: on every usable iterator whose container takes \<open>d\<close> and where it fits, it returns
  \<open>r\<close>, appends exactly \<open>d\<close> and leaves the memory alone.  \<open>fills\<close> is the same for a list of values
  put into an array.
\<close>

definition writes ::
  "nat \<Rightarrow> ('i \<Rightarrow> (frame \<times> dval list) list) \<Rightarrow> ('i \<Rightarrow> 'i \<Rightarrow> bool) \<Rightarrow> xmem \<Rightarrow> ('i \<times> xmem, 'a) op \<Rightarrow> dval \<Rightarrow> 'a \<Rightarrow> bool" where
  "writes lim vw par m f d r \<longleftrightarrow> (\<forall>i g ds st. vw i = (g, ds) # st \<longrightarrow> room g ds d \<longrightarrow> fits lim ((g, ds) # st) [d] \<longrightarrow>
     (\<exists>i'. f (i, m) = Inr (r, (i', m)) \<and> vw i' = (g, ds @ [d]) # st \<and> (\<forall>p. par i p \<longrightarrow> par i' p)))"

definition fills ::
  "nat \<Rightarrow> ('i \<Rightarrow> (frame \<times> dval list) list) \<Rightarrow> ('i \<Rightarrow> 'i \<Rightarrow> bool) \<Rightarrow> xmem \<Rightarrow> ('i \<times> xmem, bool) op \<Rightarrow> string \<Rightarrow> dval list \<Rightarrow> bool" where
  "fills lim vw par m f s es \<longleftrightarrow> (\<forall>i ds st. vw i = (In_array s, ds) # st \<longrightarrow> fits lim ((In_array s, ds) # st) es \<longrightarrow>
     (\<exists>i'. f (i, m) = Inr (True, (i', m)) \<and> vw i' = (In_array s, ds @ es) # st \<and>
       (\<forall>p. par i p \<longrightarrow> par i' p)))"

lemma writesI:
  "(\<And>i g ds st. vw i = (g, ds) # st \<Longrightarrow> room g ds d \<Longrightarrow> fits lim ((g, ds) # st) [d] \<Longrightarrow>
     \<exists>i'. f (i, m) = Inr (r, (i', m)) \<and> vw i' = (g, ds @ [d]) # st \<and> (\<forall>p. par i p \<longrightarrow> par i' p)) \<Longrightarrow>
   writes lim vw par m f d r"
  by (simp add: writes_def)

lemma writesD:
  "writes lim vw par m f d r \<Longrightarrow> vw i = (g, ds) # st \<Longrightarrow> room g ds d \<Longrightarrow> fits lim ((g, ds) # st) [d] \<Longrightarrow>
   \<exists>i'. f (i, m) = Inr (r, (i', m)) \<and> vw i' = (g, ds @ [d]) # st \<and> (\<forall>p. par i p \<longrightarrow> par i' p)"
  by (simp add: writes_def)

lemma writes_basic:
  assumes "writer_ok fds lim w vw par" and "basic d" and "well_typed fds d"
  shows "writes lim vw par m (on_iter (append_basic w d)) d 0"
proof (rule writesI)
  fix i g ds st assume "vw i = (g, ds) # st" and "room g ds d" and "fits lim ((g, ds) # st) [d]"
  from writer_ok_append [OF assms(1) this(1) assms(2,3) this(2,3)]
  show "\<exists>i'. on_iter (append_basic w d) (i, m) = Inr (0, (i', m)) \<and> vw i' = (g, ds @ [d]) # st \<and>
      (\<forall>p. par i p \<longrightarrow> par i' p)" by (auto simp: on_iter_def)
qed

text \<open>A variant: opened, filled by the recursive call, closed.\<close>

lemma writes_elem:
  assumes ok: "writer_ok fds lim w vw par" and sig: "xpc_dbus_type (Some b) m = Inr (sig_of d, m)"
    and op: "opened_frame CHR ''v'' (Some (sig_of d)) = Some (In_variant (sig_of d))" and d: "\<not> is_entry d"
    and app: "writes lim vw par m (app (Some b)) d 0"
  shows "writes lim vw par m (append_elem w app idx (Some b)) (DVariant (sig_of d) d) True"
proof (rule writesI)
  let ?e = "DVariant (sig_of d) d"
  fix i g ds st assume i: "vw i = (g, ds) # st" and room: "room g ds ?e" and fits: "fits lim ((g, ds) # st) [?e]"
  have e: "packed (In_variant (sig_of d)) [d] = Some ?e" by simp
  from writer_ok_open [OF ok i op e room fits] obtain i1 sub where
    1: "open_container w CHR ''v'' (Some (sig_of d)) i = (True, i1, sub)"
      "vw sub = (In_variant (sig_of d), []) # (g, ds) # st" "par sub i1" "\<forall>p. par i p \<longrightarrow> par i1 p"
      "fits lim ((In_variant (sig_of d), []) # (g, ds) # st) [d]" by auto
  from writesD [OF app 1(2) _ 1(5)] d obtain sub' where
    2: "app (Some b) (sub, m) = Inr (0, (sub', m))"
      "vw sub' = (In_variant (sig_of d), [d]) # (g, ds) # st" "par sub' i1" using 1(3) by auto
  from writer_ok_close [OF ok 2(2,3) e room fits] obtain i2 where
    "close_container w i1 sub' = (True, i2)" "vw i2 = (g, ds @ [?e]) # st"
    "\<forall>p. par i1 p \<longrightarrow> par i2 p" by auto
  with 1 2 sig show "\<exists>i'. append_elem w app idx (Some b) (i, m) = Inr (True, (i', m)) \<and>
      vw i' = (g, ds @ [?e]) # st \<and> (\<forall>p. par i p \<longrightarrow> par i' p)"
    by (simp add: append_elem_def)
qed

lemma writes_pair:
  assumes ok: "writer_ok fds lim w vw par" and sig: "xpc_dbus_type (Some b) m = Inr (sig_of d, m)"
    and op: "opened_frame CHR ''v'' (Some (sig_of d)) = Some (In_variant (sig_of d))" and d: "\<not> is_entry d"
    and app: "writes lim vw par m (app (Some b)) d 0" and k: "strs m k = Some s" and s: "utf8 s"
  shows "writes lim vw par m (append_pair w app (Some k) (Some b)) (DEntry (DString s) (DVariant (sig_of d) d)) True"
proof (rule writesI)
  let ?v = "DVariant (sig_of d) d"
  let ?e = "DEntry (DString s) ?v"
  fix i g ds st assume i: "vw i = (g, ds) # st" and room: "room g ds ?e" and fits: "fits lim ((g, ds) # st) [?e]"
  have e: "packed In_entry [DString s, ?v] = Some ?e" "packed (In_variant (sig_of d)) [d] = Some ?v" by simp_all
  from writer_ok_open [OF ok i _ e(1) room fits, of "CHR ''e''" None] obtain i1 sub where
    1: "open_container w CHR ''e'' None i = (True, i1, sub)" "vw sub = (In_entry, []) # (g, ds) # st"
      "par sub i1" "\<forall>p. par i p \<longrightarrow> par i1 p" and f1: "fits lim ((In_entry, []) # (g, ds) # st) [DString s, ?v]"
    by (auto simp: opened_frame_def)
  from fits_Cons [OF f1] have f2: "fits lim ((In_entry, []) # (g, ds) # st) [DString s]"
    "fits lim ((In_entry, [DString s]) # (g, ds) # st) [?v]" by simp_all
  from writer_ok_append [OF ok 1(2), of "DString s"] s f2(1) obtain sub1 where
    2: "append_basic w (DString s) sub = (True, sub1)" "vw sub1 = (In_entry, [DString s]) # (g, ds) # st"
      "par sub1 i1" using 1(3) by auto
  from writer_ok_open [OF ok 2(2) op e(2) _ f2(2)] obtain sub2 sub3 where
    3: "open_container w CHR ''v'' (Some (sig_of d)) sub1 = (True, sub2, sub3)"
      "vw sub3 = (In_variant (sig_of d), []) # (In_entry, [DString s]) # (g, ds) # st" "par sub3 sub2"
      "par sub2 i1" "fits lim ((In_variant (sig_of d), []) # (In_entry, [DString s]) # (g, ds) # st) [d]"
    using 2(3) by auto
  from writesD [OF app 3(2) _ 3(5)] d obtain sub4 where
    4: "app (Some b) (sub3, m) = Inr (0, (sub4, m))"
      "vw sub4 = (In_variant (sig_of d), [d]) # (In_entry, [DString s]) # (g, ds) # st" "par sub4 sub2"
    using 3(3) by auto
  from writer_ok_close [OF ok 4(2,3) e(2) _ f2(2)] obtain sub5 where
    5: "close_container w sub2 sub4 = (True, sub5)"
      "vw sub5 = (In_entry, [DString s, ?v]) # (g, ds) # st" "par sub5 i1"
    using 3(4) by auto
  from writer_ok_close [OF ok 5(2,3) e(1) room fits] obtain i2 where
    "close_container w i1 sub5 = (True, i2)" "vw i2 = (g, ds @ [?e]) # st" "\<forall>p. par i1 p \<longrightarrow> par i2 p" by auto
  with 1 2 3 4 5 sig k show "\<exists>i'. append_pair w app (Some k) (Some b) (i, m) = Inr (True, (i', m)) \<and>
      vw i' = (g, ds @ [?e]) # st \<and> (\<forall>p. par i p \<longrightarrow> par i' p)"
    by (simp add: append_pair_def get_str_runs)
qed

lemma fills_Cons:
  assumes f: "writes lim vw par m f e True" and e: "sig_of e = s" and fs: "fills lim vw par m fs s es"
  shows "fills lim vw par m (bind_m f (\<lambda>c. if c then fs else return_m False)) s (e # es)"
  unfolding fills_def
proof (intro allI impI)
  fix i ds st assume i: "vw i = (In_array s, ds) # st" and fits: "fits lim ((In_array s, ds) # st) (e # es)"
  note fits = fits_Cons [OF fits]
  from writesD [OF f i] e fits obtain i1 where 1: "f (i, m) = Inr (True, (i1, m))"
    "vw i1 = (In_array s, ds @ [e]) # st" "\<forall>p. par i p \<longrightarrow> par i1 p" by auto
  from fs 1(2) fits obtain i2 where "fs (i1, m) = Inr (True, (i2, m))"
    "vw i2 = (In_array s, (ds @ [e]) @ es) # st" "\<forall>p. par i1 p \<longrightarrow> par i2 p" unfolding fills_def by blast
  with 1 show "\<exists>i'. bind_m f (\<lambda>c. if c then fs else return_m False) (i, m) = Inr (True, (i', m)) \<and>
      vw i' = (In_array s, ds @ e # es) # st \<and> (\<forall>p. par i p \<longrightarrow> par i' p)"
    by (simp add: bind_m_def)
qed

lemma fills_Nil: "fills lim vw par m (return_m True) s []"
  by (simp add: fills_def return_m_def)

lemma fills_array:
  "list_all2 (\<lambda>e b. (\<forall>idx. writes lim vw par m (f idx (Some b)) e True) \<and> sig_of e = s) es as \<Longrightarrow>
   fills lim vw par m (apply_list f idx as) s es"
  by (induction arbitrary: idx rule: list_all2_induct) (auto simp: fills_Nil intro: fills_Cons)

lemma fills_dict:
  "list_all2 (\<lambda>e kv. writes lim vw par m (f (fst kv) (snd kv)) e True \<and> sig_of e = s) es kvs \<Longrightarrow>
   fills lim vw par m (apply_pairs f kvs) s es"
  by (induction rule: list_all2_induct) (auto simp: fills_Nil intro: fills_Cons)

lemma writes_in_array:
  assumes ok: "writer_ok fds lim w vw par" and fill: "fills lim vw par m fill s es"
    and s: "s = ''v'' \<or> s = ''{sv}''"
  shows "writes lim vw par m (in_array w s fill) (DArray s es) 0"
proof (rule writesI)
  fix i g ds st assume i: "vw i = (g, ds) # st" and room: "room g ds (DArray s es)"
    and fits: "fits lim ((g, ds) # st) [DArray s es]"
  have e: "packed (In_array s) es = Some (DArray s es)" by simp
  have op: "opened_frame CHR ''a'' (Some s) = Some (In_array s)" using s by (auto simp: opened_frame_def)
  from writer_ok_open [OF ok i op e room fits] obtain i1 sub where
    1: "open_container w CHR ''a'' (Some s) i = (True, i1, sub)" "vw sub = (In_array s, []) # (g, ds) # st"
      "par sub i1" "\<forall>p. par i p \<longrightarrow> par i1 p" "fits lim ((In_array s, []) # (g, ds) # st) es" by auto
  from fill 1(2,3,5) obtain sub' where 2: "fill (sub, m) = Inr (True, (sub', m))"
    "vw sub' = (In_array s, es) # (g, ds) # st" "par sub' i1" unfolding fills_def by fastforce
  from writer_ok_close [OF ok 2(2,3) e room fits] obtain i2 where
    "close_container w i1 sub' = (True, i2)" "vw i2 = (g, ds @ [DArray s es]) # st" "\<forall>p. par i1 p \<longrightarrow> par i2 p"
    by auto
  with 1 2 show "\<exists>i'. in_array w s fill (i, m) = Inr (0, (i', m)) \<and> vw i' = (g, ds @ [DArray s es]) # st \<and>
      (\<forall>p. par i p \<longrightarrow> par i' p)" by (simp add: in_array_def)
qed

section \<open>What append_xpc writes\<close>

lemma fills_cong:
  "(\<And>i. f (i, m) = g (i, m)) \<Longrightarrow> fills lim vw par m g s es \<Longrightarrow> fills lim vw par m f s es"
  by (simp add: fills_def)

lemma writes_cong:
  "(\<And>i. f (i, m) = g (i, m)) \<Longrightarrow> writes lim vw par m g d r \<Longrightarrow> writes lim vw par m f d r"
  by (simp add: writes_def)

text \<open>One step into the branch of an object.\<close>

lemma append_xpc_branch:
  assumes "objs m a = Some xo"
  shows "xo_xpc_type xo = XPC_TYPE_DICTIONARY \<Longrightarrow> append_xpc w (Suc f) (Some a) (i, m) =
      in_array w ''{sv}'' (xpc_dictionary_apply f (Some a) (append_pair w (append_xpc w f))) (i, m)"
    and "xo_xpc_type xo = XPC_TYPE_ARRAY \<Longrightarrow> append_xpc w (Suc f) (Some a) (i, m) =
      in_array w ''v'' (xpc_array_apply f (Some a) (append_elem w (append_xpc w f))) (i, m)"
  using assms by (simp_all add: on_mem_def zoom_m_Inr get_obj_runs bind_m_def)

lemma append_xpc_string:
  assumes "val_at (VString s) m a"
  shows "append_xpc w (Suc f) (Some a) (i, m) = on_iter (append_basic w (DString s)) (i, m)"
  using assms by (auto simp: obj_is_def on_mem_def get_obj_runs xpc_string_get_string_ptr_def
      typed_get_def u_runs get_str_runs run_defs)

lemma append_xpc_scalar:
  assumes "val_at (VScalar t w0) m a"
  shows "append_xpc w (Suc f) (Some a) (i, m) = on_iter (append_basic w (to_dbus (VScalar t w0))) (i, m)"
  using assms by (auto simp: obj_is_def scalar_type_def on_mem_def get_obj_runs xpc_bool_get_value_def
      xpc_int64_get_value_def xpc_uint64_get_value_def xpc_date_get_value_def xpc_ext_fd_get_fd_def
      typed_get_def u_runs run_defs)

lemma append_array_writes:
  assumes ok: "writer_ok fds lim w vw par" and val: "val_at (VArray vs) m a" and send: "sendable fds (VArray vs)"
    and fuel: "need (VArray vs) \<le> Suc f"
    and elem: "\<And>v b. v \<in> set vs \<Longrightarrow> val_at v m b \<Longrightarrow> need v \<le> f \<Longrightarrow>
      writes lim vw par m (append_xpc w f (Some b)) (to_dbus v) 0"
  shows "writes lim vw par m (append_xpc w (Suc f) (Some a)) (to_dbus (VArray vs)) 0"
proof -
  let ?app = "append_elem w (append_xpc w f)"
  let ?ds = "map (\<lambda>d. DVariant (sig_of d) d) (map to_dbus vs)"
  from val obtain as xo where rep: "arr_rep m a as" and all: "list_all2 (\<lambda>v b. val_at v m b) vs as"
    and xo: "objs m a = Some xo" "xo_xpc_type xo = XPC_TYPE_ARRAY" by (rule val_at_array)
  have len: "length as = length vs" "length as \<le> f" using list_all2_lengthD [OF all] fuel by simp_all
  have "list_all2 (\<lambda>e b. (\<forall>idx. writes lim vw par m (?app idx (Some b)) e True) \<and> sig_of e = ''v'') ?ds as"
  proof (rule list_all2_all_nthI)
    fix i assume "i < length ?ds"
    then have i: "i < length vs" by simp
    note e = array_elem_at [OF all fuel i]
    then have "writes lim vw par m (append_xpc w f (Some (as ! i))) (to_dbus (vs ! i)) 0" using elem by blast
    with e i show "(\<forall>idx. writes lim vw par m (?app idx (Some (as ! i))) (?ds ! i) True) \<and> sig_of (?ds ! i) = ''v''"
      using send by (auto simp: list_all_iff
          intro!: writes_elem [where app = "append_xpc w f", OF ok xpc_dbus_type_val opened_frame_sig])
  qed (use len in simp)
  then have "fills lim vw par m (apply_list ?app 0 as) ''v'' ?ds" by (rule fills_array)
  then have "fills lim vw par m (xpc_array_apply f (Some a) ?app) ''v'' ?ds"
    by (rule fills_cong [rotated])
      (use len(2) in \<open>intro traverse_array [OF rep] ro_append_elem ro_append_xpc; simp\<close>)
  from writes_cong [OF append_xpc_branch(2) [OF xo] writes_in_array [OF ok this]]
  show ?thesis by (simp only: to_dbus.simps simp_thms)
qed

lemma append_dict_writes:
  assumes ok: "writer_ok fds lim w vw par" and val: "val_at (VDict kvs) m a" and send: "sendable fds (VDict kvs)"
    and fuel: "need (VDict kvs) \<le> Suc f"
    and elem: "\<And>kv b. kv \<in> set kvs \<Longrightarrow> val_at (snd kv) m b \<Longrightarrow> need (snd kv) \<le> f \<Longrightarrow>
      writes lim vw par m (append_xpc w f (Some b)) (to_dbus (snd kv)) 0"
  shows "writes lim vw par m (append_xpc w (Suc f) (Some a)) (to_dbus (VDict kvs)) 0"
proof -
  let ?app = "append_pair w (append_xpc w f)"
  let ?es = "map (\<lambda>kd. DEntry (DString (fst kd)) (DVariant (sig_of (snd kd)) (snd kd))) (map (map_prod id to_dbus) kvs)"
  from val obtain n as xo where rep: "dict_map n m a (zip (map fst kvs) as)"
    and all: "list_all2 (\<lambda>kv b. val_at (snd kv) m b) kvs as"
    and xo: "objs m a = Some xo" "xo_xpc_type xo = XPC_TYPE_DICTIONARY" by (rule val_at_dict)
  have len: "length as = length kvs" "length kvs \<le> f" using list_all2_lengthD [OF all] fuel by simp_all
  have entries: "fills lim vw par m (apply_pairs ?app (zip (map Some ks) (map Some as))) ''{sv}'' ?es"
    if ks: "list_all2 (\<lambda>k kv. strs m k = Some (fst kv)) ks kvs" for ks
  proof (rule fills_dict, rule list_all2_all_nthI)
    have lks: "length ks = length kvs" using list_all2_lengthD [OF ks] by simp
    then show "length ?es = length (zip (map Some ks) (map Some as))" using len by simp
    fix i assume "i < length ?es"
    then have i: "i < length kvs" by simp
    note e = dict_elem_at [OF all fuel i]
    then have "writes lim vw par m (append_xpc w f (Some (as ! i))) (to_dbus (snd (kvs ! i))) 0"
      using elem by blast
    moreover have "strs m (ks ! i) = Some (fst (kvs ! i))" using list_all2_nthD2 [OF ks i] by simp
    ultimately show "writes lim vw par m (?app (fst (zip (map Some ks) (map Some as) ! i))
        (snd (zip (map Some ks) (map Some as) ! i))) (?es ! i) True \<and> sig_of (?es ! i) = ''{sv}''"
      using e i len lks send by (auto simp: list_all_iff snds.simps
          intro!: writes_pair [where app = "append_xpc w f", OF ok xpc_dbus_type_val opened_frame_sig])
  qed
  have "fills lim vw par m (xpc_dictionary_apply f (Some a) ?app) ''{sv}'' ?es"
    unfolding fills_def
  proof (intro allI impI)
    fix i ds st assume i: "vw i = (In_array ''{sv}'', ds) # st" and fits: "fits lim ((In_array ''{sv}'', ds) # st) ?es"
    from traverse_dict [OF rep len, of ?app i] ro_append_pair [of "append_xpc w f" w, OF ro_append_xpc] obtain ks where
      ks: "list_all2 (\<lambda>k kv. strs m k = Some (fst kv)) ks kvs" and
      run: "xpc_dictionary_apply f (Some a) ?app (i, m) = apply_pairs ?app (zip (map Some ks) (map Some as)) (i, m)"
      by blast
    from entries [OF ks] i fits show "\<exists>i'. xpc_dictionary_apply f (Some a) ?app (i, m) = Inr (True, (i', m)) \<and>
        vw i' = (In_array ''{sv}'', ds @ ?es) # st \<and> (\<forall>p. par i p \<longrightarrow> par i' p)"
      unfolding fills_def run by blast
  qed
  from writes_cong [OF append_xpc_branch(1) [OF xo] writes_in_array [OF ok this]]
  show ?thesis by (simp only: to_dbus.simps simp_thms)
qed

lemma append_xpc_writes_val:
  assumes ok: "writer_ok fds lim w vw par"
  shows "val_at v m a \<Longrightarrow> sendable fds v \<Longrightarrow> need v \<le> fuel \<Longrightarrow>
    writes lim vw par m (append_xpc w fuel (Some a)) (to_dbus v) 0"
proof (induction v arbitrary: a fuel)
  case (VScalar t w0)
  then obtain f where f: "fuel = Suc f" by (cases fuel) auto
  show ?case
    unfolding f by (rule writes_cong [OF append_xpc_scalar [OF VScalar.prems(1)] writes_basic [OF ok]]) (use VScalar.prems(2) in simp_all)
next
  case (VString s)
  then obtain f where f: "fuel = Suc f" by (cases fuel) auto
  have "writes lim vw par m (append_xpc w (Suc f) (Some a)) (DString s) 0"
    by (rule writes_cong [OF append_xpc_string [OF VString.prems(1)] writes_basic [OF ok]]) (use VString.prems(2) in simp_all)
  then show ?case by (simp only: f to_dbus.simps)
next
  case (VData bs)
  then show ?case by simp
next
  case (VArray vs)
  from VArray.prems(3) obtain f where f: "fuel = Suc f" by (cases fuel) auto
  have "writes lim vw par m (append_xpc w f (Some b)) (to_dbus v) 0"
    if "v \<in> set vs" "val_at v m b" "need v \<le> f" for v b
    using VArray.IH [OF that(1,2) _ that(3)] VArray.prems(2) that(1) by (simp add: list_all_iff)
  then show ?case
    using append_array_writes [OF ok VArray.prems(1,2) VArray.prems(3) [unfolded f]] unfolding f by blast
next
  case (VDict kvs)
  from VDict.prems(3) obtain f where f: "fuel = Suc f" by (cases fuel) auto
  have "writes lim vw par m (append_xpc w f (Some b)) (to_dbus (snd kv)) 0"
    if "kv \<in> set kvs" "val_at (snd kv) m b" "need (snd kv) \<le> f" for kv b
    using VDict.IH [OF that(1) _ that(2) _ that(3)] VDict.prems(2) that(1)
    by (auto simp: list_all_iff snds.simps)
  then show ?case
    using append_dict_writes [OF ok VDict.prems(1,2) VDict.prems(3) [unfolded f]] unfolding f by blast
qed

end
