(* ===== verification/XpcDbusRead.thy ===== *)
theory XpcDbusRead
  imports XpcDbusSpec XpcCopy
begin

text \<open>
  Which object a D-Bus value is read as.  The contract of the functions that read, \<open>reader_ok\<close>,
  gives each iterator over the message the values from its position to the end of the container
  it is in; the strings of the message are in the memory.  An iterator can be entered where a
  container is, and asked for a basic value where one is.
\<close>

section \<open>The contract of the reading functions\<close>

primrec type_code :: "dval \<Rightarrow> char" where
  "type_code (DBoolean b) = CHR ''b''"
| "type_code (DInt64 w) = CHR ''x''"
| "type_code (DUint64 w) = CHR ''t''"
| "type_code (DString s) = CHR ''s''"
| "type_code (DUnixFd fd) = CHR ''h''"
| "type_code (DByte b) = CHR ''y''"
| "type_code (DArray s ds) = CHR ''a''"
| "type_code (DVariant s d) = CHR ''v''"
| "type_code (DEntry k v) = CHR ''e''"

definition element_code :: "string \<Rightarrow> char" where
  "element_code s = (if hd s = CHR ''{'' then CHR ''e'' else hd s)"

fun children :: "dval \<Rightarrow> dval list" where
  "children (DArray s ds) = ds"
| "children (DVariant s d) = [d]"
| "children (DEntry k v) = [k, v]"
| "children d = []"

fun basic_is :: "xmem \<Rightarrow> dval \<Rightarrow> dbus_basic \<Rightarrow> bool" where
  "basic_is m (DBoolean b) r = (r = BBoolean b)"
| "basic_is m (DInt64 w) r = (r = BInt64 w)"
| "basic_is m (DUint64 w) r = (r = BUint64 w)"
| "basic_is m (DUnixFd fd) r = (r = BUnixFd fd)"
| "basic_is m (DString s) r = (case r of BString p \<Rightarrow> strs m p = Some s | _ \<Rightarrow> False)"
| "basic_is m d r = True"

text \<open>
  The value of a descriptor is the number that \<open>get_basic\<close> gives for it: of a duplicate, made when
  the message was written or is read.  \<open>redup R d d'\<close> says that \<open>d'\<close> is \<open>d\<close> with such numbers, of
  which \<open>R fd fd'\<close> says that \<open>fd'\<close> can be given for \<open>fd\<close>.
\<close>

inductive redup :: "(32 word \<Rightarrow> 32 word \<Rightarrow> bool) \<Rightarrow> dval \<Rightarrow> dval \<Rightarrow> bool" for R where
  boolean: "redup R (DBoolean b) (DBoolean b)"
| int64: "redup R (DInt64 w) (DInt64 w)"
| uint64: "redup R (DUint64 u) (DUint64 u)"
| string: "redup R (DString s) (DString s)"
| byte: "redup R (DByte y) (DByte y)"
| unix_fd: "R fd fd' \<Longrightarrow> redup R (DUnixFd fd) (DUnixFd fd')"
| array: "list_all2 (redup R) ds es \<Longrightarrow> redup R (DArray s ds) (DArray s es)"
| variant: "redup R d e \<Longrightarrow> redup R (DVariant s d) (DVariant s e)"
| entry: "redup R k k' \<Longrightarrow> redup R v v' \<Longrightarrow> redup R (DEntry k v) (DEntry k' v')"

inductive_simps redup_basic_simps:
  "redup R (DBoolean b) d" "redup R (DInt64 w) d" "redup R (DUint64 u) d" "redup R (DUnixFd fd) d"

inductive_cases redup_stringE: "redup R (DString s) d"
inductive_cases redup_arrayE: "redup R (DArray s ds) d"
inductive_cases redup_variantE: "redup R (DVariant s e) d"
inductive_cases redup_entryE: "redup R (DEntry k v) d"

definition reader_ok ::
  "'r dbus_reader \<Rightarrow> ('r \<Rightarrow> bool) \<Rightarrow> ('r \<Rightarrow> dval list) \<Rightarrow> xmem \<Rightarrow> bool" where
  "reader_ok rd valid items m \<longleftrightarrow> (\<forall>r. valid r \<longrightarrow>
     (case items r of
        [] \<Rightarrow> get_arg_type rd r = CHR 0x00
      | d # ds \<Rightarrow>
          get_arg_type rd r = type_code d \<and> basic_is m d (get_basic rd r) \<and>
          (\<forall>s es. d = DArray s es \<longrightarrow> get_element_type rd r = element_code s) \<and>
          (\<not> basic d \<longrightarrow> valid (recurse rd r) \<and> items (recurse rd r) = children d) \<and>
          valid (next_item rd r) \<and> items (next_item rd r) = ds))"

lemma reader_okD:
  assumes "reader_ok rd valid items m" and "valid r"
  shows "items r = [] \<Longrightarrow> get_arg_type rd r = CHR 0x00"
    and "items r = d # ds \<Longrightarrow> get_arg_type rd r = type_code d \<and> basic_is m d (get_basic rd r) \<and>
      (\<not> basic d \<longrightarrow> valid (recurse rd r) \<and> items (recurse rd r) = children d) \<and>
      valid (next_item rd r) \<and> items (next_item rd r) = ds"
    and "items r = DArray s es # ds \<Longrightarrow> get_element_type rd r = element_code s"
  using assms by (auto simp: reader_ok_def)

lemma basic_is_agree:
  assumes "basic_is m d r" and "mem_ok m" and "agree (next_addr m) m m'"
  shows "basic_is m' d r"
proof -
  have "p < next_addr m" if "strs m p = Some s" for p s
    using assms(2) that by (auto simp: mem_ok_def not_less [symmetric])
  with assms show ?thesis by (cases d; cases r) (auto simp: agree_def)
qed

lemma reader_ok_agree:
  "reader_ok rd valid items m \<Longrightarrow> mem_ok m \<Longrightarrow> agree (next_addr m) m m' \<Longrightarrow> reader_ok rd valid items m'"
  using basic_is_agree [of m _ _ m'] unfolding reader_ok_def by (fastforce split: list.splits)

section \<open>What a value is read as\<close>

text \<open>
  Booleans and descriptors are stored into a union of which the other bytes are junk; a descriptor
  is duplicated.  An entry of a dictionary has a key besides its value.
\<close>

primrec received_kv :: "xmem \<Rightarrow> dval \<Rightarrow> byte list \<times> xval" where
  "received_kv m (DBoolean b) = ([], VScalar XPC_TYPE_BOOL (with_b (b \<noteq> 0) (stack_junk m)))"
| "received_kv m (DInt64 w) = ([], VScalar XPC_TYPE_INT64 w)"
| "received_kv m (DUint64 w) = ([], VScalar XPC_TYPE_UINT64 w)"
| "received_kv m (DString s) = (s, VString s)"
| "received_kv m (DUnixFd fd) = ([], VScalar XPC_TYPE_FD (with_fd (sys_dup m fd) (stack_junk m)))"
| "received_kv m (DByte b) = ([], VData [b])"
| "received_kv m (DArray s ds) =
     ([], if s = ''v'' then VArray (map snd (map (received_kv m) ds)) else VDict (map (received_kv m) ds))"
| "received_kv m (DVariant s d) = ([], snd (received_kv m d))"
| "received_kv m (DEntry k v) = (fst (received_kv m k), snd (received_kv m v))"

definition received :: "xmem \<Rightarrow> dval \<Rightarrow> xval" where
  "received m d = snd (received_kv m d)"

fun is_value :: "dval \<Rightarrow> bool" where
  "is_value (DByte b) = False"
| "is_value (DVariant s d) = False"
| "is_value (DEntry k v) = False"
| "is_value d = True"

fun is_variant :: "dval \<Rightarrow> bool" where
  "is_variant (DVariant s d) = is_value d"
| "is_variant d = False"

fun is_pair :: "dval \<Rightarrow> bool" where
  "is_pair (DEntry (DString k) v) = is_variant v"
| "is_pair d = False"

fun entry_key :: "dval \<Rightarrow> byte list" where
  "entry_key (DEntry (DString k) v) = k"
| "entry_key d = []"

text \<open>What can be read: no blocks, arrays of variants, and dictionaries with distinct string keys.\<close>

primrec readable :: "dval \<Rightarrow> bool" where
  "readable (DBoolean b) = True"
| "readable (DInt64 w) = True"
| "readable (DUint64 w) = True"
| "readable (DString s) = (length s < 2 ^ 64)"
| "readable (DUnixFd fd) = True"
| "readable (DByte b) = False"
| "readable (DArray s ds) = (list_all id (map readable ds) \<and>
     (s = ''v'' \<and> list_all is_variant ds \<or>
      s = ''{sv}'' \<and> list_all is_pair ds \<and> distinct (map entry_key ds)))"
| "readable (DVariant s d) = readable d"
| "readable (DEntry k v) = readable v"

primrec need_d :: "dval \<Rightarrow> nat" where
  "need_d (DBoolean b) = 1"
| "need_d (DInt64 w) = 1"
| "need_d (DUint64 w) = 1"
| "need_d (DString s) = 1"
| "need_d (DUnixFd fd) = 1"
| "need_d (DByte b) = 1"
| "need_d (DArray s ds) = 2 + length ds + sum_list (map need_d ds)"
| "need_d (DVariant s d) = need_d d"
| "need_d (DEntry k v) = need_d v"

text \<open>What is inside the variant of an element or entry.\<close>

fun payload :: "dval \<Rightarrow> dval" where
  "payload (DVariant s d) = d"
| "payload (DEntry k v) = payload v"
| "payload d = d"

lemma need_d_elem: "d \<in> set ds \<Longrightarrow> need_d (DArray s ds) \<le> Suc f \<Longrightarrow> need_d d \<le> f \<and> length ds < f"
  using member_le_sum_list [of "need_d d" "map need_d ds"] by simp

lemma received_agree: "agree lo m m' \<Longrightarrow> received_kv m' d = received_kv m d"
proof (induction d)
  case (DArray s ds)
  then have "map (received_kv m') ds = map (received_kv m) ds" by simp
  then show ?case by (simp only: received_kv.simps)
qed (simp_all add: agree_def)

section \<open>Reading scalars and strings\<close>

lemma built_scalar:
  assumes "mem_ok m" and "scalar_type t"
  shows "built False 0 (VScalar t w) m (next_addr m) (new_object t (U_bits w) 1 0 m)"
proof -
  let ?m = "new_object t (U_bits w) 1 0 m"
  have "grown False (TLeaf (next_addr m)) m ?m"
    using grown_leaf [OF assms(1), of ?m "next_addr m"] assms(2)
    by (auto simp: scalar_type_def new_object_def Let_def)
  then have "\<exists>u. root u = next_addr m \<and> grown False u m ?m" by force
  moreover have "val_at (VScalar t w) ?m (next_addr m)"
    using assms(2) by (auto simp: obj_is_def scalar_type_def new_object_def Let_def)
  moreover have "mem_ok ?m" using mem_ok_new_object [OF assms(1), of t "U_bits w"] assms(2) by (auto simp: scalar_type_def)
  ultimately show ?thesis
    using new_object_agree [of "next_addr m" m] buffers_new_object [OF assms(1)] by (simp add: built_def)
qed

lemma create_builds:
  assumes "mem_ok m" and "\<forall>a. malloc_ok m a"
  shows "\<exists>b m'. xpc_bool_create v m = Inr (Some b, m') \<and> built False 0 (VScalar XPC_TYPE_BOOL (with_b v (stack_junk m))) m b m'"
    and "\<exists>b m'. xpc_int64_create w m = Inr (Some b, m') \<and> built False 0 (VScalar XPC_TYPE_INT64 w) m b m'"
    and "\<exists>b m'. xpc_uint64_create w m = Inr (Some b, m') \<and> built False 0 (VScalar XPC_TYPE_UINT64 w) m b m'"
    and "\<exists>b m'. xpc_fd_create fd m = Inr (Some b, m') \<and>
      built False 0 (VScalar XPC_TYPE_FD (with_fd (sys_dup m fd) (stack_junk m))) m b m'"
  using assms built_scalar [OF assms(1)]
  by (simp_all add: xpc_bool_create_def xpc_int64_create_def xpc_uint64_create_def xpc_fd_create_def
      xpc_prim_create_def gets_m_def bind_m_def prim_create_runs scalar_type_def)

lemma string_builds:
  assumes "mem_ok m" and "\<forall>a. malloc_ok m a" and "strs m p = Some s" and "length s < 2 ^ 64"
  shows "\<exists>b m'. xpc_string_create (Some p) m = Inr (Some b, m') \<and> built False 1 (VString s) m b m'"
proof -
  let ?n = "next_addr m"
  let ?m1 = "m\<lparr>next_addr := Suc ?n, strs := (strs m)(?n \<mapsto> s)\<rparr>"
  let ?m2 = "new_object XPC_TYPE_STRING (U_str (Some ?n)) (word_of_nat (length s)) 0 ?m1"
  have "p < ?n" using assms(1,3) by (auto simp: mem_ok_def not_less [symmetric])
  then have create: "xpc_string_create (Some p) m = Inr (Some (Suc ?n), ?m2)"
    using assms(2,3) by (simp add: xpc_string_create_def strdup_def strlen_def get_str_runs bind_m_def
        new_str_runs return_m_def xpc_prim_create_def prim_create_runs)
  moreover have "mem_ok ?m2" using keepsD [OF type_ops_keep(10) create] assms(1) by (simp add: mem_step_def)
  moreover have "val_at (VString s) ?m2 (Suc ?n)"
    using assms(4) by (simp add: obj_is_def new_object_def Let_def)
  moreover have "agree ?n m ?m2" by (simp add: agree_def new_object_def Let_def)
  moreover have "buffers (card {?n}) m ?m2"
    by (rule buffers_made [OF assms(1)]) (auto simp: new_object_def Let_def)
  moreover have "grown False (TLeaf (Suc ?n)) m ?m2"
    using grown_leaf [OF assms(1), of ?m2 "Suc ?n"] by (simp add: new_object_def Let_def)
  then have "\<exists>t. root t = Suc ?n \<and> grown False t m ?m2" by force
  ultimately show ?thesis by (auto simp: built_def)
qed

section \<open>Reading arrays and dictionaries\<close>

text \<open>\<open>reads m deser d\<close>: from every iterator at the payload of \<open>d\<close>, in any later memory, \<open>deser\<close>
  builds the value that \<open>d\<close> is received as.\<close>

definition reads ::
  "'r dbus_reader \<Rightarrow> ('r \<Rightarrow> bool) \<Rightarrow> ('r \<Rightarrow> dval list) \<Rightarrow> ('r \<Rightarrow> (xmem, ptr) op) \<Rightarrow> dval \<Rightarrow> bool" where
  "reads rd valid items deser d \<longleftrightarrow> (\<forall>r rst m. valid r \<longrightarrow> items r = payload d # rst \<longrightarrow>
     reader_ok rd valid items m \<longrightarrow> mem_ok m \<longrightarrow> (\<forall>a. malloc_ok m a) \<longrightarrow>
     (\<exists>b m'. deser r m = Inr (Some b, m') \<and> built False (bufs 1 (received m d)) (received m d) m b m'))"

lemma readsD:
  "reads rd valid items deser d \<Longrightarrow> valid r \<Longrightarrow> items r = payload d # rst \<Longrightarrow> reader_ok rd valid items m \<Longrightarrow>
   mem_ok m \<Longrightarrow> \<forall>a. malloc_ok m a \<Longrightarrow> \<exists>b m'. deser r m = Inr (Some b, m') \<and> built False (bufs 1 (received m d)) (received m d) m b m'"
  by (simp add: reads_def)

lemma building_array_ok: "building_array False j vs m mk \<Longrightarrow> mem_ok mk \<and> agree (next_addr m) m mk"
  by (auto simp: building_array_def arr_rep_def)

lemma building_dict_ok: "building_dict False j kvs m mk \<Longrightarrow> mem_ok mk \<and> agree (next_addr m) m mk"
  by (auto simp: building_dict_def dict_map_def dict_rep_def)

lemma arr_items_builds:
  assumes rd: "reader_ok rd valid items m" and ok: "mem_ok m" "\<forall>a. malloc_ok m a"
  shows "\<forall>d \<in> set ds. reads rd valid items deser d \<and> is_variant d \<Longrightarrow> valid r \<Longrightarrow> items r = ds \<Longrightarrow>
    building_array False j vs m mk \<Longrightarrow> length ds < n \<Longrightarrow>
    \<exists>mk'. arr_items rd deser n (Some (next_addr m)) r mk = Inr ((), mk') \<and>
      building_array False (j + sum_list (map (\<lambda>d. bufs 1 (received m d)) ds)) (vs @ map (received m) ds) m mk'"
proof (induction ds arbitrary: r j vs mk n)
  case Nil
  then obtain k where "n = Suc k" by (cases n) auto
  with reader_okD(1) [OF rd Nil.prems(2,3)] Nil.prems(4) show ?case by (simp add: return_m_def)
next
  case (Cons d ds)
  from Cons.prems(5) obtain k where n: "n = Suc k" "length ds < k" by (cases n) auto
  from Cons.prems(1) obtain s e where d: "d = DVariant s e" and reads: "reads rd valid items deser d"
    by (cases d) auto
  note r = reader_okD(2) [OF rd Cons.prems(2,3)]
  note mk = building_array_ok [OF Cons.prems(4)]
  have rdk: "reader_ok rd valid items mk" by (rule reader_ok_agree [OF rd ok(1)]) (use mk in blast)
  have "\<forall>a. malloc_ok mk a" using ok(2) mk by (simp add: agree_def)
  from readsD [OF reads _ _ rdk _ this, of "recurse rd r" "[]"] r mk d obtain b mk1 where
    deser: "deser (recurse rd r) mk = Inr (Some b, mk1)" and b: "built False (bufs 1 (received mk d)) (received mk d) mk b mk1" by auto
  have "received mk d = received m d" using mk received_agree unfolding received_def by metis
  with building_array_step [OF Cons.prems(4) b] obtain mk2 where
    app: "xpc_array_append_value (Some (next_addr m)) (Some b) mk1 = Inr ((), mk2)"
    and mk2: "building_array False (j + bufs 1 (received m d)) (vs @ [received m d]) m mk2" by auto
  from Cons.IH [OF _ _ _ mk2 n(2), of "next_item rd r"] Cons.prems(1) r obtain mk' where
    "arr_items rd deser k (Some (next_addr m)) (next_item rd r) mk2 = Inr ((), mk')"
    "building_array False (j + bufs 1 (received m d) + sum_list (map (\<lambda>d. bufs 1 (received m d)) ds))
      ((vs @ [received m d]) @ map (received m) ds) m mk'" by auto
  with deser app r d show ?case by (simp add: n(1) bind_m_def seq_m_def add.assoc)
qed

lemma dict_items_builds:
  assumes rd: "reader_ok rd valid items m" and ok: "mem_ok m" "\<forall>a. malloc_ok m a"
  shows "\<forall>d \<in> set ds. reads rd valid items deser d \<and> is_pair d \<Longrightarrow> valid r \<Longrightarrow> items r = ds \<Longrightarrow>
    building_dict False j kvs m mk \<Longrightarrow> length ds < n \<Longrightarrow> distinct (map fst kvs @ map entry_key ds) \<Longrightarrow>
    \<exists>mk'. dict_items rd deser n (Some (next_addr m)) r mk = Inr ((), mk') \<and>
      building_dict False (j + sum_list (map (\<lambda>d. bufs 1 (received m d)) ds)) (kvs @ map (received_kv m) ds) m mk'"
proof (induction ds arbitrary: r j kvs mk n)
  case Nil
  then obtain k where "n = Suc k" by (cases n) auto
  with reader_okD(1) [OF rd Nil.prems(2,3)] Nil.prems(4) show ?case by (simp add: return_m_def)
next
  case (Cons d ds)
  from Cons.prems(5) obtain k where n: "n = Suc k" "length ds < k" by (cases n) auto
  from Cons.prems(1) have "is_pair d" and reads: "reads rd valid items deser d" by auto
  then obtain key s e where d: "d = DEntry (DString key) (DVariant s e)"
    by (cases d rule: is_pair.cases) (auto elim: is_variant.elims)
  note mk = building_dict_ok [OF Cons.prems(4)]
  have rdk: "reader_ok rd valid items mk" by (rule reader_ok_agree [OF rd ok(1)]) (use mk in blast)
  note r = reader_okD(2) [OF rdk Cons.prems(2,3)]
  from r d have i1: "items (recurse rd r) = DString key # [DVariant s e]" by simp
  note r1 = reader_okD(2) [OF rdk _ i1]
  from r r1 d have i2: "items (next_item rd (recurse rd r)) = DVariant s e # []" by simp
  note r2 = reader_okD(2) [OF rdk _ i2]
  from r r1 d obtain p where p: "get_basic rd (recurse rd r) = BString p" "strs mk p = Some key"
    by (cases "get_basic rd (recurse rd r)") auto
  have "\<forall>a. malloc_ok mk a" using ok(2) mk by (simp add: agree_def)
  from readsD [OF reads _ _ rdk _ this, of "recurse rd (next_item rd (recurse rd r))" "[]"] r r1 r2 mk d
  obtain b mk1 where
    deser: "deser (recurse rd (next_item rd (recurse rd r))) mk = Inr (Some b, mk1)"
    and b: "built False (bufs 1 (received mk d)) (received mk d) mk b mk1" by auto
  have same: "received mk d = received m d" using mk received_agree unfolding received_def by metis
  have "strs mk1 p = Some key"
  proof -
    have "p < next_addr mk" using p(2) mk by (auto simp: mem_ok_def not_less [symmetric])
    then show ?thesis using builtD(4) [OF b] p(2) by (simp add: agree_def)
  qed
  moreover have "key \<notin> fst ` set kvs" using Cons.prems(6) d by auto
  ultimately obtain mk2 where
    set: "xpc_dictionary_set_value (Some (next_addr m)) (Some p) (Some b) mk1 = Inr ((), mk2)"
    and mk2: "building_dict False (j + bufs 1 (received m d)) (kvs @ [(key, received m d)]) m mk2"
    using building_dict_step [OF Cons.prems(4) b, of p key] same by metis
  have kv: "received_kv m d = (key, received m d)" by (simp add: d received_def)
  from Cons.IH [OF _ _ _ mk2 n(2), of "next_item rd r"] Cons.prems(1,6) r d obtain mk' where
    "dict_items rd deser k (Some (next_addr m)) (next_item rd r) mk2 = Inr ((), mk')"
    "building_dict False (j + bufs 1 (received m d) + sum_list (map (\<lambda>d. bufs 1 (received m d)) ds))
      ((kvs @ [(key, received m d)]) @ map (received_kv m) ds) m mk'" by auto
  with deser set r r1 r2 p d kv show ?case
    by (simp add: n(1) bind_m_def seq_m_def get_string_def return_m_def add.assoc)
qed

section \<open>Reading a value\<close>

lemma reads_string:
  assumes "length s < 2 ^ 64"
  shows "reads rd valid items (deserialise_object rd (Suc f)) (DString s)"
  unfolding reads_def
proof (intro allI impI)
  fix r rst m
  assume r: "valid r" "items r = payload (DString s) # rst" and rd: "reader_ok rd valid items m"
    and ok: "mem_ok m" "\<forall>a. malloc_ok m a"
  from r(2) have "items r = DString s # rst" by simp
  from reader_okD(2) [OF rd r(1) this] obtain p where
    "get_basic rd r = BString p" "strs m p = Some s" "get_arg_type rd r = CHR ''s''"
    by (cases "get_basic rd r") auto
  with string_builds [OF ok, of p s] assms
  show "\<exists>b m'. deserialise_object rd (Suc f) r m = Inr (Some b, m') \<and> built False (bufs 1 (received m (DString s))) (received m (DString s)) m b m'"
    by (simp add: Let_def get_string_def bind_m_def return_m_def received_def)
qed

lemma reads_array:
  assumes elems: "\<forall>d \<in> set ds. reads rd valid items (deserialise_object rd f) d \<and> is_variant d"
    and len: "length ds < f"
  shows "reads rd valid items (deserialise_object rd (Suc f)) (DArray ''v'' ds)"
  unfolding reads_def
proof (intro allI impI)
  fix r rst m
  assume r: "valid r" "items r = payload (DArray ''v'' ds) # rst" and rd: "reader_ok rd valid items m"
    and ok: "mem_ok m" "\<forall>a. malloc_ok m a"
  let ?n = "next_addr m"
  from r(2) have i: "items r = DArray ''v'' ds # rst" by simp
  note t = reader_okD(2) [OF rd r(1) i] reader_okD(3) [OF rd r(1) i]
  from arr_items_builds [OF rd ok elems _ _ building_array_start [OF ok(1)] len, of "recurse rd r"] t obtain mk
    where "arr_items rd (deserialise_object rd f) f (Some ?n) (recurse rd r)
        (new_object XPC_TYPE_ARRAY (U_bits 0) 0 0 m) = Inr ((), mk)"
      and mk: "building_array False (sum_list (map (\<lambda>d. bufs 1 (received m d)) ds)) (map (received m) ds) m mk" by auto
  then have "deserialise_arr rd (deserialise_object rd f) f (recurse rd r) m = Inr (Some ?n, mk)"
    using ok(2) by (simp add: deserialise_arr_def xpc_array_create_def xpc_prim_create_def
        prim_create_runs run_defs)
  then have "deserialise_object rd (Suc f) r m = Inr (Some ?n, mk)"
    using t by (simp add: element_code_def Let_def)
  moreover have "received m (DArray ''v'' ds) = VArray (map (received m) ds)"
    by (simp add: received_def)
  ultimately show "\<exists>b m'. deserialise_object rd (Suc f) r m = Inr (Some b, m') \<and>
      built False (bufs 1 (received m (DArray ''v'' ds))) (received m (DArray ''v'' ds)) m b m'"
    using building_array_done [OF mk] by (auto simp: comp_def)
qed

lemma reads_dict:
  assumes elems: "\<forall>d \<in> set ds. reads rd valid items (deserialise_object rd f) d \<and> is_pair d"
    and dist: "distinct (map entry_key ds)" and len: "length ds < f"
  shows "reads rd valid items (deserialise_object rd (Suc f)) (DArray ''{sv}'' ds)"
  unfolding reads_def
proof (intro allI impI)
  fix r rst m
  assume r: "valid r" "items r = payload (DArray ''{sv}'' ds) # rst" and rd: "reader_ok rd valid items m"
    and ok: "mem_ok m" "\<forall>a. malloc_ok m a"
  let ?n = "next_addr m"
  from r(2) have i: "items r = DArray ''{sv}'' ds # rst" by simp
  note t = reader_okD(2) [OF rd r(1) i] reader_okD(3) [OF rd r(1) i]
  from dict_items_builds [OF rd ok elems _ _ building_dict_start [OF ok] len, of "recurse rd r"] t dist
  obtain mk where "dict_items rd (deserialise_object rd f) f (Some ?n) (recurse rd r)
        (new_object XPC_TYPE_DICTIONARY (U_bits 0) 0 0 m) = Inr ((), mk)"
      and mk: "building_dict False (sum_list (map (\<lambda>d. bufs 1 (received m d)) ds)) (map (received_kv m) ds) m mk" by auto
  then have "deserialise_dict rd (deserialise_object rd f) f (recurse rd r) m = Inr (Some ?n, mk)"
    using ok(2) by (simp add: deserialise_dict_def xpc_dictionary_create_def xpc_prim_create_def
        prim_create_runs run_defs)
  then have "deserialise_object rd (Suc f) r m = Inr (Some ?n, mk)"
    using t by (simp add: element_code_def Let_def)
  moreover have "received m (DArray ''{sv}'' ds) = VDict (map (received_kv m) ds)"
    by (simp add: received_def)
  ultimately show "\<exists>b m'. deserialise_object rd (Suc f) r m = Inr (Some b, m') \<and>
      built False (bufs 1 (received m (DArray ''{sv}'' ds))) (received m (DArray ''{sv}'' ds)) m b m'"
    using building_dict_done [OF mk] by (auto simp: comp_def received_def)
qed

lemma deserialise_reads:
  assumes "readable d" and "is_value (payload d)" and "need_d d \<le> fuel"
  shows "reads rd valid items (deserialise_object rd fuel) d"
  using assms
proof (induction d arbitrary: fuel)
  case (DArray s ds)
  from DArray.prems(3) obtain f where f: "fuel = Suc f" by (cases fuel) auto
  have elems: "reads rd valid items (deserialise_object rd f) d" if "d \<in> set ds" "is_value (payload d)" for d
    using DArray.IH [OF that(1) _ that(2)] DArray.prems(1) need_d_elem [OF that(1) DArray.prems(3) [unfolded f]] that(1)
    by (auto simp: list_all_iff)
  have pay: "is_value (payload d)" if "is_variant d \<or> is_pair d" for d
    using that by (auto elim!: is_variant.elims is_pair.elims)
  have len: "length ds < f" using DArray.prems(3) f by simp
  from DArray.prems(1) consider "s = ''v''" "list_all is_variant ds"
    | "s = ''{sv}''" "list_all is_pair ds" "distinct (map entry_key ds)" by auto
  then show ?case
  proof cases
    case 1
    with len elems pay show ?thesis unfolding f
      by (auto simp: list_all_iff simp del: deserialise_object.simps intro!: reads_array)
  next
    case 2
    with len elems pay show ?thesis unfolding f
      by (auto simp: list_all_iff simp del: deserialise_object.simps intro!: reads_dict)
  qed
next
  case (DString s)
  then show ?case by (cases fuel) (auto simp del: deserialise_object.simps intro!: reads_string)
next
  case (DVariant s d)
  then have "payload d = d" by (cases d) auto
  with DVariant.IH [of fuel] DVariant.prems show ?case by (simp add: reads_def received_def)
next
  case (DEntry k v)
  from DEntry.IH(2) [of fuel] DEntry.prems show ?case by (simp add: reads_def received_def)
next
  case (DBoolean b)
  then obtain f where "fuel = Suc f" by (cases fuel) auto
  then show ?case
    using create_builds(1) by (auto simp: reads_def received_def Let_def dest!: reader_okD(2))
next
  case (DInt64 w)
  then obtain f where "fuel = Suc f" by (cases fuel) auto
  then show ?case
    using create_builds(2) by (auto simp: reads_def received_def Let_def dest!: reader_okD(2))
next
  case (DUint64 w)
  then obtain f where "fuel = Suc f" by (cases fuel) auto
  then show ?case
    using create_builds(3) by (auto simp: reads_def received_def Let_def dest!: reader_okD(2))
next
  case (DUnixFd fd)
  then obtain f where "fuel = Suc f" by (cases fuel) auto
  then show ?case
    using create_builds(4) by (auto simp: reads_def received_def Let_def dest!: reader_okD(2))
next
  case (DByte b)
  then show ?case by simp
qed

end
