(* ===== verification/XpcConnection.thy ===== *)
theory XpcConnection
  imports XpcDbus
begin

text \<open>
  The connections of \<open>libOpenXPC/xpc_dbus.c\<close>.  The state is the connection to the session bus that
  the library keeps, the requests made over it, and the memory.  The functions of libdbus that are
  called are again a parameter.
\<close>

section \<open>State\<close>

record ('c, 'm, 'i, 'r) dbus_lib =
  writer :: "'i dbus_writer"
  reader :: "'r dbus_reader"
  bus_get :: "'c option \<times> bool"
  bus_request_name :: "'c option \<Rightarrow> byte list \<Rightarrow> int \<times> bool"
  new_method_call :: "byte list \<Rightarrow> string \<Rightarrow> string \<Rightarrow> string \<Rightarrow> 'm option"
  iter_init_append :: "'m option \<Rightarrow> 'i"
  message_of :: "'i \<Rightarrow> 'm"
  send_with_reply_and_block :: "'c option \<Rightarrow> 'm \<Rightarrow> bool"
  iter_init :: "'m \<Rightarrow> 'r option"

record 'c xpc_connection =
  base_type :: xpc_type
  base_flags :: "16 word"
  base_refcnt :: "32 word"
  base_size :: "64 word"
  busname :: ptr
  conn :: "'c option"
  is_passive :: bool

text \<open>A request is the connection, the message handed to libdbus and whether a reply came.\<close>

record ('c, 'm) bus =
  conn_bus :: "'c option"
  requests :: "('c option \<times> 'm \<times> bool) list"

text \<open>\<open>exit\<close> ends the process instead of returning.\<close>

datatype 'a run = Exits int | Returns 'a

section \<open>Operations\<close>

definition setup_xpc :: "('c, 'm, 'i, 'r) dbus_lib \<Rightarrow> ('c, 'm) bus \<Rightarrow> int run \<times> ('c, 'm) bus" where
  "setup_xpc lib b =
     (if conn_bus b \<noteq> None then (Returns 0, b)
      else let (c, err) = bus_get lib; b = b\<lparr>conn_bus := c\<rparr> in
        if err then (Returns (-1), b)
        else if c = None then (Exits 1, b)
        else (Returns 0, b))"

definition XPC_CONNECTION_MACH_SERVICE_LISTENER :: "64 word" where
  "XPC_CONNECTION_MACH_SERVICE_LISTENER = 1"

definition DBUS_REQUEST_NAME_REPLY_PRIMARY_OWNER :: int where
  "DBUS_REQUEST_NAME_REPLY_PRIMARY_OWNER = 1"

text \<open>
  The result of \<open>setup_xpc\<close> is not looked at.  \<open>is_passive\<close>, \<open>passive\<close> in the source, is only written for a listener: what
  \<open>malloc\<close> returned for it is \<open>junk\<close>.
\<close>

definition xpc_connection_create_mach_service ::
  "('c, 'm, 'i, 'r) dbus_lib \<Rightarrow> bool \<Rightarrow> ptr \<Rightarrow> 64 word \<Rightarrow>
   (('c, 'm) bus \<times> xmem, 'c xpc_connection option run) op" where
  "xpc_connection_create_mach_service lib junk name flags = (\<lambda>(b, m).
     case malloc m of
       Inl e \<Rightarrow> Inl e
     | Inr (None, m) \<Rightarrow> Inr (Returns None, (b, m))
     | Inr (Some res, m) \<Rightarrow>
         (case setup_xpc lib b of
            (Exits c, b) \<Rightarrow> Inr (Exits c, (b, m))
          | (Returns _, b) \<Rightarrow>
              (case get_str name m of
                 Inl e \<Rightarrow> Inl e
               | Inr (s, m) \<Rightarrow>
                   let listener = (flags AND XPC_CONNECTION_MACH_SERVICE_LISTENER \<noteq> 0) in
                   if listener \<and> fst (bus_request_name lib (conn_bus b) s) \<noteq> DBUS_REQUEST_NAME_REPLY_PRIMARY_OWNER
                   then Inr (Exits 1, (b, m))
                   else
                     (case strdup name m of
                        Inl e \<Rightarrow> Inl e
                      | Inr (p, m) \<Rightarrow> Inr (Returns (Some \<lparr>base_type = XPC_TYPE_CONNECTION, base_flags = 0,
                          base_refcnt = 1, base_size = 0, busname = p, conn = conn_bus b,
                          is_passive = (if listener then True else junk)\<rparr>), (b, m))))))"

text \<open>
  The message is handed to libdbus, which sends it and waits for the reply, and its own contents are
  read back; what is read is dropped.  Whether a reply came only decides about a log line.
\<close>

definition xpc_connection_send_message ::
  "('c, 'm, 'i, 'r) dbus_lib \<Rightarrow> nat \<Rightarrow> 'c xpc_connection \<Rightarrow> ptr \<Rightarrow>
   (('c, 'm) bus \<times> xmem, unit) op" where
  "xpc_connection_send_message lib fuel xconn xmsg = (\<lambda>(b, m).
     if is_passive xconn then Inr ((), (b, m))
     else
       (case get_str (busname xconn) m of
          Inl e \<Rightarrow> Inl e
        | Inr (s, m) \<Rightarrow>
            let msg = new_method_call lib s ''/org/LaunchD_Reloaded/xpc'' ''org.LaunchD_Reloaded.xpc''
                  ''xpcMessage'' in
            (case append_xpc (writer lib) fuel xmsg (iter_init_append lib msg, m) of
               Inl e \<Rightarrow> Inl e
             | Inr (r, (iter, m)) \<Rightarrow>
                 if r < 0 then Inr ((), (b, m))
                 else
                   let msg = message_of lib iter; replied = send_with_reply_and_block lib (conn xconn) msg;
                     b = b\<lparr>requests := requests b @ [(conn xconn, msg, replied)]\<rparr> in
                   (case deserialise_message (reader lib) fuel (iter_init lib msg) m of
                      Inl e \<Rightarrow> Inl e
                    | Inr (_, m) \<Rightarrow> Inr ((), (b, m))))))"

end
