(* ===== verification/XpcDbusClaims.thy ===== *)
theory XpcDbusClaims
  imports XpcDbusRead XpcConnection XpcDestroy
begin

text \<open>
  The properties of the transport: what is written is typed as announced, what is read back is the
  value sent, and what happens when libdbus runs out of memory.
\<close>

section \<open>What arrives\<close>

text \<open>
  The value that a message written for \<open>v\<close> is read as.  Dates arrive as numbers, nulls, doubles
  and endpoints as false, and a descriptor as a duplicate of one that the message has for it.
\<close>

definition scalar_arrives :: "xmem \<Rightarrow> xpc_type \<Rightarrow> 64 word \<Rightarrow> xval" where
  "scalar_arrives m t w =
     (if t = XPC_TYPE_BOOL then VScalar XPC_TYPE_BOOL (with_b (w AND 0xFF \<noteq> 0) (stack_junk m))
      else if t = XPC_TYPE_INT64 \<or> t = XPC_TYPE_DATE then VScalar XPC_TYPE_INT64 w
      else if t = XPC_TYPE_UINT64 then VScalar XPC_TYPE_UINT64 w
      else VScalar XPC_TYPE_BOOL (with_b False (stack_junk m)))"

inductive arrives :: "(32 word \<Rightarrow> 32 word \<Rightarrow> bool) \<Rightarrow> xmem \<Rightarrow> xval \<Rightarrow> xval \<Rightarrow> bool" for R m where
  scalar: "t \<noteq> XPC_TYPE_FD \<Longrightarrow> arrives R m (VScalar t w) (scalar_arrives m t w)"
| descriptor: "R (ucast w) fd \<Longrightarrow>
    arrives R m (VScalar XPC_TYPE_FD w) (VScalar XPC_TYPE_FD (with_fd (sys_dup m fd) (stack_junk m)))"
| string: "arrives R m (VString s) (VString s)"
| array: "list_all2 (arrives R m) vs ws \<Longrightarrow> arrives R m (VArray vs) (VArray ws)"
| dict: "list_all2 (\<lambda>kv kw. fst kw = fst kv \<and> arrives R m (snd kv) (snd kw)) kvs kws \<Longrightarrow>
    arrives R m (VDict kvs) (VDict kws)"

text \<open>What can be sent and read: in addition, strings are shorter than the address space, and keys
  are distinct, as those of the library's dictionaries are.\<close>

primrec deliverable :: "32 word set \<Rightarrow> xval \<Rightarrow> bool" where
  "deliverable fds (VScalar t w) = (t = XPC_TYPE_FD \<longrightarrow> ucast w \<in> fds)"
| "deliverable fds (VString s) = (utf8 s \<and> length s < 2 ^ 64)"
| "deliverable fds (VData bs) = False"
| "deliverable fds (VArray vs) = list_all id (map (deliverable fds) vs)"
| "deliverable fds (VDict kvs) = (list_all (\<lambda>kv. utf8 (fst kv) \<and> snd kv) (map (map_prod id (deliverable fds)) kvs) \<and>
     distinct (map fst kvs))"

lemma deliverable_sendable: "deliverable fds v \<Longrightarrow> sendable fds v"
  by (induction v) (auto simp: list_all_iff snds.simps)

lemma is_value_to_dbus: "is_value (to_dbus v)" "payload (to_dbus v) = to_dbus v"
  by (cases v; simp)+

lemma readable_to_dbus: "deliverable fds v \<Longrightarrow> readable (to_dbus v)"
  by (induction v) (auto simp: list_all_iff snds.simps is_value_to_dbus comp_def)

text \<open>Other numbers for the descriptors change nothing else of how a message is read.\<close>

lemma redup_same:
  "redup R d d' \<Longrightarrow> need_d d' = need_d d \<and> is_value d' = is_value d \<and> is_variant d' = is_variant d \<and>
   is_pair d' = is_pair d \<and> entry_key d' = entry_key d \<and> readable d' = readable d"
proof (induction rule: redup.induct)
  case (array ds es s)
  have "map need_d es = map need_d ds" "map entry_key es = map entry_key ds"
    "list_all is_variant es = list_all is_variant ds" "list_all is_pair es = list_all is_pair ds"
    "list_all readable es = list_all readable ds" "length es = length ds"
    using array by (auto simp: list_all2_conv_all_nth list_all_length intro: nth_equalityI)
  then show ?case by (simp add: list.pred_map)
next
  case (entry k k' v v')
  then show ?case by (cases k; cases k') (auto elim: redup.cases)
qed (auto elim: redup.cases)

lemma redup_to_dbus: "redup R (to_dbus v) d' \<Longrightarrow> payload d' = d'"
  using redup_same [of R "to_dbus v" d'] is_value_to_dbus(1) [of v] by (cases d') auto

inductive_cases arrives_scalarE: "arrives R m (VScalar t w) v"
inductive_cases arrives_dictE: "arrives R m (VDict kvs) v"

lemma received_arrives: "deliverable fds v \<Longrightarrow> redup R (to_dbus v) d' \<Longrightarrow> arrives R m v (received m d')"
proof (induction v arbitrary: d')
  case (VScalar t w)
  then show ?case
    by (cases "t = XPC_TYPE_FD")
      (use arrives.scalar [of t R m w] in \<open>auto simp: redup_basic_simps received_def scalar_arrives_def
        intro!: arrives.intros split: if_splits\<close>)
next
  case (VString s)
  then show ?case by (auto elim!: redup_stringE simp: received_def intro: arrives.intros)
next
  case (VData bs)
  then show ?case by simp
next
  case (VArray vs)
  then obtain es where d': "d' = DArray ''v'' es"
    and es: "list_all2 (redup R) (map (\<lambda>v. DVariant (sig_of (to_dbus v)) (to_dbus v)) vs) es"
    by (auto elim!: redup_arrayE simp: comp_def)
  have "list_all2 (arrives R m) vs (map (received m) es)"
  proof (rule list_all2_all_nthI)
    show "length vs = length (map (received m) es)" using list_all2_lengthD [OF es] by simp
    fix i assume i: "i < length vs"
    from list_all2_nthD [OF es] i obtain e where "es ! i = DVariant (sig_of (to_dbus (vs ! i))) e"
      "redup R (to_dbus (vs ! i)) e" by (force elim: redup_variantE)
    with VArray.IH [of "vs ! i" e] VArray.prems(1) i list_all2_lengthD [OF es]
    show "arrives R m (vs ! i) (map (received m) es ! i)" by (simp add: received_def list_all_iff)
  qed
  from arrives.array [OF this] show ?case by (simp add: d' received_def [abs_def] comp_def)
next
  case (VDict kvs)
  then obtain es where d': "d' = DArray ''{sv}'' es"
    and es: "list_all2 (redup R) (map (\<lambda>kv. DEntry (DString (fst kv))
      (DVariant (sig_of (to_dbus (snd kv))) (to_dbus (snd kv)))) kvs) es"
    by (auto elim!: redup_arrayE simp: comp_def)
  have "list_all2 (\<lambda>kv kw. fst kw = fst kv \<and> arrives R m (snd kv) (snd kw)) kvs (map (received_kv m) es)"
  proof (rule list_all2_all_nthI)
    show "length kvs = length (map (received_kv m) es)" using list_all2_lengthD [OF es] by simp
    fix i assume i: "i < length kvs"
    let ?v = "snd (kvs ! i)"
    from list_all2_nthD [OF es] i obtain e where "es ! i = DEntry (DString (fst (kvs ! i))) (DVariant (sig_of (to_dbus ?v)) e)"
      "redup R (to_dbus ?v) e" by (force elim!: redup_entryE redup_variantE redup_stringE)
    moreover have "kvs ! i \<in> set kvs" using i by simp
    ultimately show "fst (map (received_kv m) es ! i) = fst (kvs ! i) \<and>
        arrives R m ?v (snd (map (received_kv m) es ! i))"
      using VDict.IH [of "kvs ! i" ?v e] VDict.prems(1) i list_all2_lengthD [OF es]
      by (auto simp: received_def list_all_iff snds.simps)
  qed
  then show ?case by (auto simp: d' received_def intro: arrives.dict)
qed

lemma sum_list_le: "(\<And>x. x \<in> set xs \<Longrightarrow> f x \<le> 2 * g x) \<Longrightarrow> sum_list (map f xs) \<le> 2 * sum_list (map g xs)"
  for f g :: "'a \<Rightarrow> nat"
  by (induction xs) (auto intro: add_mono simp: distrib_left)

lemma need_to_dbus: "deliverable fds v \<Longrightarrow> need_d (to_dbus v) \<le> 2 * need v"
proof (induction v)
  case (VArray vs)
  then have "sum_list (map (\<lambda>v. need_d (to_dbus v)) vs) \<le> 2 * sum_list (map need vs)"
    by (intro sum_list_le) (auto simp: list_all_iff)
  then show ?case by (simp add: comp_def)
next
  case (VDict kvs)
  then have "sum_list (map (\<lambda>kv. need_d (to_dbus (snd kv))) kvs) \<le> 2 * sum_list (map (\<lambda>kv. need (snd kv)) kvs)"
    by (intro sum_list_le) (auto simp: list_all_iff snds.simps)
  then show ?case by (simp add: comp_def)
qed (simp_all add: comp_def)

text \<open>Reading what was sent.\<close>

lemma read_sent:
  assumes "deliverable fds v" and d: "redup R (to_dbus v) d" and "2 * need v \<le> fuel" and r: "valid r" "items r = [d]"
    and ok: "reader_ok rd valid items m" "mem_ok m" "\<forall>a. malloc_ok m a"
  shows "\<exists>b m'. deserialise_object rd fuel r m = Inr (Some b, m') \<and>
    built False (bufs 1 (received m d)) (received m d) m b m'"
proof -
  note same = redup_same [OF d]
  have "readable d" using same readable_to_dbus [OF assms(1)] by simp
  moreover have "is_value (payload d)" using same is_value_to_dbus [of v] redup_to_dbus [OF d] by simp
  moreover have "need_d d \<le> fuel" using same need_to_dbus [OF assms(1)] assms(3) by simp
  ultimately have "reads rd valid items (deserialise_object rd fuel) d" by (rule deserialise_reads)
  from readsD [OF this r(1) _ ok, of "[]"] r(2) redup_to_dbus [OF d] show ?thesis by simp
qed

section \<open>Running out of memory\<close>

text \<open>Whatever libdbus answers, \<open>append_xpc\<close> of a value returns, with 0 or \<open>-ENOMEM\<close>.\<close>

definition returns :: "xmem \<Rightarrow> ('i \<times> xmem, 'a) op \<Rightarrow> ('i \<Rightarrow> 'a \<Rightarrow> bool) \<Rightarrow> bool" where
  "returns m f R \<longleftrightarrow> (\<forall>i. \<exists>r i'. f (i, m) = Inr (r, (i', m)) \<and> R i r)"

text \<open>An array opened from \<open>i\<close> cannot be closed, whatever was written to it.\<close>

definition unclosable :: "'i dbus_writer \<Rightarrow> string \<Rightarrow> 'i \<Rightarrow> bool" where
  "unclosable w s i \<longleftrightarrow> (\<forall>sub. \<not> fst (close_container w (fst (snd (open_container w CHR ''a'' (Some s) i))) sub))"

lemma returnsD: "returns m f R \<Longrightarrow> \<exists>r i'. f (i, m) = Inr (r, (i', m)) \<and> R i r"
  by (simp add: returns_def)

lemma returns_apply_list:
  "\<forall>b \<in> set as. \<forall>idx. returns m (f idx (Some b)) (\<lambda>_ _. True) \<Longrightarrow> returns m (apply_list f idx as) (\<lambda>_ _. True)"
proof (induction as arbitrary: idx)
  case (Cons b as)
  show ?case
    unfolding returns_def
  proof
    fix i
    from Cons.prems returnsD [of m "f idx (Some b)" "\<lambda>_ _. True" i] obtain c i1 where
      1: "f idx (Some b) (i, m) = Inr (c, (i1, m))" by auto
    show "\<exists>r i'. apply_list f idx (b # as) (i, m) = Inr (r, (i', m)) \<and> True"
      using 1 returnsD [OF Cons.IH, of "idx + 1" i1] Cons.prems
      by (cases c) (auto simp: bind_m_def return_m_def)
  qed
qed (auto simp: returns_def return_m_def)

lemma returns_apply_pairs:
  "\<forall>(k, b) \<in> set kvs. returns m (f k b) (\<lambda>_ _. True) \<Longrightarrow> returns m (apply_pairs f kvs) (\<lambda>_ _. True)"
proof (induction kvs)
  case (Cons kv kvs)
  show ?case
    unfolding returns_def
  proof
    fix i
    from Cons.prems returnsD [of m "f (fst kv) (snd kv)" "\<lambda>_ _. True" i] obtain c i1 where
      1: "f (fst kv) (snd kv) (i, m) = Inr (c, (i1, m))" by (cases kv) auto
    show "\<exists>r i'. apply_pairs f (kv # kvs) (i, m) = Inr (r, (i', m)) \<and> True"
      using 1 returnsD [OF Cons.IH, of i1] Cons.prems
      by (cases c) (auto simp: bind_m_def return_m_def)
  qed
qed (auto simp: returns_def return_m_def)

lemma returns_in_array:
  assumes "returns m fill (\<lambda>_ _. True)"
  shows "returns m (in_array w s fill) (\<lambda>i r. (r = 0 \<or> r = -12) \<and> (unclosable w s i \<longrightarrow> r = -12))"
  unfolding returns_def
proof
  fix i
  obtain ok i1 sub where 1: "open_container w CHR ''a'' (Some s) i = (ok, i1, sub)" by (metis prod_cases3)
  from returnsD [OF assms, of sub] obtain c sub' where 2: "fill (sub, m) = Inr (c, (sub', m))" by auto
  obtain ok' i2 where 3: "close_container w i1 sub' = (ok', i2)" by fastforce
  then have "\<not> ok'" if "unclosable w s i" using that 1 by (metis unclosable_def fst_conv snd_conv)
  with 1 2 3 show "\<exists>r i'. in_array w s fill (i, m) = Inr (r, (i', m)) \<and>
      (r = 0 \<or> r = -12) \<and> (unclosable w s i \<longrightarrow> r = -12)"
    by (cases c) (auto simp: in_array_def)
qed

lemma returns_elem:
  assumes "xpc_dbus_type (Some b) m = Inr (sig, m)" and "returns m (app (Some b)) R"
  shows "returns m (append_elem w app idx (Some b)) (\<lambda>_ _. True)"
  unfolding returns_def
proof
  fix i
  obtain ok i1 sub where 1: "open_container w CHR ''v'' (Some sig) i = (ok, i1, sub)" by (metis prod_cases3)
  from returnsD [OF assms(2), of sub] obtain c sub' where 2: "app (Some b) (sub, m) = Inr (c, (sub', m))" by auto
  obtain ok' i2 where 3: "close_container w i1 sub' = (ok', i2)" by fastforce
  from 1 2 3 assms(1) show "\<exists>r i'. append_elem w app idx (Some b) (i, m) = Inr (r, (i', m)) \<and> True"
    by (simp add: append_elem_def)
qed

lemma returns_pair:
  assumes "strs m k = Some s" and "xpc_dbus_type (Some b) m = Inr (sig, m)" and "returns m (app (Some b)) R"
  shows "returns m (append_pair w app (Some k) (Some b)) (\<lambda>_ _. True)"
  unfolding returns_def
proof
  fix i
  obtain ok i1 sub where 1: "open_container w CHR ''e'' None i = (ok, i1, sub)" by (metis prod_cases3)
  obtain ok1 sub1 where 2: "append_basic w (DString s) sub = (ok1, sub1)" by fastforce
  obtain ok2 sub2 sub3 where 3: "open_container w CHR ''v'' (Some sig) sub1 = (ok2, sub2, sub3)"
    by (metis prod_cases3)
  from returnsD [OF assms(3), of sub3] obtain c sub4 where 4: "app (Some b) (sub3, m) = Inr (c, (sub4, m))" by auto
  obtain ok3 sub5 where 5: "close_container w sub2 sub4 = (ok3, sub5)" by fastforce
  obtain ok4 i2 where 6: "close_container w i1 sub5 = (ok4, i2)" by fastforce
  from 1 2 3 4 5 6 assms(1,2) show "\<exists>r i'. append_pair w app (Some k) (Some b) (i, m) = Inr (r, (i', m)) \<and> True"
    by (cases ok3) (auto simp: append_pair_def get_str_runs)
qed

lemma returns_cong: "(\<And>i. f (i, m) = g (i, m)) \<Longrightarrow> returns m g R \<Longrightarrow> returns m f R"
  by (simp add: returns_def)

lemma returns_mono: "returns m f R \<Longrightarrow> (\<And>i r. R i r \<Longrightarrow> R' i r) \<Longrightarrow> returns m f R'"
  unfolding returns_def by blast

lemma append_array_returns:
  assumes val: "val_at (VArray vs) m a" and fuel: "need (VArray vs) \<le> Suc f"
    and elem: "\<And>v b. v \<in> set vs \<Longrightarrow> val_at v m b \<Longrightarrow> need v \<le> f \<Longrightarrow>
      returns m (append_xpc w f (Some b)) (P v)"
  shows "returns m (append_xpc w (Suc f) (Some a)) (\<lambda>i r. (r = 0 \<or> r = -12) \<and>
     (unclosable w ''v'' i \<longrightarrow> r = -12))"
proof -
  let ?app = "append_elem w (append_xpc w f)"
  from val obtain as xo where rep: "arr_rep m a as" and all: "list_all2 (\<lambda>v b. val_at v m b) vs as"
    and xo: "objs m a = Some xo" "xo_xpc_type xo = XPC_TYPE_ARRAY" by (rule val_at_array)
  have len: "length as = length vs" "length as \<le> f" using list_all2_lengthD [OF all] fuel by simp_all
  have "\<forall>b \<in> set as. \<forall>idx. returns m (?app idx (Some b)) (\<lambda>_ _. True)"
  proof (intro ballI allI)
    fix b idx assume "b \<in> set as"
    then obtain i where i: "i < length vs" "b = as ! i" using len by (auto simp: in_set_conv_nth)
    note e = array_elem_at [OF all fuel i(1)]
    then show "returns m (?app idx (Some b)) (\<lambda>_ _. True)"
      unfolding i(2) by (intro returns_elem [OF xpc_dbus_type_val]) (auto intro: elem)
  qed
  then have "returns m (apply_list ?app 0 as) (\<lambda>_ _. True)" by (rule returns_apply_list)
  then have "returns m (xpc_array_apply f (Some a) ?app) (\<lambda>_ _. True)"
    by (rule returns_cong [rotated])
      (use len(2) in \<open>intro traverse_array [OF rep] ro_append_elem ro_append_xpc; simp\<close>)
  from returns_cong [OF append_xpc_branch(2) [OF xo] returns_in_array [OF this]]
  show ?thesis by (rule returns_mono) auto
qed

lemma append_dict_returns:
  assumes val: "val_at (VDict kvs) m a" and fuel: "need (VDict kvs) \<le> Suc f"
    and elem: "\<And>kv b. kv \<in> set kvs \<Longrightarrow> val_at (snd kv) m b \<Longrightarrow> need (snd kv) \<le> f \<Longrightarrow>
      returns m (append_xpc w f (Some b)) (P kv)"
  shows "returns m (append_xpc w (Suc f) (Some a)) (\<lambda>i r. (r = 0 \<or> r = -12) \<and>
     (unclosable w ''{sv}'' i \<longrightarrow> r = -12))"
proof -
  let ?app = "append_pair w (append_xpc w f)"
  from val obtain n as xo where rep: "dict_map n m a (zip (map fst kvs) as)"
    and all: "list_all2 (\<lambda>kv b. val_at (snd kv) m b) kvs as"
    and xo: "objs m a = Some xo" "xo_xpc_type xo = XPC_TYPE_DICTIONARY" by (rule val_at_dict)
  have len: "length as = length kvs" "length kvs \<le> f" using list_all2_lengthD [OF all] fuel by simp_all
  have pairs: "returns m (apply_pairs ?app (zip (map Some ks) (map Some as))) (\<lambda>_ _. True)"
    if ks: "list_all2 (\<lambda>k kv. strs m k = Some (fst kv)) ks kvs" for ks
  proof (rule returns_apply_pairs, clarify)
    fix k b assume "(k, b) \<in> set (zip (map Some ks) (map Some as))"
    then obtain i where i: "i < length kvs" "k = Some (ks ! i)" "b = Some (as ! i)"
      using len list_all2_lengthD [OF ks] by (auto simp: set_zip)
    note e = dict_elem_at [OF all fuel i(1)]
    have "strs m (ks ! i) = Some (fst (kvs ! i))" using list_all2_nthD2 [OF ks i(1)] by simp
    then show "returns m (?app k b) (\<lambda>_ _. True)"
      unfolding i(2,3) using e by (intro returns_pair [OF _ xpc_dbus_type_val]) (auto intro: elem)
  qed
  have "returns m (xpc_dictionary_apply f (Some a) ?app) (\<lambda>_ _. True)"
    unfolding returns_def
  proof
    fix i
    from traverse_dict [OF rep len, of ?app i] ro_append_pair [of "append_xpc w f" w, OF ro_append_xpc] obtain ks where
      "list_all2 (\<lambda>k kv. strs m k = Some (fst kv)) ks kvs" and
      run: "xpc_dictionary_apply f (Some a) ?app (i, m) = apply_pairs ?app (zip (map Some ks) (map Some as)) (i, m)"
      by blast
    from returnsD [OF pairs [OF this(1)], of i]
    show "\<exists>r i'. xpc_dictionary_apply f (Some a) ?app (i, m) = Inr (r, i', m) \<and> True" unfolding run .
  qed
  from returns_cong [OF append_xpc_branch(1) [OF xo] returns_in_array [OF this]]
  show ?thesis by (rule returns_mono) auto
qed

lemma append_xpc_returns:
  "val_at v m a \<Longrightarrow> need v \<le> fuel \<Longrightarrow> returns m (append_xpc w fuel (Some a)) (\<lambda>i r. (r = 0 \<or> r = -12) \<and>
     ((\<exists>vs. v = VArray vs) \<or> (\<exists>kvs. v = VDict kvs) \<longrightarrow> unclosable w (tl (sig_of (to_dbus v))) i \<longrightarrow> r = -12))"
proof (induction v arbitrary: a fuel)
  case (VScalar t w0)
  then obtain f where f: "fuel = Suc f" by (cases fuel) auto
  show ?case
    unfolding f by (rule returns_cong, rule append_xpc_scalar [OF VScalar.prems(1)]) (simp add: returns_def on_iter_def)
next
  case (VString s)
  then obtain f where f: "fuel = Suc f" by (cases fuel) auto
  show ?case
    unfolding f by (rule returns_cong, rule append_xpc_string [OF VString.prems(1)]) (simp add: returns_def on_iter_def)
next
  case (VData bs)
  then obtain f where f: "fuel = Suc f" by (cases fuel) auto
  from VData.prems(1) show ?case
    by (auto simp: f returns_def obj_is_def on_mem_def get_obj_runs xpc_data_get_bytes_ptr_def
        xpc_data_get_length_def typed_get_def u_runs run_defs on_iter_def)
next
  case (VArray vs)
  from VArray.prems(2) obtain f where f: "fuel = Suc f" by (cases fuel) auto
  from append_array_returns [OF VArray.prems(1) VArray.prems(2) [unfolded f] VArray.IH]
  show ?case unfolding f by (rule returns_mono) auto
next
  case (VDict kvs)
  from VDict.prems(2) obtain f where f: "fuel = Suc f" by (cases fuel) auto
  from append_dict_returns [OF VDict.prems(1) VDict.prems(2) [unfolded f] VDict.IH]
  show ?case unfolding f by (rule returns_mono) (auto simp: snds.simps)
qed

section \<open>A concrete message\<close>

text \<open>
  An instance of the two contracts: an iterator that writes is the stack it shows, an iterator that
  reads is the list of the values it has before it.  Strings are at the addresses of the
  examples' keys.
\<close>

definition list_writer :: "(frame \<times> dval list) list dbus_writer" where
  "list_writer = \<lparr>
     append_basic = (\<lambda>d st. (True, case st of [] \<Rightarrow> [] | x # st \<Rightarrow> (fst x, snd x @ [d]) # st)),
     append_fixed_array = (\<lambda>c p n st. (False, st)),
     open_container = (\<lambda>c s st. (True, st, case opened_frame c s of Some f \<Rightarrow> (f, []) # st | None \<Rightarrow> st)),
     close_container = (\<lambda>st sub. case sub of
         x # y # st' \<Rightarrow> (case packed (fst x) (snd x) of
             Some d \<Rightarrow> (True, (fst y, snd y @ [d]) # st') | None \<Rightarrow> (False, st))
       | _ \<Rightarrow> (False, st))\<rparr>"

lemma list_writer_ok: "writer_ok fds lim list_writer (\<lambda>st. st) (\<lambda>sub st. tl sub = st)"
  unfolding writer_ok_def by (intro conjI allI impI; clarify?) (auto simp: list_writer_def)

fun basic_of :: "dval \<Rightarrow> dbus_basic" where
  "basic_of (DBoolean b) = BBoolean b"
| "basic_of (DInt64 w) = BInt64 w"
| "basic_of (DUint64 w) = BUint64 w"
| "basic_of (DUnixFd fd) = BUnixFd fd"
| "basic_of (DString s) = BString (if s = [97] then 2 else 3)"
| "basic_of d = BInt64 0"

definition list_reader :: "dval list dbus_reader" where
  "list_reader = \<lparr>
     get_arg_type = (\<lambda>r. case r of [] \<Rightarrow> CHR 0x00 | d # ds \<Rightarrow> type_code d),
     get_element_type = (\<lambda>r. case r of DArray s es # ds \<Rightarrow> element_code s | _ \<Rightarrow> CHR 0x00),
     get_basic = (\<lambda>r. basic_of (hd r)),
     recurse = (\<lambda>r. children (hd r)),
     next_item = tl\<rparr>"

primrec strings_in :: "byte list set \<Rightarrow> dval \<Rightarrow> bool" where
  "strings_in S (DBoolean b) = True"
| "strings_in S (DInt64 w) = True"
| "strings_in S (DUint64 w) = True"
| "strings_in S (DString s) = (s \<in> S)"
| "strings_in S (DUnixFd fd) = True"
| "strings_in S (DByte b) = True"
| "strings_in S (DArray s ds) = list_all id (map (strings_in S) ds)"
| "strings_in S (DVariant s d) = strings_in S d"
| "strings_in S (DEntry k v) = (strings_in S k \<and> strings_in S v)"

lemma list_reader_ok:
  assumes "strs m 2 = Some [97]" and "strs m 3 = Some [98]"
  shows "reader_ok list_reader (list_all (strings_in {[97], [98]})) (\<lambda>r. r) m"
  unfolding reader_ok_def
proof (intro allI impI)
  fix r assume r: "list_all (strings_in {[97], [98]}) r"
  show "case r of [] \<Rightarrow> get_arg_type list_reader r = CHR 0x00
    | d # ds \<Rightarrow> get_arg_type list_reader r = type_code d \<and> basic_is m d (get_basic list_reader r) \<and>
        (\<forall>s es. d = DArray s es \<longrightarrow> get_element_type list_reader r = element_code s) \<and>
        (\<not> basic d \<longrightarrow> list_all (strings_in {[97], [98]}) (recurse list_reader r) \<and> recurse list_reader r = children d) \<and>
        list_all (strings_in {[97], [98]}) (next_item list_reader r) \<and> next_item list_reader r = ds"
  proof (cases r)
    case (Cons d ds)
    with r assms show ?thesis by (cases d) (auto simp: list_reader_def list_all_iff)
  qed (simp add: list_reader_def)
qed

section \<open>Properties\<close>

text \<open>C16: \<open>append_xpc\<close> of an object that represents a value libdbus can take (strings and keys in
  UTF-8, open descriptors, no block of data at any depth, which would be written without its array)
  writes exactly one value to the message, the value's encoding: a dictionary is an array of entries
  from its keys to variants, in the dictionary's order, an array is an array of variants.  It
  returns 0 and leaves the memory alone.  The encoding must fit: there is memory for it, and at most
  64 containers are nested in the message.\<close>

theorem append_xpc_writes:
  assumes "writer_ok fds lim w vw par" and "val_at v m a" and "sendable fds v" and "need v \<le> fuel"
    and "vw i = (g, ds) # st" and "room g ds (to_dbus v)" and "fits lim ((g, ds) # st) [to_dbus v]"
  shows "\<exists>i'. append_xpc w fuel (Some a) (i, m) = Inr (0, (i', m)) \<and> vw i' = (g, ds @ [to_dbus v]) # st"
  using writesD [OF append_xpc_writes_val [OF assms(1-4)] assms(5-7)] by blast

text \<open>The dictionary that maps ``a'' to 7.\<close>

theorem append_xpc_writes_witness:
  "\<exists>m i'. append_xpc list_writer 5 (Some 7) ([(In_message, [])], m) = Inr (0, (i', m)) \<and>
     i' = [(In_message, [DArray ''{sv}'' [DEntry (DString [97]) (DVariant ''x'' (DInt64 7))]])]"
proof -
  from demo_dict_val obtain m where "val_at (VDict [([97], VScalar XPC_TYPE_INT64 7)]) m 7" by blast
  from append_xpc_writes [OF list_writer_ok this, of "{}" 5 "[(In_message, [])]" In_message "[]" "[]" 99]
  show ?thesis by (auto simp: utf8_def fits_def simp del: append_xpc.simps)
qed

text \<open>C9: What \<open>append_xpc\<close> writes for a value without blocks of data, with strings in UTF-8 and open
  descriptors, has the type that \<open>xpc_dbus_type\<close> announces for the object, and it is well typed
  throughout: every variant's signature is the type of its contents and every element of an array
  has the array's element type.  For a block of data this fails: it is announced as an array of bytes
  and written without one.\<close>

theorem append_xpc_typed:
  assumes "writer_ok fds lim w vw par" and "val_at v m a" and "sendable fds v" and "need v \<le> fuel"
    and "xpc_dbus_type (Some a) m = Inr (sig, m)" and "vw i = (In_variant sig, []) # st"
    and "fits lim ((In_variant sig, []) # st) [to_dbus v]"
  shows "\<exists>i' d. append_xpc w fuel (Some a) (i, m) = Inr (0, (i', m)) \<and>
    vw i' = (In_variant sig, [d]) # st \<and> sig_of d = sig \<and> well_typed fds d"
proof -
  have "sig_of (to_dbus v) = sig" using xpc_dbus_type_val [OF assms(2)] assms(5) by simp
  with writesD [OF append_xpc_writes_val [OF assms(1-4)] assms(6) _ assms(7)] well_typed_to_dbus [OF assms(3)]
  show ?thesis by auto
qed

theorem append_xpc_typed_witness:
  "\<exists>m i' d. append_xpc list_writer 5 (Some 7) ([(In_variant ''a{sv}'', [])], m) = Inr (0, (i', m)) \<and>
     i' = [(In_variant ''a{sv}'', [d])] \<and> well_typed {} d"
proof -
  from demo_dict_val obtain m where v: "val_at (VDict [([97], VScalar XPC_TYPE_INT64 7)]) m 7" by blast
  have "xpc_dbus_type (Some 7) m = Inr (''a{sv}'', m)" using xpc_dbus_type_val [OF v] by simp
  from append_xpc_typed [OF list_writer_ok v _ _ this, of "{}" 5 "[(In_variant ''a{sv}'', [])]" "[]" 99]
  show ?thesis by (auto simp: utf8_def fits_def simp del: append_xpc.simps)
qed

text \<open>C4: An object that is written to a message and read back from it arrives as a new object that
  represents the value sent, at any depth, apart from these changes of scalars: a date arrives as
  a signed number, a null, double or endpoint as false, and a descriptor as a duplicate of one of
  those that the message has for it.  The value has no block of data at any depth (reading one
  stores through a pointer that was never set), its strings and keys are UTF-8 and shorter than the
  address space, its keys are distinct, its descriptors open, and the message fits into what
  libdbus allows.\<close>

theorem dbus_round_trip:
  assumes "writer_ok fds lim w vw par" and "vw i = [(In_message, [])]"
    and "reader_ok rd valid items m"
    and "\<And>i'. vw i' = [(In_message, [to_dbus v])] \<Longrightarrow>
      \<exists>d. redup R (to_dbus v) d \<and> valid (start i') \<and> items (start i') = [d]"
    and "val_at v m a" and "deliverable fds v" and "fits lim [(In_message, [])] [to_dbus v]"
    and "2 * need v \<le> fuel" and "mem_ok m" and "\<forall>a. malloc_ok m a"
  shows "\<exists>i' b m' v'. append_xpc w fuel (Some a) (i, m) = Inr (0, (i', m)) \<and>
    deserialise_object rd fuel (start i') m = Inr (Some b, m') \<and>
    next_addr m \<le> b \<and> arrives R m v v' \<and> val_at v' m' b \<and> val_at v m' a"
proof -
  have fuel: "need v \<le> fuel" using assms(8) by simp
  from writesD [OF append_xpc_writes_val [OF assms(1,5) deliverable_sendable [OF assms(6)] fuel] assms(2) _ assms(7)]
  obtain i' where i': "append_xpc w fuel (Some a) (i, m) = Inr (0, (i', m))"
    "vw i' = [(In_message, [to_dbus v])]" by auto
  from assms(4) [OF i'(2)] obtain d where d: "redup R (to_dbus v) d" "valid (start i')" "items (start i') = [d]"
    by blast
  obtain b m' where b: "deserialise_object rd fuel (start i') m = Inr (Some b, m')"
    "built False (bufs 1 (received m d)) (received m d) m b m'"
    using read_sent [OF assms(6) d(1) assms(8) d(2,3) assms(3,9,10)] by blast
  have "val_at v m' a" by (rule val_at_agree [OF assms(5,9) builtD(5,4) [OF b(2)]])
  with i'(1) b(1) builtD(1,3) [OF b(2)] received_arrives [OF assms(6) d(1)] show ?thesis by blast
qed

text \<open>A message with a duplicate of each descriptor.\<close>

theorem dbus_round_trip_witness:
  "\<exists>m i' b m'. append_xpc list_writer 9 (Some 7) ([(In_message, [])], m) = Inr (0, (i', m)) \<and>
     deserialise_object list_reader 9 (snd (hd i')) m = Inr (Some b, m') \<and> b \<noteq> 7 \<and>
     val_at (VDict [([97], VScalar XPC_TYPE_INT64 7)]) m' b"
proof -
  let ?v = "VDict [([97], VScalar XPC_TYPE_INT64 7)]"
  from demo_dict_val obtain m where v: "val_at ?v m 7" and mal: "\<forall>a. malloc_ok m a"
    and keys: "strs m 2 = Some [97]" "strs m 3 = Some [98]" by blast
  have ok: "mem_ok m" using v dict_map_ok by auto
  have "val_with ?v (\<lambda>_. True) m 7" using v by (simp only: val_with_True)
  then have "7 < next_addr m" using val_with_live live_below [OF ok] by blast
  moreover have "\<exists>i' b m' v'. append_xpc list_writer 9 (Some 7) ([(In_message, [])], m) = Inr (0, (i', m)) \<and>
      deserialise_object list_reader 9 (snd (hd i')) m = Inr (Some b, m') \<and>
      next_addr m \<le> b \<and> arrives (\<lambda>fd fd'. fd' = fd) m ?v v' \<and> val_at v' m' b \<and> val_at ?v m' 7"
    by (rule dbus_round_trip [OF list_writer_ok [of "{}" 99] _ list_reader_ok [OF keys] _ v _ _ _ ok mal])
      (auto simp: utf8_def fits_def intro!: redup.intros)
  moreover have "v' = ?v" if "arrives (\<lambda>fd fd'. fd' = fd) m ?v v'" for v'
    using that by (auto elim!: arrives_dictE arrives_scalarE simp: list_all2_Cons1 scalar_arrives_def)
  ultimately show ?thesis by (fastforce simp del: append_xpc.simps deserialise_object.simps val_at.simps)
qed

lemma need_received: "need (received m d) \<le> need_d d"
proof (induction d)
  case (DArray s ds)
  have "sum_list (map (\<lambda>d. need (received m d)) ds) \<le> sum_list (map need_d ds)"
    by (rule sum_list_mono) (rule DArray)
  then show ?case by (simp add: received_def comp_def)
qed (simp_all add: received_def)

text \<open>C21: An object that is read from a message and then released has no other reference, and every
  object and pair that \<open>deserialise_object\<close> made is freed; what was there before is as it was.  The
  message holds no byte arrays, and no dictionary with a key twice.  The duplicates of its strings
  are not freed: one for each string, at any depth, remains.\<close>

theorem receive_then_release:
  assumes "reader_ok rd valid items m" and "valid r" and "items r = d # ds" and "readable d" and "is_value d"
    and "need_d d \<le> fuel" and "mem_ok m" and "\<forall>a. malloc_ok m a"
  shows "\<exists>b m' m''. deserialise_object rd fuel r m = Inr (Some b, m') \<and> val_at (received m d) m' b \<and>
    xpc_release fuel (Some b) m' = Inr ((), m'') \<and> mem_ok m'' \<and> objs m'' = objs m \<and> pairs m'' = pairs m \<and>
    (\<forall>x < next_addr m. strs m'' x = strs m x \<and> blobs m'' x = blobs m x) \<and>
    finite (new_bufs m m'') \<and> card (new_bufs m m'') = bufs 1 (received m d) \<and>
    (\<forall>w x. val_at w m x \<longrightarrow> val_at w m'' x)"
proof -
  have "payload d = d" using assms(5) by (cases d) auto
  with readsD [OF deserialise_reads [OF assms(4) _ assms(6)] assms(2) _ assms(1,7,8), of ds] assms(3,5)
  obtain b m' where run: "deserialise_object rd fuel r m = Inr (Some b, m')"
    and b: "built False (bufs 1 (received m d)) (received m d) m b m'" by auto
  have "need (received m d) \<le> fuel" using need_received [of m d] assms(6) by simp
  from release_built [OF b assms(7) this] obtain m'' where
    m'': "xpc_release fuel (Some b) m' = Inr ((), m'')" "mem_ok m''" "agree (next_addr m) m m''"
      "objs m'' = objs m" "pairs m'' = pairs m" "buffers (bufs 1 (received m d)) m m''" by blast
  then have "\<forall>x < next_addr m. strs m'' x = strs m x \<and> blobs m'' x = blobs m x" by (simp add: agree_def)
  with run m'' builtD(3) [OF b] val_at_agree [OF _ assms(7) m''(2,3)] show ?thesis by (auto simp: buffers_def)
qed

theorem receive_then_release_witness:
  "\<exists>m b m' m''. deserialise_object list_reader 9
       [DArray ''{sv}'' [DEntry (DString [97]) (DVariant ''x'' (DInt64 7))]] m = Inr (Some b, m') \<and>
     val_at (VDict [([97], VScalar XPC_TYPE_INT64 7)]) m' b \<and> xpc_release 9 (Some b) m' = Inr ((), m'') \<and>
     objs m'' = objs m \<and> pairs m'' = pairs m \<and> card (new_bufs m m'') = 0"
proof -
  let ?d = "DArray ''{sv}'' [DEntry (DString [97]) (DVariant ''x'' (DInt64 7))]"
  from demo_dict_val obtain m where v: "val_at (VDict [([97], VScalar XPC_TYPE_INT64 7)]) m 7"
    and mal: "\<forall>a. malloc_ok m a" and keys: "strs m 2 = Some [97]" "strs m 3 = Some [98]" by blast
  have ok: "mem_ok m" using v dict_map_ok by auto
  have "received m ?d = VDict [([97], VScalar XPC_TYPE_INT64 7)]" by (simp add: received_def)
  with receive_then_release [OF list_reader_ok [OF keys] _ _ _ _ _ ok mal, of "[?d]" ?d "[]" 9]
  show ?thesis by (fastforce simp del: deserialise_object.simps val_at.simps)
qed

section \<open>Sending\<close>

text \<open>
  The contract at the level of messages: a new method call has no arguments, and a message holds
  what was written to it.
\<close>

definition messages_ok ::
  "('c, 'm, 'i, 'r) dbus_lib \<Rightarrow> ('i \<Rightarrow> (frame \<times> dval list) list) \<Rightarrow> ('m \<Rightarrow> dval list) \<Rightarrow> bool" where
  "messages_ok lib vw contents \<longleftrightarrow>
     (\<forall>dest path iface name. new_method_call lib dest path iface name \<noteq> None \<longrightarrow>
        vw (iter_init_append lib (new_method_call lib dest path iface name)) = [(In_message, [])]) \<and>
     (\<forall>i ds. vw i = [(In_message, ds)] \<longrightarrow> contents (message_of lib i) = ds)"

definition xpc_call :: "('c, 'm, 'i, 'r) dbus_lib \<Rightarrow> byte list \<Rightarrow> 'm option" where
  "xpc_call lib s = new_method_call lib s ''/org/LaunchD_Reloaded/xpc'' ''org.LaunchD_Reloaded.xpc''
     ''xpcMessage''"

text \<open>An instance: a message is its list of arguments, and no reply comes.\<close>

definition list_lib :: "(unit, dval list, (frame \<times> dval list) list, dval list) dbus_lib" where
  "list_lib = \<lparr>writer = list_writer, reader = list_reader, bus_get = (Some (), False),
     bus_request_name = (\<lambda>c s. (1, False)), new_method_call = (\<lambda>d p i n. Some []),
     iter_init_append = (\<lambda>m. [(In_message, [])]),
     message_of = (\<lambda>st. case st of [] \<Rightarrow> [] | x # xs \<Rightarrow> snd x),
     send_with_reply_and_block = (\<lambda>c m. False), iter_init = (\<lambda>m. if m = [] then None else Some m)\<rparr>"

lemma list_lib_ok: "messages_ok list_lib (\<lambda>st. st) (\<lambda>m. m)"
  by (auto simp: messages_ok_def list_lib_def)

definition demo_connection :: "unit xpc_connection" where
  "demo_connection = \<lparr>base_type = XPC_TYPE_CONNECTION, base_flags = 0, base_refcnt = 1, base_size = 0,
     busname = Some 2, conn = Some (), is_passive = False\<rparr>"

text \<open>C13: \<open>xpc_connection_send_message\<close> over a connection that is not passive makes one request: it
  hands libdbus a method call with the encoding of the object as its only argument.  Whether a reply
  comes changes nothing else: in either case the function reads its own request, not the reply, and
  drops the copy of the object that it builds from it, which stays in the memory; all values that
  were there are still there.  The object is one that can be delivered: no block of data at any
  depth, strings and keys in UTF-8, open descriptors, and an encoding that fits into a message.\<close>

theorem send_message_sends:
  assumes "writer_ok fds lim (writer lib) vw par" and "reader_ok (reader lib) valid items m"
    and "messages_ok lib vw contents"
    and "\<And>msg. contents msg = [to_dbus v] \<Longrightarrow>
      \<exists>r d. redup R (to_dbus v) d \<and> iter_init lib msg = Some r \<and> valid r \<and> items r = [d]"
    and "\<not> is_passive c" and "busname c = Some p" and "strs m p = Some s" and "xpc_call lib s \<noteq> None"
    and "val_at v m a" and "deliverable fds v" and "fits lim [(In_message, [])] [to_dbus v]"
    and "2 * need v \<le> fuel" and "mem_ok m" and "\<forall>a. malloc_ok m a"
  shows "\<exists>msg x m' v'. xpc_connection_send_message lib fuel c (Some a) (b, m) =
      Inr ((), (b\<lparr>requests := requests b @ [(conn c, msg, send_with_reply_and_block lib (conn c) msg)]\<rparr>, m')) \<and>
    contents msg = [to_dbus v] \<and> next_addr m \<le> x \<and> arrives R m v v' \<and> val_at v' m' x \<and>
    (\<forall>w y. val_at w m y \<longrightarrow> val_at w m' y)"
proof -
  let ?i = "iter_init_append lib (xpc_call lib s)"
  have i: "vw ?i = [(In_message, [])]" using assms(3,8) by (auto simp: messages_ok_def xpc_call_def)
  have fuel: "need v \<le> fuel" using assms(12) by simp
  from writesD [OF append_xpc_writes_val [OF assms(1,9) deliverable_sendable [OF assms(10)] fuel] i _ assms(11)]
  obtain i' where i': "append_xpc (writer lib) fuel (Some a) (?i, m) = Inr (0, (i', m))"
    "vw i' = [(In_message, [to_dbus v])]" by auto
  then have msg: "contents (message_of lib i') = [to_dbus v]" using assms(3) by (auto simp: messages_ok_def)
  from assms(4) [OF msg] obtain r d where r: "redup R (to_dbus v) d" "iter_init lib (message_of lib i') = Some r"
    "valid r" "items r = [d]" by blast
  obtain x m' where
    x: "deserialise_object (reader lib) fuel r m = Inr (Some x, m')"
      "built False (bufs 1 (received m d)) (received m d) m x m'"
    using read_sent [OF assms(10) r(1) assms(12) r(3,4) assms(2,13,14)] by blast
  have "xpc_connection_send_message lib fuel c (Some a) (b, m) =
      Inr ((), (b\<lparr>requests := requests b @ [(conn c, message_of lib i',
        send_with_reply_and_block lib (conn c) (message_of lib i'))]\<rparr>, m'))"
    using assms(5-7) i'(1) r(2) x(1)
    by (simp add: xpc_connection_send_message_def get_str_runs xpc_call_def deserialise_message_def Let_def)
  with msg builtD(1,3) [OF x(2)] received_arrives [OF assms(10) r(1)]
    val_at_agree [OF _ assms(13) builtD(5,4) [OF x(2)]] show ?thesis by blast
qed

theorem send_message_sends_witness:
  "\<exists>m x m'. xpc_connection_send_message list_lib 9 demo_connection (Some 7) (\<lparr>conn_bus = None, requests = []\<rparr>, m) =
     Inr ((), (\<lparr>conn_bus = None,
       requests = [(Some (), [DArray ''{sv}'' [DEntry (DString [97]) (DVariant ''x'' (DInt64 7))]], False)]\<rparr>, m')) \<and>
     val_at (VDict [([97], VScalar XPC_TYPE_INT64 7)]) m' x"
proof -
  let ?v = "VDict [([97], VScalar XPC_TYPE_INT64 7)]"
  let ?b = "\<lparr>conn_bus = None, requests = []\<rparr>"
  from demo_dict_val obtain m where v: "val_at ?v m 7" and mal: "\<forall>a. malloc_ok m a"
    and keys: "strs m 2 = Some [97]" "strs m 3 = Some [98]" by blast
  have ok: "mem_ok m" using v dict_map_ok by auto
  have lib: "writer list_lib = list_writer" "reader list_lib = list_reader" by (simp_all add: list_lib_def)
  have "\<exists>msg x m' v'. xpc_connection_send_message list_lib 9 demo_connection (Some 7) (?b, m) =
      Inr ((), (?b\<lparr>requests := requests ?b @ [(conn demo_connection, msg,
        send_with_reply_and_block list_lib (conn demo_connection) msg)]\<rparr>, m')) \<and>
    msg = [to_dbus ?v] \<and> next_addr m \<le> x \<and> arrives (\<lambda>fd fd'. fd' = fd) m ?v v' \<and> val_at v' m' x \<and>
    (\<forall>w y. val_at w m y \<longrightarrow> val_at w m' y)"
    by (rule send_message_sends [where lib = list_lib, unfolded lib, OF list_writer_ok [of "{}" 99]
          list_reader_ok [OF keys] list_lib_ok _ _ _ keys(1) _ v _ _ _ ok mal])
      (auto simp: list_lib_def demo_connection_def xpc_call_def utf8_def fits_def intro!: redup.intros)
  moreover have "v' = ?v" if "arrives (\<lambda>fd fd'. fd' = fd) m ?v v'" for v'
    using that by (auto elim!: arrives_dictE arrives_scalarE simp: list_all2_Cons1 scalar_arrives_def)
  ultimately show ?thesis by (fastforce simp: demo_connection_def list_lib_def simp del: val_at.simps)
qed

text \<open>C31: When libdbus cannot close the array of the dictionary or array that is sent, \<open>append_xpc\<close>
  returns \<open>-ENOMEM\<close>, whatever is in it and whatever libdbus answers to the other calls, and
  \<open>xpc_connection_send_message\<close> makes no request and leaves the memory alone; its caller is not told.
  This is about the outermost array: that of a dictionary or array inside is closed by a call of
  \<open>append_xpc\<close> whose result is not looked at.\<close>

theorem send_message_out_of_memory:
  assumes "unclosable (writer lib) (tl (sig_of (to_dbus v))) (iter_init_append lib (xpc_call lib s))"
    and "val_at v m a" and "need v \<le> fuel"
    and "v = VArray vs \<or> v = VDict kvs" and "busname c = Some p" and "strs m p = Some s"
  shows "(\<exists>i'. append_xpc (writer lib) fuel (Some a) (iter_init_append lib (xpc_call lib s), m) = Inr (-12, (i', m))) \<and>
    xpc_connection_send_message lib fuel c (Some a) (b, m) = Inr ((), (b, m))"
proof -
  let ?i = "iter_init_append lib (xpc_call lib s)"
  have fails: "\<exists>i'. append_xpc (writer lib) fuel (Some a) (?i, m) = Inr (-12, (i', m))"
    using returnsD [OF append_xpc_returns [OF assms(2,3)], of "writer lib" ?i] assms(1,4) by auto
  then have "xpc_connection_send_message lib fuel c (Some a) (b, m) = Inr ((), (b, m))"
    using assms(5,6) by (auto simp: xpc_connection_send_message_def get_str_runs xpc_call_def)
  then show ?thesis using fails by blast
qed

definition full_lib :: "(unit, dval list, (frame \<times> dval list) list, dval list) dbus_lib" where
  "full_lib = list_lib\<lparr>writer := list_writer\<lparr>close_container := (\<lambda>i sub. (False, i))\<rparr>\<rparr>"

theorem send_message_out_of_memory_witness:
  "\<exists>m. val_at (VDict [([97], VScalar XPC_TYPE_INT64 7)]) m 7 \<and>
     xpc_connection_send_message full_lib 9 demo_connection (Some 7) (\<lparr>conn_bus = None, requests = []\<rparr>, m) =
       Inr ((), (\<lparr>conn_bus = None, requests = []\<rparr>, m))"
proof -
  from demo_dict_val obtain m where v: "val_at (VDict [([97], VScalar XPC_TYPE_INT64 7)]) m 7"
    and key: "strs m 2 = Some [97]" by blast
  have "xpc_connection_send_message full_lib 9 demo_connection (Some 7) (\<lparr>conn_bus = None, requests = []\<rparr>, m) =
      Inr ((), (\<lparr>conn_bus = None, requests = []\<rparr>, m))"
    by (rule send_message_out_of_memory [THEN conjunct2, OF _ v _ _ _ key])
      (auto simp: full_lib_def demo_connection_def unclosable_def)
  with v show ?thesis by blast
qed

text \<open>A connection that is not a listener sends or not as the memory that \<open>malloc\<close> returned has it:
  \<open>passive\<close> is never written.\<close>

theorem connection_passive_by_chance:
  assumes "malloc_ok m (next_addr m)" and "malloc_ok m (Suc (next_addr m))" and "strs m p = Some s"
    and "p < next_addr m" and "conn_bus b = Some bus"
  shows "\<exists>c m'. xpc_connection_create_mach_service lib junk (Some p) 0 (b, m) = Inr (Returns (Some c), (b, m')) \<and>
    is_passive c = junk"
  using assms by (simp add: xpc_connection_create_mach_service_def malloc_def setup_xpc_def get_str_runs
      strdup_def bind_m_def new_str_runs)

end
