(* ===== verification/ProcUtil.thy ===== *)
theory ProcUtil
  imports XpcPrelude
begin

text \<open>
  \<open>close_fds_except\<close> of \<open>libOpenXPC/procutil.c\<close>: which file descriptors it closes, and
  \<open>ldr_close_internal\<close> of \<open>OpenXPC/util.h\<close>.  The state is the
  set of the descriptors that are open; \<open>close\<close> of one that is not open fails without effect, and
  its result is not looked at.
\<close>

section \<open>The operation\<close>

definition sys_close :: "int \<Rightarrow> (int set, unit) op" where
  "sys_close fd = modify_m (\<lambda>open. open - {fd})"

text \<open>
  The inner loop, from index \<open>j\<close> with \<open>n\<close> rounds left: it reads \<open>fds[j]\<close>, which must be inside the
  array, and leaves at the first match.
\<close>

primrec is_present :: "int list \<Rightarrow> int \<Rightarrow> nat \<Rightarrow> nat \<Rightarrow> fault + bool" where
  "is_present fds i j 0 = Inr False"
| "is_present fds i j (Suc n) =
     (if j < length fds then if fds ! j = i then Inr True else is_present fds i (Suc j) n
      else Inl OutOfBounds)"

definition close_unless_present :: "int list \<Rightarrow> int \<Rightarrow> int \<Rightarrow> (int set, unit) op" where
  "close_unless_present fds nfds i s =
     (case is_present fds i 0 (nat nfds) of
        Inl e \<Rightarrow> Inl e
      | Inr present \<Rightarrow> if \<not> present then sys_close i s else Inr ((), s))"

definition close_fds_except :: "int list \<Rightarrow> int \<Rightarrow> (int set, int) op" where
  "close_fds_except fds nfds =
     seq_m (each_m (close_unless_present fds nfds) [3..1022]) (return_m 0)"

text \<open>
  \<open>ldr_close_internal\<close> takes the address of a descriptor: the result is its own and the descriptor's
  new value.  \<open>close\<close> fails with \<open>EBADF\<close>, 9, if the descriptor is not open.
\<close>

definition ldr_close_internal :: "int \<Rightarrow> (int set, int \<times> int) op" where
  "ldr_close_internal fd open =
     (let r = (if fd \<in> open then 0 else -1); errno = 9
      in Inr ((if r < 0 then - errno else 0, -1), open - {fd}))"

section \<open>What is closed\<close>

lemma is_present_spec:
  "j + n \<le> length fds \<Longrightarrow> is_present fds i j n = Inr (i \<in> set (take n (drop j fds)))"
proof (induction n arbitrary: j)
  case (Suc n)
  then have "drop j fds = fds ! j # drop (Suc j) fds" by (simp add: Cons_nth_drop_Suc)
  with Suc show ?case by auto
qed simp

lemma each_close:
  "nat nfds \<le> length fds \<Longrightarrow> each_m (close_unless_present fds nfds) is s =
   Inr ((), {fd \<in> s. fd \<notin> set is \<or> fd \<in> set (take (nat nfds) fds)})"
  by (induction "is" arbitrary: s)
    (auto simp: close_unless_present_def is_present_spec sys_close_def run_defs)

lemma close_fds_spec:
  assumes "nat nfds \<le> length fds"
  shows "close_fds_except fds nfds s =
    Inr (0, {fd \<in> s. fd \<le> 2 \<or> 1023 \<le> fd \<or> fd \<in> set (take (nat nfds) fds)})"
proof -
  have "{fd \<in> s. fd \<notin> {3..1022} \<or> fd \<in> set (take (nat nfds) fds)} =
      {fd \<in> s. fd \<le> 2 \<or> 1023 \<le> fd \<or> fd \<in> set (take (nat nfds) fds)}" by auto
  then show ?thesis
    unfolding close_fds_except_def seq_m_def each_close [OF assms(1)] return_m_def set_upto by simp
qed

section \<open>Properties\<close>

text \<open>C39: \<open>close_fds_except\<close> leaves open exactly the standard descriptors 0 to 2, the descriptors in
  the first \<open>nfds\<close> places of the array, and those from 1023 on: although it is documented to close
  all descriptors of number 3 or above, it stops before 1023.\<close>

theorem close_fds_exact:
  assumes "nat nfds \<le> length fds"
  shows "close_fds_except fds nfds s =
    Inr (0, {fd \<in> s. fd \<le> 2 \<or> 1023 \<le> fd \<or> fd \<in> set (take (nat nfds) fds)})"
  using assms by (rule close_fds_spec)

theorem close_fds_exact_witness:
  "close_fds_except [5, 9] 2 {0, 1, 2, 3, 5, 1022, 1023, 5000} = Inr (0, {0, 1, 2, 5, 1023, 5000})"
proof -
  have "{fd \<in> {0, 1, 2, 3, 5, 1022, 1023, 5000 :: int}. fd \<le> 2 \<or> 1023 \<le> fd \<or> fd \<in> set (take (nat 2) [5, 9])} =
      {0, 1, 2, 5, 1023, 5000}" by auto
  then show ?thesis
    using close_fds_exact [of 2 "[5, 9]" "{0, 1, 2, 3, 5, 1022, 1023, 5000}"] by simp
qed

end
