(* ===== verification/LogFmt.thy ===== *)
theory LogFmt
  imports XpcPrelude
begin

text \<open>
  The log lines of \<open>libOpenXPC/log.c\<close>.  A character array of \<open>LINE_MAX\<close> bytes is a list of that
  length; every access outside it faults.  \<open>strerror\<close> is the function \<open>strerr\<close> and the text that a
  format expands to with the arguments of the call is \<open>vfmt\<close>, \<open>None\<close> for an encoding error.
\<close>

section \<open>Levels\<close>

datatype log_level = kDebug | kInfo | kNotice | kWarn | kError | kMax

primrec level_num :: "log_level \<Rightarrow> nat" where
  "level_num kDebug = 0"
| "level_num kInfo = 1"
| "level_num kNotice = 2"
| "level_num kWarn = 3"
| "level_num kError = 4"
| "level_num kMax = 5"

lemma level_num_inj: "level_num k = level_num l \<Longrightarrow> k = l"
  by (cases k; cases l) simp_all

instantiation log_level :: linorder
begin

definition less_eq_log_level :: "log_level \<Rightarrow> log_level \<Rightarrow> bool" where
  "k \<le> l \<longleftrightarrow> level_num k \<le> level_num l"

definition less_log_level :: "log_level \<Rightarrow> log_level \<Rightarrow> bool" where
  "k < l \<longleftrightarrow> level_num k < level_num l"

instance
  by standard (auto simp: less_eq_log_level_def less_log_level_def intro: level_num_inj)

end

section \<open>Expanding %m\<close>

definition LINE_MAX :: nat where "LINE_MAX = 2048"

text \<open>\<open>buf[i] = c\<close>\<close>

definition put_char :: "nat \<Rightarrow> byte \<Rightarrow> (byte list, unit) op" where
  "put_char i c buf = (if i < length buf then Inr ((), buf[i := c]) else Inl OutOfBounds)"

text \<open>
  \<open>snprintf(&buf[i], size, "%s", str)\<close> with a positive \<open>size\<close>: stores what fits and a NUL, returns
  the length of \<open>str\<close>.
\<close>

definition snprintf_s :: "nat \<Rightarrow> nat \<Rightarrow> byte list \<Rightarrow> (byte list, nat) op" where
  "snprintf_s i n str buf =
     (let out = take (n - 1) str @ [0]
      in if i + length out \<le> length buf
         then Inr (length str, take i buf @ out @ drop (i + length out) buf) else Inl OutOfBounds)"

text \<open>
  The loop, with the rest of the input and the index of the output position.  The input is a
  string with its NUL; reading past its memory faults.
\<close>

function expand_loop :: "byte list \<Rightarrow> byte list \<Rightarrow> nat \<Rightarrow> (byte list, nat) op" where
  "expand_loop msg [] i = fail_m OutOfBounds"
| "expand_loop msg (c # cs) i =
     (if c \<noteq> 0 \<and> i < LINE_MAX then
        (if c = 37 \<and> cs = [] then fail_m OutOfBounds
         else if c = 37 \<and> hd cs = 109
         then bind_m (snprintf_s i (LINE_MAX - i) msg) (\<lambda>n. expand_loop msg (tl cs) (i + n))
         else seq_m (put_char i c) (expand_loop msg cs (i + 1)))
      else return_m i)"
  by pat_completeness auto
termination
  by (relation "measure (\<lambda>(msg, fmtin, i). length fmtin)") auto

definition expand_percentm :: "byte list \<Rightarrow> byte list \<Rightarrow> (byte list, int) op" where
  "expand_percentm msg fmtin =
     bind_m (expand_loop msg fmtin 0) (\<lambda>i. seq_m (put_char i 0) (return_m 0))"

section \<open>Printing lines\<close>

text \<open>\<open>errno\<close> and what has been written to the two streams.\<close>

record log_state =
  errno :: int
  out :: "byte list"
  err :: "byte list"

definition printf_out :: "byte list \<Rightarrow> (log_state, int) op" where
  "printf_out t st = Inr (int (length t), st\<lparr>out := out st @ t\<rparr>)"

definition bytes_of :: "string \<Rightarrow> byte list" where
  "bytes_of s = map of_char s"

definition log_oom :: "(log_state, int) op" where
  "log_oom st = Inr (-12, st\<lparr>err := err st @ bytes_of ''Out of memory.'' @ [10]\<rparr>)"

text \<open>The text of a character array up to its NUL.\<close>

definition array_str :: "byte list \<Rightarrow> fault + byte list" where
  "array_str buf = (if 0 \<in> set buf then Inr (takeWhile (\<lambda>c. c \<noteq> 0) buf) else Inl OutOfBounds)"

definition log_output :: "log_level \<Rightarrow> byte list \<Rightarrow> (log_state, int) op" where
  "log_output level buffer =
     seq_m (if level = kError then printf_out ([27] @ bytes_of ''[1;31m'') else return_m 0)
     (bind_m (\<lambda>st. case array_str buffer of Inl e \<Rightarrow> Inl e | Inr t \<Rightarrow> printf_out t st) (\<lambda>_.
     seq_m (if level = kError then printf_out ([27] @ bytes_of ''[0m'') else return_m 0)
     (printf_out [10])))"

text \<open>
  \<open>siz = vsnprintf(buffer, sizeof buffer - 1, fmtcpy, ap)\<close>, then the last byte of the text is
  dropped if it is a newline.  The byte looked at is \<open>buffer[siz - 1]\<close>, whatever \<open>siz\<close> is.
\<close>

definition format_line :: "byte list option \<Rightarrow> (byte list, unit) op" where
  "format_line txt =
     bind_m (case txt of
         None \<Rightarrow> return_m (-1)
       | Some t \<Rightarrow> bind_m (snprintf_s 0 (LINE_MAX - 1) t) (\<lambda>n. return_m (int n)))
       (\<lambda>siz buffer.
         if 1 \<le> siz \<and> nat (siz - 1) < length buffer
         then (if buffer ! nat (siz - 1) = 10 then put_char (nat (siz - 1)) 0 buffer
               else Inr ((), buffer))
         else Inl OutOfBounds)"

text \<open>The two arrays are on the stack and start with whatever is there.\<close>

definition ldr_logv ::
  "(int \<Rightarrow> byte list) \<Rightarrow> byte list \<Rightarrow> byte list \<Rightarrow> log_level \<Rightarrow> byte list \<Rightarrow>
   (byte list \<Rightarrow> byte list option) \<Rightarrow> (log_state, int) op" where
  "ldr_logv strerr junk1 junk2 level fmt vfmt st =
     (case expand_percentm (strerr (errno st)) fmt junk1 of
        Inl e \<Rightarrow> Inl e
      | Inr (_, fmtcpy) \<Rightarrow>
          (case array_str fmtcpy of
             Inl e \<Rightarrow> Inl e
           | Inr f \<Rightarrow>
               (case format_line (vfmt f) junk2 of
                  Inl e \<Rightarrow> Inl e
                | Inr (_, buffer) \<Rightarrow> log_output level buffer st)))"

definition ldr_log ::
  "(int \<Rightarrow> byte list) \<Rightarrow> byte list \<Rightarrow> byte list \<Rightarrow> log_level \<Rightarrow> byte list \<Rightarrow>
   (byte list \<Rightarrow> byte list option) \<Rightarrow> (log_state, int) op" where
  "ldr_log strerr junk1 junk2 level fmt vfmt = ldr_logv strerr junk1 junk2 level fmt vfmt"

definition ldr_log_errno ::
  "(int \<Rightarrow> byte list) \<Rightarrow> byte list \<Rightarrow> byte list \<Rightarrow> log_level \<Rightarrow> int \<Rightarrow> byte list \<Rightarrow>
   (byte list \<Rightarrow> byte list option) \<Rightarrow> (log_state, int) op" where
  "ldr_log_errno strerr junk1 junk2 level error fmt vfmt =
     seq_m (modify_m (errno_update (\<lambda>_. error)))
     (seq_m (ldr_logv strerr junk1 junk2 level fmt vfmt)
     (seq_m (modify_m (errno_update (\<lambda>_. error))) (return_m (- error))))"

section \<open>The macros of log.h\<close>

text \<open>
  They add the place of the call, which \<open>log_output\<close> does not print, and the level.
  \<open>log_oom_null\<close> is NULL after the complaint.
\<close>

definition log_oom_null :: "(log_state, nat option) op" where
  "log_oom_null = bind_m log_oom (\<lambda>_. return_m None)"

definition log_debug ::
  "(int \<Rightarrow> byte list) \<Rightarrow> byte list \<Rightarrow> byte list \<Rightarrow> byte list \<Rightarrow>
   (byte list \<Rightarrow> byte list option) \<Rightarrow> (log_state, int) op" where
  "log_debug strerr junk1 junk2 = ldr_log strerr junk1 junk2 kDebug"

definition log_info ::
  "(int \<Rightarrow> byte list) \<Rightarrow> byte list \<Rightarrow> byte list \<Rightarrow> byte list \<Rightarrow>
   (byte list \<Rightarrow> byte list option) \<Rightarrow> (log_state, int) op" where
  "log_info strerr junk1 junk2 = ldr_log strerr junk1 junk2 kInfo"

definition log_notice ::
  "(int \<Rightarrow> byte list) \<Rightarrow> byte list \<Rightarrow> byte list \<Rightarrow> byte list \<Rightarrow>
   (byte list \<Rightarrow> byte list option) \<Rightarrow> (log_state, int) op" where
  "log_notice strerr junk1 junk2 = ldr_log strerr junk1 junk2 kNotice"

definition log_warning ::
  "(int \<Rightarrow> byte list) \<Rightarrow> byte list \<Rightarrow> byte list \<Rightarrow> byte list \<Rightarrow>
   (byte list \<Rightarrow> byte list option) \<Rightarrow> (log_state, int) op" where
  "log_warning strerr junk1 junk2 = ldr_log strerr junk1 junk2 kWarn"

definition log_error ::
  "(int \<Rightarrow> byte list) \<Rightarrow> byte list \<Rightarrow> byte list \<Rightarrow> byte list \<Rightarrow>
   (byte list \<Rightarrow> byte list option) \<Rightarrow> (log_state, int) op" where
  "log_error strerr junk1 junk2 = ldr_log strerr junk1 junk2 kError"

definition log_debug_errno ::
  "(int \<Rightarrow> byte list) \<Rightarrow> byte list \<Rightarrow> byte list \<Rightarrow> int \<Rightarrow> byte list \<Rightarrow>
   (byte list \<Rightarrow> byte list option) \<Rightarrow> (log_state, int) op" where
  "log_debug_errno strerr junk1 junk2 = ldr_log_errno strerr junk1 junk2 kDebug"

definition log_info_errno ::
  "(int \<Rightarrow> byte list) \<Rightarrow> byte list \<Rightarrow> byte list \<Rightarrow> int \<Rightarrow> byte list \<Rightarrow>
   (byte list \<Rightarrow> byte list option) \<Rightarrow> (log_state, int) op" where
  "log_info_errno strerr junk1 junk2 = ldr_log_errno strerr junk1 junk2 kInfo"

definition log_notice_errno ::
  "(int \<Rightarrow> byte list) \<Rightarrow> byte list \<Rightarrow> byte list \<Rightarrow> int \<Rightarrow> byte list \<Rightarrow>
   (byte list \<Rightarrow> byte list option) \<Rightarrow> (log_state, int) op" where
  "log_notice_errno strerr junk1 junk2 = ldr_log_errno strerr junk1 junk2 kNotice"

definition log_warning_errno ::
  "(int \<Rightarrow> byte list) \<Rightarrow> byte list \<Rightarrow> byte list \<Rightarrow> int \<Rightarrow> byte list \<Rightarrow>
   (byte list \<Rightarrow> byte list option) \<Rightarrow> (log_state, int) op" where
  "log_warning_errno strerr junk1 junk2 = ldr_log_errno strerr junk1 junk2 kWarn"

definition log_error_errno ::
  "(int \<Rightarrow> byte list) \<Rightarrow> byte list \<Rightarrow> byte list \<Rightarrow> int \<Rightarrow> byte list \<Rightarrow>
   (byte list \<Rightarrow> byte list option) \<Rightarrow> (log_state, int) op" where
  "log_error_errno strerr junk1 junk2 = ldr_log_errno strerr junk1 junk2 kError"

section \<open>The expansion\<close>

fun expanded :: "byte list \<Rightarrow> byte list \<Rightarrow> byte list" where
  "expanded msg [] = []"
| "expanded msg [c] = [c]"
| "expanded msg (c # d # cs) =
     (if c = 37 \<and> d = 109 then msg @ expanded msg cs else c # expanded msg (d # cs))"

lemma put_char_runs:
  "i < length buf \<Longrightarrow> put_char i c buf = Inr ((), buf[i := c])"
  "length buf \<le> i \<Longrightarrow> put_char i c buf = Inl OutOfBounds"
  by (simp_all add: put_char_def)

text \<open>One step of either kind: the output so far grows by \<open>msg\<close> or by the byte, as far as it fits.\<close>

lemma snprintf_s_step:
  assumes "length buf = LINE_MAX" and "i < LINE_MAX"
  shows "\<exists>buf'. snprintf_s i (LINE_MAX - i) msg buf = Inr (length msg, buf') \<and> length buf' = LINE_MAX \<and>
    (i + length msg < LINE_MAX \<longrightarrow> take (i + length msg) buf' = take i buf @ msg)"
  using assms by (auto simp: snprintf_s_def Let_def min_def take_Cons')

lemma put_char_step:
  assumes "length buf = LINE_MAX" and "i < LINE_MAX"
  shows "put_char i c buf = Inr ((), buf[i := c]) \<and> length (buf[i := c]) = LINE_MAX \<and>
    take (i + 1) (buf[i := c]) = take i buf @ [c]"
  using assms by (simp add: put_char_runs take_Suc_conv_app_nth)

lemma expand_loop_spec:
  "0 \<notin> set f \<Longrightarrow> length buf = LINE_MAX \<Longrightarrow>
   \<exists>n buf'. expand_loop msg (f @ 0 # rest) i buf = Inr (n, buf') \<and> length buf' = LINE_MAX \<and>
     (if i + length (expanded msg f) < LINE_MAX
      then n = i + length (expanded msg f) \<and> take n buf' = take i buf @ expanded msg f
      else LINE_MAX \<le> n)"
proof (induction msg f arbitrary: i buf rule: expanded.induct)
  case (1 msg)
  then show ?case by (simp add: return_m_def)
next
  case (2 msg c)
  show ?case
  proof (cases "i < LINE_MAX")
    case True
    with put_char_step [OF 2(2) True, of c] 2(1) show ?thesis
      by (auto simp: seq_m_def return_m_def)
  qed (use 2 in \<open>simp add: return_m_def\<close>)
next
  case (3 msg c d cs)
  have nz: "c \<noteq> 0" "d \<noteq> 0" "0 \<notin> set cs" using 3(3) by auto
  show ?case
  proof (cases "i < LINE_MAX")
    case False
    then show ?thesis using 3(4) by (simp add: return_m_def)
  next
    case True
    show ?thesis
    proof (cases "c = 37 \<and> d = 109")
      case pm: True
      from snprintf_s_step [OF 3(4) True, of msg] obtain b where
        b: "snprintf_s i (LINE_MAX - i) msg buf = Inr (length msg, b)" "length b = LINE_MAX"
        "i + length msg < LINE_MAX \<Longrightarrow> take (i + length msg) b = take i buf @ msg" by blast
      from 3(1) [OF pm nz(3) b(2), of "i + length msg"] b True pm nz show ?thesis
        by (auto simp: bind_m_def split: if_splits)
    next
      case False
      from 3(2) [OF False _ conjunct1 [OF conjunct2 [OF put_char_step [OF 3(4) True, of c]]], of "i + 1"]
        put_char_step [OF 3(4) True, of c] False True nz show ?thesis
        by (auto simp: seq_m_def split: if_splits)
    qed
  qed
qed

lemma expand_percentm_spec:
  assumes "0 \<notin> set f" and "length buf = LINE_MAX"
  shows "if length (expanded msg f) < LINE_MAX
    then \<exists>buf'. expand_percentm msg (f @ 0 # rest) buf = Inr (0, buf') \<and> length buf' = LINE_MAX \<and>
      take (Suc (length (expanded msg f))) buf' = expanded msg f @ [0]
    else expand_percentm msg (f @ 0 # rest) buf = Inl OutOfBounds"
proof -
  from expand_loop_spec [OF assms, of msg rest 0] obtain n b where
    run: "expand_loop msg (f @ 0 # rest) 0 buf = Inr (n, b)" and len: "length b = LINE_MAX"
    and n: "if 0 + length (expanded msg f) < LINE_MAX
      then n = 0 + length (expanded msg f) \<and> take n b = take 0 buf @ expanded msg f else LINE_MAX \<le> n"
    by (elim exE conjE) (rule that)
  show ?thesis
  proof (cases "length (expanded msg f) < LINE_MAX")
    case True
    with n have n: "n = length (expanded msg f)" "take n b = expanded msg f" by auto
    with run len True have "expand_percentm msg (f @ 0 # rest) buf = Inr (0, b[n := 0])"
      by (simp add: expand_percentm_def bind_m_def seq_m_def return_m_def put_char_runs)
    moreover have "take (Suc n) (b[n := 0]) = expanded msg f @ [0]"
      using n True len by (simp add: list_update_take)
    ultimately show ?thesis using True len n(1) by simp
  next
    case False
    with run n len show ?thesis
      by (simp add: expand_percentm_def bind_m_def seq_m_def put_char_runs)
  qed
qed

section \<open>Lines\<close>

lemma array_str_runs:
  "take (Suc n) buf = t @ [0] \<Longrightarrow> 0 \<notin> set t \<Longrightarrow> array_str buf = Inr t"
proof -
  assume a: "take (Suc n) buf = t @ [0]" and nz: "0 \<notin> set t"
  have "buf = t @ 0 # drop (Suc n) buf" using append_take_drop_id [of "Suc n" buf] a by simp
  then obtain r where "buf = t @ 0 # r" by blast
  moreover have "\<forall>c \<in> set t. c \<noteq> 0" using nz by auto
  ultimately show ?thesis by (simp add: array_str_def takeWhile_append2)
qed

text \<open>The line without its final newline.\<close>

definition chomp :: "byte list \<Rightarrow> byte list" where
  "chomp t = (if t \<noteq> [] \<and> last t = 10 then butlast t else t)"

lemma format_line_spec:
  assumes "length buf = LINE_MAX" and "0 < length t" and "length t < LINE_MAX - 1" and "0 \<notin> set t"
  shows "\<exists>buf'. format_line (Some t) buf = Inr ((), buf') \<and> array_str buf' = Inr (chomp t)"
proof -
  let ?n = "length t"
  let ?b = "t @ 0 # drop (Suc ?n) buf"
  have run: "snprintf_s 0 (LINE_MAX - 1) t buf = Inr (?n, ?b)"
    using assms(1,3) by (simp add: snprintf_s_def Let_def)
  have last: "?b ! (?n - 1) = last t" using assms(2) by (simp add: nth_append last_conv_nth)
  have idx: "nat (int ?n - 1) = ?n - 1" by simp
  show ?thesis
  proof (cases "last t = 10")
    case True
    obtain u where u: "t = u @ [10]" using True assms(2) by (metis append_butlast_last_id length_greater_0_conv)
    then have "format_line (Some t) buf = Inr ((), u @ 0 # 0 # drop (Suc ?n) buf)"
      using run last idx True by (simp add: format_line_def bind_m_def return_m_def put_char_runs)
    moreover have "array_str (u @ 0 # 0 # drop (Suc ?n) buf) = Inr u"
      using u assms(4) by (intro array_str_runs [of "length u"]) auto
    ultimately show ?thesis using u by (simp add: chomp_def)
  next
    case False
    then have "format_line (Some t) buf = Inr ((), ?b)"
      using run last idx assms(2) by (simp add: format_line_def bind_m_def return_m_def Suc_le_eq)
    moreover have "array_str ?b = Inr t" using assms(4) by (intro array_str_runs [of ?n]) simp_all
    ultimately show ?thesis using False by (simp add: chomp_def)
  qed
qed

section \<open>Properties\<close>

text \<open>C40: \<open>expand_percentm\<close> replaces every ``%m'' by the error's message and ends the output with a
  NUL if the result is shorter than \<open>LINE_MAX\<close>; every longer result makes it store the NUL outside
  the array, also one of exactly \<open>LINE_MAX\<close> bytes.\<close>

theorem expand_percentm_exact:
  assumes "0 \<notin> set f" and "length buf = LINE_MAX"
  shows "if length (expanded msg f) < LINE_MAX
    then \<exists>buf'. expand_percentm msg (f @ 0 # rest) buf = Inr (0, buf') \<and> length buf' = LINE_MAX \<and>
      take (Suc (length (expanded msg f))) buf' = expanded msg f @ [0]
    else expand_percentm msg (f @ 0 # rest) buf = Inl OutOfBounds"
  by (rule expand_percentm_spec [OF assms])

theorem expand_percentm_exact_witness:
  "(\<exists>buf'. expand_percentm [69, 73, 79] [120, 58, 32, 37, 109, 33, 0] (replicate 2048 1) = Inr (0, buf') \<and>
     take 8 buf' = [120, 58, 32, 69, 73, 79, 33, 0]) \<and>
   expand_percentm [] (replicate 2048 65 @ [0]) (replicate 2048 1) = Inl OutOfBounds"
proof -
  have "37 \<notin> set f \<Longrightarrow> expanded msg f = f" for msg f
    by (induction msg f rule: expanded.induct) auto
  have eight: "take 8 (b :: byte list) = take (Suc (Suc (Suc (Suc (Suc (Suc (Suc (Suc 0)))))))) b" for b
    by (simp add: numeral_eq_Suc)
  from \<open>\<And>msg f. 37 \<notin> set f \<Longrightarrow> expanded msg f = f\<close> have plain: "expanded msg (replicate n 65) = replicate n 65" for msg n by simp
  show ?thesis
    using expand_percentm_exact [of "[120, 58, 32, 37, 109, 33]" "replicate 2048 1" "[69, 73, 79]" "[]"]
      expand_percentm_exact [of "replicate 2048 65" "replicate 2048 1" "[]" "[]"]
    by (auto simp: LINE_MAX_def plain eight)
qed

lemma ldr_logv_runs:
  assumes "0 \<notin> set fmt" and "0 \<notin> set (strerr (errno st))"
    and "length (expanded (strerr (errno st)) fmt) < LINE_MAX" and "length junk1 = LINE_MAX"
  shows "ldr_logv strerr junk1 junk2 level (fmt @ [0]) vfmt st =
    (case format_line (vfmt (expanded (strerr (errno st)) fmt)) junk2 of
       Inl e \<Rightarrow> Inl e | Inr (_, buffer) \<Rightarrow> log_output level buffer st)"
proof -
  let ?e = "expanded (strerr (errno st)) fmt"
  from expand_percentm_spec [OF assms(1,4), of "strerr (errno st)" "[]"] assms(3) obtain b where
    b: "expand_percentm (strerr (errno st)) (fmt @ [0]) junk1 = Inr (0, b)"
      "take (Suc (length ?e)) b = ?e @ [0]" by auto
  have "0 \<notin> set ?e" using assms(1,2) by (induction "strerr (errno st)" fmt rule: expanded.induct) auto
  from array_str_runs [OF b(2) this] b(1) show ?thesis by (simp add: ldr_logv_def)
qed

text \<open>A log call prints one line: the message with ``%m'' and the other conversions expanded and
  without its final newline, in red for errors, then a newline.\<close>

theorem ldr_logv_prints_line:
  assumes "0 \<notin> set fmt" and "0 \<notin> set (strerr (errno st))"
    and "length (expanded (strerr (errno st)) fmt) < LINE_MAX"
    and "vfmt (expanded (strerr (errno st)) fmt) = Some t" and "0 < length t"
    and "length t < LINE_MAX - 1" and "0 \<notin> set t"
    and "length junk1 = LINE_MAX" and "length junk2 = LINE_MAX"
  shows "ldr_logv strerr junk1 junk2 level (fmt @ [0]) vfmt st =
    Inr (1, st\<lparr>out := out st @ (if level = kError then [27] @ bytes_of ''[1;31m'' else []) @ chomp t @
      (if level = kError then [27] @ bytes_of ''[0m'' else []) @ [10]\<rparr>)"
proof -
  from format_line_spec [OF assms(9,5,6,7)] obtain b where
    "format_line (Some t) junk2 = Inr ((), b)" "array_str b = Inr (chomp t)" by blast
  with ldr_logv_runs [where strerr = strerr and st = st, OF assms(1-3,8)] assms(4) show ?thesis
    by (simp add: log_output_def printf_out_def run_defs)
qed

theorem ldr_logv_prints_line_witness:
  "ldr_logv (\<lambda>_. [69, 73, 79]) (replicate 2048 1) (replicate 2048 2) kWarn [120, 32, 37, 109, 10, 0] Some
     \<lparr>errno = 5, out = [], err = []\<rparr> = Inr (1, \<lparr>errno = 5, out = [120, 32, 69, 73, 79, 10], err = []\<rparr>)"
  using ldr_logv_prints_line [of "[120, 32, 37, 109, 10]" "\<lambda>_. [69, 73, 79]" "\<lparr>errno = 5, out = [], err = []\<rparr>"
      Some "[120, 32, 69, 73, 79, 10]" "replicate 2048 1" "replicate 2048 2" kWarn]
  by (simp add: LINE_MAX_def chomp_def)

text \<open>A message that expands to nothing, one that cannot be formatted and one that is longer than
  the array make \<open>ldr_logv\<close> look at a byte outside the array.\<close>

theorem ldr_logv_out_of_bounds:
  assumes "0 \<notin> set fmt" and "0 \<notin> set (strerr (errno st))"
    and "length (expanded (strerr (errno st)) fmt) < LINE_MAX"
    and "\<forall>t. vfmt (expanded (strerr (errno st)) fmt) = Some t \<longrightarrow> t = [] \<or> LINE_MAX < length t"
    and "length junk1 = LINE_MAX" and "length junk2 = LINE_MAX"
  shows "ldr_logv strerr junk1 junk2 level (fmt @ [0]) vfmt st = Inl OutOfBounds"
proof -
  have "format_line (vfmt (expanded (strerr (errno st)) fmt)) junk2 = Inl OutOfBounds"
    using assms(4,6) by (cases "vfmt (expanded (strerr (errno st)) fmt)")
      (auto simp: format_line_def snprintf_s_def Let_def LINE_MAX_def bind_m_def return_m_def)
  then show ?thesis using ldr_logv_runs [where strerr = strerr and st = st, OF assms(1-3,5)] by simp
qed

theorem ldr_logv_out_of_bounds_witness:
  "ldr_logv (\<lambda>_. [69]) (replicate 2048 1) (replicate 2048 2) kInfo [0] Some
     \<lparr>errno = 5, out = [], err = []\<rparr> = Inl OutOfBounds"
  using ldr_logv_out_of_bounds [of "[]" "\<lambda>_. [69]" "\<lparr>errno = 5, out = [], err = []\<rparr>" Some
      "replicate 2048 1" "replicate 2048 2" kInfo]
  by (simp add: LINE_MAX_def)

text \<open>\<open>log_error_errno\<close> prints the message of the error that it is given, whatever \<open>errno\<close> was before,
  returns the negated error and leaves it in \<open>errno\<close>.\<close>

theorem log_error_errno_prints:
  assumes "0 \<notin> set fmt" and "0 \<notin> set (strerr error)" and "length (expanded (strerr error) fmt) < LINE_MAX"
    and "vfmt (expanded (strerr error) fmt) = Some t" and "0 < length t" and "length t < LINE_MAX - 1"
    and "0 \<notin> set t" and "length junk1 = LINE_MAX" and "length junk2 = LINE_MAX"
  shows "log_error_errno strerr junk1 junk2 error (fmt @ [0]) vfmt st =
    Inr (- error, st\<lparr>errno := error, out := out st @ [27] @ bytes_of ''[1;31m'' @ chomp t @
      [27] @ bytes_of ''[0m'' @ [10]\<rparr>)"
proof -
  let ?st = "st\<lparr>errno := error\<rparr>"
  from format_line_spec [OF assms(9,5,6,7)] obtain b where
    "format_line (Some t) junk2 = Inr ((), b)" "array_str b = Inr (chomp t)" by blast
  with ldr_logv_runs [where strerr = strerr and st = ?st and vfmt = vfmt, of fmt junk1 junk2 kError] assms(1-4,8)
  have "ldr_logv strerr junk1 junk2 kError (fmt @ [0]) vfmt ?st =
      Inr (1, ?st\<lparr>out := out st @ [27] @ bytes_of ''[1;31m'' @ chomp t @ [27] @ bytes_of ''[0m'' @ [10]\<rparr>)"
    by (simp add: log_output_def printf_out_def run_defs)
  then show ?thesis by (simp add: log_error_errno_def ldr_log_errno_def run_defs)
qed

end
