(* ===== verification/XpcdJob.thy ===== *)
theory XpcdJob
  imports ProcUtil LogFmt
begin

text \<open>
  \<open>xpcd/job.cc\<close>: the launch of a job.  The daemon's state holds its open descriptors, the filters
  its kernel queue watches and what it has logged; the answers of the system calls are a
  parameter.  \<open>fork\<close> returns in two processes, so \<open>exec\<close> ends in the parent or in the child.
\<close>

section \<open>State\<close>

datatype job_state = kOffline | kOnline | kRunning

text \<open>The fields of \<open>Job\<close> that are used; the members that nothing reads are left out.\<close>

record job =
  job_st :: job_state
  is_bootstrap :: bool
  label :: string
  program :: "string option"
  progargs :: "string list"
  wait_fd :: int

text \<open>\<open>std::make_unique<Job>()\<close>: value-initialised, then the member initialisers.\<close>

definition new_job :: job where
  "new_job = \<lparr>job_st = kOffline, is_bootstrap = False, label = [], program = None, progargs = [],
     wait_fd = -1\<rparr>"

text \<open>The subscribers to events: the manager, and jobs by their place in the domain's list.\<close>

datatype handler = H_manager | H_job nat

datatype kfilter = EVFILT_SIGNAL | EVFILT_PROC

record kevent =
  ident :: int
  kfilter :: kfilter
  fflags :: int
  kdata :: int
  udata :: handler

type_synonym log_entry = "log_level \<times> string \<times> int list"

record daemon =
  should_exit :: bool
  kq :: int
  jobs :: "job list"
  open_fds :: "int set"
  watched :: "(int \<times> kfilter \<times> handler) list"
  logged :: "log_entry list"

definition log_msg :: "log_level \<Rightarrow> string \<Rightarrow> int list \<Rightarrow> daemon \<Rightarrow> daemon" where
  "log_msg level msg args s = s\<lparr>logged := logged s @ [(level, msg, args)]\<rparr>"

section \<open>The subprocess\<close>

text \<open>
  A process ends by running another program or by \<open>exit\<close>.  The block that \<open>argv\<close> points to is the
  list of its slots, \<open>None\<close> for one that was never written; a pointer in a slot is the string it
  points to or \<open>None\<close> for NULL.
\<close>

datatype child_end = Executes string "string list" "int set" | Exited_with int

type_synonym slots = "string option option list"

definition put_slot :: "nat \<Rightarrow> string option \<Rightarrow> slots \<Rightarrow> fault + slots" where
  "put_slot i p argv = (if i < length argv then Inr (argv[i := Some p]) else Inl OutOfBounds)"

primrec put_args :: "nat \<Rightarrow> string list \<Rightarrow> slots \<Rightarrow> fault + slots" where
  "put_args i [] argv = Inr argv"
| "put_args i (a # as) argv =
     (case put_slot i (Some a) argv of Inl e \<Rightarrow> Inl e | Inr argv \<Rightarrow> put_args (Suc i) as argv)"

text \<open>\<open>execve\<close> reads the pointers up to the first NULL.\<close>

primrec read_argv :: "slots \<Rightarrow> fault + string list" where
  "read_argv [] = Inl OutOfBounds"
| "read_argv (p # ps) =
     (case p of
        None \<Rightarrow> Inl BadPointer
      | Some None \<Rightarrow> Inr []
      | Some (Some a) \<Rightarrow> (case read_argv ps of Inl e \<Rightarrow> Inl e | Inr as \<Rightarrow> Inr (a # as)))"

text \<open>\<open>malloc\<close> returns a block or not, and \<open>execve\<close> succeeds or leaves its error.\<close>

record child_env =
  malloc_works :: bool
  execve_error :: "int option"

definition program_path :: "job \<Rightarrow> fault + string" where
  "program_path j =
     (case program j of
        Some p \<Rightarrow> Inr p
      | None \<Rightarrow> (case progargs j of [] \<Rightarrow> Inl OutOfBounds | a # as \<Rightarrow> Inr a))"

definition build_argv :: "child_env \<Rightarrow> job \<Rightarrow> fault + slots" where
  "build_argv env j =
     (if progargs j = [] then
        (if program j = None then Inl AssertFails
         else if \<not> malloc_works env then Inl AssertFails
         else put_slot 1 (program j) (replicate 1 None))
      else
        (let argc = length (progargs j) in
         if \<not> malloc_works env then Inl AssertFails
         else put_args 0 (progargs j) (replicate argc None)))"

definition setup_subproc :: "child_env \<Rightarrow> job \<Rightarrow> (int set, child_end) op" where
  "setup_subproc env j =
     (let fd = (if is_bootstrap j then 55 else -1) in
      seq_m (close_fds_except [fd] 1)
      (\<lambda>fds.
        case program_path j of
          Inl e \<Rightarrow> Inl e
        | Inr exe \<Rightarrow>
            (case build_argv env j of
               Inl e \<Rightarrow> Inl e
             | Inr argv \<Rightarrow>
                 (case read_argv argv of
                    Inl e \<Rightarrow> Inl e
                  | Inr as \<Rightarrow> Inr (case execve_error env of
                        None \<Rightarrow> Executes exe as fds
                      | Some err_no \<Rightarrow> Exited_with (- err_no), fds)))))"

section \<open>Launching\<close>

text \<open>The answers of \<open>pipe\<close>, \<open>fork\<close>, \<open>kevent\<close> and \<open>write\<close>, and \<open>errno\<close> when one fails.\<close>

record exec_env =
  pipe_fds :: "int \<times> int"
  fork_result :: int
  kevent_result :: int
  write_result :: int
  exec_errno :: int
  in_child :: child_env

datatype exec_end = In_parent int daemon | In_child "fault + child_end \<times> int set"

definition job_exec :: "exec_env \<Rightarrow> nat \<Rightarrow> job \<Rightarrow> daemon \<Rightarrow> exec_end" where
  "job_exec env self j s =
     (let (r, w) = pipe_fds env; s = s\<lparr>open_fds := open_fds s \<union> {r, w}\<rparr>; i = fork_result env in
      if i < -1 then
        In_parent (- exec_errno env) (log_msg kError ''Failed to create subprocess: %m'' [] s)
      else if i = 0 then In_child (setup_subproc (in_child env) j (open_fds s - {r}))
      else if kevent_result env = -1 then
        In_parent (- exec_errno env)
          (log_msg kError ''Failed to attach PROC filter to subprocess: %m'' [exec_errno env] s)
      else
        (let s = s\<lparr>watched := watched s @ [(i, EVFILT_PROC, H_job self)]\<rparr>;
             s = s\<lparr>open_fds := open_fds s - {r}\<rparr>;
             s = (if write_result env \<le> 0
                  then log_msg kError ''Failed to write to waitfd: %m'' [exec_errno env] s else s);
             s = s\<lparr>open_fds := open_fds s - {w}\<rparr>
         in In_parent 0 (log_msg kInfo ''Launched job'' [] s)))"

definition job_event_cb :: "int \<Rightarrow> kfilter \<Rightarrow> int \<Rightarrow> int \<Rightarrow> daemon \<Rightarrow> daemon" where
  "job_event_cb i f ff d =
     log_msg kError ''Got event %d/%d'' [i, case f of EVFILT_SIGNAL \<Rightarrow> -6 | EVFILT_PROC \<Rightarrow> -5]"

section \<open>Facts about the launch\<close>

lemma put_args_spec:
  "i + length as \<le> length argv \<Longrightarrow>
   put_args i as argv = Inr (take i argv @ map (Some \<circ> Some) as @ drop (i + length as) argv)"
proof (induction as arbitrary: i argv)
  case (Cons a as)
  then have i: "i < length argv" by simp
  have "put_args (Suc i) as (argv[i := Some (Some a)]) =
      Inr (take (Suc i) (argv[i := Some (Some a)]) @ map (Some \<circ> Some) as @ drop (Suc i + length as) (argv[i := Some (Some a)]))"
    using Cons.prems by (intro Cons.IH) simp
  with i show ?case by (simp add: put_slot_def list_update_take)
qed simp

lemma read_argv_unterminated: "read_argv (map (Some \<circ> Some) as) = Inl OutOfBounds"
  by (induction as) simp_all

lemma setup_subproc_runs:
  "setup_subproc env j fds = (case program_path j of Inl e \<Rightarrow> Inl e | Inr exe \<Rightarrow>
     (case build_argv env j of Inl e \<Rightarrow> Inl e | Inr argv \<Rightarrow>
       (case read_argv argv of Inl e \<Rightarrow> Inl e | Inr as \<Rightarrow> Inr (case execve_error env of
            None \<Rightarrow> Executes exe as {fd \<in> fds. fd \<le> 2 \<or> 1023 \<le> fd \<or> is_bootstrap j \<and> fd = 55}
          | Some err_no \<Rightarrow> Exited_with (- err_no),
          {fd \<in> fds. fd \<le> 2 \<or> 1023 \<le> fd \<or> is_bootstrap j \<and> fd = 55}))))"
proof -
  have "close_fds_except [if is_bootstrap j then 55 else -1] 1 fds =
      Inr (0, {fd \<in> fds. fd \<le> 2 \<or> 1023 \<le> fd \<or> is_bootstrap j \<and> fd = 55})"
    by (subst close_fds_spec) auto
  then show ?thesis by (simp add: setup_subproc_def seq_m_def)
qed

end
