(* ===== verification/XpcdManager.thy ===== *)
theory XpcdManager
  imports XpcdJob
begin

text \<open>
  \<open>xpcd/main.cc\<close>: the daemon.  What \<open>kevent\<close> answers, call after call, is a list of polls; the main
  loop is a function of it.  A list that ends means that the daemon waits in \<open>kevent\<close>.
\<close>

section \<open>Starting up\<close>

definition SIGINT :: int where "SIGINT = 2"
definition SIGTERM :: int where "SIGTERM = 15"
definition EINTR :: int where "EINTR = 4"

text \<open>The daemon returns from \<open>main\<close>, calls \<open>exit\<close>, or waits; a fault ends it too.\<close>

datatype outcome =
    Main_returns int daemon
  | Main_exits int daemon
  | Waiting daemon
  | In_job_child "fault + child_end \<times> int set"

text \<open>
  \<open>kqueue_signal\<close>: the signal is watched and ignored; \<open>None\<close> if that fails, which exits.
\<close>

definition kqueue_signal :: "bool \<Rightarrow> int \<Rightarrow> daemon \<Rightarrow> daemon option" where
  "kqueue_signal ok signo s =
     (if \<not> ok then None else Some (s\<lparr>watched := watched s @ [(signo, EVFILT_SIGNAL, H_manager)]\<rparr>))"

definition bootstrap_job :: "string \<Rightarrow> job" where
  "bootstrap_job launchctl = new_job\<lparr>label := ''com.apple.launchctl.bootstrap-sys'',
     progargs := [launchctl, ''/etc'']\<rparr>"

text \<open>The result of \<open>exec\<close> is not looked at.\<close>

definition bootstrap_sys :: "exec_env \<Rightarrow> string \<Rightarrow> daemon \<Rightarrow> exec_end" where
  "bootstrap_sys env launchctl s =
     (let s = s\<lparr>jobs := jobs s @ [bootstrap_job launchctl]\<rparr>
      in case job_exec env (length (jobs s) - 1) (last (jobs s)) s of
           In_parent _ s \<Rightarrow> In_parent 0 s
         | In_child c \<Rightarrow> In_child c)"

section \<open>The main loop\<close>

datatype poll =
    Kevent_fails
  | Kevent_none int
  | Kevents "kevent list"

definition manager_event_cb :: "int \<Rightarrow> kfilter \<Rightarrow> int \<Rightarrow> int \<Rightarrow> daemon \<Rightarrow> daemon" where
  "manager_event_cb i f ff d s =
     (if f = EVFILT_SIGNAL then
        (let s = log_msg kInfo ''Received signal %d'' [i] s
         in if i = SIGINT \<or> i = SIGTERM then s\<lparr>should_exit := True\<rparr> else s)
      else s)"

definition event_cb :: "kevent \<Rightarrow> daemon \<Rightarrow> daemon" where
  "event_cb e =
     (case udata e of
        H_manager \<Rightarrow> manager_event_cb (ident e) (kfilter e) (fflags e) (kdata e)
      | H_job i \<Rightarrow> job_event_cb (ident e) (kfilter e) (fflags e) (kdata e))"

primrec handle_all :: "kevent list \<Rightarrow> daemon \<Rightarrow> daemon" where
  "handle_all [] s = s"
| "handle_all (e # es) s = handle_all es (event_cb e s)"

definition shut_down :: "daemon \<Rightarrow> outcome" where
  "shut_down s = Main_returns 0 (log_msg kInfo ''Bootstrap Service shutting down now'' [] s)"

primrec main_loop :: "poll list \<Rightarrow> daemon \<Rightarrow> outcome" where
  "main_loop [] s = (if should_exit s then shut_down s else Waiting s)"
| "main_loop (p # ps) s =
     (if should_exit s then shut_down s
      else case p of
        Kevent_fails \<Rightarrow> Main_exits 1 (log_msg kError ''kevent failed: %m'' [] s)
      | Kevent_none err_no \<Rightarrow>
          if err_no = EINTR then main_loop ps s
          else main_loop ps (log_msg kError ''Unexpected timeout'' [] s)
      | Kevents es \<Rightarrow> main_loop ps (handle_all es s))"

text \<open>What \<open>kqueue\<close> returns, whether the signal can be watched, and the answers for the job, and
  the two strings that the build fixes.\<close>

record main_env =
  kqueue_result :: int
  kqueue_errno :: int
  signal_ok :: bool
  job_env :: exec_env
  launchctl_path :: string
  banner :: string

definition init_daemon :: "int set \<Rightarrow> daemon" where
  "init_daemon fds = \<lparr>should_exit = False, kq = 0, jobs = [], open_fds = fds, watched = [], logged = []\<rparr>"

definition manager_main :: "main_env \<Rightarrow> poll list \<Rightarrow> daemon \<Rightarrow> outcome" where
  "manager_main env polls s =
     (let s = log_msg kInfo (banner env) [] s; s = s\<lparr>kq := kqueue_result env\<rparr> in
      if kq s = -1 then
        Main_returns (kqueue_errno env)
          (log_msg kError ''Failed to create Kernel Queue: %m'' [kqueue_errno env] s)
      else
        (case kqueue_signal (signal_ok env) SIGINT s of
           None \<Rightarrow> Main_exits 1 (log_msg kError ''Failed to watch signal with kqueue'' [] s)
         | Some s \<Rightarrow>
             (case bootstrap_sys (job_env env) (launchctl_path env) s of
                In_child c \<Rightarrow> In_job_child c
              | In_parent _ s \<Rightarrow> main_loop polls s)))"

text \<open>\<open>main\<close> runs the global manager.\<close>

definition xpcd_main :: "main_env \<Rightarrow> poll list \<Rightarrow> int set \<Rightarrow> outcome" where
  "xpcd_main env polls fds = manager_main env polls (init_daemon fds)"

end
