(* ===== verification/XpcdClaims.thy ===== *)
theory XpcdClaims
  imports XpcdManager
begin

text \<open>
  The properties of the daemon: its main loop as a step relation and when it ends, and what becomes
  of the processes it starts.
\<close>

section \<open>What the handlers change\<close>

lemma log_msg_simps [simp]:
  "should_exit (log_msg l f args s) = should_exit s" "watched (log_msg l f args s) = watched s"
  "jobs (log_msg l f args s) = jobs s" "logged (log_msg l f args s) = logged s @ [(l, f, args)]"
  "open_fds (log_msg l f args s) = open_fds s"
  by (simp_all add: log_msg_def)

lemma event_cb_simps [simp]:
  "watched (event_cb e s) = watched s" "jobs (event_cb e s) = jobs s" "open_fds (event_cb e s) = open_fds s"
  by (simp_all add: event_cb_def manager_event_cb_def job_event_cb_def Let_def split: handler.split)

lemma handle_all_simps [simp]:
  "watched (handle_all es s) = watched s" "jobs (handle_all es s) = jobs s"
  "open_fds (handle_all es s) = open_fds s"
  by (induction es arbitrary: s) simp_all

text \<open>An event that makes the daemon stop.\<close>

definition stops :: "kevent \<Rightarrow> bool" where
  "stops e \<longleftrightarrow> udata e = H_manager \<and> kfilter e = EVFILT_SIGNAL \<and> (ident e = SIGINT \<or> ident e = SIGTERM)"

lemma event_cb_should_exit: "should_exit (event_cb e s) = (should_exit s \<or> stops e)"
  by (auto simp: event_cb_def stops_def manager_event_cb_def job_event_cb_def Let_def split: handler.split)

lemma handle_all_should_exit: "should_exit (handle_all es s) = (should_exit s \<or> (\<exists>e \<in> set es. stops e))"
  by (induction es arbitrary: s) (auto simp: event_cb_should_exit)

text \<open>What handling an event writes to the log.\<close>

definition report :: "kevent \<Rightarrow> log_entry list" where
  "report e =
     (case udata e of
        H_manager \<Rightarrow> if kfilter e = EVFILT_SIGNAL then [(kInfo, ''Received signal %d'', [ident e])] else []
      | H_job n \<Rightarrow> [(kError, ''Got event %d/%d'', [ident e, if kfilter e = EVFILT_SIGNAL then -6 else -5])])"

lemma event_cb_effect:
  "event_cb e s = s\<lparr>should_exit := should_exit s \<or> stops e, logged := logged s @ report e\<rparr>"
  by (auto simp: event_cb_def stops_def report_def manager_event_cb_def job_event_cb_def log_msg_def Let_def
      split: handler.split kfilter.split)

lemma handle_all_effect:
  "handle_all es s = s\<lparr>should_exit := should_exit s \<or> (\<exists>e \<in> set es. stops e), logged := logged s @ concat (map report es)\<rparr>"
  by (induction es arbitrary: s) (simp_all add: event_cb_effect disj_assoc)

section \<open>The daemon as a transition system\<close>

text \<open>
  The transitions say how each answer of \<open>kevent\<close> changes the daemon: nothing for an interrupted call,
  a log line for a timeout, and for events one line each and, if one of them is a signal that stops
  the daemon, the flag.  There is no transition for a failed \<open>kevent\<close>, and none once the daemon is to
  exit.  The kernel only delivers events of the filters that are watched, to their subscribers.
\<close>

definition delivers :: "daemon \<Rightarrow> kevent \<Rightarrow> bool" where
  "delivers s e \<longleftrightarrow> (ident e, kfilter e, udata e) \<in> set (watched s)"

inductive daemon_step :: "daemon \<Rightarrow> poll \<Rightarrow> daemon \<Rightarrow> bool" where
  interrupted: "\<not> should_exit s \<Longrightarrow> daemon_step s (Kevent_none EINTR) s"
| timeout: "\<not> should_exit s \<Longrightarrow> err_no \<noteq> EINTR \<Longrightarrow>
    daemon_step s (Kevent_none err_no) (s\<lparr>logged := logged s @ [(kError, ''Unexpected timeout'', [])]\<rparr>)"
| events: "\<not> should_exit s \<Longrightarrow> es \<noteq> [] \<Longrightarrow> length es \<le> 5 \<Longrightarrow> \<forall>e \<in> set es. delivers s e \<Longrightarrow>
    daemon_step s (Kevents es)
      (s\<lparr>should_exit := \<exists>e \<in> set es. stops e, logged := logged s @ concat (map report es)\<rparr>)"

inductive daemon_run :: "daemon \<Rightarrow> poll list \<Rightarrow> daemon \<Rightarrow> bool" where
  no_step: "daemon_run s [] s"
| a_step: "daemon_step s p t \<Longrightarrow> daemon_run t ps s' \<Longrightarrow> daemon_run s (p # ps) s'"

text \<open>A poll that the kernel may answer with in the state \<open>s\<close>.\<close>

fun possible :: "daemon \<Rightarrow> poll \<Rightarrow> bool" where
  "possible s Kevent_fails = True"
| "possible s (Kevent_none e) = True"
| "possible s (Kevents es) = (es \<noteq> [] \<and> length es \<le> 5 \<and> (\<forall>e \<in> set es. delivers s e))"

lemma possible_watched: "watched t = watched s \<Longrightarrow> possible t = possible s"
  by (intro ext) (auto elim!: possible.elims simp: delivers_def)

text \<open>One round of the loop is one transition.\<close>

lemma step_main_loop: "daemon_step s p t \<Longrightarrow> main_loop (p # ps) s = main_loop ps t \<and> watched t = watched s"
  by (induction rule: daemon_step.induct) (simp_all add: log_msg_def handle_all_effect)

lemma run_main_loop: "daemon_run s qs s' \<Longrightarrow> main_loop (qs @ rs) s = main_loop rs s'"
  by (induction rule: daemon_run.induct) (simp_all add: step_main_loop del: main_loop.simps)

lemma possible_step:
  assumes "possible s p" and "p \<noteq> Kevent_fails" and "\<not> should_exit s"
  shows "\<exists>t. daemon_step s p t"
proof (cases p)
  case (Kevent_none e)
  with assms(3) daemon_step.intros(1,2) [of s] show ?thesis by (cases "e = EINTR") auto
qed (use assms daemon_step.events [of s] in auto)

text \<open>How the loop ends when it is left with the answers \<open>rs\<close> in the state \<open>s\<close>.\<close>

definition loop_ends :: "poll list \<Rightarrow> daemon \<Rightarrow> outcome \<Rightarrow> bool" where
  "loop_ends rs s res \<longleftrightarrow>
     should_exit s \<and>
       res = Main_returns 0 (s\<lparr>logged := logged s @ [(kInfo, ''Bootstrap Service shutting down now'', [])]\<rparr>) \<or>
     \<not> should_exit s \<and> rs = [] \<and> res = Waiting s \<or>
     \<not> should_exit s \<and> (\<exists>rs'. rs = Kevent_fails # rs') \<and>
       res = Main_exits 1 (s\<lparr>logged := logged s @ [(kError, ''kevent failed: %m'', [])]\<rparr>)"

lemma loop_ends_main_loop:
  "should_exit s \<or> rs = [] \<or> (\<exists>rs'. rs = Kevent_fails # rs') \<Longrightarrow> loop_ends rs s res \<longleftrightarrow> main_loop rs s = res"
  by (cases rs) (auto simp: loop_ends_def shut_down_def log_msg_def)

text \<open>Every list of possible answers is used up to the first one that ends the loop.\<close>

lemma run_exists:
  "list_all (possible s) ps \<Longrightarrow> \<exists>qs rs s'. ps = qs @ rs \<and> daemon_run s qs s' \<and>
     (should_exit s' \<or> rs = [] \<or> (\<exists>rs'. rs = Kevent_fails # rs'))"
proof (induction ps arbitrary: s)
  case (Cons p ps)
  show ?case
  proof (cases "should_exit s \<or> p = Kevent_fails")
    case True
    then show ?thesis by (intro exI [of _ "[]"] exI [of _ "p # ps"] exI [of _ s]) (auto intro: no_step)
  next
    case False
    with possible_step [of s p] Cons.prems obtain t where t: "daemon_step s p t" by auto
    have "possible t = possible s" by (rule possible_watched) (use step_main_loop [OF t] in blast)
    then have "list_all (possible t) ps" using Cons.prems by simp
    from Cons.IH [OF this] obtain qs rs s' where "ps = qs @ rs" "daemon_run t qs s'"
      "should_exit s' \<or> rs = [] \<or> (\<exists>rs'. rs = Kevent_fails # rs')" by blast
    with a_step [OF t] show ?thesis by (intro exI [of _ "p # qs"] exI [of _ rs] exI [of _ s']) simp
  qed
qed (auto intro: no_step)

section \<open>The invariant\<close>

text \<open>Every watched filter has a subscriber that exists, the only signal watched is \<open>SIGINT\<close>, and the
  daemon is to exit only after one was received.\<close>

definition daemon_ok :: "daemon \<Rightarrow> bool" where
  "daemon_ok s \<longleftrightarrow>
     (\<forall>(i, f, h) \<in> set (watched s). (h = H_manager \<longleftrightarrow> f = EVFILT_SIGNAL) \<and> (h = H_manager \<longrightarrow> i = SIGINT) \<and>
        (\<forall>n. h = H_job n \<longrightarrow> n < length (jobs s))) \<and>
     (should_exit s \<longrightarrow> (kInfo, ''Received signal %d'', [SIGINT]) \<in> set (logged s))"

lemma delivers_stops: "daemon_ok s \<Longrightarrow> delivers s e \<Longrightarrow> stops e \<Longrightarrow> ident e = SIGINT"
  by (auto simp: daemon_ok_def delivers_def stops_def)

lemma daemon_ok_step: "daemon_step s p s' \<Longrightarrow> daemon_ok s \<Longrightarrow> daemon_ok s'"
proof (induction rule: daemon_step.induct)
  case (events s es)
  have "(kInfo, ''Received signal %d'', [SIGINT]) \<in> set (concat (map report es))" if "\<exists>e \<in> set es. stops e"
  proof -
    from that obtain e where e: "e \<in> set es" "stops e" by blast
    with events(4) delivers_stops [OF events(5)] have "ident e = SIGINT" by blast
    with e show ?thesis by (force simp: report_def stops_def)
  qed
  with events(5) show ?case by (auto simp: daemon_ok_def)
qed (auto simp: daemon_ok_def)

lemma daemon_ok_run: "daemon_run s ps s' \<Longrightarrow> daemon_ok s \<Longrightarrow> daemon_ok s'"
  by (induction rule: daemon_run.induct) (auto dest: daemon_ok_step)

text \<open>The state in which the loop starts.\<close>

definition started :: "main_env \<Rightarrow> int set \<Rightarrow> daemon \<Rightarrow> bool" where
  "started env fds s \<longleftrightarrow> (\<forall>polls. xpcd_main env polls fds = main_loop polls s)"

lemma started_ok:
  assumes "kqueue_result env \<noteq> -1" and "signal_ok env" and "fork_result (job_env env) \<noteq> 0"
  shows "\<exists>s. started env fds s \<and> daemon_ok s \<and> \<not> should_exit s"
proof -
  let ?s0 = "(log_msg kInfo (banner env) [] (init_daemon fds))\<lparr>kq := kqueue_result env\<rparr>"
  let ?s1 = "?s0\<lparr>watched := [(SIGINT, EVFILT_SIGNAL, H_manager)]\<rparr>"
  let ?s2 = "?s1\<lparr>jobs := [bootstrap_job (launchctl_path env)]\<rparr>"
  have "\<exists>r s. job_exec (job_env env) 0 (bootstrap_job (launchctl_path env)) ?s2 = In_parent r s \<and>
      daemon_ok s \<and> \<not> should_exit s"
    using assms(3) by (auto simp: job_exec_def Let_def daemon_ok_def init_daemon_def split: prod.split)
  then obtain r s where s: "job_exec (job_env env) 0 (bootstrap_job (launchctl_path env)) ?s2 = In_parent r s"
    "daemon_ok s" "\<not> should_exit s" by blast
  have "xpcd_main env polls fds = main_loop polls s" for polls
    using assms(1,2) s(1)
    by (simp add: xpcd_main_def manager_main_def kqueue_signal_def bootstrap_sys_def init_daemon_def Let_def)
  with s show ?thesis by (auto simp: started_def)
qed

section \<open>When the loop ends\<close>

definition stop_poll :: "poll \<Rightarrow> bool" where
  "stop_poll p \<longleftrightarrow> (\<exists>es. p = Kevents es \<and> (\<exists>e \<in> set es. stops e))"

lemma main_loop_stopped: "should_exit s \<Longrightarrow> main_loop ps s = shut_down s"
  by (cases ps) simp_all

lemma main_loop_stops:
  "n < length ps \<Longrightarrow> stop_poll (ps ! n) \<Longrightarrow> \<forall>i < n. ps ! i \<noteq> Kevent_fails \<Longrightarrow>
   \<exists>s'. main_loop ps s = Main_returns 0 s'"
proof (induction ps arbitrary: n s)
  case (Cons p ps)
  show ?case
  proof (cases n)
    case 0
    with Cons.prems(2) obtain es where "p = Kevents es" "\<exists>e \<in> set es. stops e" by (auto simp: stop_poll_def)
    then have "main_loop (p # ps) s = shut_down (if should_exit s then s else handle_all es s)"
      by (simp add: main_loop_stopped handle_all_should_exit)
    then show ?thesis by (simp only: shut_down_def) blast
  next
    case (Suc k)
    have "\<forall>i < k. ps ! i \<noteq> Kevent_fails" using Cons.prems(3) Suc by fastforce
    with Cons.IH [of k] Cons.prems(1,2) Suc have IH: "\<exists>s'. main_loop ps t = Main_returns 0 s'" for t by simp
    have "p \<noteq> Kevent_fails" using Cons.prems(3) Suc by fastforce
    with IH show ?thesis by (cases p) (auto simp: shut_down_def)
  qed
qed simp

lemma main_loop_returns:
  "main_loop ps s = Main_returns r s' \<Longrightarrow> should_exit s \<or>
     (\<exists>n < length ps. stop_poll (ps ! n) \<and> (\<forall>i < n. ps ! i \<noteq> Kevent_fails))"
proof (induction ps arbitrary: s)
  case (Cons p ps)
  show ?case
  proof (cases "should_exit s")
    case False
    with Cons.prems have pf: "p \<noteq> Kevent_fails" by auto
    have later: ?thesis if "main_loop ps t = Main_returns r s'" "should_exit t \<Longrightarrow> stop_poll p" for t
    proof (cases "should_exit t")
      case True
      then show ?thesis using that(2) by (intro disjI2 exI [of _ 0]) simp
    next
      case False
      with Cons.IH [OF that(1)] obtain n where "n < length ps" "stop_poll (ps ! n)"
        "\<forall>i < n. ps ! i \<noteq> Kevent_fails" by auto
      with pf show ?thesis by (intro disjI2 exI [of _ "Suc n"]) (auto simp: less_Suc_eq_0_disj)
    qed
    show ?thesis
    proof (cases p)
      case (Kevents es)
      with Cons.prems False show ?thesis
        by (intro later [of "handle_all es s"]) (auto simp: handle_all_should_exit stop_poll_def)
    next
      case (Kevent_none e)
      with Cons.prems False show ?thesis
        by (cases "e = EINTR") (intro later [of s] later [of "log_msg kError ''Unexpected timeout'' [] s"]; simp)+
    qed (use pf in simp)
  qed simp
qed (simp split: if_splits)

section \<open>Examples\<close>

definition demo_env :: main_env where
  "demo_env = \<lparr>kqueue_result = 3, kqueue_errno = 0, signal_ok = True,
     job_env = \<lparr>pipe_fds = (4, 5), fork_result = 100, kevent_result = 0, write_result = 1,
       exec_errno = 0, in_child = \<lparr>malloc_works = True, execve_error = None\<rparr>\<rparr>,
     launchctl_path = ''/bin/launchctl'', banner = ''launchd2''\<rparr>"

definition sigint_event :: kevent where
  "sigint_event = \<lparr>ident = SIGINT, kfilter = EVFILT_SIGNAL, fflags = 0, kdata = 1, udata = H_manager\<rparr>"

section \<open>Properties\<close>

text \<open>C5: Once it has started, the daemon's \<open>main\<close> returns, with 0, if and only if at some point
  \<open>kevent\<close> delivers a \<open>SIGINT\<close> or \<open>SIGTERM\<close> event to the manager and has not failed before.\<close>

theorem main_returns_iff:
  assumes "kqueue_result env \<noteq> -1" and "signal_ok env" and "fork_result (job_env env) \<noteq> 0"
  shows "(\<exists>k r s'. xpcd_main env (map p [0..<k]) fds = Main_returns r s') \<longleftrightarrow>
      (\<exists>n. stop_poll (p n) \<and> (\<forall>i < n. p i \<noteq> Kevent_fails))"
proof -
  from started_ok [OF assms] obtain s where s: "started env fds s" "\<not> should_exit s" by blast
  have run: "xpcd_main env ps fds = main_loop ps s" for ps using s(1) by (simp add: started_def)
  show ?thesis
  proof
    assume "\<exists>k r s'. xpcd_main env (map p [0..<k]) fds = Main_returns r s'"
    then obtain k r s' where "main_loop (map p [0..<k]) s = Main_returns r s'" unfolding run by blast
    from main_loop_returns [OF this] s(2) obtain n where "n < k" "stop_poll (p n)"
      "\<forall>i < n. map p [0..<k] ! i \<noteq> Kevent_fails" by auto
    then show "\<exists>n. stop_poll (p n) \<and> (\<forall>i < n. p i \<noteq> Kevent_fails)" by (intro exI [of _ n]) auto
  next
    assume "\<exists>n. stop_poll (p n) \<and> (\<forall>i < n. p i \<noteq> Kevent_fails)"
    then obtain n where n: "stop_poll (p n)" "\<forall>i < n. p i \<noteq> Kevent_fails" by blast
    have "\<exists>s'. main_loop (map p [0..<Suc n]) s = Main_returns 0 s'"
      by (rule main_loop_stops [of n]) (use n in \<open>simp_all del: upt_Suc\<close>)
    then show "\<exists>k r s'. xpcd_main env (map p [0..<k]) fds = Main_returns r s'" unfolding run by blast
  qed
qed

theorem main_returns_iff_witness:
  "(\<exists>k r s'. xpcd_main demo_env (map (\<lambda>i. if i = 2 then Kevents [sigint_event] else Kevent_none EINTR) [0..<k]) {0, 1, 2} =
      Main_returns r s') \<and>
   \<not> (\<exists>k r s'. xpcd_main demo_env (map (\<lambda>i. Kevent_none EINTR) [0..<k]) {0, 1, 2} = Main_returns r s')"
proof -
  have env: "kqueue_result demo_env \<noteq> -1" "signal_ok demo_env" "fork_result (job_env demo_env) \<noteq> 0"
    by (simp_all add: demo_env_def)
  have "stop_poll (Kevents [sigint_event])" "\<not> stop_poll (Kevent_none EINTR)"
    by (simp_all add: stop_poll_def stops_def sigint_event_def)
  then show ?thesis
    unfolding main_returns_iff [OF env] by (auto intro!: exI [of _ 2])
qed

text \<open>C15: In every state that the main loop reaches, as long as the kernel only delivers the events that
  are watched, every event that it can deliver next has a subscriber that exists, the signal events
  are \<open>SIGINT\<close>, never \<open>SIGTERM\<close>, and the daemon is only to exit after a \<open>SIGINT\<close> was received.\<close>

theorem reachable_daemon_ok:
  assumes "kqueue_result env \<noteq> -1" and "signal_ok env" and "fork_result (job_env env) \<noteq> 0"
    and "started env fds s" and "daemon_run s polls s'"
  shows "(\<forall>e n. delivers s' e \<longrightarrow> udata e = H_job n \<longrightarrow> n < length (jobs s')) \<and>
    (\<forall>e. delivers s' e \<longrightarrow> kfilter e = EVFILT_SIGNAL \<longrightarrow> udata e = H_manager \<and> ident e = SIGINT) \<and>
    (should_exit s' \<longrightarrow> (kInfo, ''Received signal %d'', [SIGINT]) \<in> set (logged s'))"
proof -
  from started_ok [OF assms(1-3), of fds] obtain s0 where s0: "started env fds s0" "daemon_ok s0" "\<not> should_exit s0"
    by blast
  have "main_loop [] s = main_loop [] s0" using assms(4) s0(1) by (simp add: started_def)
  then have "s = s0" using s0(3) by (simp add: shut_down_def split: if_splits)
  with daemon_ok_run [OF assms(5)] s0(2) have "daemon_ok s'" by simp
  then show ?thesis by (fastforce simp: daemon_ok_def delivers_def)
qed

theorem reachable_daemon_ok_witness:
  "\<exists>s s'. started demo_env {0, 1, 2} s \<and> daemon_run s [Kevent_none 0] s' \<and>
     (\<forall>e. delivers s' e \<longrightarrow> kfilter e = EVFILT_SIGNAL \<longrightarrow> ident e = SIGINT)"
proof -
  have env: "kqueue_result demo_env \<noteq> -1" "signal_ok demo_env" "fork_result (job_env demo_env) \<noteq> 0"
    by (simp_all add: demo_env_def)
  from started_ok [OF env] obtain s where s: "started demo_env {0, 1, 2} s" "\<not> should_exit s" by blast
  have "\<exists>s'. daemon_run s [Kevent_none 0] s'"
    using a_step [OF daemon_step.timeout [OF s(2), of 0] no_step] by (auto simp: EINTR_def)
  with reachable_daemon_ok [OF env s(1)] s(1) show ?thesis by blast
qed

text \<open>C32: Whatever answers the kernel may give, the main loop follows the transitions, one for each
  answer, and ends in one of three ways: it returns 0, with a last log line, as soon as the daemon
  is to exit; it ends the process with status 1 at the first answer that \<open>kevent\<close> failed; or it has
  used all answers and waits.  So an interrupted \<open>kevent\<close> that returned 0 changes nothing, and one
  that returned 0 otherwise is logged.\<close>

theorem main_loop_implements_steps:
  assumes "list_all (possible s) ps"
  shows "main_loop ps s = res \<longleftrightarrow>
    (\<exists>qs rs s'. ps = qs @ rs \<and> daemon_run s qs s' \<and> loop_ends rs s' res)"
proof
  assume res: "main_loop ps s = res"
  from run_exists [OF assms] obtain qs rs s' where r: "ps = qs @ rs" "daemon_run s qs s'"
    and e: "should_exit s' \<or> rs = [] \<or> (\<exists>rs'. rs = Kevent_fails # rs')" by blast
  have "main_loop rs s' = res" using run_main_loop [OF r(2)] r(1) res by simp
  with loop_ends_main_loop [OF e] r show "\<exists>qs rs s'. ps = qs @ rs \<and> daemon_run s qs s' \<and> loop_ends rs s' res"
    by blast
next
  assume "\<exists>qs rs s'. ps = qs @ rs \<and> daemon_run s qs s' \<and> loop_ends rs s' res"
  then obtain qs rs s' where r: "ps = qs @ rs" "daemon_run s qs s'" "loop_ends rs s' res" by blast
  then have "should_exit s' \<or> rs = [] \<or> (\<exists>rs'. rs = Kevent_fails # rs')" by (auto simp: loop_ends_def)
  from loop_ends_main_loop [OF this, of res] r run_main_loop [OF r(2)] show "main_loop ps s = res" by simp
qed

theorem main_loop_implements_steps_witness:
  "\<exists>s s'. started demo_env {0, 1, 2} s \<and> daemon_run s [Kevent_none EINTR, Kevent_none 0] s' \<and>
     main_loop [Kevent_none EINTR, Kevent_none 0, Kevent_fails] s =
       Main_exits 1 (s'\<lparr>logged := logged s' @ [(kError, ''kevent failed: %m'', [])]\<rparr>) \<and>
     logged s' = logged s @ [(kError, ''Unexpected timeout'', [])]"
proof -
  have env: "kqueue_result demo_env \<noteq> -1" "signal_ok demo_env" "fork_result (job_env demo_env) \<noteq> 0"
    by (simp_all add: demo_env_def)
  from started_ok [OF env] obtain s where s: "started demo_env {0, 1, 2} s" "\<not> should_exit s" by blast
  let ?t = "s\<lparr>logged := logged s @ [(kError, ''Unexpected timeout'', [])]\<rparr>"
  have run: "daemon_run s [Kevent_none EINTR, Kevent_none 0] ?t"
    by (rule a_step [OF daemon_step.interrupted [OF s(2)] a_step [OF daemon_step.timeout [OF s(2)] no_step]])
      (simp add: EINTR_def)
  have "main_loop [Kevent_none EINTR, Kevent_none 0, Kevent_fails] s =
      Main_exits 1 (?t\<lparr>logged := logged ?t @ [(kError, ''kevent failed: %m'', [])]\<rparr>)"
    by (rule main_loop_implements_steps [THEN iffD2], simp)
      (intro exI [of _ "[Kevent_none EINTR, Kevent_none 0]"] exI [of _ "[Kevent_fails]"] exI [of _ ?t] conjI run;
        simp add: loop_ends_def s(2))
  with run s show ?thesis by (intro exI [of _ s] exI [of _ ?t]) simp
qed

text \<open>C14: The child process of a job never gets to run the job's program: \<open>setup_subproc\<close> writes past its
  argument block if the job has no arguments, and hands \<open>execve\<close> a block without the terminating
  NULL if it has some.  If there is no memory for the block, it ends in an assertion instead.\<close>

theorem setup_subproc_never_launches:
  "setup_subproc env j fds = Inl
     (if malloc_works env \<or> progargs j = [] \<and> program j = None then OutOfBounds else AssertFails)"
proof (cases "progargs j")
  case Nil
  then show ?thesis
    by (cases "program j") (simp_all add: setup_subproc_runs program_path_def build_argv_def put_slot_def)
next
  case (Cons a as)
  have "put_args 0 (progargs j) (replicate (length (progargs j)) None) = Inr (map (Some \<circ> Some) (progargs j))"
    using put_args_spec [of 0 "progargs j" "replicate (length (progargs j)) None"] by simp
  moreover have "\<exists>exe. program_path j = Inr exe" using Cons by (cases "program j") (simp_all add: program_path_def)
  ultimately show ?thesis
    using Cons read_argv_unterminated [of "progargs j"]
    by (cases "malloc_works env") (auto simp: setup_subproc_runs build_argv_def Let_def)
qed

text \<open>\<open>exec\<close> in the parent, that is whenever \<open>fork\<close> did not return 0: if the exit filter can be attached
  it is watched for the job, the child is woken and both ends of the pipe are closed; otherwise the
  error is returned and both ends stay open.  That \<open>fork\<close> failed is not noticed: -1 is attached and
  reported as a launched job.\<close>

theorem job_exec_parent:
  assumes "fork_result env \<noteq> 0" and "- 1 \<le> fork_result env" and "pipe_fds env = (r, w)"
  shows "\<exists>s'. job_exec env n j s = In_parent (if kevent_result env = -1 then - exec_errno env else 0) s' \<and>
    jobs s' = jobs s \<and> should_exit s' = should_exit s \<and>
    (if kevent_result env = -1
     then watched s' = watched s \<and> open_fds s' = open_fds s \<union> {r, w}
     else watched s' = watched s @ [(fork_result env, EVFILT_PROC, H_job n)] \<and>
       open_fds s' = open_fds s - {r, w} \<and> last (logged s') = (kInfo, ''Launched job'', []))"
  using assms by (auto simp: job_exec_def Let_def)

text \<open>A \<open>fork\<close> that fails.\<close>

theorem job_exec_parent_witness:
  "\<exists>s'. job_exec (job_env demo_env\<lparr>fork_result := -1\<rparr>) 0 new_job (init_daemon {0, 1, 2}) = In_parent 0 s' \<and>
     watched s' = [(-1, EVFILT_PROC, H_job 0)] \<and> last (logged s') = (kInfo, ''Launched job'', [])"
proof -
  from job_exec_parent [of "job_env demo_env\<lparr>fork_result := -1\<rparr>" 4 5 0 new_job "init_daemon {0, 1, 2}"]
  show ?thesis by (auto simp: demo_env_def init_daemon_def)
qed

end
