(* ===== verification/Spec2Isabelle.thy ===== *)
theory Spec2Isabelle
  imports SbufClaims SbufDebug TailQueueClaims QueueClaims XpcInvariant XpcArrayClaims XpcDictClaims XpcRelease
    XpcCopy XpcDestroy RefCount XpcDescribeClaims XpcUuid XpcMach XpcDbusClaims ProcUtil LogFmt XpcdClaims
begin

text \<open>
  A model of OpenXPC and the proofs of what it does: the string buffers of \<open>src/libsbuf\<close>, the XPC
  objects, arrays, dictionaries, their descriptions, the D-Bus transport and the small utilities of
  \<open>src/libOpenXPC\<close>, and the daemon of \<open>src/xpcd\<close>.

  \<^bold>\<open>The program and its parts.\<close>  A program that uses the library creates objects (\<open>xpc_type.c\<close>),
  collects them in arrays (\<open>xpc_array.c\<close>) and dictionaries (\<open>xpc_dictionary.c\<close>), which link them by
  the TAILQ macros of \<open>compat_queue.h\<close>, retains and releases them (\<open>xpc_misc.c\<close>), copies, hashes
  (\<open>xpc_type.c\<close>) and prints them (\<open>xpc_misc.c\<close>, through an \<open>sbuf\<close> of \<open>sbuf.c\<close>), and sends them over
  D-Bus (\<open>xpc_dbus.c\<close>).  Errors are logged (\<open>log.c\<close>).  The daemon \<open>xpcd\<close> starts a job in a subprocess,
  closing descriptors with \<open>procutil.c\<close>, and then handles the events of a kernel queue until it is
  interrupted.

  \<^bold>\<open>How C is modelled\<close> (\<open>XpcPrelude\<close>).  An operation is a function from the state to a fault or a
  result with the new state; the faults are the undefined behaviours the source can reach: NULL and
  dangling pointers, a queue head that is not there, the wrong union member, a wrong \<open>free\<close>, an access outside a buffer, a failing
  assertion, and a loop that does not end.  Integers have the width of the source; \<open>int\<close> is a
  mathematical integer with its bounds written out where the code depends on them.  Recursive
  operations and loops over links take fuel, and running out of it is the fault \<open>Diverges\<close>.

  \<^bold>\<open>String buffers.\<close>  \<open>Sbuf\<close> has the struct as a record and every function of \<open>sbuf.c\<close>; whether \<open>calloc\<close>
  answers is a function of the call, a format is given by the text it expands to, the drain is a
  function that may change what its argument points to.  \<open>SbufSpec\<close> states well-formedness and the
  contracts as locales of sinks for bytes, \<open>SbufProps\<close> and \<open>SbufRuns\<close> prove them for
  every operation and for sequences of operations, \<open>SbufClaims\<close> derives the properties: safety of
  runs whose formatted pieces are shorter than 4096 bytes and whose strings are terminated, what is stored, truncated, drained, padded and trimmed.  \<open>SbufDebug\<close> is the \<open>DEBUG\<close> build,
  whose assertions (\<open>debug.h\<close>) print and go on: it agrees with the plain build and reports exactly the
  calls that break a rule of the interface.

  \<^bold>\<open>Tail queues.\<close>  \<open>TailQueue\<close> has the macros, assignment by assignment, on a memory of heads and
  entries; \<open>TailQueueRep\<close> refines them to lists (\<open>tq_rep\<close>) and shows that they meet the contracts
  of \<open>QueueContract\<close>, locales of a growing queue, of a first-in first-out queue and of a stack; the
  rules for loops over links are in \<open>Links\<close>; \<open>TailQueueClaims\<close> has the properties.

  \<^bold>\<open>The other queues of \<open>compat_queue.h\<close>.\<close>  \<open>SlistQueue\<close> has the \<open>SLIST\<close> macros, a stack;
  \<open>SimpleQueue\<close> the \<open>SIMPLEQ\<close> and \<open>STAILQ\<close> macros, which are shown to be the same operations, and
  \<open>SimpleQueueRep\<close> their refinement to lists, as a first-in first-out queue and as a stack.
  \<open>ListQueue\<close> has the \<open>LIST\<close> macros and shows that each does what the tail queue's macro does to a
  memory whose heads have lost their tail pointers (\<open>forget\<close>), so that its refinement to lists is
  inherited.  \<open>QueueDebug\<close> adds the checks of a \<open>QUEUEDEBUG\<close> build: a check that fails ends the
  program, a removed entry is poisoned with the address 1.  \<open>QueueClaims\<close> has the properties: removal
  anywhere, order, the tail pointer, agreement of the two builds on well-formed queues, empty or not,
  and what they do when an entry is removed twice.

  \<^bold>\<open>Objects.\<close>  \<open>XpcMem\<close> is the memory: objects, dictionary pairs, links, strings and blocks at
  addresses that an allocator hands out; \<open>XpcType\<close>, \<open>XpcArray\<close>, \<open>XpcDict\<close> and \<open>XpcObject\<close> have the
  operations of the files of these names, in their order.  \<open>XpcKeeps\<close> has the locale of the relations
  that operations keep and proves that every operation keeps the memory in order (\<open>mem_ok\<close>,
  \<open>mem_step\<close>) and, in such a memory, reads no union member but the one that the object's type names;
  \<open>XpcInvariant\<close> that every memory reached from one that a program starts with (\<open>initial\<close>, any strings
  and blocks) is in order, so that the interface is type sound; the scalar members of the union, which
  share their bytes in C, are one constructor, so that reading one for another gives the bytes.  \<open>XpcArraySpec\<close> shows the arrays to be
  growing queues and \<open>XpcDictSpec\<close> the dictionaries to be maps with string keys, by interpretations;
  \<open>XpcArrayClaims\<close> and \<open>XpcDictClaims\<close> have the properties.  \<open>XpcValue\<close> defines the values that
  objects represent (\<open>val_at\<close>); \<open>XpcTraverse\<close> the traversals that only read; \<open>XpcHash\<close> the hash of a
  value; \<open>XpcTree\<close> the tree of objects below an object (\<open>obj_tree\<close>); \<open>XpcBuild\<close> how values are built out of
  new objects (\<open>built\<close>), in a tree with one owner, whether any object built is lost, and how many
  buffers were made for strings and blocks, which nothing ever frees; \<open>XpcRelease\<close> is about
  reference counts, static objects and hashes, \<open>XpcCopy\<close> about copies, \<open>XpcDestroy\<close> about what
  destruction frees: the objects and pairs of the tree below the object released, so that the objects
  that are copied or received and then released are gone again, and their strings and blocks remain.
  \<open>RefCount\<close> lets threads that share an object interleave their atomic additions to its count, as a step
  relation, and shows by an invariant that it is destroyed once, after the last reference is gone.  \<open>XpcDescribe\<close>,
  \<open>XpcDescribeSpec\<close> and \<open>XpcDescribeClaims\<close> are the printing of values, its text and its properties.
  \<open>XpcUuid\<close> is about the UUIDs of a build with \<open>HAVE_uuid\<close>, \<open>XpcMach\<close> has the ports in dictionaries of a
  build with \<open>MACH\<close>; the rest of the model is the same in all builds.

  \<^bold>\<open>D-Bus.\<close>  \<open>XpcDbus\<close> has the serialisation and deserialisation of objects, \<open>XpcConnection\<close> the
  connections.  libdbus is a record of functions, \<open>dbus_writer\<close>, \<open>dbus_reader\<close> and \<open>dbus_lib\<close>; its
  documented behaviour is stated by \<open>writer_ok fds lim\<close> (\<open>XpcDbusSpec\<close>): an iterator shows the stack of
  open containers and accepts a lawful value (booleans 0 or 1, strings in UTF-8, descriptors in \<open>fds\<close>,
  the open ones) of the type the innermost one takes, as long as the message stays below the size
  \<open>lim\<close> and 64 nested containers; by \<open>reader_ok\<close> (\<open>XpcDbusRead\<close>): an iterator shows the values
  before it, with duplicates of the descriptors (\<open>redup\<close>), and can be entered at containers only;
  and by \<open>messages_ok\<close> (\<open>XpcDbusClaims\<close>).  \<open>list_writer\<close>, \<open>list_reader\<close> and \<open>list_lib\<close> meet them.
  The properties are what is written, that it is typed as announced, the round trip, sending, and
  running out of memory.  They are about values without blocks of data (\<open>sendable\<close>, \<open>deliverable\<close>):
  for these the code does not follow the rules of libdbus.

  \<^bold>\<open>Utilities and the daemon.\<close>  \<open>LogFmt\<close> models \<open>log.c\<close> and the macros of \<open>log.h\<close> on character arrays, \<open>ProcUtil\<close>
  \<open>close_fds_except\<close> and \<open>ldr_close_internal\<close> on the set of open descriptors.  \<open>XpcdJob\<close> is
  \<open>job.cc\<close>: \<open>exec\<close> in the parent and \<open>setup_subproc\<close> in the child.  \<open>XpcdManager\<close> is \<open>main.cc\<close>: the
  start and the main loop as a function of what \<open>kevent\<close> answers.  \<open>XpcdClaims\<close> relates the loop to
  a step relation with one kind of transition for each answer, with an invariant of its reachable
  states, and says when and how it ends.

  \<^bold>\<open>Fuel.\<close>  Loops inside the library run with \<open>walk_fuel\<close>, one more than the number of addresses handed
  out: a chain without a cycle is shorter.  Recursive operations on a value take fuel from the
  caller; \<open>need v\<close>, more than the depth and the lengths in \<open>v\<close>, is enough, and \<open>2 * need v\<close> for
  reading from a message, where the end of each container takes a step.  \<open>sbuf_printf\<close> gets 2 in
  \<open>XpcDescribe\<close>: the second round always succeeds or gives up.  The properties state that this
  much fuel gives a result.

  \<^bold>\<open>Not modelled.\<close>  Of the code compiled with \<open>MACH\<close>: \<open>ld2xpc\<close> (\<open>xpc_misc.c\<close>), whose table of types is
  an array of bytes that is initialised with addresses, so that it does not compile, and
  \<open>xpc_dictionary_copy_mach_send\<close> and \<open>xpc_data_create_with_dispatch_data\<close>, which have no body.  The code
  under \<open>#if 0\<close>.  Concurrency other than that of reference counts: the
  code has no locks around its collections.  The log lines of the transport, which do not influence it.
  Members of the classes of \<open>xpcd\<close> that nothing reads.  \<open>xpcctl\<close>, an Objective-C program.  libdbus, \<open>vsnprintf\<close>, \<open>strerror\<close> and the system calls
  are parameters.
\<close>

end
